(* ===== verification/J1939_Prelude.thy ===== *)
theory J1939_Prelude
  imports Main "HOL-Library.Word" "HOL-Library.Monad_Syntax"
begin

text \<open>
  What every component of the model shares: the machine integers of the Rust code as words,
  the checked and saturating operations the code uses on them, byte order, slices of fixed
  buffers, and two interfaces stated as locales: a wire format (encode, decode, round trip) and
  a machine that consumes events (a step that never panics and keeps an invariant).

  A Rust operation that may panic (an out-of-range slice, an integer overflow in a build with
  overflow checks) has a result of type \<open>'a option\<close>, where \<open>None\<close> is the panic. A Rust
  \<open>Result\<close> is a sum, with \<open>Inl\<close> for the error.
\<close>

unbundle bit_operations_syntax

type_synonym u8 = "8 word"
type_synonym u16 = "16 word"
type_synonym u32 = "32 word"
type_synonym u64 = "64 word"
type_synonym bytes = "8 word list"

named_theorems wire_simps \<open>definitions of the wire formats, unfolded to bytes\<close>
named_theorems guard_simps \<open>definitions of the guards and checks of the code\<close>

section \<open>Words bit by bit\<close>

text \<open>
  Two words are equal when their bits are. With the list of bit positions spelled out, the
  simplifier decides an equation between shifts, masks and casts of variables.
\<close>

lemma word_eq_bits:
  "(x :: 'a::len word) = y \<longleftrightarrow> list_all (\<lambda>n. bit x n \<longleftrightarrow> bit y n) [0..<LENGTH('a)]"
  by (auto simp: list_all_iff intro: bit_word_eqI)

lemma upt_8: "[0..<8] = [0,1,2,3,4,5,6,7::nat]"
  by (simp add: upt_rec)

lemma upt_16: "[0..<16] = [0,1,2,3,4,5,6,7,8,9,10,11,12,13,14,15::nat]"
  by (simp add: upt_rec)

lemma upt_32:
  "[0..<32] = [0,1,2,3,4,5,6,7,8,9,10,11,12,13,14,15,
     16,17,18,19,20,21,22,23,24,25,26,27,28,29,30,31::nat]"
  by (simp add: upt_rec)

lemma upt_64:
  "[0..<64] = [0,1,2,3,4,5,6,7,8,9,10,11,12,13,14,15,
     16,17,18,19,20,21,22,23,24,25,26,27,28,29,30,31,
     32,33,34,35,36,37,38,39,40,41,42,43,44,45,46,47,
     48,49,50,51,52,53,54,55,56,57,58,59,60,61,62,63::nat]"
  by (simp add: upt_rec)

lemma bit_over: "LENGTH('a::len) \<le> n \<Longrightarrow> \<not> bit (x :: 'a word) n"
  using bit_imp_le_length by fastforce

lemmas word_bits = word_eq_bits upt_8 upt_16 upt_32 upt_64 bit_simps bit_over

text \<open>A word below a power of two has no bit above it.\<close>

lemma not_bit_of_less_pow:
  assumes "unat (x :: 'a::len word) < 2 ^ k" and "k \<le> n"
  shows "\<not> bit x n"
proof -
  have "(2::nat) ^ k \<le> 2 ^ n" using assms(2) by (rule power_increasing) simp
  with assms(1) have "unat x < 2 ^ n" by (rule order_less_le_trans)
  then have "\<not> bit (unat x) n" by (simp add: bit_iff_odd)
  then show ?thesis by (simp add: bit_unsigned_iff)
qed

text \<open>Values of the fixed-width types as natural numbers.\<close>

lemma unat_u8_lt: "unat (x :: u8) < 256"
  using unsigned_less [of x, where 'a = nat] by simp

lemma unat_u16_lt: "unat (x :: u16) < 65536"
  using unsigned_less [of x, where 'a = nat] by simp

lemma unat_u32_lt: "unat (x :: u32) < 4294967296"
  using unsigned_less [of x, where 'a = nat] by simp

lemma unat_word_of_nat: "n < 2 ^ LENGTH('a) \<Longrightarrow> unat (word_of_nat n :: 'a::len word) = n"
  by (simp add: unsigned_of_nat take_bit_nat_eq_self)

lemma unat_drop_bit: "unat (drop_bit k (x :: 'a::len word)) = unat x div 2 ^ k"
  by (subst unat_drop_bit_eq) (rule drop_bit_eq_div)

lemma unat_take_bit: "unat (take_bit k (x :: 'a::len word)) = unat x mod 2 ^ k"
  by (subst unsigned_take_bit_eq) (rule take_bit_eq_mod)

lemma unat_ucast_widen:
  assumes "LENGTH('a) \<le> LENGTH('b)"
  shows "unat (ucast (x :: 'a::len word) :: 'b::len word) = unat x"
proof -
  have "unat x < 2 ^ LENGTH('a)" by (rule unsigned_less)
  also have "\<dots> \<le> (2 :: nat) ^ LENGTH('b)" using assms by (intro power_increasing) simp_all
  finally show ?thesis by (simp add: unsigned_ucast_eq take_bit_nat_eq_self)
qed

lemma ucast_word_of_unat: "(ucast (x :: 'a::len word) :: 'b::len word) = word_of_nat (unat x)"
  by simp

lemma unat_u8_of_nat: "n < 256 \<Longrightarrow> unat (word_of_nat n :: u8) = n"
  by (simp add: unat_word_of_nat)

lemmas unat_iffs = word_unat_eq_iff word_less_nat_alt word_le_nat_alt

section \<open>Checked, saturating and truncating arithmetic\<close>

definition checked_add :: "'a::len word \<Rightarrow> 'a word \<Rightarrow> 'a word option" where
  "checked_add a b = (if unat a + unat b < 2 ^ LENGTH('a) then Some (a + b) else None)"

definition checked_sub :: "'a::len word \<Rightarrow> 'a word \<Rightarrow> 'a word option" where
  "checked_sub a b = (if b \<le> a then Some (a - b) else None)"

definition checked_mul :: "'a::len word \<Rightarrow> 'a word \<Rightarrow> 'a word option" where
  "checked_mul a b = (if unat a * unat b < 2 ^ LENGTH('a) then Some (a * b) else None)"

definition checked_usize_sub :: "nat \<Rightarrow> nat \<Rightarrow> nat option" where
  "checked_usize_sub a b = (if b \<le> a then Some (a - b) else None)"

definition saturating_add :: "'a::len word \<Rightarrow> 'a word \<Rightarrow> 'a word" where
  "saturating_add a b = (if unat a + unat b < 2 ^ LENGTH('a) then a + b else - 1)"

definition saturating_sub :: "'a::len word \<Rightarrow> 'a word \<Rightarrow> 'a word" where
  "saturating_sub a b = (if b \<le> a then a - b else 0)"

definition div_ceil :: "nat \<Rightarrow> nat \<Rightarrow> nat" where
  "div_ceil a b = (a + b - 1) div b"

lemma unat_add_no_wrap:
  "unat a + unat b < 2 ^ LENGTH('a) \<Longrightarrow> unat (a + b :: 'a::len word) = unat a + unat b"
  by (simp add: unat_word_ariths)

lemma checked_add_Some: "checked_add a b = Some c \<Longrightarrow> unat c = unat a + unat b"
  by (auto simp: checked_add_def unat_add_no_wrap split: if_splits)

lemma checked_add_defined:
  "unat (a :: 'a::len word) + unat b < 2 ^ LENGTH('a) \<Longrightarrow> checked_add a b = Some (a + b)"
  by (simp add: checked_add_def)

lemma checked_sub_defined: "b \<le> a \<Longrightarrow> checked_sub a b = Some (a - b)"
  by (simp add: checked_sub_def)

lemma unat_sub_no_wrap: "b \<le> a \<Longrightarrow> unat (a - b :: 'a::len word) = unat a - unat b"
  by (simp add: unat_sub)

lemma unat_saturating_add:
  "unat (saturating_add a b :: 'a::len word) = min (unat a + unat b) (2 ^ LENGTH('a) - 1)"
proof (cases "unat a + unat b < 2 ^ LENGTH('a)")
  case True
  then show ?thesis by (simp add: saturating_add_def unat_add_no_wrap)
next
  case False
  moreover have "unat (- 1 :: 'a word) = 2 ^ LENGTH('a) - 1"
    by (simp add: unsigned_minus_1_eq_mask mask_eq_exp_minus_1)
  ultimately show ?thesis by (simp add: saturating_add_def)
qed

lemma unat_saturating_sub: "unat (saturating_sub a b :: 'a::len word) = unat a - unat b"
  by (auto simp: saturating_sub_def unat_sub word_le_nat_alt)

lemma div_ceil_bounds:
  assumes "0 < b"
  shows "a \<le> div_ceil a b * b" and "0 < a \<Longrightarrow> (div_ceil a b - 1) * b < a"
proof -
  have e: "(a + b - 1) div b * b + (a + b - 1) mod b = a + b - 1" by simp
  have m: "(a + b - 1) mod b < b" using assms by simp
  from e m show "a \<le> div_ceil a b * b" unfolding div_ceil_def by linarith
  assume "0 < a"
  then have "(a + b - 1) div b * b < a + b" using e assms by linarith
  then show "(div_ceil a b - 1) * b < a"
    using \<open>0 < a\<close> unfolding div_ceil_def diff_mult_distrib by linarith
qed

section \<open>Little-endian bytes\<close>

definition byte_at :: "nat \<Rightarrow> 'a::len word \<Rightarrow> u8" where
  "byte_at k x = ucast (drop_bit (8 * k) x)"

definition u16_of :: "u8 \<Rightarrow> u8 \<Rightarrow> u16" where
  "u16_of a b = ucast a OR push_bit 8 (ucast b)"

definition u32_of3 :: "u8 \<Rightarrow> u8 \<Rightarrow> u8 \<Rightarrow> u32" where
  "u32_of3 a b c = ucast a OR push_bit 8 (ucast b) OR push_bit 16 (ucast c)"

definition u32_of4 :: "u8 \<Rightarrow> u8 \<Rightarrow> u8 \<Rightarrow> u8 \<Rightarrow> u32" where
  "u32_of4 a b c d = ucast a OR push_bit 8 (ucast b) OR push_bit 16 (ucast c) OR push_bit 24 (ucast d)"

lemma u16_of_bytes [simp]: "u16_of (byte_at 0 x) (byte_at (Suc 0) x) = x"
  by (simp add: u16_of_def byte_at_def word_bits)

lemma bytes_of_u16 [simp]: "byte_at 0 (u16_of a b) = a" "byte_at (Suc 0) (u16_of a b) = b"
  by (simp_all add: u16_of_def byte_at_def word_bits)

lemma u32_of3_bytes: "u32_of3 (byte_at 0 x) (byte_at (Suc 0) x) (byte_at 2 x) = x AND 0xFFFFFF"
  by (simp add: u32_of3_def byte_at_def word_bits)

lemma bytes_of_u32_of3 [simp]:
  "byte_at 0 (u32_of3 a b c) = a" "byte_at (Suc 0) (u32_of3 a b c) = b" "byte_at 2 (u32_of3 a b c) = c"
  by (simp_all add: u32_of3_def byte_at_def word_bits)

lemma u32_of4_bytes [simp]:
  "u32_of4 (byte_at 0 x) (byte_at (Suc 0) x) (byte_at 2 x) (byte_at 3 x) = x"
  by (simp add: u32_of4_def byte_at_def word_bits)

lemma bytes_of_u32_of4 [simp]:
  "byte_at 0 (u32_of4 a b c d) = a" "byte_at (Suc 0) (u32_of4 a b c d) = b"
  "byte_at 2 (u32_of4 a b c d) = c" "byte_at 3 (u32_of4 a b c d) = d"
  by (simp_all add: u32_of4_def byte_at_def word_bits)

lemma mask24_id:
  assumes "unat (x :: u32) < 2 ^ 24"
  shows "x AND 0xFFFFFF = x"
proof -
  have "\<forall>n. 24 \<le> n \<longrightarrow> \<not> bit x n" using not_bit_of_less_pow [OF assms] by blast
  then show ?thesis by (simp add: word_bits)
qed

text \<open>The fixed eight-byte payload of a classic CAN frame.\<close>

lemma length_8_cases:
  assumes "length xs = 8"
  obtains a b c d e f g h where "xs = [a, b, c, d, e, f, g, h]"
  using assms by (auto simp: numeral_eq_Suc length_Suc_conv)

section \<open>Buffers and slices\<close>

text \<open>
  \<open>out[start..start + n].copy_from_slice(src)\<close>: panics unless the range lies in the buffer
  and the lengths agree.
\<close>

definition write_slice :: "nat \<Rightarrow> 'a list \<Rightarrow> 'a list \<Rightarrow> 'a list" where
  "write_slice start src buf = take start buf @ src @ drop (start + length src) buf"

definition copy_from_slice :: "nat \<Rightarrow> nat \<Rightarrow> 'a list \<Rightarrow> 'a list \<Rightarrow> 'a list option" where
  "copy_from_slice start stop src buf =
     (if start \<le> stop \<and> stop \<le> length buf \<and> length src = stop - start
      then Some (write_slice start src buf) else None)"

definition slice :: "nat \<Rightarrow> nat \<Rightarrow> 'a list \<Rightarrow> 'a list option" where
  "slice start stop xs =
     (if start \<le> stop \<and> stop \<le> length xs then Some (take (stop - start) (drop start xs)) else None)"

lemma length_write_slice [simp]:
  "start + length src \<le> length buf \<Longrightarrow> length (write_slice start src buf) = length buf"
  by (simp add: write_slice_def)

lemma take_write_slice:
  "start + length src \<le> length buf \<Longrightarrow>
     take (start + length src) (write_slice start src buf) = take start buf @ src"
  by (simp add: write_slice_def)

text \<open>A packet of seven bytes written at its place in a message of size \<open>z\<close>.\<close>

lemma take_packet_bytes:
  assumes "off < z" and "z \<le> length b" and "length d = 7"
  defines "stop \<equiv> min (off + 7) z"
  defines "buf \<equiv> write_slice off (take (stop - off) d) b"
  shows "slice 0 (stop - off) d = Some (take (stop - off) d)"
    and "copy_from_slice off stop (take (stop - off) d) b = Some buf"
    and "length buf = length b" and "take stop buf = take z (take off b @ d)"
proof -
  have stop: "off \<le> stop" "stop \<le> length b" "stop - off \<le> 7" using assms by (auto simp: stop_def)
  then show "slice 0 (stop - off) d = Some (take (stop - off) d)"
    using assms(3) by (simp add: slice_def)
  show "copy_from_slice off stop (take (stop - off) d) b = Some buf"
    using stop assms(3) by (simp add: copy_from_slice_def buf_def)
  have e: "off + length (take (stop - off) d) = stop" using stop assms(3) by simp
  with stop(2) show "length buf = length b" unfolding buf_def by simp
  have "take stop buf = take off b @ take (stop - off) d"
    using take_write_slice [of off "take (stop - off) d" b] e stop(2) by (simp add: buf_def)
  also have "take (stop - off) d = take (z - off) d"
    using assms(3) by (cases "off + 7 \<le> z") (auto simp: stop_def)
  finally show "take stop buf = take z (take off b @ d)" using assms(1,2) by simp
qed

text \<open>Indexing and \<open>copy_within\<close>, with the bounds checks of the code.\<close>

definition at_index :: "'a list \<Rightarrow> nat \<Rightarrow> 'a option" where
  "at_index xs i = (if i < length xs then Some (xs ! i) else None)"

definition set_index :: "nat \<Rightarrow> 'a \<Rightarrow> 'a list \<Rightarrow> 'a list option" where
  "set_index i v xs = (if i < length xs then Some (xs[i := v]) else None)"

definition copy_within :: "nat \<Rightarrow> nat \<Rightarrow> nat \<Rightarrow> 'a list \<Rightarrow> 'a list option" where
  "copy_within start stop target xs =
     (if start \<le> stop \<and> stop \<le> length xs \<and> target + (stop - start) \<le> length xs
      then Some (write_slice target (take (stop - start) (drop start xs)) xs) else None)"

text \<open>Closing the gap at an index is removing it from the used part.\<close>

lemma copy_within_remove:
  assumes "i < n" and "n \<le> length xs"
  shows "\<exists>ys. copy_within (i + 1) n i xs = Some ys \<and> length ys = length xs \<and>
    take (n - 1) ys = take i xs @ drop (i + 1) (take n xs)"
proof -
  let ?mid = "take (n - (i + 1)) (drop (i + 1) xs)"
  have len: "length ?mid = n - (i + 1)" using assms by simp
  have "take (n - 1) (write_slice i ?mid xs) = take i xs @ ?mid"
    using take_write_slice [of i ?mid xs] assms len by simp
  moreover have "?mid = drop (i + 1) (take n xs)" by (simp add: drop_take)
  ultimately show ?thesis using assms len by (simp add: copy_within_def)
qed

lemma option_eqI: "(\<And>x. a = Some x \<longleftrightarrow> b = Some x) \<Longrightarrow> a = b"
  by (cases a; cases b) auto

text \<open>The index of the first element that satisfies a predicate: \<open>Iterator::position\<close>.\<close>

fun position :: "('a \<Rightarrow> bool) \<Rightarrow> 'a list \<Rightarrow> nat option" where
  "position p [] = None"
| "position p (x # xs) = (if p x then Some 0 else map_option Suc (position p xs))"

lemma position_Some:
  "position p xs = Some i \<Longrightarrow> i < length xs \<and> p (xs ! i) \<and> (\<forall>j<i. \<not> p (xs ! j))"
proof (induction xs arbitrary: i)
  case Nil
  then show ?case by simp
next
  case (Cons x xs)
  then show ?case
    by (cases i) (auto split: if_splits simp: less_Suc_eq_0_disj)
qed

lemma position_None: "position p xs = None \<longleftrightarrow> (\<forall>x \<in> set xs. \<not> p x)"
  by (induction xs) auto

lemma position_ex: "x \<in> set xs \<Longrightarrow> p x \<Longrightarrow> \<exists>i. position p xs = Some i"
  using position_None [of p xs] by (cases "position p xs") auto

lemma position_eqI:
  assumes "i < length xs" and "p (xs ! i)" and "\<And>j. j < i \<Longrightarrow> \<not> p (xs ! j)"
  shows "position p xs = Some i"
proof -
  obtain k where k: "position p xs = Some k"
    using position_ex [of "xs ! i" xs p] assms(1,2) by auto
  from position_Some [OF k] assms(2,3) have "\<not> k < i" and "\<not> i < k" by auto
  with k show ?thesis by simp
qed

text \<open>In a list whose elements have distinct keys, an index stands for its key.\<close>

lemma position_distinct:
  assumes "distinct (map f xs)" and "position (\<lambda>x. f x = k) xs = Some i"
  shows "take i xs @ drop (Suc i) xs = filter (\<lambda>x. f x \<noteq> k) xs" and "List.find (\<lambda>x. f x = k) xs = Some (xs ! i)"
proof -
  from position_Some [OF assms(2)] have i: "i < length xs" "f (xs ! i) = k" "\<And>j. j < i \<Longrightarrow> f (xs ! j) \<noteq> k" by auto
  have split: "xs = take i xs @ xs ! i # drop (Suc i) xs" using i(1) by (rule id_take_nth_drop)
  have l: "x \<in> set (take i xs) \<Longrightarrow> f x \<noteq> k" for x
    using i(3) by (metis in_set_conv_nth length_take min_less_iff_conj nth_take)
  have r: "f x \<noteq> k" if "x \<in> set (drop (Suc i) xs)" for x
  proof -
    from that obtain j where j: "Suc i + j < length xs" "x = xs ! (Suc i + j)"
      by (force simp: in_set_conv_nth less_diff_conv add.commute)
    with assms(1) i(1,2) show ?thesis by (auto simp: distinct_conv_nth)
  qed
  have "filter (\<lambda>x. f x \<noteq> k) xs = filter (\<lambda>x. f x \<noteq> k) (take i xs @ xs ! i # drop (Suc i) xs)"
    using split by simp
  also have "\<dots> = take i xs @ drop (Suc i) xs" using l r i(2) by (simp add: filter_True)
  finally show "take i xs @ drop (Suc i) xs = filter (\<lambda>x. f x \<noteq> k) xs" ..
  show "List.find (\<lambda>x. f x = k) xs = Some (xs ! i)" using i by (auto simp: find_Some_iff)
qed

lemma position_None_find: "position P xs = None \<longleftrightarrow> List.find P xs = None"
  by (auto simp: position_None find_None_iff)

lemma distinct_key_update:
  assumes "distinct (map f xs)" and "i < length xs"
  shows "xs[i := g (xs ! i)] = map (\<lambda>x. if f x = f (xs ! i) then g x else x) xs"
proof (rule nth_equalityI)
  fix j assume "j < length (xs[i := g (xs ! i)])"
  then show "xs[i := g (xs ! i)] ! j = map (\<lambda>x. if f x = f (xs ! i) then g x else x) xs ! j"
    using assms by (auto simp: nth_list_update distinct_conv_nth)
qed simp

section \<open>Interfaces\<close>

text \<open>
  A wire format: what is encoded has a fixed length and decodes to itself. The values that the
  format can represent are \<open>valid\<close>.
\<close>

locale wire_format =
  fixes encode :: "'a \<Rightarrow> bytes"
    and decode :: "bytes \<Rightarrow> 'e + 'a"
    and valid :: "'a \<Rightarrow> bool"
    and len :: nat
  assumes encode_length: "valid x \<Longrightarrow> length (encode x) = len"
    and decode_encode: "valid x \<Longrightarrow> decode (encode x) = Inr x"
begin

lemma encode_inj: "valid x \<Longrightarrow> valid y \<Longrightarrow> encode x = encode y \<Longrightarrow> x = y"
  by (metis decode_encode sum.inject(2))

lemma encode_inj_on: "inj_on encode {x. valid x}"
  by (rule inj_onI) (auto intro: encode_inj)

lemma decode_list: "list_all valid xs \<Longrightarrow> map (decode \<circ> encode) xs = map Inr xs"
  by (induction xs) (auto simp: decode_encode)

end

text \<open>
  A code of a few bits packed in a byte with other fields: an enumeration read from the bits of a
  mask. What is read is written back as those bits, and the other bits do not matter.
\<close>

locale packed_code =
  fixes to_raw :: "'a \<Rightarrow> u8"
    and of_raw :: "u8 \<Rightarrow> 'a"
    and mask :: u8
  assumes to_of: "to_raw (of_raw x) = x AND mask"
    and of_masked: "of_raw (x AND mask) = of_raw x"
begin

lemma same_bits: "x AND mask = y AND mask \<Longrightarrow> of_raw x = of_raw y"
  by (metis of_masked)

lemma read_back: "of_raw (to_raw (of_raw x)) = of_raw x"
  by (simp add: to_of of_masked)

lemma written_bits: "x AND mask = to_raw v AND mask \<Longrightarrow> of_raw (to_raw v) = v \<Longrightarrow> of_raw x = v"
  by (metis of_masked)

lemma inj_on_range: "inj_on to_raw (range of_raw)"
  by (rule inj_on_inverseI [of _ of_raw]) (auto simp: read_back)

end

text \<open>
  A machine that consumes events. A step that would panic is \<open>None\<close>; the machine is safe when
  no step from a state of the invariant panics and every step keeps it.
\<close>

fun run_machine :: "('e \<Rightarrow> 's \<Rightarrow> ('o \<times> 's) option) \<Rightarrow> 'e list \<Rightarrow> 's \<Rightarrow> ('o list \<times> 's) option" where
  "run_machine step [] s = Some ([], s)"
| "run_machine step (e # es) s =
     do { (out, s1) \<leftarrow> step e s;
          (outs, s2) \<leftarrow> run_machine step es s1;
          Some (out # outs, s2) }"

lemma run_machine_append:
  "run_machine step (es @ fs) s =
     do { (o1, s1) \<leftarrow> run_machine step es s;
          (o2, s2) \<leftarrow> run_machine step fs s1;
          Some (o1 @ o2, s2) }"
  by (induction es arbitrary: s) (auto split: Option.bind_splits)

lemma run_machine_length: "run_machine step es s = Some (outs, s') \<Longrightarrow> length outs = length es"
  by (induction es arbitrary: s outs) (auto split: Option.bind_splits)

locale safe_machine =
  fixes step :: "'e \<Rightarrow> 's \<Rightarrow> ('o \<times> 's) option"
    and inv :: "'s \<Rightarrow> bool"
    and admissible :: "'e \<Rightarrow> bool"
  assumes step_safe: "inv s \<Longrightarrow> admissible e \<Longrightarrow> \<exists>out s'. step e s = Some (out, s') \<and> inv s'"
begin

lemma run_safe:
  "inv s \<Longrightarrow> list_all admissible es \<Longrightarrow>
     \<exists>outs s'. run_machine step es s = Some (outs, s') \<and> inv s' \<and> length outs = length es"
proof (induction es arbitrary: s)
  case Nil
  then show ?case by simp
next
  case (Cons e es)
  from Cons.prems step_safe obtain out s1 where s1: "step e s = Some (out, s1)" "inv s1"
    by (metis list.pred_inject(2))
  with Cons.IH [of s1] Cons.prems(2) show ?case by auto
qed

lemma run_inv: "inv s \<Longrightarrow> list_all admissible es \<Longrightarrow> run_machine step es s = Some (outs, s') \<Longrightarrow> inv s'"
  using run_safe by fastforce

lemma run_total: "inv s \<Longrightarrow> list_all admissible es \<Longrightarrow> run_machine step es s \<noteq> None"
  using run_safe by fastforce

end

text \<open>
  A machine that implements a total specification: every step answers as the specification does on
  the view of the state. Such a machine is safe, and so are its runs the runs of the specification.
\<close>

fun run_spec :: "('e \<Rightarrow> 'a \<Rightarrow> 'o \<times> 'a) \<Rightarrow> 'e list \<Rightarrow> 'a \<Rightarrow> 'o list \<times> 'a" where
  "run_spec spec [] a = ([], a)"
| "run_spec spec (e # es) a =
     (let (out, a1) = spec e a; (outs, a2) = run_spec spec es a1 in (out # outs, a2))"

locale refined_machine =
  fixes step :: "'e \<Rightarrow> 's \<Rightarrow> ('o \<times> 's) option"
    and inv :: "'s \<Rightarrow> bool"
    and admissible :: "'e \<Rightarrow> bool"
    and abstraction :: "'s \<Rightarrow> 'a"
    and spec :: "'e \<Rightarrow> 'a \<Rightarrow> 'o \<times> 'a"
  assumes step_refines: "inv s \<Longrightarrow> admissible e \<Longrightarrow>
    \<exists>out s'. step e s = Some (out, s') \<and> inv s' \<and> spec e (abstraction s) = (out, abstraction s')"
begin

lemma run_refines:
  "inv s \<Longrightarrow> list_all admissible es \<Longrightarrow>
     \<exists>outs s'. run_machine step es s = Some (outs, s') \<and> inv s' \<and>
       run_spec spec es (abstraction s) = (outs, abstraction s')"
proof (induction es arbitrary: s)
  case Nil
  then show ?case by simp
next
  case (Cons e es)
  from Cons.prems step_refines obtain out s1 where
    s1: "step e s = Some (out, s1)" "inv s1" "spec e (abstraction s) = (out, abstraction s1)"
    by (metis list.pred_inject(2))
  from Cons.IH [OF s1(2)] Cons.prems(2) obtain outs s2 where
    "run_machine step es s1 = Some (outs, s2)" "inv s2" "run_spec spec es (abstraction s1) = (outs, abstraction s2)"
    by auto
  with s1 show ?case by simp
qed

end

sublocale refined_machine \<subseteq> safe_machine step inv admissible
  by unfold_locales (metis step_refines)

text \<open>
  A safe machine that keeps one view per peer: an event concerns some peers, and the views of the
  others stay as they are.
\<close>

locale peer_machine = safe_machine step inv admissible
  for step :: "'e \<Rightarrow> 's \<Rightarrow> ('o \<times> 's) option" and inv :: "'s \<Rightarrow> bool" and admissible :: "'e \<Rightarrow> bool" +
  fixes view :: "'s \<Rightarrow> 'k \<Rightarrow> 'v"
    and concerns :: "'e \<Rightarrow> 'k \<Rightarrow> bool"
  assumes isolated: "inv s \<Longrightarrow> admissible e \<Longrightarrow> step e s = Some (out, s') \<Longrightarrow> \<not> concerns e k \<Longrightarrow>
    view s' k = view s k"
begin

lemma run_isolated:
  "inv s \<Longrightarrow> list_all admissible es \<Longrightarrow> list_all (\<lambda>e. \<not> concerns e k) es \<Longrightarrow>
     run_machine step es s = Some (outs, s') \<Longrightarrow> view s' k = view s k"
proof (induction es arbitrary: s outs)
  case Nil
  then show ?case by simp
next
  case (Cons e es)
  from Cons.prems step_safe obtain out s1 where s1: "step e s = Some (out, s1)" "inv s1"
    by (metis list.pred_inject(2))
  with Cons.prems obtain outs1 where r: "run_machine step es s1 = Some (outs1, s')"
    by (auto split: Option.bind_splits)
  have "view s1 k = view s k" using isolated [OF _ _ s1(1)] Cons.prems by simp
  with Cons.IH [OF s1(2) _ _ r] Cons.prems show ?case by simp
qed

end

end
