(* ===== verification/J1939_Types.thy ===== *)
theory J1939_Types
  imports J1939_Prelude
begin

text \<open>
  The value types of \<^verbatim>\<open>core/src/types.rs\<close>: the error type of the codecs, node addresses and
  message priorities, with the derived orders as instances of \<open>linorder\<close>.
\<close>

section \<open>Errors\<close>

datatype j1939_error =
    InvalidId u32
  | InvalidPgn u32
  | InvalidPriority u8
  | DestinationMismatch
  | ShortPayload nat nat
  | InvalidMessageSize u16
  | UnknownControlByte u8
  | InvalidDtc
  | ValueOutOfRange string u32

type_synonym 'a j1939_result = "j1939_error + 'a"

section \<open>Addresses\<close>

datatype address = Address u8

primrec Address_as_u8 :: "address \<Rightarrow> u8" where
  "Address_as_u8 (Address a) = a"

definition Address_NULL :: address where
  "Address_NULL = Address 0xFE"

definition Address_GLOBAL :: address where
  "Address_GLOBAL = Address 0xFF"

definition Address_is_specific :: "address \<Rightarrow> bool" where
  "Address_is_specific a = (Address_as_u8 a < 0xFE)"

definition Address_is_broadcast :: "address \<Rightarrow> bool" where
  "Address_is_broadcast a = (Address_as_u8 a = Address_as_u8 Address_GLOBAL)"

definition Address_is_null :: "address \<Rightarrow> bool" where
  "Address_is_null a = (Address_as_u8 a = Address_as_u8 Address_NULL)"

instantiation address :: linorder
begin

definition less_eq_address :: "address \<Rightarrow> address \<Rightarrow> bool" where
  "less_eq_address a b = (Address_as_u8 a \<le> Address_as_u8 b)"

definition less_address :: "address \<Rightarrow> address \<Rightarrow> bool" where
  "less_address a b = (Address_as_u8 a < Address_as_u8 b)"

instance
  by standard
    (auto simp: less_eq_address_def less_address_def less_le_not_le,
     metis address.exhaust Address_as_u8.simps antisym)

end

lemma Address_eqI: "Address_as_u8 a = Address_as_u8 b \<Longrightarrow> a = b"
  by (cases a; cases b) simp

lemma Address_as_u8_eq_iff [simp]: "Address_as_u8 a = Address_as_u8 b \<longleftrightarrow> a = b"
  using Address_eqI by auto

lemma Address_collapse [simp]: "Address (Address_as_u8 a) = a"
  by (cases a) simp

lemma is_broadcast_iff [guard_simps]: "Address_is_broadcast a \<longleftrightarrow> a = Address_GLOBAL"
  by (simp add: Address_is_broadcast_def)

lemma is_null_iff [guard_simps]: "Address_is_null a \<longleftrightarrow> a = Address_NULL"
  by (simp add: Address_is_null_def)

lemma NULL_not_specific [simp]: "\<not> Address_is_specific Address_NULL"
  by (simp add: Address_is_specific_def Address_NULL_def)

lemma GLOBAL_not_specific [simp]: "\<not> Address_is_specific Address_GLOBAL"
  by (simp add: Address_is_specific_def Address_GLOBAL_def)

lemma NULL_neq_GLOBAL [simp]: "Address_NULL \<noteq> Address_GLOBAL" "Address_GLOBAL \<noteq> Address_NULL"
  by (simp_all add: Address_NULL_def Address_GLOBAL_def)

text \<open>Every address is a specific one, the null address or the global one.\<close>

lemma address_kinds:
  "Address_is_specific a \<or> a = Address_NULL \<or> a = Address_GLOBAL"
proof (cases a)
  case (Address x)
  have "x < 0xFE \<or> x = 0xFE \<or> x = 0xFF"
  proof -
    have "unat x < 254 \<or> unat x = 254 \<or> unat x = 255" using unat_u8_lt [of x] by linarith
    then show ?thesis by (simp add: unat_iffs)
  qed
  with Address show ?thesis
    by (simp add: Address_is_specific_def Address_NULL_def Address_GLOBAL_def)
qed

section \<open>Priorities\<close>

datatype priority = Priority u8

primrec Priority_as_u8 :: "priority \<Rightarrow> u8" where
  "Priority_as_u8 (Priority p) = p"

definition Priority_HIGHEST :: priority where
  "Priority_HIGHEST = Priority 0"

definition Priority_DEFAULT :: priority where
  "Priority_DEFAULT = Priority 6"

definition Priority_LOWEST :: priority where
  "Priority_LOWEST = Priority 7"

definition Priority_CONTROL :: priority where
  "Priority_CONTROL = Priority 3"

definition Priority_new :: "u8 \<Rightarrow> priority j1939_result" where
  "Priority_new p = (if p > 7 then Inl (InvalidPriority p) else Inr (Priority p))"

definition Priority_new_saturating :: "u8 \<Rightarrow> priority" where
  "Priority_new_saturating p = (if p > 7 then Priority_LOWEST else Priority p)"

text \<open>
  The tuple field of \<^verbatim>\<open>Priority\<close> is private, so every priority the program can hold came out of
  one of these constructors and fits three bits.
\<close>

definition Priority_ok :: "priority \<Rightarrow> bool" where
  "Priority_ok p = (Priority_as_u8 p \<le> 7)"

lemma Priority_new_ok: "Priority_new p = Inr q \<Longrightarrow> Priority_ok q \<and> Priority_as_u8 q = p"
  by (auto simp: Priority_new_def Priority_ok_def split: if_splits)

lemma Priority_saturating_ok [simp]: "Priority_ok (Priority_new_saturating p)"
  by (auto simp: Priority_new_saturating_def Priority_LOWEST_def Priority_ok_def)

lemma Priority_consts_ok [simp]:
  "Priority_ok Priority_HIGHEST" "Priority_ok Priority_DEFAULT"
  "Priority_ok Priority_LOWEST" "Priority_ok Priority_CONTROL"
  by (simp_all add: Priority_ok_def Priority_HIGHEST_def Priority_DEFAULT_def
      Priority_LOWEST_def Priority_CONTROL_def)

instantiation priority :: linorder
begin

definition less_eq_priority :: "priority \<Rightarrow> priority \<Rightarrow> bool" where
  "less_eq_priority a b = (Priority_as_u8 a \<le> Priority_as_u8 b)"

definition less_priority :: "priority \<Rightarrow> priority \<Rightarrow> bool" where
  "less_priority a b = (Priority_as_u8 a < Priority_as_u8 b)"

instance
  by standard
    (auto simp: less_eq_priority_def less_priority_def less_le_not_le,
     metis priority.exhaust Priority_as_u8.simps antisym)

end

end
