(* ===== verification/Pgn.thy ===== *)
theory Pgn
  imports J1939_Types
begin

text \<open>
  Parameter group numbers, \<^verbatim>\<open>core/src/pgn.rs\<close>: the 18-bit number, its PDU1/PDU2 split, its
  normal form (a PDU1 number has a zero low byte) and the well-known groups the stack uses.
\<close>

section \<open>The number and its fields\<close>

datatype pgn = Pgn u32

primrec Pgn_as_u32 :: "pgn \<Rightarrow> u32" where
  "Pgn_as_u32 (Pgn raw) = raw"

definition Pgn_MAX :: u32 where
  "Pgn_MAX = 0x3FFFF"

definition PDU2_FORMAT_MIN :: u8 where
  "PDU2_FORMAT_MIN = 0xF0"

definition normalise :: "u32 \<Rightarrow> u32" where
  "normalise raw = (if ucast (drop_bit 8 raw) < PDU2_FORMAT_MIN then raw AND 0x3FF00 else raw)"

definition Pgn_new :: "u32 \<Rightarrow> pgn j1939_result" where
  "Pgn_new raw = (if raw > Pgn_MAX then Inl (InvalidPgn raw) else Inr (Pgn (normalise raw)))"

definition Pgn_new_masked :: "u32 \<Rightarrow> pgn" where
  "Pgn_new_masked raw = Pgn (normalise (raw AND Pgn_MAX))"

definition Pgn_extended_data_page :: "pgn \<Rightarrow> bool" where
  "Pgn_extended_data_page p = (drop_bit 17 (Pgn_as_u32 p) AND 1 = 1)"

definition Pgn_data_page :: "pgn \<Rightarrow> bool" where
  "Pgn_data_page p = (drop_bit 16 (Pgn_as_u32 p) AND 1 = 1)"

definition Pgn_pdu_format :: "pgn \<Rightarrow> u8" where
  "Pgn_pdu_format p = ucast (drop_bit 8 (Pgn_as_u32 p))"

definition Pgn_is_pdu1 :: "pgn \<Rightarrow> bool" where
  "Pgn_is_pdu1 p = (Pgn_pdu_format p < PDU2_FORMAT_MIN)"

definition Pgn_is_pdu2 :: "pgn \<Rightarrow> bool" where
  "Pgn_is_pdu2 p = (\<not> Pgn_is_pdu1 p)"

definition Pgn_group_extension :: "pgn \<Rightarrow> u8 option" where
  "Pgn_group_extension p = (if Pgn_is_pdu2 p then Some (ucast (Pgn_as_u32 p)) else None)"

instantiation pgn :: linorder
begin

definition less_eq_pgn :: "pgn \<Rightarrow> pgn \<Rightarrow> bool" where
  "less_eq_pgn a b = (Pgn_as_u32 a \<le> Pgn_as_u32 b)"

definition less_pgn :: "pgn \<Rightarrow> pgn \<Rightarrow> bool" where
  "less_pgn a b = (Pgn_as_u32 a < Pgn_as_u32 b)"

instance
  by standard
    (auto simp: less_eq_pgn_def less_pgn_def less_le_not_le, metis pgn.exhaust Pgn_as_u32.simps antisym)

end

section \<open>Well-known groups\<close>

definition PGN_REQUEST :: pgn where "PGN_REQUEST = Pgn_new_masked 0x00EA00"
definition PGN_ACKNOWLEDGEMENT :: pgn where "PGN_ACKNOWLEDGEMENT = Pgn_new_masked 0x00E800"
definition PGN_TP_CM :: pgn where "PGN_TP_CM = Pgn_new_masked 0x00EC00"
definition PGN_TP_DT :: pgn where "PGN_TP_DT = Pgn_new_masked 0x00EB00"
definition PGN_ETP_CM :: pgn where "PGN_ETP_CM = Pgn_new_masked 0x00C800"
definition PGN_ETP_DT :: pgn where "PGN_ETP_DT = Pgn_new_masked 0x00C700"
definition PGN_ADDRESS_CLAIMED :: pgn where "PGN_ADDRESS_CLAIMED = Pgn_new_masked 0x00EE00"
definition PGN_COMMANDED_ADDRESS :: pgn where "PGN_COMMANDED_ADDRESS = Pgn_new_masked 0x00FED8"
definition PGN_PROPRIETARY_A :: pgn where "PGN_PROPRIETARY_A = Pgn_new_masked 0x00EF00"
definition PGN_PROPRIETARY_B_START :: pgn where "PGN_PROPRIETARY_B_START = Pgn_new_masked 0x00FF00"
definition PGN_PROPRIETARY_B_END :: pgn where "PGN_PROPRIETARY_B_END = Pgn_new_masked 0x00FFFF"
definition PGN_PROPRIETARY_B2_START :: pgn where "PGN_PROPRIETARY_B2_START = Pgn_new_masked 0x01FF00"
definition PGN_PROPRIETARY_B2_END :: pgn where "PGN_PROPRIETARY_B2_END = Pgn_new_masked 0x01FFFF"
definition PGN_DM1 :: pgn where "PGN_DM1 = Pgn_new_masked 0x00FECA"
definition PGN_DM2 :: pgn where "PGN_DM2 = Pgn_new_masked 0x00FECB"
definition PGN_DM3 :: pgn where "PGN_DM3 = Pgn_new_masked 0x00FECC"
definition PGN_DM4 :: pgn where "PGN_DM4 = Pgn_new_masked 0x00FECD"
definition PGN_DM5 :: pgn where "PGN_DM5 = Pgn_new_masked 0x00FECE"
definition PGN_DM6 :: pgn where "PGN_DM6 = Pgn_new_masked 0x00FECF"
definition PGN_DM11 :: pgn where "PGN_DM11 = Pgn_new_masked 0x00FED3"
definition PGN_DM12 :: pgn where "PGN_DM12 = Pgn_new_masked 0x00FED4"
definition PGN_DM13 :: pgn where "PGN_DM13 = Pgn_new_masked 0x00DF00"
definition PGN_DM23 :: pgn where "PGN_DM23 = Pgn_new_masked 0x00FDB5"
definition PGN_DM27 :: pgn where "PGN_DM27 = Pgn_new_masked 0x00FD82"
definition PGN_DM14 :: pgn where "PGN_DM14 = Pgn_new_masked 0x00D900"
definition PGN_DM15 :: pgn where "PGN_DM15 = Pgn_new_masked 0x00D800"
definition PGN_DM16 :: pgn where "PGN_DM16 = Pgn_new_masked 0x00D700"
definition PGN_SOFTWARE_IDENTIFICATION :: pgn where "PGN_SOFTWARE_IDENTIFICATION = Pgn_new_masked 0x00FEDA"
definition PGN_ECU_IDENTIFICATION :: pgn where "PGN_ECU_IDENTIFICATION = Pgn_new_masked 0x00FDC5"
definition PGN_COMPONENT_IDENTIFICATION :: pgn where "PGN_COMPONENT_IDENTIFICATION = Pgn_new_masked 0x00FEEB"
definition PGN_EEC1 :: pgn where "PGN_EEC1 = Pgn_new_masked 0x00F004"
definition PGN_EEC2 :: pgn where "PGN_EEC2 = Pgn_new_masked 0x00F003"
definition PGN_ENGINE_TEMPERATURE_1 :: pgn where "PGN_ENGINE_TEMPERATURE_1 = Pgn_new_masked 0x00FEEE"
definition PGN_ENGINE_FLUID_LEVEL_PRESSURE_1 :: pgn where "PGN_ENGINE_FLUID_LEVEL_PRESSURE_1 = Pgn_new_masked 0x00FEEF"
definition PGN_FUEL_ECONOMY :: pgn where "PGN_FUEL_ECONOMY = Pgn_new_masked 0x00FEF2"
definition PGN_CRUISE_CONTROL_VEHICLE_SPEED :: pgn where "PGN_CRUISE_CONTROL_VEHICLE_SPEED = Pgn_new_masked 0x00FEF1"
definition PGN_VEHICLE_ELECTRICAL_POWER :: pgn where "PGN_VEHICLE_ELECTRICAL_POWER = Pgn_new_masked 0x00FEF7"

definition Pgn_is_proprietary_b :: "pgn \<Rightarrow> bool" where
  "Pgn_is_proprietary_b p =
     (let raw = Pgn_as_u32 p in
        (raw \<ge> Pgn_as_u32 PGN_PROPRIETARY_B_START \<and> raw \<le> Pgn_as_u32 PGN_PROPRIETARY_B_END) \<or>
        (raw \<ge> Pgn_as_u32 PGN_PROPRIETARY_B2_START \<and> raw \<le> Pgn_as_u32 PGN_PROPRIETARY_B2_END))"

text \<open>The values of the named groups: every constant is already in normal form.\<close>

lemmas pgn_const_defs =
  PGN_REQUEST_def PGN_ACKNOWLEDGEMENT_def PGN_TP_CM_def PGN_TP_DT_def PGN_ETP_CM_def PGN_ETP_DT_def
  PGN_ADDRESS_CLAIMED_def PGN_COMMANDED_ADDRESS_def PGN_PROPRIETARY_A_def PGN_PROPRIETARY_B_START_def
  PGN_PROPRIETARY_B_END_def PGN_PROPRIETARY_B2_START_def PGN_PROPRIETARY_B2_END_def PGN_DM1_def
  PGN_DM2_def PGN_DM3_def PGN_DM4_def PGN_DM5_def PGN_DM6_def PGN_DM11_def PGN_DM12_def PGN_DM13_def
  PGN_DM23_def PGN_DM27_def PGN_DM14_def PGN_DM15_def PGN_DM16_def PGN_SOFTWARE_IDENTIFICATION_def
  PGN_ECU_IDENTIFICATION_def PGN_COMPONENT_IDENTIFICATION_def PGN_EEC1_def PGN_EEC2_def
  PGN_ENGINE_TEMPERATURE_1_def PGN_ENGINE_FLUID_LEVEL_PRESSURE_1_def PGN_FUEL_ECONOMY_def
  PGN_CRUISE_CONTROL_VEHICLE_SPEED_def PGN_VEHICLE_ELECTRICAL_POWER_def

lemmas pgn_eval = pgn_const_defs Pgn_new_masked_def Pgn_MAX_def normalise_def PDU2_FORMAT_MIN_def

section \<open>Normal form\<close>

text \<open>
  The field of \<^verbatim>\<open>Pgn\<close> is private and every constructor normalises, so every \<^verbatim>\<open>Pgn\<close> of the
  program is in normal form: 18 bits, and no PDU-specific byte for a PDU1 group.
\<close>

definition Pgn_ok :: "pgn \<Rightarrow> bool" where
  "Pgn_ok p = (Pgn_as_u32 p \<le> Pgn_MAX \<and> normalise (Pgn_as_u32 p) = Pgn_as_u32 p)"

lemma Pgn_eqI: "Pgn_as_u32 a = Pgn_as_u32 b \<Longrightarrow> a = b"
  by (cases a; cases b) simp

lemma Pgn_collapse [simp]: "Pgn (Pgn_as_u32 p) = p"
  by (cases p) simp

lemma le_MAX_bits: "raw \<le> Pgn_MAX \<Longrightarrow> 18 \<le> n \<Longrightarrow> \<not> bit raw n"
  by (rule not_bit_of_less_pow [where k = 18]) (simp_all add: Pgn_MAX_def unat_iffs)

lemma and_MAX_id: "raw \<le> Pgn_MAX \<Longrightarrow> raw AND Pgn_MAX = raw"
  using le_MAX_bits [of raw] by (simp add: Pgn_MAX_def word_bits)

lemma and_MAX_le: "raw AND Pgn_MAX \<le> Pgn_MAX"
  by (rule word_and_le1)

lemma pdu_format_and_MAX: "ucast (drop_bit 8 (raw AND 0x3FF00 :: u32)) = (ucast (drop_bit 8 raw) :: u8)"
  by (simp add: word_bits)

lemma normalise_le: "raw \<le> Pgn_MAX \<Longrightarrow> normalise raw \<le> Pgn_MAX"
  by (auto simp: normalise_def intro: order_trans [OF word_and_le2])

lemma normalise_idem: "normalise (normalise raw) = normalise raw"
  by (simp add: normalise_def pdu_format_and_MAX)

lemma Pgn_new_masked_ok [simp, intro]: "Pgn_ok (Pgn_new_masked raw)"
  by (simp add: Pgn_ok_def Pgn_new_masked_def normalise_idem normalise_le and_MAX_le)

lemma Pgn_consts_ok [simp]:
  "Pgn_ok PGN_REQUEST" "Pgn_ok PGN_ACKNOWLEDGEMENT" "Pgn_ok PGN_TP_CM" "Pgn_ok PGN_TP_DT"
  "Pgn_ok PGN_ETP_CM" "Pgn_ok PGN_ETP_DT" "Pgn_ok PGN_ADDRESS_CLAIMED" "Pgn_ok PGN_COMMANDED_ADDRESS"
  "Pgn_ok PGN_DM1" "Pgn_ok PGN_DM2" "Pgn_ok PGN_DM3" "Pgn_ok PGN_DM5" "Pgn_ok PGN_DM11" "Pgn_ok PGN_DM13"
  "Pgn_ok PGN_PROPRIETARY_A"
  by (simp_all add: pgn_const_defs)

lemma pgn_pdu1 [simp]:
  "Pgn_is_pdu1 PGN_REQUEST" "Pgn_is_pdu1 PGN_TP_CM" "Pgn_is_pdu1 PGN_TP_DT" "Pgn_is_pdu1 PGN_ETP_CM"
  "Pgn_is_pdu1 PGN_ETP_DT" "Pgn_is_pdu1 PGN_ADDRESS_CLAIMED" "Pgn_is_pdu1 PGN_ACKNOWLEDGEMENT"
  by (simp_all add: pgn_eval Pgn_is_pdu1_def Pgn_pdu_format_def)

text \<open>The groups that network management and the transport protocol listen to are distinct.\<close>

lemma dispatched_pgns:
  "distinct [PGN_REQUEST, PGN_TP_CM, PGN_TP_DT, PGN_ETP_CM, PGN_ETP_DT, PGN_ADDRESS_CLAIMED, PGN_COMMANDED_ADDRESS]"
  by (simp add: pgn_eval)

lemma dispatched_neq [simp]:
  "PGN_REQUEST \<noteq> PGN_TP_CM" "PGN_REQUEST \<noteq> PGN_TP_DT" "PGN_REQUEST \<noteq> PGN_ETP_CM"
  "PGN_REQUEST \<noteq> PGN_ETP_DT" "PGN_REQUEST \<noteq> PGN_ADDRESS_CLAIMED" "PGN_REQUEST \<noteq> PGN_COMMANDED_ADDRESS"
  "PGN_TP_CM \<noteq> PGN_REQUEST" "PGN_TP_CM \<noteq> PGN_TP_DT" "PGN_TP_CM \<noteq> PGN_ETP_CM"
  "PGN_TP_CM \<noteq> PGN_ETP_DT" "PGN_TP_CM \<noteq> PGN_ADDRESS_CLAIMED" "PGN_TP_CM \<noteq> PGN_COMMANDED_ADDRESS"
  "PGN_TP_DT \<noteq> PGN_REQUEST" "PGN_TP_DT \<noteq> PGN_TP_CM" "PGN_TP_DT \<noteq> PGN_ETP_CM"
  "PGN_TP_DT \<noteq> PGN_ETP_DT" "PGN_TP_DT \<noteq> PGN_ADDRESS_CLAIMED" "PGN_TP_DT \<noteq> PGN_COMMANDED_ADDRESS"
  "PGN_ETP_CM \<noteq> PGN_REQUEST" "PGN_ETP_CM \<noteq> PGN_TP_CM" "PGN_ETP_CM \<noteq> PGN_TP_DT"
  "PGN_ETP_CM \<noteq> PGN_ETP_DT" "PGN_ETP_CM \<noteq> PGN_ADDRESS_CLAIMED" "PGN_ETP_CM \<noteq> PGN_COMMANDED_ADDRESS"
  "PGN_ETP_DT \<noteq> PGN_REQUEST" "PGN_ETP_DT \<noteq> PGN_TP_CM" "PGN_ETP_DT \<noteq> PGN_TP_DT"
  "PGN_ETP_DT \<noteq> PGN_ETP_CM" "PGN_ETP_DT \<noteq> PGN_ADDRESS_CLAIMED" "PGN_ETP_DT \<noteq> PGN_COMMANDED_ADDRESS"
  "PGN_ADDRESS_CLAIMED \<noteq> PGN_REQUEST" "PGN_ADDRESS_CLAIMED \<noteq> PGN_TP_CM" "PGN_ADDRESS_CLAIMED \<noteq> PGN_TP_DT"
  "PGN_ADDRESS_CLAIMED \<noteq> PGN_ETP_CM" "PGN_ADDRESS_CLAIMED \<noteq> PGN_ETP_DT" "PGN_ADDRESS_CLAIMED \<noteq> PGN_COMMANDED_ADDRESS"
  "PGN_COMMANDED_ADDRESS \<noteq> PGN_REQUEST" "PGN_COMMANDED_ADDRESS \<noteq> PGN_TP_CM" "PGN_COMMANDED_ADDRESS \<noteq> PGN_TP_DT"
  "PGN_COMMANDED_ADDRESS \<noteq> PGN_ETP_CM" "PGN_COMMANDED_ADDRESS \<noteq> PGN_ETP_DT" "PGN_COMMANDED_ADDRESS \<noteq> PGN_ADDRESS_CLAIMED"
 
  using dispatched_pgns by auto

lemma Pgn_new_ok: "Pgn_new raw = Inr p \<Longrightarrow> Pgn_ok p"
  by (auto simp: Pgn_new_def Pgn_ok_def normalise_idem normalise_le split: if_splits)

lemma Pgn_new_masked_of_ok: "Pgn_ok p \<Longrightarrow> Pgn_new_masked (Pgn_as_u32 p) = p"
  by (simp add: Pgn_new_masked_def Pgn_ok_def and_MAX_id)

lemma Pgn_ok_lt: "Pgn_ok p \<Longrightarrow> unat (Pgn_as_u32 p) < 2 ^ 18"
  by (simp add: Pgn_ok_def Pgn_MAX_def unat_iffs)

lemma Pgn_ok_high_bits: "Pgn_ok p \<Longrightarrow> 18 \<le> n \<Longrightarrow> \<not> bit (Pgn_as_u32 p) n"
  by (simp add: Pgn_ok_def le_MAX_bits)

lemma Pgn_ok_low_bits:
  assumes "Pgn_ok p" and "Pgn_is_pdu1 p" and "n < 8"
  shows "\<not> bit (Pgn_as_u32 p) n"
proof -
  from assms(1,2) have "Pgn_as_u32 p AND 0x3FF00 = Pgn_as_u32 p"
    by (simp add: Pgn_ok_def Pgn_is_pdu1_def Pgn_pdu_format_def normalise_def)
  then have "bit (Pgn_as_u32 p) n \<longleftrightarrow> bit (Pgn_as_u32 p AND 0x3FF00) n" by simp
  moreover have "n \<in> {0,1,2,3,4,5,6,7}" using assms(3) by auto
  ultimately show ?thesis by (auto simp: bit_simps)
qed

section \<open>Three bytes on the wire\<close>

text \<open>The layout every group that names another uses: the number in three bytes, low byte first.\<close>

definition Pgn_of_bytes :: "u8 \<Rightarrow> u8 \<Rightarrow> u8 \<Rightarrow> pgn" where
  "Pgn_of_bytes a b c = Pgn_new_masked (u32_of3 a b c)"

lemma Pgn_of_bytes_ok [simp]: "Pgn_ok (Pgn_of_bytes a b c)"
  by (simp add: Pgn_of_bytes_def)

lemma Pgn_of_bytes_roundtrip:
  assumes "Pgn_ok p"
  shows "Pgn_of_bytes (byte_at 0 (Pgn_as_u32 p)) (byte_at (Suc 0) (Pgn_as_u32 p)) (byte_at 2 (Pgn_as_u32 p)) = p"
proof -
  from Pgn_ok_lt [OF assms] have "unat (Pgn_as_u32 p) < 2 ^ 24" by simp
  then show ?thesis
    by (simp add: Pgn_of_bytes_def u32_of3_bytes mask24_id Pgn_new_masked_of_ok assms)
qed

end
