(* ===== verification/Can_Id.thy ===== *)
theory Can_Id
  imports Pgn
begin

text \<open>
  The 29-bit CAN identifier, \<^verbatim>\<open>core/src/id.rs\<close>: its fields, its assembly from priority, group,
  destination and source, and the receive filter. The lemmas show that assembly and decoding are
  inverse and that the filter accepts exactly what is broadcast or addressed to the node.
\<close>

section \<open>The identifier and its fields\<close>

datatype can_id = Can_Id u32

primrec Id_as_u32 :: "can_id \<Rightarrow> u32" where
  "Id_as_u32 (Can_Id raw) = raw"

definition Id_MAX :: u32 where
  "Id_MAX = 0x1FFFFFFF"

definition Id_new :: "u32 \<Rightarrow> can_id j1939_result" where
  "Id_new raw = (if raw > Id_MAX then Inl (InvalidId raw) else Inr (Can_Id raw))"

definition Id_new_masked :: "u32 \<Rightarrow> can_id" where
  "Id_new_masked raw = Can_Id (raw AND Id_MAX)"

definition Id_from_parts :: "priority \<Rightarrow> pgn \<Rightarrow> address \<Rightarrow> address \<Rightarrow> can_id j1939_result" where
  "Id_from_parts priority pgn destination source =
     (if Pgn_is_pdu2 pgn \<and> \<not> Address_is_broadcast destination then Inl DestinationMismatch
      else
        let ps = (if Pgn_is_pdu1 pgn then ucast (Address_as_u8 destination) else 0) :: u32
        in Inr (Can_Id (push_bit 26 (ucast (Priority_as_u8 priority))
             OR push_bit 8 (Pgn_as_u32 pgn) OR push_bit 8 ps OR ucast (Address_as_u8 source))))"

definition Id_broadcast :: "priority \<Rightarrow> pgn \<Rightarrow> address \<Rightarrow> can_id" where
  "Id_broadcast priority pgn source =
     (case Id_from_parts priority pgn Address_GLOBAL source of Inr i \<Rightarrow> i | Inl _ \<Rightarrow> Can_Id 0)"

definition Id_priority :: "can_id \<Rightarrow> priority" where
  "Id_priority i = Priority_new_saturating (ucast (drop_bit 26 (Id_as_u32 i) AND 7))"

definition Id_pgn :: "can_id \<Rightarrow> pgn" where
  "Id_pgn i = Pgn_new_masked (drop_bit 8 (Id_as_u32 i) AND Pgn_MAX)"

definition Id_source_address :: "can_id \<Rightarrow> address" where
  "Id_source_address i = Address (ucast (Id_as_u32 i))"

definition Id_pdu_specific :: "can_id \<Rightarrow> u8" where
  "Id_pdu_specific i = ucast (drop_bit 8 (Id_as_u32 i))"

definition Id_pdu_format :: "can_id \<Rightarrow> u8" where
  "Id_pdu_format i = ucast (drop_bit 16 (Id_as_u32 i))"

definition Id_data_page :: "can_id \<Rightarrow> bool" where
  "Id_data_page i = (drop_bit 24 (Id_as_u32 i) AND 1 = 1)"

definition Id_extended_data_page :: "can_id \<Rightarrow> bool" where
  "Id_extended_data_page i = (drop_bit 25 (Id_as_u32 i) AND 1 = 1)"

definition Id_is_pdu1 :: "can_id \<Rightarrow> bool" where
  "Id_is_pdu1 i = (Id_pdu_format i < PDU2_FORMAT_MIN)"

definition Id_is_pdu2 :: "can_id \<Rightarrow> bool" where
  "Id_is_pdu2 i = (\<not> Id_is_pdu1 i)"

definition Id_destination_address :: "can_id \<Rightarrow> address option" where
  "Id_destination_address i = (if Id_is_pdu1 i then Some (Address (Id_pdu_specific i)) else None)"

definition Id_is_broadcast :: "can_id \<Rightarrow> bool" where
  "Id_is_broadcast i =
     (case Id_destination_address i of Some d \<Rightarrow> Address_is_broadcast d | None \<Rightarrow> True)"

definition Id_is_addressed_to :: "can_id \<Rightarrow> address \<Rightarrow> bool" where
  "Id_is_addressed_to i a =
     (case Id_destination_address i of
        Some d \<Rightarrow> Address_is_broadcast d \<or> Address_as_u8 d = Address_as_u8 a
      | None \<Rightarrow> True)"

instantiation can_id :: linorder
begin

definition less_eq_can_id :: "can_id \<Rightarrow> can_id \<Rightarrow> bool" where
  "less_eq_can_id a b = (Id_as_u32 a \<le> Id_as_u32 b)"

definition less_can_id :: "can_id \<Rightarrow> can_id \<Rightarrow> bool" where
  "less_can_id a b = (Id_as_u32 a < Id_as_u32 b)"

instance
  by standard
    (auto simp: less_eq_can_id_def less_can_id_def less_le_not_le,
     metis can_id.exhaust Id_as_u32.simps antisym)

end

text \<open>The private field of \<^verbatim>\<open>Id\<close> holds 29 bits: every constructor checks or masks.\<close>

definition Id_ok :: "can_id \<Rightarrow> bool" where
  "Id_ok i = (Id_as_u32 i \<le> Id_MAX)"

section \<open>Assembly and decoding\<close>

lemma Id_ok_bits: "Id_ok i \<Longrightarrow> 29 \<le> n \<Longrightarrow> \<not> bit (Id_as_u32 i) n"
  by (rule not_bit_of_less_pow [where k = 29]) (simp_all add: Id_ok_def Id_MAX_def unat_iffs)

lemma le_7_bits: "(p :: u8) \<le> 7 \<Longrightarrow> 3 \<le> n \<Longrightarrow> \<not> bit p n"
  by (rule not_bit_of_less_pow [where k = 3]) (simp_all add: unat_iffs)

lemma Id_new_masked_ok [simp]: "Id_ok (Id_new_masked raw)"
  by (simp add: Id_ok_def Id_new_masked_def word_and_le1)

lemma Id_new_ok: "Id_new raw = Inr i \<Longrightarrow> Id_ok i \<and> Id_as_u32 i = raw"
  by (auto simp: Id_new_def Id_ok_def split: if_splits)

lemma Id_pgn_ok [simp]: "Pgn_ok (Id_pgn i)"
  by (simp add: Id_pgn_def)

lemma Id_priority_ok [simp]: "Priority_ok (Id_priority i)"
  by (simp add: Id_priority_def)

text \<open>The raw identifier that assembly produces, and its four fields.\<close>

definition raw_of_parts :: "priority \<Rightarrow> pgn \<Rightarrow> address \<Rightarrow> address \<Rightarrow> u32" where
  "raw_of_parts priority pgn destination source =
     push_bit 26 (ucast (Priority_as_u8 priority)) OR push_bit 8 (Pgn_as_u32 pgn)
     OR push_bit 8 (if Pgn_is_pdu1 pgn then ucast (Address_as_u8 destination) else 0)
     OR ucast (Address_as_u8 source)"

lemma from_parts_eq:
  "Id_from_parts priority pgn destination source =
     (if Pgn_is_pdu2 pgn \<and> destination \<noteq> Address_GLOBAL then Inl DestinationMismatch
      else Inr (Can_Id (raw_of_parts priority pgn destination source)))"
  by (simp add: Id_from_parts_def raw_of_parts_def guard_simps)

lemma raw_source: "ucast (raw_of_parts r p d s) = Address_as_u8 s"
  by (simp add: raw_of_parts_def word_bits)

lemma raw_pdu_format: "ucast (drop_bit 16 (raw_of_parts r p d s)) = Pgn_pdu_format p"
  by (simp add: raw_of_parts_def Pgn_pdu_format_def word_bits)

lemma raw_priority:
  assumes "Priority_ok r" and "Pgn_ok p"
  shows "ucast (drop_bit 26 (raw_of_parts r p d s) AND 7) = Priority_as_u8 r"
  using le_7_bits [OF assms(1) [unfolded Priority_ok_def]] Pgn_ok_high_bits [OF assms(2)]
  by (simp add: raw_of_parts_def word_bits)

lemma raw_pdu_specific:
  assumes "Pgn_ok p" and "Pgn_is_pdu1 p"
  shows "ucast (drop_bit 8 (raw_of_parts r p d s)) = Address_as_u8 d"
  using Pgn_ok_low_bits [OF assms] assms(2) by (simp add: raw_of_parts_def word_bits)

lemma raw_pgn:
  assumes "Pgn_ok p"
  shows "Pgn_new_masked (drop_bit 8 (raw_of_parts r p d s) AND Pgn_MAX) = p"
proof -
  let ?w = "drop_bit 8 (raw_of_parts r p d s) AND Pgn_MAX"
  have pf: "ucast (drop_bit 8 ?w) = Pgn_pdu_format p"
    by (simp add: raw_of_parts_def Pgn_pdu_format_def Pgn_MAX_def word_bits)
  have "normalise ?w = Pgn_as_u32 p"
  proof (cases "Pgn_is_pdu1 p")
    case True
    then have "normalise ?w = ?w AND 0x3FF00"
      using pf by (simp add: normalise_def Pgn_is_pdu1_def)
    also have "\<dots> = Pgn_as_u32 p"
      using Pgn_ok_low_bits [OF assms True] Pgn_ok_high_bits [OF assms]
      by (simp add: raw_of_parts_def Pgn_MAX_def word_bits)
    finally show ?thesis .
  next
    case False
    then have "normalise ?w = ?w"
      using pf by (simp add: normalise_def Pgn_is_pdu1_def)
    also have "\<dots> = Pgn_as_u32 p"
      using False Pgn_ok_high_bits [OF assms]
      by (simp add: raw_of_parts_def Pgn_MAX_def word_bits)
    finally show ?thesis .
  qed
  then show ?thesis
    by (simp add: Pgn_new_masked_def and_MAX_id and_MAX_le)
qed

lemma raw_ok:
  assumes "Priority_ok r" and "Pgn_ok p"
  shows "raw_of_parts r p d s \<le> Id_MAX"
proof -
  have "raw_of_parts r p d s = raw_of_parts r p d s AND Id_MAX"
    using le_7_bits [OF assms(1) [unfolded Priority_ok_def]] Pgn_ok_high_bits [OF assms(2)]
    by (simp add: raw_of_parts_def Id_MAX_def word_bits)
  then show ?thesis by (metis word_and_le1)
qed

lemmas id_field_defs =
  Id_priority_def Id_pgn_def Id_source_address_def Id_destination_address_def Id_is_pdu1_def
  Id_pdu_format_def Id_pdu_specific_def

lemma from_parts_fields:
  assumes "Priority_ok r" and "Pgn_ok p" and "Id_from_parts r p d s = Inr i"
  shows "Id_ok i \<and> Id_priority i = r \<and> Id_pgn i = p \<and> Id_source_address i = s
    \<and> Id_destination_address i = (if Pgn_is_pdu1 p then Some d else None)"
proof -
  from assms(3) have i: "i = Can_Id (raw_of_parts r p d s)"
    by (auto simp: from_parts_eq split: if_splits)
  have "Id_priority i = r"
    using assms(1) raw_priority [OF assms(1,2)]
    by (cases r) (auto simp: i Id_priority_def Priority_new_saturating_def Priority_ok_def dest: leD)
  moreover have "Id_pgn i = p"
    using raw_pgn [OF assms(2)] by (simp add: i Id_pgn_def)
  moreover have "Id_ok i"
    using raw_ok [OF assms(1,2)] by (simp add: i Id_ok_def)
  moreover have "Id_source_address i = s" by (simp add: i id_field_defs raw_source)
  moreover have "Id_destination_address i = (if Pgn_is_pdu1 p then Some d else None)"
    using raw_pdu_specific [OF assms(2)]
    by (simp add: i id_field_defs raw_pdu_format Pgn_is_pdu1_def)
  ultimately show ?thesis by simp
qed

lemma broadcast_eq: "Id_broadcast r p s = Can_Id (raw_of_parts r p Address_GLOBAL s)"
  by (simp add: Id_broadcast_def from_parts_eq)

lemma broadcast_fields:
  assumes "Priority_ok r" and "Pgn_ok p"
  shows "Id_ok (Id_broadcast r p s) \<and> Id_priority (Id_broadcast r p s) = r
    \<and> Id_pgn (Id_broadcast r p s) = p \<and> Id_source_address (Id_broadcast r p s) = s
    \<and> Id_is_broadcast (Id_broadcast r p s)"
proof -
  have "Id_from_parts r p Address_GLOBAL s = Inr (Id_broadcast r p s)"
    by (simp add: from_parts_eq broadcast_eq)
  from from_parts_fields [OF assms this] show ?thesis
    by (simp add: Id_is_broadcast_def guard_simps)
qed

text \<open>Decoding first: an identifier is rebuilt by its own fields.\<close>

lemma pdu_format_bits: "ucast (drop_bit 8 (drop_bit 8 x AND 0x3FFFF)) = (ucast (drop_bit 16 x) :: u8)"
  for x :: u32
  by (simp add: word_bits)

lemma ucast8_and_3FF: "ucast (x AND 0x3FF) = (ucast x :: u8)"
  for x :: u32
  by (simp add: word_bits)

lemma Id_pgn_eq:
  "Pgn_as_u32 (Id_pgn i) =
     (if Id_is_pdu1 i then drop_bit 8 (Id_as_u32 i) AND 0x3FF00 else drop_bit 8 (Id_as_u32 i) AND 0x3FFFF)"
proof -
  have "drop_bit 8 x AND 0x3FFFF AND 0x3FF00 = drop_bit 8 x AND 0x3FF00" for x :: u32
    by (simp add: and.assoc)
  then show ?thesis
    by (simp add: Id_pgn_def Pgn_new_masked_def normalise_def Pgn_MAX_def and.assoc pdu_format_bits
        Id_is_pdu1_def Id_pdu_format_def ucast8_and_3FF)
qed

lemma Id_is_pdu1_pgn: "Id_is_pdu1 i = Pgn_is_pdu1 (Id_pgn i)"
  by (simp add: Pgn_is_pdu1_def Pgn_pdu_format_def Id_pgn_eq pdu_format_bits pdu_format_and_MAX
      Id_is_pdu1_def Id_pdu_format_def ucast8_and_3FF)

lemma Id_priority_eq: "Priority_as_u8 (Id_priority i) = ucast (drop_bit 26 (Id_as_u32 i) AND 7)"
proof -
  have "ucast (drop_bit 26 (Id_as_u32 i) AND 7) = (ucast (drop_bit 26 (Id_as_u32 i)) AND 7 :: u8)"
    by (simp add: word_bits)
  then have "\<not> ucast (drop_bit 26 (Id_as_u32 i) AND 7) > (7 :: u8)"
    by (metis leD word_and_le1)
  then show ?thesis by (simp add: Id_priority_def Priority_new_saturating_def)
qed

lemma raw_of_fields:
  assumes "Id_ok i"
  shows "raw_of_parts (Id_priority i) (Id_pgn i) (Address (Id_pdu_specific i)) (Id_source_address i)
    = Id_as_u32 i"
proof -
  note bits = Id_ok_bits [OF assms]
  show ?thesis
  proof (cases "Id_is_pdu1 i")
    case True
    with bits show ?thesis
      by (simp add: raw_of_parts_def Id_priority_eq Id_pgn_eq Id_is_pdu1_pgn [symmetric]
          Id_source_address_def Id_pdu_specific_def) (simp add: word_bits)
  next
    case False
    with bits show ?thesis
      by (simp add: raw_of_parts_def Id_priority_eq Id_pgn_eq Id_is_pdu1_pgn [symmetric]
          Id_source_address_def Id_pdu_specific_def) (simp add: word_bits)
  qed
qed

lemma from_parts_of_fields:
  assumes "Id_ok i"
  shows "Id_from_parts (Id_priority i) (Id_pgn i)
      (case Id_destination_address i of Some d \<Rightarrow> d | None \<Rightarrow> Address_GLOBAL) (Id_source_address i) = Inr i"
proof (cases "Id_is_pdu1 i")
  case True
  then show ?thesis
    using raw_of_fields [OF assms]
    by (cases i) (simp add: from_parts_eq Id_destination_address_def Pgn_is_pdu2_def Id_is_pdu1_pgn)
next
  case False
  then have "raw_of_parts (Id_priority i) (Id_pgn i) Address_GLOBAL (Id_source_address i) = Id_as_u32 i"
    using raw_of_fields [OF assms] by (simp add: raw_of_parts_def Id_is_pdu1_pgn)
  with False show ?thesis
    by (cases i) (simp add: from_parts_eq Id_destination_address_def)
qed

section \<open>The receive filter\<close>

lemma is_addressed_to_iff:
  "Id_is_addressed_to i a \<longleftrightarrow> Id_is_broadcast i \<or> Id_destination_address i = Some a"
  by (auto simp: Id_is_addressed_to_def Id_is_broadcast_def split: option.splits)

lemma addressed_to_GLOBAL: "Id_is_addressed_to i Address_GLOBAL \<longleftrightarrow> Id_is_broadcast i"
  by (auto simp: is_addressed_to_iff Id_is_broadcast_def guard_simps split: option.splits)

end
