(* ===== verification/Can_Frame.thy ===== *)
theory Can_Frame
  imports Can_Id
begin

text \<open>
  A single CAN frame, \<^verbatim>\<open>core/src/frame.rs\<close>: an identifier and up to eight bytes, the unused ones
  filled with \<open>0xFF\<close>. The locale at the end extends a wire format to frames: what a peer reads
  out of the frame is what was put in.
\<close>

definition MAX_PAYLOAD :: nat where
  "MAX_PAYLOAD = 8"

definition FILL :: u8 where
  "FILL = 0xFF"

record can_frame =
  frame_id :: can_id
  frame_buf :: bytes
  frame_len :: u8

definition Frame_new :: "can_id \<Rightarrow> bytes \<Rightarrow> can_frame j1939_result" where
  "Frame_new i data =
     (if length data > MAX_PAYLOAD then Inl (ShortPayload MAX_PAYLOAD (length data))
      else Inr \<lparr>frame_id = i,
                frame_buf = write_slice 0 data (replicate MAX_PAYLOAD FILL),
                frame_len = word_of_nat (length data)\<rparr>)"

definition Frame_from_payload :: "can_id \<Rightarrow> bytes \<Rightarrow> can_frame" where
  "Frame_from_payload i data = \<lparr>frame_id = i, frame_buf = data, frame_len = word_of_nat MAX_PAYLOAD\<rparr>"

definition Frame_pgn :: "can_frame \<Rightarrow> pgn" where
  "Frame_pgn f = Id_pgn (frame_id f)"

definition Frame_source_address :: "can_frame \<Rightarrow> address" where
  "Frame_source_address f = Id_source_address (frame_id f)"

definition Frame_data :: "can_frame \<Rightarrow> bytes" where
  "Frame_data f = take (unat (frame_len f)) (frame_buf f)"

definition Frame_payload :: "can_frame \<Rightarrow> bytes" where
  "Frame_payload f = frame_buf f"

definition Frame_dlc :: "can_frame \<Rightarrow> nat" where
  "Frame_dlc f = unat (frame_len f)"

text \<open>
  The fields are private: a frame of the program is one of these two constructors' results, so
  its buffer has eight bytes and everything past the data is filler.
\<close>

definition Frame_ok :: "can_frame \<Rightarrow> bool" where
  "Frame_ok f \<longleftrightarrow> Id_ok (frame_id f) \<and> length (frame_buf f) = MAX_PAYLOAD \<and> Frame_dlc f \<le> MAX_PAYLOAD
     \<and> drop (Frame_dlc f) (frame_buf f) = replicate (MAX_PAYLOAD - Frame_dlc f) FILL"

lemma Frame_new_fields:
  assumes "Frame_new i data = Inr f"
  shows "frame_id f = i" and "Frame_data f = data" and "Frame_dlc f = length data"
    and "Frame_payload f = data @ replicate (8 - length data) FILL"
proof -
  from assms have l: "length data \<le> 8"
    and f: "f = \<lparr>frame_id = i, frame_buf = write_slice 0 data (replicate 8 FILL), frame_len = word_of_nat (length data)\<rparr>"
    by (auto simp: Frame_new_def MAX_PAYLOAD_def split: if_splits)
  from l have n: "unat (word_of_nat (length data) :: u8) = length data"
    by (simp add: unat_word_of_nat)
  show "frame_id f = i" by (simp add: f)
  show "Frame_data f = data" by (simp add: f Frame_data_def n write_slice_def)
  show "Frame_dlc f = length data" by (simp add: f Frame_dlc_def n)
  show "Frame_payload f = data @ replicate (8 - length data) FILL"
    by (simp add: f Frame_payload_def write_slice_def)
qed

lemma Frame_new_ok: "Id_ok i \<Longrightarrow> Frame_new i data = Inr f \<Longrightarrow> Frame_ok f"
  using Frame_new_fields [of i data f]
  by (auto simp: Frame_ok_def MAX_PAYLOAD_def Frame_new_def Frame_payload_def split: if_splits)

lemma Frame_new_defined: "length data \<le> 8 \<Longrightarrow> \<exists>f. Frame_new i data = Inr f"
  by (simp add: Frame_new_def MAX_PAYLOAD_def)

lemma from_payload_fields [simp]:
  "frame_id (Frame_from_payload i data) = i"
  "Frame_payload (Frame_from_payload i data) = data"
  "Frame_pgn (Frame_from_payload i data) = Id_pgn i"
  "Frame_source_address (Frame_from_payload i data) = Id_source_address i"
  "Frame_dlc (Frame_from_payload i data) = 8"
  by (simp_all add: Frame_from_payload_def Frame_payload_def Frame_pgn_def Frame_source_address_def
      Frame_dlc_def MAX_PAYLOAD_def)

lemma from_payload_data [simp]:
  "length data = 8 \<Longrightarrow> Frame_data (Frame_from_payload i data) = data"
  by (simp add: Frame_from_payload_def Frame_data_def MAX_PAYLOAD_def)

lemma from_payload_ok: "Id_ok i \<Longrightarrow> length data = 8 \<Longrightarrow> Frame_ok (Frame_from_payload i data)"
  by (simp add: Frame_ok_def MAX_PAYLOAD_def Frame_from_payload_def Frame_dlc_def)

lemma Frame_ok_payload: "Frame_ok f \<Longrightarrow> length (Frame_payload f) = 8"
  by (simp add: Frame_ok_def Frame_payload_def MAX_PAYLOAD_def)

text \<open>A frame is rebuilt from its identifier and its bytes.\<close>

lemma Frame_rebuild:
  assumes "Frame_ok f"
  shows "Frame_new (frame_id f) (Frame_data f) = Inr f"
proof -
  have len: "length (Frame_data f) = unat (frame_len f)" "unat (frame_len f) \<le> 8" "length (frame_buf f) = 8"
    using assms by (simp_all add: Frame_ok_def Frame_data_def Frame_dlc_def MAX_PAYLOAD_def)
  have "write_slice 0 (Frame_data f) (replicate 8 FILL) = Frame_data f @ replicate (8 - unat (frame_len f)) FILL"
    using len by (simp add: write_slice_def)
  also have "\<dots> = frame_buf f"
    using assms by (metis Frame_data_def Frame_dlc_def Frame_ok_def MAX_PAYLOAD_def append_take_drop_id)
  finally show ?thesis using len by (simp add: Frame_new_def MAX_PAYLOAD_def)
qed

section \<open>Wire formats in a frame\<close>

locale frame_format = wire_format +
  assumes len_8: "len = 8"
begin

lemma carried:
  "valid x \<Longrightarrow> decode (Frame_payload (Frame_from_payload i (encode x))) = Inr x"
  by (simp add: decode_encode)

lemma carried_data:
  "valid x \<Longrightarrow> decode (Frame_data (Frame_from_payload i (encode x))) = Inr x"
  using encode_length len_8 by (simp add: decode_encode)

lemma carried_ok: "valid x \<Longrightarrow> Id_ok i \<Longrightarrow> Frame_ok (Frame_from_payload i (encode x))"
  using encode_length len_8 by (simp add: from_payload_ok)

end

end
