(* ===== verification/Ecu_Name.thy ===== *)
theory Ecu_Name
  imports Can_Frame
begin

text \<open>
  The 64-bit NAME of an ECU, \<^verbatim>\<open>core/src/name.rs\<close>: its fields, the builder methods the macro
  \<^verbatim>\<open>name_field!\<close> generates, the eight bytes of an Address Claimed message and arbitration. The
  lemmas show that a builder changes its own field only, that the bytes round-trip, and that
  arbitration is the lexicographic order of the fields.
\<close>

section \<open>Fields\<close>

datatype ecu_name = Name u64

primrec Name_as_u64 :: "ecu_name \<Rightarrow> u64" where
  "Name_as_u64 (Name raw) = raw"

definition Name_new :: ecu_name where
  "Name_new = Name 0"

definition Name_from_u64 :: "u64 \<Rightarrow> ecu_name" where
  "Name_from_u64 raw = Name raw"

definition name_field_get :: "nat \<Rightarrow> nat \<Rightarrow> ecu_name \<Rightarrow> u64" where
  "name_field_get shift bits n = drop_bit shift (Name_as_u64 n) AND (push_bit bits 1 - 1)"

definition name_field_with :: "nat \<Rightarrow> nat \<Rightarrow> ecu_name \<Rightarrow> u64 \<Rightarrow> ecu_name" where
  "name_field_with shift bits n v =
     (let m = push_bit shift (push_bit bits 1 - 1)
      in Name ((Name_as_u64 n AND NOT m) OR (push_bit shift v AND m)))"

definition identity_number :: "ecu_name \<Rightarrow> u32" where
  "identity_number n = ucast (name_field_get 0 21 n)"
definition with_identity_number :: "ecu_name \<Rightarrow> u32 \<Rightarrow> ecu_name" where
  "with_identity_number n v = name_field_with 0 21 n (ucast v)"
definition manufacturer_code :: "ecu_name \<Rightarrow> u16" where
  "manufacturer_code n = ucast (name_field_get 21 11 n)"
definition with_manufacturer_code :: "ecu_name \<Rightarrow> u16 \<Rightarrow> ecu_name" where
  "with_manufacturer_code n v = name_field_with 21 11 n (ucast v)"
definition ecu_instance :: "ecu_name \<Rightarrow> u8" where
  "ecu_instance n = ucast (name_field_get 32 3 n)"
definition with_ecu_instance :: "ecu_name \<Rightarrow> u8 \<Rightarrow> ecu_name" where
  "with_ecu_instance n v = name_field_with 32 3 n (ucast v)"
definition function_instance :: "ecu_name \<Rightarrow> u8" where
  "function_instance n = ucast (name_field_get 35 5 n)"
definition with_function_instance :: "ecu_name \<Rightarrow> u8 \<Rightarrow> ecu_name" where
  "with_function_instance n v = name_field_with 35 5 n (ucast v)"
definition ecu_function :: "ecu_name \<Rightarrow> u8" where
  "ecu_function n = ucast (name_field_get 40 8 n)"
definition with_function :: "ecu_name \<Rightarrow> u8 \<Rightarrow> ecu_name" where
  "with_function n v = name_field_with 40 8 n (ucast v)"
definition vehicle_system :: "ecu_name \<Rightarrow> u8" where
  "vehicle_system n = ucast (name_field_get 49 7 n)"
definition with_vehicle_system :: "ecu_name \<Rightarrow> u8 \<Rightarrow> ecu_name" where
  "with_vehicle_system n v = name_field_with 49 7 n (ucast v)"
definition vehicle_system_instance :: "ecu_name \<Rightarrow> u8" where
  "vehicle_system_instance n = ucast (name_field_get 56 4 n)"
definition with_vehicle_system_instance :: "ecu_name \<Rightarrow> u8 \<Rightarrow> ecu_name" where
  "with_vehicle_system_instance n v = name_field_with 56 4 n (ucast v)"
definition industry_group :: "ecu_name \<Rightarrow> u8" where
  "industry_group n = ucast (name_field_get 60 3 n)"
definition with_industry_group :: "ecu_name \<Rightarrow> u8 \<Rightarrow> ecu_name" where
  "with_industry_group n v = name_field_with 60 3 n (ucast v)"

definition arbitrary_address_capable :: "ecu_name \<Rightarrow> bool" where
  "arbitrary_address_capable n = (drop_bit 63 (Name_as_u64 n) AND 1 = 1)"

definition with_arbitrary_address_capable :: "ecu_name \<Rightarrow> bool \<Rightarrow> ecu_name" where
  "with_arbitrary_address_capable n capable =
     (let m = push_bit 63 1
      in if capable then Name (Name_as_u64 n OR m) else Name (Name_as_u64 n AND NOT m))"

definition Name_to_bytes :: "ecu_name \<Rightarrow> bytes" where
  "Name_to_bytes n = (let r = Name_as_u64 n in
     [byte_at 0 r, byte_at 1 r, byte_at 2 r, byte_at 3 r, byte_at 4 r, byte_at 5 r, byte_at 6 r, byte_at 7 r])"

definition Name_from_bytes :: "bytes \<Rightarrow> ecu_name" where
  "Name_from_bytes d = Name (ucast (d ! 0) OR push_bit 8 (ucast (d ! 1)) OR push_bit 16 (ucast (d ! 2))
     OR push_bit 24 (ucast (d ! 3)) OR push_bit 32 (ucast (d ! 4)) OR push_bit 40 (ucast (d ! 5))
     OR push_bit 48 (ucast (d ! 6)) OR push_bit 56 (ucast (d ! 7)))"

definition wins_arbitration_against :: "ecu_name \<Rightarrow> ecu_name \<Rightarrow> bool" where
  "wins_arbitration_against a b = (Name_as_u64 a < Name_as_u64 b)"

instantiation ecu_name :: linorder
begin

definition less_eq_ecu_name :: "ecu_name \<Rightarrow> ecu_name \<Rightarrow> bool" where
  "less_eq_ecu_name a b = (Name_as_u64 a \<le> Name_as_u64 b)"

definition less_ecu_name :: "ecu_name \<Rightarrow> ecu_name \<Rightarrow> bool" where
  "less_ecu_name a b = (Name_as_u64 a < Name_as_u64 b)"

instance
  by standard
    (auto simp: less_eq_ecu_name_def less_ecu_name_def less_le_not_le,
     metis ecu_name.exhaust Name_as_u64.simps antisym)

end

lemma wins_iff_less: "wins_arbitration_against a b \<longleftrightarrow> a < b"
  by (simp add: wins_arbitration_against_def less_ecu_name_def)

lemma Name_eqI: "Name_as_u64 a = Name_as_u64 b \<Longrightarrow> a = b"
  by (cases a; cases b) simp

section \<open>Builders touch one field\<close>

lemma field_mask: "push_bit bits 1 - 1 = (mask bits :: u64)"
  by (simp add: mask_eq_exp_minus_1 push_bit_eq_mult)

lemma bit_field_get:
  "bit (name_field_get s b n) k \<longleftrightarrow> k < b \<and> bit (Name_as_u64 n) (s + k)"
  unfolding name_field_get_def field_mask by (auto simp: bit_simps dest: bit_imp_le_length)

lemma bit_field_with:
  "bit (Name_as_u64 (name_field_with s b n v)) k \<longleftrightarrow>
     (if s \<le> k \<and> k < s + b \<and> k < 64 then bit v (k - s) else bit (Name_as_u64 n) k)"
  unfolding name_field_with_def field_mask Let_def by (auto simp: bit_simps dest: bit_imp_le_length)

text \<open>Read back what was written, masked to the width; other fields are untouched.\<close>

lemma field_get_with:
  assumes "s + b \<le> 64"
  shows "name_field_get s b (name_field_with s b n v) = take_bit b v"
proof (rule bit_word_eqI)
  fix k assume "k < LENGTH(64)"
  show "bit (name_field_get s b (name_field_with s b n v)) k = bit (take_bit b v) k"
    using assms by (auto simp: bit_field_get bit_field_with bit_take_bit_iff)
qed

lemma field_get_with_other:
  assumes "s + b \<le> s' \<or> s' + b' \<le> s"
  shows "name_field_get s b (name_field_with s' b' n v) = name_field_get s b n"
proof (rule bit_word_eqI)
  fix k assume "k < LENGTH(64)"
  show "bit (name_field_get s b (name_field_with s' b' n v)) k = bit (name_field_get s b n) k"
    using assms by (auto simp: bit_field_get bit_field_with)
qed

section \<open>Bytes\<close>

lemma Name_from_to_bytes: "Name_from_bytes (Name_to_bytes n) = n"
  by (rule Name_eqI) (simp add: Name_from_bytes_def Name_to_bytes_def Let_def byte_at_def word_bits)

lemma Name_to_from_bytes:
  assumes "length d = 8"
  shows "Name_to_bytes (Name_from_bytes d) = d"
  using assms
  by (elim length_8_cases)
     (simp add: Name_from_bytes_def Name_to_bytes_def Let_def byte_at_def word_bits)

lemma length_Name_to_bytes [simp]: "length (Name_to_bytes n) = 8"
  by (simp add: Name_to_bytes_def Let_def)

interpretation name_format: frame_format Name_to_bytes "\<lambda>d. Inr (Name_from_bytes d)" "\<lambda>_. True" 8
  by unfold_locales (simp_all add: Name_from_to_bytes)

section \<open>Arbitration\<close>

text \<open>The fields of a NAME from the most significant down, the reserved bit 48 among them.\<close>

fun lex_less :: "nat list \<Rightarrow> nat list \<Rightarrow> bool" where
  "lex_less (x # xs) (y # ys) = (x < y \<or> x = y \<and> lex_less xs ys)"
| "lex_less _ _ = False"

definition name_key :: "ecu_name \<Rightarrow> nat list" where
  "name_key n =
     [of_bool (arbitrary_address_capable n), unat (industry_group n), unat (vehicle_system_instance n),
      unat (vehicle_system n), of_bool (bit (Name_as_u64 n) 48), unat (ecu_function n),
      unat (function_instance n), unat (ecu_instance n), unat (manufacturer_code n),
      unat (identity_number n)]"

lemma mult_add_less:
  assumes "r1 < p" and "q1 < (q2::nat)"
  shows "p * q1 + r1 < p * q2 + r2"
proof -
  have "p * q1 + r1 < p * Suc q1" using assms(1) by simp
  also have "\<dots> \<le> p * q2" using assms(2) by (intro mult_le_mono2) simp
  finally show ?thesis by simp
qed

lemma mult_add_less_iff:
  assumes "r1 < p" and "r2 < p"
  shows "p * q1 + r1 < p * q2 + r2 \<longleftrightarrow> q1 < q2 \<or> q1 = q2 \<and> r1 < (r2::nat)"
  using mult_add_less [OF assms(1), of q1 q2 r2] mult_add_less [OF assms(2), of q2 q1 r1]
  by (cases q1 q2 rule: linorder_cases) auto

text \<open>Comparing two numbers below a bit position: the field down to the next cut decides first.\<close>

lemma mod_less_cut:
  "x mod 2 ^ (k + j) < y mod 2 ^ (k + j) \<longleftrightarrow>
     x div 2 ^ k mod 2 ^ j < y div 2 ^ k mod 2 ^ j \<or>
     x div 2 ^ k mod 2 ^ j = y div 2 ^ k mod 2 ^ j \<and> x mod 2 ^ k < y mod (2::nat) ^ k"
  by (simp add: power_add mod_mult2_eq mult_add_less_iff)

lemma unat_field_get: "unat (name_field_get s b n) = unat (Name_as_u64 n) div 2 ^ s mod 2 ^ b"
proof -
  have "name_field_get s b n = take_bit b (drop_bit s (Name_as_u64 n))"
    unfolding name_field_get_def field_mask by (simp add: take_bit_eq_mask)
  then show ?thesis by (simp only: unat_take_bit unat_drop_bit)
qed

lemma unat_ucast_field:
  assumes "b \<le> LENGTH('a::len)"
  shows "unat (ucast (name_field_get s b n) :: 'a word) = unat (Name_as_u64 n) div 2 ^ s mod 2 ^ b"
proof -
  have "unat (name_field_get s b n) < 2 ^ b" by (simp add: unat_field_get)
  also have "(2::nat) ^ b \<le> 2 ^ LENGTH('a)" using assms by (rule power_increasing) simp
  finally have "unat (name_field_get s b n) < 2 ^ LENGTH('a)" .
  then show ?thesis
    by (simp add: unat_field_get [symmetric] unsigned_ucast_eq take_bit_nat_eq_self)
qed

lemma top_bits:
  "of_bool (arbitrary_address_capable n) = unat (Name_as_u64 n) div 2 ^ 63 mod 2 ^ 1"
  "of_bool (bit (Name_as_u64 n) 48) = unat (Name_as_u64 n) div 2 ^ 48 mod 2 ^ 1"
proof -
  have "arbitrary_address_capable n \<longleftrightarrow> bit (Name_as_u64 n) 63"
    by (simp add: arbitrary_address_capable_def and_one_eq bit_iff_odd_drop_bit odd_iff_mod_2_eq_one)
  then have "arbitrary_address_capable n \<longleftrightarrow> bit (unat (Name_as_u64 n)) 63"
    by (simp add: bit_unsigned_iff)
  then show "of_bool (arbitrary_address_capable n) = unat (Name_as_u64 n) div 2 ^ 63 mod 2 ^ 1"
    by (simp add: bit_iff_odd odd_iff_mod_2_eq_one of_bool_def)
  have "bit (Name_as_u64 n) 48 \<longleftrightarrow> bit (unat (Name_as_u64 n)) 48"
    by (simp add: bit_unsigned_iff)
  then show "of_bool (bit (Name_as_u64 n) 48) = unat (Name_as_u64 n) div 2 ^ 48 mod 2 ^ 1"
    by (simp add: bit_iff_odd odd_iff_mod_2_eq_one of_bool_def)
qed

lemmas name_key_eval =
  top_bits unat_ucast_field industry_group_def vehicle_system_instance_def vehicle_system_def
  ecu_function_def function_instance_def ecu_instance_def manufacturer_code_def identity_number_def

lemma name_key_arith:
  "name_key n = (let x = unat (Name_as_u64 n) in
     [x div 2 ^ 63 mod 2 ^ 1, x div 2 ^ 60 mod 2 ^ 3, x div 2 ^ 56 mod 2 ^ 4, x div 2 ^ 49 mod 2 ^ 7,
      x div 2 ^ 48 mod 2 ^ 1, x div 2 ^ 40 mod 2 ^ 8, x div 2 ^ 35 mod 2 ^ 5, x div 2 ^ 32 mod 2 ^ 3,
      x div 2 ^ 21 mod 2 ^ 11, x div 2 ^ 0 mod 2 ^ 21])"
  unfolding name_key_def name_key_eval Let_def by (simp add: unat_ucast_field)

lemma wins_lex: "wins_arbitration_against a b \<longleftrightarrow> lex_less (name_key a) (name_key b)"
proof -
  define x y where "x = unat (Name_as_u64 a)" and "y = unat (Name_as_u64 b)"
  have lt: "x < 2 ^ 64" "y < 2 ^ 64"
    using unsigned_less [of "Name_as_u64 a", where 'a = nat] unsigned_less [of "Name_as_u64 b", where 'a = nat]
    by (simp_all add: x_def y_def)
  have cuts: "(63 + 1) = (64::nat)" "(60 + 3) = (63::nat)" "(56 + 4) = (60::nat)" "(49 + 7) = (56::nat)"
    "(48 + 1) = (49::nat)" "(40 + 8) = (48::nat)" "(35 + 5) = (40::nat)" "(32 + 3) = (35::nat)"
    "(21 + 11) = (32::nat)" "(0 + 21) = (21::nat)" by simp_all
  note cut = mod_less_cut [of x 63 1 y, unfolded cuts] mod_less_cut [of x 60 3 y, unfolded cuts]
    mod_less_cut [of x 56 4 y, unfolded cuts] mod_less_cut [of x 49 7 y, unfolded cuts]
    mod_less_cut [of x 48 1 y, unfolded cuts] mod_less_cut [of x 40 8 y, unfolded cuts]
    mod_less_cut [of x 35 5 y, unfolded cuts] mod_less_cut [of x 32 3 y, unfolded cuts]
    mod_less_cut [of x 21 11 y, unfolded cuts] mod_less_cut [of x 0 21 y, unfolded cuts]
  have "x < y \<longleftrightarrow> x mod 2 ^ 64 < y mod 2 ^ 64" using lt by simp
  also have "\<dots> \<longleftrightarrow> lex_less (name_key a) (name_key b)"
    unfolding name_key_arith Let_def x_def [symmetric] y_def [symmetric] lex_less.simps cut
    by simp
  finally show ?thesis
    by (simp add: wins_arbitration_against_def word_less_nat_alt x_def y_def)
qed

end
