(* ===== verification/Address_Claim.thy ===== *)
theory Address_Claim
  imports Ecu_Name
begin

text \<open>
  Network management, \<^verbatim>\<open>core/src/address_claim.rs\<close>: the state machine by which one ECU claims,
  defends, moves and gives up an address, with the bit map of the addresses it has seen in use.
\<close>

section \<open>State and operations\<close>

definition DYNAMIC_ADDRESS_START :: nat where "DYNAMIC_ADDRESS_START = 128"
definition DYNAMIC_ADDRESS_END :: nat where "DYNAMIC_ADDRESS_END = 247"
definition COMMANDED_ADDRESS_LEN :: nat where "COMMANDED_ADDRESS_LEN = 9"

datatype claim_state = Idle | Claiming | Claimed | CannotClaim

record claim =
  claim_source :: address
  claim_name :: ecu_name

definition Claim_payload :: "claim \<Rightarrow> bytes" where
  "Claim_payload c = Name_to_bytes (claim_name c)"

definition Claim_is_cannot_claim :: "claim \<Rightarrow> bool" where
  "Claim_is_cannot_claim c = Address_is_null (claim_source c)"

datatype claim_action = ActIdle | Announce claim

record claimer =
  cl_name :: ecu_name
  cl_address :: address
  cl_state :: claim_state
  cl_seen :: bytes

definition Claimer_new :: "ecu_name \<Rightarrow> address \<Rightarrow> claimer" where
  "Claimer_new n preferred =
     \<lparr>cl_name = n, cl_address = preferred, cl_state = Idle, cl_seen = replicate 32 0\<rparr>"

definition is_address_taken :: "claimer \<Rightarrow> address \<Rightarrow> bool" where
  "is_address_taken c a =
     (let index = unat (Address_as_u8 a) in cl_seen c ! (index div 8) AND push_bit (index mod 8) 1 \<noteq> 0)"

definition mark_seen :: "claimer \<Rightarrow> address \<Rightarrow> claimer" where
  "mark_seen c a =
     (let index = unat (Address_as_u8 a)
      in c\<lparr>cl_seen := (cl_seen c)[index div 8 := cl_seen c ! (index div 8) OR push_bit (index mod 8) 1]\<rparr>)"

definition dynamic_addresses :: "address list" where
  "dynamic_addresses = map (\<lambda>a. Address (word_of_nat a)) [DYNAMIC_ADDRESS_START ..< DYNAMIC_ADDRESS_END + 1]"

definition next_free_address :: "claimer \<Rightarrow> address option" where
  "next_free_address c =
     find (\<lambda>candidate. candidate \<noteq> cl_address c \<and> \<not> is_address_taken c candidate) dynamic_addresses"

definition current_claim :: "claimer \<Rightarrow> claim" where
  "current_claim c = \<lparr>claim_source = cl_address c, claim_name = cl_name c\<rparr>"

definition give_up :: "claimer \<Rightarrow> claim \<times> claimer" where
  "give_up c =
     (\<lparr>claim_source = Address_NULL, claim_name = cl_name c\<rparr>,
      c\<lparr>cl_state := CannotClaim, cl_address := Address_NULL\<rparr>)"

definition Claimer_claim :: "claimer \<Rightarrow> claim \<times> claimer" where
  "Claimer_claim c =
     (if \<not> Address_is_specific (cl_address c) then give_up c
      else let c' = c\<lparr>cl_state := Claiming\<rparr> in (current_claim c', c'))"

definition contention_window_elapsed :: "claimer \<Rightarrow> claimer" where
  "contention_window_elapsed c = (if cl_state c = Claiming then c\<lparr>cl_state := Claimed\<rparr> else c)"

definition on_address_claimed :: "address \<Rightarrow> ecu_name \<Rightarrow> claimer \<Rightarrow> claim_action \<times> claimer" where
  "on_address_claimed source n c =
     (if n = cl_name c then (ActIdle, c)
      else
        let c1 = (if Address_is_specific source then mark_seen c source else c) in
        if source \<noteq> cl_address c1 \<or> cl_state c1 = CannotClaim then (ActIdle, c1)
        else if wins_arbitration_against (cl_name c1) n then (Announce (current_claim c1), c1)
        else
          case (if arbitrary_address_capable (cl_name c1) then next_free_address c1 else None) of
            Some a \<Rightarrow>
              let c2 = c1\<lparr>cl_address := a, cl_state := Claiming\<rparr> in (Announce (current_claim c2), c2)
          | None \<Rightarrow> let (cl, c2) = give_up c1 in (Announce cl, c2))"

definition on_request :: "claimer \<Rightarrow> claim_action" where
  "on_request c = Announce (current_claim c)"

definition on_commanded_address :: "bytes \<Rightarrow> claimer \<Rightarrow> claim_action j1939_result \<times> claimer" where
  "on_commanded_address data c =
     (if length data < COMMANDED_ADDRESS_LEN then (Inl (ShortPayload COMMANDED_ADDRESS_LEN (length data)), c)
      else if Name_from_bytes (take 8 data) \<noteq> cl_name c then (Inr ActIdle, c)
      else
        let commanded = Address (data ! 8) in
        if \<not> Address_is_specific commanded
        then (Inl (ValueOutOfRange ''commanded address'' (ucast (data ! 8))), c)
        else let c' = c\<lparr>cl_address := commanded, cl_state := Claiming\<rparr>
             in (Inr (Announce (current_claim c')), c'))"

section \<open>The map of seen addresses\<close>

lemma taken_iff: "is_address_taken c a \<longleftrightarrow>
    bit (cl_seen c ! (unat (Address_as_u8 a) div 8)) (unat (Address_as_u8 a) mod 8)"
  by (simp add: is_address_taken_def Let_def and_exp_eq_0_iff_not_bit)

lemma address_index: "unat (Address_as_u8 a) div 8 < 32"
  using unat_u8_lt [of "Address_as_u8 a"] by simp

lemma address_index_eq:
  "unat (Address_as_u8 a) div 8 = unat (Address_as_u8 b) div 8 \<Longrightarrow>
   unat (Address_as_u8 a) mod 8 = unat (Address_as_u8 b) mod 8 \<Longrightarrow> a = b"
  by (metis Address_eqI div_mult_mod_eq word_unat_eq_iff)

lemma bit_or_exp: "k < 8 \<Longrightarrow> bit (x OR 2 ^ k :: u8) j \<longleftrightarrow> bit x j \<or> j = k"
  by (auto simp: bit_simps)

lemma taken_mark_seen:
  assumes "length (cl_seen c) = 32"
  shows "is_address_taken (mark_seen c a) b \<longleftrightarrow> b = a \<or> is_address_taken c b"
proof -
  let ?i = "unat (Address_as_u8 a)" and ?j = "unat (Address_as_u8 b)"
  have seen: "cl_seen (mark_seen c a) ! (?j div 8) =
      (if ?j div 8 = ?i div 8 then cl_seen c ! (?j div 8) OR 2 ^ (?i mod 8) else cl_seen c ! (?j div 8))"
    using assms address_index [of b] by (simp add: mark_seen_def Let_def nth_list_update)
  have "is_address_taken (mark_seen c a) b \<longleftrightarrow>
      bit (cl_seen c ! (?j div 8)) (?j mod 8) \<or> (?j div 8 = ?i div 8 \<and> ?j mod 8 = ?i mod 8)"
    unfolding taken_iff seen by (auto simp: bit_or_exp)
  also have "\<dots> \<longleftrightarrow> b = a \<or> is_address_taken c b"
    unfolding taken_iff using address_index_eq [of b a] by auto
  finally show ?thesis .
qed

lemma mark_seen_fields [simp]:
  "cl_name (mark_seen c a) = cl_name c" "cl_address (mark_seen c a) = cl_address c"
  "cl_state (mark_seen c a) = cl_state c" "length (cl_seen (mark_seen c a)) = length (cl_seen c)"
  by (simp_all add: mark_seen_def Let_def)

lemma not_taken_new [simp]: "\<not> is_address_taken (Claimer_new n a) b"
  using address_index [of b] by (simp add: taken_iff Claimer_new_def)

lemma set_dynamic_image: "set dynamic_addresses = (\<lambda>n. Address (word_of_nat n)) ` {128..<248}"
proof -
  have "DYNAMIC_ADDRESS_END + 1 = 248" by (simp add: DYNAMIC_ADDRESS_END_def)
  then show ?thesis
    by (simp only: dynamic_addresses_def DYNAMIC_ADDRESS_START_def set_map set_upt)
qed

lemma set_dynamic: "a \<in> set dynamic_addresses \<longleftrightarrow>
    128 \<le> unat (Address_as_u8 a) \<and> unat (Address_as_u8 a) \<le> 247"
proof
  assume "a \<in> set dynamic_addresses"
  then obtain n where "n \<in> {128..<248}" "a = Address (word_of_nat n)"
    unfolding set_dynamic_image by (rule imageE)
  then show "128 \<le> unat (Address_as_u8 a) \<and> unat (Address_as_u8 a) \<le> 247"
    by (simp add: unat_word_of_nat)
next
  assume "128 \<le> unat (Address_as_u8 a) \<and> unat (Address_as_u8 a) \<le> 247"
  then have "unat (Address_as_u8 a) \<in> {128..<248}" by simp
  moreover have "a = Address (word_of_nat (unat (Address_as_u8 a)))" by simp
  ultimately show "a \<in> set dynamic_addresses"
    unfolding set_dynamic_image by (rule rev_image_eqI)
qed

lemma length_dynamic: "length dynamic_addresses = 120"
  by (simp only: dynamic_addresses_def DYNAMIC_ADDRESS_START_def DYNAMIC_ADDRESS_END_def length_map length_upt)

lemma dynamic_specific: "a \<in> set dynamic_addresses \<Longrightarrow> Address_is_specific a"
  by (simp add: set_dynamic Address_is_specific_def unat_iffs)

lemma next_free_Some:
  "next_free_address c = Some a \<Longrightarrow>
     a \<in> set dynamic_addresses \<and> a \<noteq> cl_address c \<and> \<not> is_address_taken c a"
  by (auto simp: next_free_address_def find_Some_iff)

lemma next_free_None:
  "next_free_address c = None \<longleftrightarrow>
     (\<forall>a \<in> set dynamic_addresses. a = cl_address c \<or> is_address_taken c a)"
  by (auto simp: next_free_address_def find_None_iff)

section \<open>The outcomes of a competing claim\<close>

definition saw_claim :: "address \<Rightarrow> claimer \<Rightarrow> claimer" where
  "saw_claim source c = (if Address_is_specific source then mark_seen c source else c)"

lemma saw_claim_fields [simp]:
  "cl_name (saw_claim a c) = cl_name c" "cl_address (saw_claim a c) = cl_address c"
  "cl_state (saw_claim a c) = cl_state c" "length (cl_seen (saw_claim a c)) = length (cl_seen c)"
  by (simp_all add: saw_claim_def)

lemma taken_saw_claim:
  "length (cl_seen c) = 32 \<Longrightarrow>
     is_address_taken (saw_claim a c) b \<longleftrightarrow> b = a \<and> Address_is_specific a \<or> is_address_taken c b"
  by (auto simp: saw_claim_def taken_mark_seen)

lemma on_address_claimed_cases:
  assumes "on_address_claimed source n c = (act, c')"
  obtains
    (Own) "n = cl_name c" "act = ActIdle" "c' = c"
  | (Elsewhere) "n \<noteq> cl_name c" "source \<noteq> cl_address c \<or> cl_state c = CannotClaim"
      "act = ActIdle" "c' = saw_claim source c"
  | (Defend) "n \<noteq> cl_name c" "source = cl_address c" "cl_state c \<noteq> CannotClaim" "cl_name c < n"
      "act = Announce (current_claim c')" "c' = saw_claim source c"
  | (Move) a where "n \<noteq> cl_name c" "source = cl_address c" "cl_state c \<noteq> CannotClaim" "n < cl_name c"
      "arbitrary_address_capable (cl_name c)" "next_free_address (saw_claim source c) = Some a"
      "act = Announce (current_claim c')" "c' = (saw_claim source c)\<lparr>cl_address := a, cl_state := Claiming\<rparr>"
  | (Quit) "n \<noteq> cl_name c" "source = cl_address c" "cl_state c \<noteq> CannotClaim" "n < cl_name c"
      "\<not> arbitrary_address_capable (cl_name c) \<or> next_free_address (saw_claim source c) = None"
      "act = Announce (current_claim c')"
      "c' = (saw_claim source c)\<lparr>cl_state := CannotClaim, cl_address := Address_NULL\<rparr>"
proof -
  let ?c1 = "saw_claim source c"
  consider "n = cl_name c"
    | "n \<noteq> cl_name c" "source \<noteq> cl_address c \<or> cl_state c = CannotClaim"
    | "n \<noteq> cl_name c" "source = cl_address c" "cl_state c \<noteq> CannotClaim" "cl_name c < n"
    | "n \<noteq> cl_name c" "source = cl_address c" "cl_state c \<noteq> CannotClaim" "n < cl_name c"
    by (meson linorder_less_linear)
  then show thesis
  proof cases
    case 4
    note h = this
    have eq: "on_address_claimed source n c =
        (case (if arbitrary_address_capable (cl_name c) then next_free_address ?c1 else None) of
            Some a \<Rightarrow>
              let c2 = ?c1\<lparr>cl_address := a, cl_state := Claiming\<rparr> in (Announce (current_claim c2), c2)
          | None \<Rightarrow> let (cl, c2) = give_up ?c1 in (Announce cl, c2))"
      using 4 order_less_not_sym [OF 4(4)]
      by (simp add: on_address_claimed_def saw_claim_def [symmetric] wins_iff_less Let_def split: option.split)
    show thesis
    proof (cases "if arbitrary_address_capable (cl_name c) then next_free_address ?c1 else None")
      case None
      with eq assms have "act = Announce (current_claim c')"
        "c' = ?c1\<lparr>cl_state := CannotClaim, cl_address := Address_NULL\<rparr>"
        by (auto simp: give_up_def current_claim_def)
      then show thesis using None h by (intro Quit) (auto split: if_splits)
    next
      case (Some a)
      with eq assms h show thesis
        by (intro Move [of a]) (auto simp: Let_def split: if_splits)
    qed
  qed (use assms in \<open>auto simp: on_address_claimed_def saw_claim_def [symmetric] wins_iff_less Let_def
      current_claim_def intro: Own Elsewhere Defend split: if_splits\<close>)
qed

section \<open>The invariant\<close>

text \<open>
  Once an ECU has started claiming it holds a specific address, and after giving up it holds the
  null address.
\<close>

definition claimer_ok :: "claimer \<Rightarrow> bool" where
  "claimer_ok c \<longleftrightarrow> length (cl_seen c) = 32 \<and>
     (case cl_state c of
        Idle \<Rightarrow> True
      | Claiming \<Rightarrow> Address_is_specific (cl_address c)
      | Claimed \<Rightarrow> Address_is_specific (cl_address c)
      | CannotClaim \<Rightarrow> cl_address c = Address_NULL)"

lemma claimer_ok_length: "claimer_ok c \<Longrightarrow> length (cl_seen c) = 32"
  by (simp add: claimer_ok_def)

lemma Claimer_new_ok: "claimer_ok (Claimer_new n a)"
  by (simp add: claimer_ok_def Claimer_new_def)

lemma give_up_ok: "claimer_ok c \<Longrightarrow> claimer_ok (snd (give_up c))"
  by (simp add: claimer_ok_def give_up_def)

lemma claim_ok: "claimer_ok c \<Longrightarrow> claimer_ok (snd (Claimer_claim c))"
  by (simp add: Claimer_claim_def give_up_def claimer_ok_def Let_def)

lemma window_ok: "claimer_ok c \<Longrightarrow> claimer_ok (contention_window_elapsed c)"
  by (auto simp: contention_window_elapsed_def claimer_ok_def)

lemma on_address_claimed_ok:
  assumes "claimer_ok c"
  shows "claimer_ok (snd (on_address_claimed source n c))"
proof (cases "on_address_claimed source n c")
  case (Pair act c')
  from Pair show ?thesis
  proof (cases rule: on_address_claimed_cases)
    case (Move a)
    then have "Address_is_specific a"
      using next_free_Some dynamic_specific by blast
    with Move Pair assms show ?thesis by (simp add: claimer_ok_def)
  qed (use Pair assms in \<open>auto simp: claimer_ok_def split: claim_state.splits\<close>)
qed

lemma on_commanded_address_cases:
  assumes "on_commanded_address data c = (r, c')"
  obtains
    (Refused) e where "r = Inl e" "c' = c"
  | (Other) "r = Inr ActIdle" "c' = c"
  | (Taken) a where "Address_is_specific a" "r = Inr (Announce (current_claim c'))"
      "c' = c\<lparr>cl_address := a, cl_state := Claiming\<rparr>"
proof -
  consider "length data < COMMANDED_ADDRESS_LEN"
    | "\<not> length data < COMMANDED_ADDRESS_LEN" "Name_from_bytes (take 8 data) \<noteq> cl_name c"
    | "\<not> length data < COMMANDED_ADDRESS_LEN" "Name_from_bytes (take 8 data) = cl_name c"
      "\<not> Address_is_specific (Address (data ! 8))"
    | "\<not> length data < COMMANDED_ADDRESS_LEN" "Name_from_bytes (take 8 data) = cl_name c"
      "Address_is_specific (Address (data ! 8))" by blast
  then show thesis
  proof cases
    case 1 with assms show thesis
      by (intro Refused [of "ShortPayload COMMANDED_ADDRESS_LEN (length data)"])
        (simp_all add: on_commanded_address_def)
  next
    case 2 with assms show thesis by (intro Other) (simp_all add: on_commanded_address_def)
  next
    case 3 with assms show thesis
      by (intro Refused [of "ValueOutOfRange ''commanded address'' (ucast (data ! 8))"])
        (simp_all add: on_commanded_address_def Let_def)
  next
    case 4
    with assms have "Inr (Announce (current_claim c')) = r"
      "c' = c\<lparr>cl_address := Address (data ! 8), cl_state := Claiming\<rparr>"
      by (auto simp: on_commanded_address_def Let_def)
    with 4 show thesis by (intro Taken) auto
  qed
qed

lemma on_commanded_address_ok:
  assumes "claimer_ok c"
  shows "claimer_ok (snd (on_commanded_address data c))"
proof (cases "on_commanded_address data c")
  case (Pair r c')
  from Pair show ?thesis
    by (cases rule: on_commanded_address_cases) (use assms Pair in \<open>auto simp: claimer_ok_def\<close>)
qed

text \<open>The claimer as a machine: every public operation that changes it is an event.\<close>

datatype claim_event =
    EvClaim
  | EvWindowElapsed
  | EvAddressClaimed address ecu_name
  | EvRequest
  | EvCommandedAddress bytes
  | EvGiveUp

fun claimer_step :: "claim_event \<Rightarrow> claimer \<Rightarrow> (claim_action j1939_result \<times> claimer) option" where
  "claimer_step EvClaim c = (let (cl, c') = Claimer_claim c in Some (Inr (Announce cl), c'))"
| "claimer_step EvWindowElapsed c = Some (Inr ActIdle, contention_window_elapsed c)"
| "claimer_step (EvAddressClaimed s n) c = (let (act, c') = on_address_claimed s n c in Some (Inr act, c'))"
| "claimer_step EvRequest c = Some (Inr (on_request c), c)"
| "claimer_step (EvCommandedAddress d) c = Some (on_commanded_address d c)"
| "claimer_step EvGiveUp c = (let (cl, c') = give_up c in Some (Inr (Announce cl), c'))"

interpretation claiming: safe_machine claimer_step claimer_ok "\<lambda>_. True"
proof unfold_locales
  fix c e assume ok: "claimer_ok c"
  show "\<exists>out c'. claimer_step e c = Some (out, c') \<and> claimer_ok c'"
    using claim_ok [OF ok] window_ok [OF ok] on_address_claimed_ok [OF ok]
      on_commanded_address_ok [OF ok] give_up_ok [OF ok] ok
    by (cases e) (auto simp: split_beta, metis prod.collapse)
qed

text \<open>Each operation keeps the NAME.\<close>

lemma on_address_claimed_name [simp]: "cl_name (snd (on_address_claimed s n c)) = cl_name c"
proof (cases "on_address_claimed s n c")
  case (Pair act c')
  from Pair show ?thesis by (cases rule: on_address_claimed_cases) (use Pair in auto)
qed

lemma claimer_names [simp]:
  "cl_name (snd (Claimer_claim c)) = cl_name c" "cl_name (snd (give_up c)) = cl_name c"
  "cl_name (contention_window_elapsed c) = cl_name c"
  "cl_name (snd (on_commanded_address d c)) = cl_name c"
  by (simp_all add: Claimer_claim_def give_up_def contention_window_elapsed_def
      on_commanded_address_def Let_def)

section \<open>Losing an address\<close>

text \<open>Only a lower NAME at the same address takes an address away.\<close>

lemma address_lost_iff_lower:
  assumes "on_address_claimed source n c = (act, c')" and "cl_address c' \<noteq> cl_address c"
  shows "source = cl_address c \<and> n < cl_name c \<and> cl_state c \<noteq> CannotClaim"
  using assms(1) by (cases rule: on_address_claimed_cases) (use assms(2) in auto)

text \<open>
  The addresses an ECU may still move to. Every move uses up one, so contention cannot go on
  for ever.
\<close>

definition free_set :: "claimer \<Rightarrow> address set" where
  "free_set c = {a \<in> set dynamic_addresses. a \<noteq> cl_address c \<and> \<not> is_address_taken c a}"

definition budget :: "claimer \<Rightarrow> nat" where
  "budget c = (if cl_state c = CannotClaim then 0 else Suc (card (free_set c)))"

lemma finite_free_set [simp]: "finite (free_set c)"
  by (simp add: free_set_def)

lemma card_free_set_le: "card (free_set c) \<le> 120"
proof -
  have "card (free_set c) \<le> card (set dynamic_addresses)"
    by (rule card_mono) (auto simp: free_set_def)
  also have "\<dots> \<le> 120" using card_length [of dynamic_addresses] by (simp add: length_dynamic)
  finally show ?thesis .
qed

lemma free_set_move:
  assumes "length (cl_seen c) = 32" and "next_free_address (saw_claim (cl_address c) c) = Some a"
  shows "free_set ((saw_claim (cl_address c) c)\<lparr>cl_address := a, cl_state := Claiming\<rparr>) \<subset> free_set c"
    (is "free_set ?c' \<subset> _")
proof -
  have taken: "is_address_taken ?c' b \<longleftrightarrow> b = cl_address c \<and> Address_is_specific b \<or> is_address_taken c b" for b
    using taken_saw_claim [OF assms(1), of "cl_address c" b] by (auto simp: is_address_taken_def)
  from next_free_Some [OF assms(2)] have a: "a \<in> set dynamic_addresses" "a \<noteq> cl_address c"
    and free: "\<not> is_address_taken c a"
    by (simp_all add: taken_saw_claim assms(1))
  have "a \<in> free_set c" using a free by (simp add: free_set_def)
  moreover have "a \<notin> free_set ?c'" by (simp add: free_set_def)
  moreover have "free_set ?c' \<subseteq> free_set c"
    using taken dynamic_specific by (auto simp: free_set_def)
  ultimately show ?thesis by blast
qed

lemma budget_claimed:
  assumes "claimer_ok c" and "on_address_claimed s n c = (act, c')"
  shows "budget c' \<le> budget c"
    and "cl_address c' \<noteq> cl_address c \<or> cl_state c' \<noteq> cl_state c \<Longrightarrow> budget c' < budget c"
proof -
  note len = claimer_ok_length [OF assms(1)]
  have keep: "free_set (saw_claim s c) \<subseteq> free_set c"
    by (auto simp: free_set_def taken_saw_claim len)
  from assms(2) have "budget c' \<le> budget c \<and>
      (cl_address c' \<noteq> cl_address c \<or> cl_state c' \<noteq> cl_state c \<longrightarrow> budget c' < budget c)"
  proof (cases rule: on_address_claimed_cases)
    case (Move a)
    then have "free_set c' \<subset> free_set c" using free_set_move [OF len] by simp
    then have "card (free_set c') < card (free_set c)" by (intro psubset_card_mono) simp
    then show ?thesis using Move by (simp add: budget_def)
  next
    case Quit
    then show ?thesis by (simp add: budget_def)
  qed (use keep in \<open>auto simp: budget_def card_mono\<close>)
  then show "budget c' \<le> budget c"
    and "cl_address c' \<noteq> cl_address c \<or> cl_state c' \<noteq> cl_state c \<Longrightarrow> budget c' < budget c"
    by simp_all
qed

text \<open>Over any claims heard, the address changes at most as often as the budget allows.\<close>

fun relocations :: "(address \<times> ecu_name) list \<Rightarrow> claimer \<Rightarrow> nat" where
  "relocations [] c = 0"
| "relocations ((s, n) # es) c =
     (let c' = snd (on_address_claimed s n c)
      in (if cl_address c' \<noteq> cl_address c then 1 else 0) + relocations es c')"

lemma relocations_le_budget: "claimer_ok c \<Longrightarrow> relocations es c \<le> budget c"
proof (induction es arbitrary: c)
  case Nil
  then show ?case by simp
next
  case (Cons e es)
  obtain s n where e: "e = (s, n)" by (cases e)
  obtain act c' where h: "on_address_claimed s n c = (act, c')" by (cases "on_address_claimed s n c")
  have "claimer_ok c'" using on_address_claimed_ok [OF Cons.prems, of s n] h by simp
  from Cons.IH [OF this] budget_claimed [OF Cons.prems h] e h show ?case
    by (auto simp: Let_def)
qed

lemma budget_le: "budget c \<le> 121"
  using card_free_set_le [of c] by (simp add: budget_def)

end
