(* ===== verification/Claim_Network.thy ===== *)
theory Claim_Network
  imports Address_Claim "HOL-Library.Multiset"
begin

text \<open>
  Several ECUs on one bus: each runs the state machine of \<open>Address_Claim\<close>, every announcement is
  broadcast to the others, and the copies in flight arrive in any order. What the protocol is for
  is a property of the whole: when nothing is in flight, no two ECUs hold the same address.
\<close>

section \<open>The network\<close>

record network =
  ecus :: "nat \<Rightarrow> claimer"
  flight :: "(nat \<times> claim) multiset"

definition broadcast_claim :: "nat \<Rightarrow> nat \<Rightarrow> claim \<Rightarrow> (nat \<times> claim) multiset" where
  "broadcast_claim n i cl = image_mset (\<lambda>j. (j, cl)) (mset_set ({..<n} - {i}))"

fun announced :: "nat \<Rightarrow> nat \<Rightarrow> claim_action \<Rightarrow> (nat \<times> claim) multiset" where
  "announced n i ActIdle = {#}"
| "announced n i (Announce cl) = broadcast_claim n i cl"

fun act_of :: "claim_action j1939_result \<Rightarrow> claim_action" where
  "act_of (Inl _) = ActIdle"
| "act_of (Inr a) = a"

text \<open>An ECU handles an event of its own: power-up, its timer, a request, a command, giving up.\<close>

inductive local_step :: "nat \<Rightarrow> network \<Rightarrow> network \<Rightarrow> bool" for n where
  local: "i < n \<Longrightarrow> \<forall>src nm. e \<noteq> EvAddressClaimed src nm \<Longrightarrow>
     claimer_step e (ecus s i) = Some (r, c') \<Longrightarrow>
     local_step n s (s\<lparr>ecus := (ecus s)(i := c'), flight := flight s + announced n i (act_of r)\<rparr>)"

text \<open>A claim in flight reaches one of the others.\<close>

inductive deliver_step :: "nat \<Rightarrow> network \<Rightarrow> network \<Rightarrow> bool" for n where
  deliver: "(j, cl) \<in># flight s \<Longrightarrow>
     on_address_claimed (claim_source cl) (claim_name cl) (ecus s j) = (act, c') \<Longrightarrow>
     deliver_step n s (s\<lparr>ecus := (ecus s)(j := c'),
                         flight := (flight s - {#(j, cl)#}) + announced n j act\<rparr>)"

inductive_cases local_stepE: "local_step n s t"
inductive_cases deliver_stepE: "deliver_step n s t"

definition net_init :: "(nat \<Rightarrow> ecu_name) \<Rightarrow> (nat \<Rightarrow> address) \<Rightarrow> network" where
  "net_init names preferred = \<lparr>ecus = (\<lambda>i. Claimer_new (names i) (preferred i)), flight = {#}\<rparr>"

inductive net_reachable :: "nat \<Rightarrow> network \<Rightarrow> network \<Rightarrow> bool" for n s0 where
  init: "net_reachable n s0 s0"
| own: "net_reachable n s0 s \<Longrightarrow> local_step n s t \<Longrightarrow> net_reachable n s0 t"
| arrive: "net_reachable n s0 s \<Longrightarrow> deliver_step n s t \<Longrightarrow> net_reachable n s0 t"

section \<open>The invariant\<close>

definition active :: "claimer \<Rightarrow> bool" where
  "active c = (cl_state c = Claiming \<or> cl_state c = Claimed)"

text \<open>
  Two ECUs that use one address do not yet agree: a claim of that address by one of them is on
  its way to the other.
\<close>

definition contended :: "network \<Rightarrow> nat \<Rightarrow> nat \<Rightarrow> bool" where
  "contended s i j \<longleftrightarrow>
     (j, current_claim (ecus s i)) \<in># flight s \<or> (i, current_claim (ecus s j)) \<in># flight s"

definition net_ok :: "nat \<Rightarrow> network \<Rightarrow> bool" where
  "net_ok n s \<longleftrightarrow>
     (\<forall>i<n. claimer_ok (ecus s i)) \<and>
     inj_on (\<lambda>i. cl_name (ecus s i)) {..<n} \<and>
     (\<forall>(j, cl) \<in># flight s. j < n \<and> (\<exists>p<n. p \<noteq> j \<and> claim_name cl = cl_name (ecus s p))) \<and>
     (\<forall>i<n. \<forall>j<n. i \<noteq> j \<and> active (ecus s i) \<and> active (ecus s j)
         \<and> cl_address (ecus s i) = cl_address (ecus s j) \<longrightarrow> contended s i j)"

lemma broadcast_iff: "(j, cl') \<in># broadcast_claim n i cl \<longleftrightarrow> j < n \<and> j \<noteq> i \<and> cl' = cl"
  by (auto simp: broadcast_claim_def)

lemma announced_iff: "(j, cl) \<in># announced n i act \<longleftrightarrow> j < n \<and> j \<noteq> i \<and> act = Announce cl"
  by (cases act) (auto simp: broadcast_iff)

text \<open>
  One ECU changes. The invariant is kept when it either announces where it now is, or uses no
  address it did not use before and loses no message about it.
\<close>

lemma net_ok_update:
  assumes ok: "net_ok n s" and k: "k < n"
    and c': "claimer_ok c'" "cl_name c' = cl_name (ecus s k)"
    and others: "\<And>j cl. (j, cl) \<in># flight s \<Longrightarrow> j \<noteq> k \<Longrightarrow> (j, cl) \<in># f"
    and new: "\<And>j cl. (j, cl) \<in># f \<Longrightarrow> (j, cl) \<in># flight s \<or> j < n \<and> j \<noteq> k \<and> claim_name cl = cl_name c'"
    and told: "active c' \<Longrightarrow> (\<forall>j<n. j \<noteq> k \<longrightarrow> (j, current_claim c') \<in># f) \<or>
       (active (ecus s k) \<and> cl_address (ecus s k) = cl_address c' \<and>
        (\<forall>cl. (k, cl) \<in># flight s \<longrightarrow> claim_source cl = cl_address c' \<longrightarrow> (k, cl) \<in># f))"
  shows "net_ok n (s\<lparr>ecus := (ecus s)(k := c'), flight := f\<rparr>)" (is "net_ok n ?t")
proof -
  have names: "cl_name (ecus ?t i) = cl_name (ecus s i)" for i using c' by simp
  have contend: "contended ?t i j"
    if h: "i < n" "j < n" "i \<noteq> j" "active (ecus ?t i)" "active (ecus ?t j)"
      "cl_address (ecus ?t i) = cl_address (ecus ?t j)" for i j
  proof -
    have sym: "contended ?t i j = contended ?t j i" by (auto simp: contended_def)
    have at_k: "contended ?t k j"
      if j: "j < n" "j \<noteq> k" "active c'" "active (ecus s j)" "cl_address c' = cl_address (ecus s j)" for j
      using told [OF j(3)]
    proof
      assume "\<forall>j<n. j \<noteq> k \<longrightarrow> (j, current_claim c') \<in># f"
      with j show ?thesis by (simp add: contended_def)
    next
      assume stay: "active (ecus s k) \<and> cl_address (ecus s k) = cl_address c' \<and>
        (\<forall>cl. (k, cl) \<in># flight s \<longrightarrow> claim_source cl = cl_address c' \<longrightarrow> (k, cl) \<in># f)"
      with j k ok have "contended s k j" by (auto simp: net_ok_def)
      moreover have "current_claim c' = current_claim (ecus s k)"
        using stay c'(2) by (simp add: current_claim_def)
      moreover have "claim_source (current_claim (ecus s j)) = cl_address c'"
        using j by (simp add: current_claim_def)
      ultimately show ?thesis using stay others j by (auto simp: contended_def)
    qed
    consider "i = k" | "j = k" | "i \<noteq> k" "j \<noteq> k" by blast
    then show ?thesis
    proof cases
      case 1 with h show ?thesis using at_k [of j] by simp
    next
      case 2 with h show ?thesis using at_k [of i] sym by simp
    next
      case 3
      with h ok have "contended s i j" by (auto simp: net_ok_def)
      with 3 show ?thesis using others by (auto simp: contended_def)
    qed
  qed
  have flight: "j < n \<and> (\<exists>p<n. p \<noteq> j \<and> claim_name cl = cl_name (ecus ?t p))" if "(j, cl) \<in># f" for j cl
    using new [OF that]
  proof
    assume "(j, cl) \<in># flight s"
    with ok show ?thesis unfolding names by (auto simp: net_ok_def)
  next
    assume "j < n \<and> j \<noteq> k \<and> claim_name cl = cl_name c'"
    with k show ?thesis by (intro conjI exI [of _ k]) auto
  qed
  have "inj_on (\<lambda>i. cl_name (ecus ?t i)) {..<n}"
    using ok unfolding names by (simp add: net_ok_def)
  moreover have "\<forall>i<n. claimer_ok (ecus ?t i)" using ok c'(1) by (simp add: net_ok_def)
  moreover have "\<forall>(j, cl) \<in># flight ?t. j < n \<and> (\<exists>p<n. p \<noteq> j \<and> claim_name cl = cl_name (ecus ?t p))"
    using flight by (auto simp del: fun_upd_apply)
  ultimately show ?thesis
    using contend unfolding net_ok_def by blast
qed

section \<open>Every step keeps the invariant\<close>

lemma net_init_ok: "inj_on names {..<n} \<Longrightarrow> net_ok n (net_init names preferred)"
  by (auto simp: net_ok_def net_init_def Claimer_new_ok active_def) (auto simp: Claimer_new_def inj_on_def)

lemma current_claim_fields [simp]:
  "claim_name (current_claim c) = cl_name c" "claim_source (current_claim c) = cl_address c"
  by (simp_all add: current_claim_def)

text \<open>What an ECU's own event can do to it.\<close>

lemma claimer_step_own:
  assumes "claimer_step e c = Some (r, c')" and "\<forall>src nm. e \<noteq> EvAddressClaimed src nm"
    and "claimer_ok c"
  shows "claimer_ok c' \<and> cl_name c' = cl_name c \<and>
    (act_of r = Announce (current_claim c') \<or>
     act_of r = ActIdle \<and> cl_address c' = cl_address c \<and> (active c' \<longrightarrow> active c))"
proof -
  have "claimer_ok c'" using claiming.step_safe [OF assms(3), of e] assms(1) by auto
  moreover have "cl_name c' = cl_name c \<and>
    (act_of r = Announce (current_claim c') \<or>
     act_of r = ActIdle \<and> cl_address c' = cl_address c \<and> (active c' \<longrightarrow> active c))"
  proof (cases e)
    case EvClaim
    with assms(1) show ?thesis
      by (auto simp: Claimer_claim_def give_up_def current_claim_def Let_def split: if_splits)
  next
    case EvWindowElapsed
    with assms(1) show ?thesis
      by (auto simp: contention_window_elapsed_def active_def split: if_splits)
  next
    case (EvCommandedAddress d)
    with assms(1) have "on_commanded_address d c = (r, c')" by simp
    then show ?thesis by (cases rule: on_commanded_address_cases) auto
  qed (use assms in \<open>auto simp: on_request_def give_up_def current_claim_def\<close>)
  ultimately show ?thesis by simp
qed

lemma local_step_ok:
  assumes "local_step n s t" and ok: "net_ok n s"
  shows "net_ok n t"
  using assms(1)
proof cases
  case (local i e r c')
  with ok have ci: "claimer_ok (ecus s i)" by (simp add: net_ok_def)
  note own = claimer_step_own [OF local(4) local(3) ci]
  show ?thesis unfolding local(1)
  proof (rule net_ok_update [OF ok \<open>i < n\<close>])
    show "claimer_ok c'" "cl_name c' = cl_name (ecus s i)" using own by simp_all
    show "(j, cl) \<in># flight s + announced n i (act_of r)" if "(j, cl) \<in># flight s" for j cl
      using that by simp
    show "(j, cl) \<in># flight s \<or> j < n \<and> j \<noteq> i \<and> claim_name cl = cl_name c'"
      if "(j, cl) \<in># flight s + announced n i (act_of r)" for j cl
      using that own by (auto simp: announced_iff)
    show "(\<forall>j<n. j \<noteq> i \<longrightarrow> (j, current_claim c') \<in># flight s + announced n i (act_of r)) \<or>
       active (ecus s i) \<and> cl_address (ecus s i) = cl_address c' \<and>
       (\<forall>cl. (i, cl) \<in># flight s \<longrightarrow> claim_source cl = cl_address c' \<longrightarrow>
          (i, cl) \<in># flight s + announced n i (act_of r))" if "active c'"
      using that own by (auto simp: announced_iff)
  qed
qed

text \<open>What a delivered claim can do.\<close>

lemma on_address_claimed_told:
  assumes "on_address_claimed src nm c = (act, c')" and "nm \<noteq> cl_name c"
  shows "act = Announce (current_claim c') \<or>
    act = ActIdle \<and> cl_address c' = cl_address c \<and> cl_state c' = cl_state c
      \<and> (active c \<longrightarrow> src \<noteq> cl_address c)"
  using assms(1) by (cases rule: on_address_claimed_cases) (use assms(2) in \<open>auto simp: active_def\<close>)

lemma deliver_step_ok:
  assumes "deliver_step n s t" and ok: "net_ok n s"
  shows "net_ok n t"
  using assms(1)
proof cases
  case (deliver j cl act c')
  from ok deliver(2) obtain p where j: "j < n" and p: "p < n" "p \<noteq> j" "claim_name cl = cl_name (ecus s p)"
    by (auto simp: net_ok_def)
  with ok have other: "claim_name cl \<noteq> cl_name (ecus s j)"
    by (auto simp: net_ok_def inj_on_def)
  have cj: "claimer_ok (ecus s j)" using ok j by (simp add: net_ok_def)
  note told = on_address_claimed_told [OF deliver(3) other]
  let ?f = "(flight s - {#(j, cl)#}) + announced n j act"
  have c': "claimer_ok c'" "cl_name c' = cl_name (ecus s j)"
    using on_address_claimed_ok [OF cj, of "claim_source cl" "claim_name cl"]
      on_address_claimed_name [of "claim_source cl" "claim_name cl" "ecus s j"]
    unfolding deliver(3) by simp_all
  have keep: "m \<in># ?f" if "m \<in># flight s" "m \<noteq> (j, cl)" for m
    using that by (simp add: in_diff_count)
  show ?thesis unfolding deliver(1)
  proof (rule net_ok_update [OF ok j c'])
    show "(k, cl') \<in># ?f" if "(k, cl') \<in># flight s" "k \<noteq> j" for k cl'
      using that keep [of "(k, cl')"] by simp
    show "(k, cl') \<in># flight s \<or> k < n \<and> k \<noteq> j \<and> claim_name cl' = cl_name c'"
      if "(k, cl') \<in># ?f" for k cl'
      using that told by (auto simp: announced_iff dest: in_diffD)
    show "(\<forall>k<n. k \<noteq> j \<longrightarrow> (k, current_claim c') \<in># ?f) \<or>
       active (ecus s j) \<and> cl_address (ecus s j) = cl_address c' \<and>
       (\<forall>cl'. (j, cl') \<in># flight s \<longrightarrow> claim_source cl' = cl_address c' \<longrightarrow> (j, cl') \<in># ?f)"
      if act': "active c'"
      using told
    proof
      assume "act = Announce (current_claim c')"
      then show ?thesis by (simp add: broadcast_iff)
    next
      assume q: "act = ActIdle \<and> cl_address c' = cl_address (ecus s j) \<and> cl_state c' = cl_state (ecus s j)
        \<and> (active (ecus s j) \<longrightarrow> claim_source cl \<noteq> cl_address (ecus s j))"
      then have "active (ecus s j)" using act' by (simp add: active_def)
      with q show ?thesis using keep by auto
    qed
  qed
qed

lemma net_reachable_ok: "net_reachable n s0 s \<Longrightarrow> net_ok n s0 \<Longrightarrow> net_ok n s"
  by (induction rule: net_reachable.induct) (auto intro: local_step_ok deliver_step_ok)

lemma quiescent_distinct:
  assumes "net_ok n s" and "flight s = {#}" and "i < n" "j < n" "i \<noteq> j"
    and "active (ecus s i)" "active (ecus s j)"
  shows "cl_address (ecus s i) \<noteq> cl_address (ecus s j)"
  using assms by (auto simp: net_ok_def contended_def)

section \<open>Contention ends\<close>

text \<open>
  A delivery either makes somebody move or give up, which spends the budget of addresses left, or
  replaces a claim by announcements of a strictly lower NAME, or by nothing. So the deliveries
  terminate: lexicographically in the total budget and the multiset of NAMEs in flight.
\<close>

definition total_budget :: "nat \<Rightarrow> network \<Rightarrow> nat" where
  "total_budget n s = (\<Sum>i<n. budget (ecus s i))"

definition flight_names :: "network \<Rightarrow> nat multiset" where
  "flight_names s = image_mset (\<lambda>m. unat (Name_as_u64 (claim_name (snd m)))) (flight s)"

definition settle_order :: "((nat \<times> nat multiset) \<times> (nat \<times> nat multiset)) set" where
  "settle_order = less_than <*lex*> mult less_than"

lemma wf_settle_order: "wf settle_order"
  by (simp add: settle_order_def wf_lex_prod wf_mult)

lemma total_budget_update:
  assumes "k < n"
  shows "total_budget n (s\<lparr>ecus := (ecus s)(k := c'), flight := f\<rparr>) + budget (ecus s k)
    = total_budget n s + budget c'"
proof -
  have "k \<in> {..<n}" using assms by simp
  then have "(\<Sum>i<n. budget (((ecus s)(k := c')) i)) = budget c' + (\<Sum>i\<in>{..<n} - {k}. budget (ecus s i))"
    by (subst sum.remove [of _ k]) (auto intro: sum.cong)
  moreover have "(\<Sum>i<n. budget (ecus s i)) = budget (ecus s k) + (\<Sum>i\<in>{..<n} - {k}. budget (ecus s i))"
    using \<open>k \<in> {..<n}\<close> by (subst sum.remove [of _ k]) auto
  ultimately show ?thesis by (simp add: total_budget_def)
qed

lemma claimed_progress:
  assumes "claimer_ok c" and "on_address_claimed src nm c = (act, c')" and "nm \<noteq> cl_name c"
  shows "budget c' < budget c \<or>
    budget c' \<le> budget c \<and> (act = ActIdle \<or> act = Announce (current_claim c') \<and> cl_name c' < nm)"
  using assms(2)
proof (cases rule: on_address_claimed_cases)
  case (Move a)
  then have "a \<noteq> cl_address c" using next_free_Some by fastforce
  with Move budget_claimed(2) [OF assms(1,2)] show ?thesis by simp
next
  case Quit
  with budget_claimed(2) [OF assms(1,2)] show ?thesis by simp
qed (use budget_claimed(1) [OF assms(1,2)] assms(3) in auto)

lemma deliver_step_decreases:
  assumes "deliver_step n s t" and ok: "net_ok n s"
  shows "((total_budget n t, flight_names t), (total_budget n s, flight_names s)) \<in> settle_order"
  using assms(1)
proof cases
  case (deliver j cl act c')
  from ok deliver(2) obtain p where j: "j < n" and p: "p < n" "p \<noteq> j" "claim_name cl = cl_name (ecus s p)"
    by (auto simp: net_ok_def)
  with ok have other: "claim_name cl \<noteq> cl_name (ecus s j)"
    by (auto simp: net_ok_def inj_on_def)
  have cj: "claimer_ok (ecus s j)" using ok j by (simp add: net_ok_def)
  have tb: "total_budget n t + budget (ecus s j) = total_budget n s + budget c'"
    unfolding deliver(1) by (rule total_budget_update [OF j])
  from claimed_progress [OF cj deliver(3) other] show ?thesis
  proof
    assume "budget c' < budget (ecus s j)"
    with tb show ?thesis by (simp add: settle_order_def)
  next
    assume h: "budget c' \<le> budget (ecus s j) \<and>
      (act = ActIdle \<or> act = Announce (current_claim c') \<and> cl_name c' < claim_name cl)"
    let ?I = "flight s - {#(j, cl)#}"
    let ?g = "\<lambda>m. unat (Name_as_u64 (claim_name (snd m)))"
    have split: "flight s = ?I + {#(j, cl)#}" using deliver(2) by simp
    have "(image_mset ?g ?I + image_mset ?g (announced n j act),
           image_mset ?g ?I + image_mset ?g {#(j, cl)#}) \<in> mult less_than"
    proof (rule one_step_implies_mult)
      show "\<forall>k\<in>set_mset (image_mset ?g (announced n j act)).
          \<exists>i\<in>set_mset (image_mset ?g {#(j, cl)#}). (k, i) \<in> less_than"
        using h by (auto simp: broadcast_claim_def less_ecu_name_def word_less_nat_alt)
    qed simp
    then have "(flight_names t, flight_names s) \<in> mult less_than"
      unfolding flight_names_def deliver(1)
      by (subst (2) split) simp
    moreover have "total_budget n t \<le> total_budget n s" using tb h by linarith
    ultimately show ?thesis by (auto simp: settle_order_def)
  qed
qed

lemma deliver_wf: "wf {(t, s). net_ok n s \<and> deliver_step n s t}"
proof (rule wf_subset)
  show "wf (inv_image settle_order (\<lambda>s. (total_budget n s, flight_names s)))"
    by (intro wf_inv_image wf_settle_order)
  show "{(t, s). net_ok n s \<and> deliver_step n s t}
      \<subseteq> inv_image settle_order (\<lambda>s. (total_budget n s, flight_names s))"
    using deliver_step_decreases by (auto simp: inv_image_def)
qed

lemma deliver_progress:
  assumes "flight s \<noteq> {#}"
  shows "\<exists>t. deliver_step n s t"
proof -
  from assms obtain j cl where m: "(j, cl) \<in># flight s" by (metis multiset_nonemptyE prod.collapse)
  obtain act c' where "on_address_claimed (claim_source cl) (claim_name cl) (ecus s j) = (act, c')"
    by (metis prod.collapse)
  from deliver_step.deliver [OF m this] show ?thesis by blast
qed

lemma settles:
  assumes "net_ok n s"
  shows "\<exists>t. (deliver_step n)\<^sup>*\<^sup>* s t \<and> flight t = {#} \<and> net_ok n t"
  using assms
proof (induction s rule: wf_induct_rule [OF deliver_wf [of n]])
  case (1 s)
  show ?case
  proof (cases "flight s = {#}")
    case True
    with 1(2) show ?thesis by blast
  next
    case False
    then obtain t where t: "deliver_step n s t" using deliver_progress by blast
    then have "net_ok n t" using deliver_step_ok 1(2) by blast
    with 1 t obtain u where "(deliver_step n)\<^sup>*\<^sup>* t u" "flight u = {#}" "net_ok n u" by auto
    with t show ?thesis by (meson converse_rtranclp_into_rtranclp)
  qed
qed

section \<open>Executable schedules\<close>

text \<open>The steps as functions, to follow a given schedule.\<close>

datatype bus_action = Own nat claim_event | Arrive nat claim

fun bus_do :: "nat \<Rightarrow> bus_action \<Rightarrow> network \<Rightarrow> network" where
  "bus_do n (Own i e) s =
     (case claimer_step e (ecus s i) of
        Some (r, c') \<Rightarrow> s\<lparr>ecus := (ecus s)(i := c'), flight := flight s + announced n i (act_of r)\<rparr>
      | None \<Rightarrow> s)"
| "bus_do n (Arrive j cl) s =
     (let (act, c') = on_address_claimed (claim_source cl) (claim_name cl) (ecus s j)
      in s\<lparr>ecus := (ecus s)(j := c'), flight := (flight s - {#(j, cl)#}) + announced n j act\<rparr>)"

fun bus_enabled :: "nat \<Rightarrow> bus_action \<Rightarrow> network \<Rightarrow> bool" where
  "bus_enabled n (Own i e) s = (i < n \<and> (case e of EvAddressClaimed _ _ \<Rightarrow> False | _ \<Rightarrow> True))"
| "bus_enabled n (Arrive j cl) s = ((j, cl) \<in># flight s)"

lemma bus_do_reachable:
  assumes "net_reachable n s0 s" and "bus_enabled n a s"
  shows "net_reachable n s0 (bus_do n a s)"
proof (cases a)
  case (Own i e)
  show ?thesis
  proof (cases "claimer_step e (ecus s i)")
    case None
    then show ?thesis using Own assms(1) by simp
  next
    case (Some rc)
    obtain r c' where rc: "rc = (r, c')" by (cases rc)
    from Own assms(2) have "i < n" "\<forall>src nm. e \<noteq> EvAddressClaimed src nm" by (auto split: claim_event.splits)
    from local_step.local [OF this Some [unfolded rc]] show ?thesis
      using Own Some rc net_reachable.own [OF assms(1)] by simp
  qed
next
  case (Arrive j cl)
  obtain act c' where h: "on_address_claimed (claim_source cl) (claim_name cl) (ecus s j) = (act, c')"
    by (cases "on_address_claimed (claim_source cl) (claim_name cl) (ecus s j)")
  from Arrive assms(2) have "(j, cl) \<in># flight s" by simp
  from deliver_step.deliver [OF this h] show ?thesis
    using Arrive h net_reachable.arrive [OF assms(1)] by simp
qed

fun bus_run :: "nat \<Rightarrow> bus_action list \<Rightarrow> network \<Rightarrow> network option" where
  "bus_run n [] s = Some s"
| "bus_run n (a # as) s = (if bus_enabled n a s then bus_run n as (bus_do n a s) else None)"

lemma bus_run_reachable: "bus_run n as s = Some t \<Longrightarrow> net_reachable n s0 s \<Longrightarrow> net_reachable n s0 t"
  by (induction as arbitrary: s) (auto split: if_splits intro: bus_do_reachable)

lemma broadcast_two [simp]:
  "broadcast_claim 2 0 cl = {#(1, cl)#}" "broadcast_claim 2 (Suc 0) cl = {#(0, cl)#}"
proof -
  have "{..<2} - {0::nat} = {1}" "{..<2} - {Suc 0} = {0::nat}" by auto
  then show "broadcast_claim 2 0 cl = {#(1, cl)#}" "broadcast_claim 2 (Suc 0) cl = {#(0, cl)#}"
    by (simp_all add: broadcast_claim_def)
qed

text \<open>Two ECUs contend for address 0x80; the second, with the higher NAME, moves to 0x81.\<close>

definition duel_names :: "nat \<Rightarrow> ecu_name" where
  "duel_names i = Name (if i = 0 then 1 else 2 ^ 63 + 2)"

definition duel_schedule :: "bus_action list" where
  "duel_schedule =
     (let c0 = \<lparr>claim_source = Address 0x80, claim_name = duel_names 0\<rparr>;
          c1 = \<lparr>claim_source = Address 0x80, claim_name = duel_names 1\<rparr>;
          c1' = \<lparr>claim_source = Address 0x81, claim_name = duel_names 1\<rparr>
      in [Own 0 EvClaim, Own 1 EvClaim, Arrive 1 c0, Arrive 0 c1, Arrive 0 c1', Arrive 1 c0])"

lemma dynamic_addresses_Cons: "\<exists>rest. dynamic_addresses = Address 0x80 # Address 0x81 # rest"
proof -
  have "[DYNAMIC_ADDRESS_START ..< DYNAMIC_ADDRESS_END + 1] = 128 # 129 # [130 ..< 248]"
    by (simp add: DYNAMIC_ADDRESS_START_def DYNAMIC_ADDRESS_END_def upt_rec [of 128] upt_rec [of 129])
  then show ?thesis by (simp add: dynamic_addresses_def)
qed

lemma duel_outcome:
  "\<exists>t. bus_run 2 duel_schedule (net_init duel_names (\<lambda>_. Address 0x80)) = Some t \<and> flight t = {#} \<and>
     cl_address (ecus t 0) = Address 0x80 \<and> cl_address (ecus t 1) = Address 0x81 \<and>
     active (ecus t 0) \<and> active (ecus t 1)"
proof -
  obtain rest where d: "dynamic_addresses = Address 0x80 # Address 0x81 # rest"
    using dynamic_addresses_Cons by blast
  show ?thesis
    by (simp add: duel_schedule_def Let_def net_init_def duel_names_def Claimer_new_def Claimer_claim_def
        Address_is_specific_def current_claim_def on_address_claimed_def mark_seen_def
        wins_arbitration_against_def arbitrary_address_capable_def next_free_address_def d
        is_address_taken_def active_def)
qed

lemma duel_inj: "inj_on duel_names {..<2}"
proof -
  have "{..<2} = {0::nat, 1}" by auto
  moreover have "duel_names 0 \<noteq> duel_names 1" by (simp add: duel_names_def)
  ultimately show ?thesis by simp
qed

end
