(* ===== verification/Request_Ack.thy ===== *)
theory Request_Ack
  imports Can_Frame
begin

text \<open>
  Request and Acknowledgement, \<^verbatim>\<open>core/src/request.rs\<close>, and the proprietary groups,
  \<^verbatim>\<open>core/src/proprietary.rs\<close>: payload layouts, and which groups are manufacturer-specific.
\<close>

section \<open>Request\<close>

definition REQUEST_LEN :: nat where "REQUEST_LEN = 3"

record request =
  req_pgn :: pgn

definition Request_new :: "pgn \<Rightarrow> request" where
  "Request_new p = \<lparr>req_pgn = p\<rparr>"

definition Request_encode :: "request \<Rightarrow> bytes" where
  "Request_encode r = (let p = Pgn_as_u32 (req_pgn r) in [byte_at 0 p, byte_at 1 p, byte_at 2 p])"

definition Request_decode :: "bytes \<Rightarrow> request j1939_result" where
  "Request_decode data =
     (if length data < REQUEST_LEN then Inl (ShortPayload REQUEST_LEN (length data))
      else Inr \<lparr>req_pgn = Pgn_of_bytes (data ! 0) (data ! 1) (data ! 2)\<rparr>)"

definition Request_ok :: "request \<Rightarrow> bool" where
  "Request_ok r = Pgn_ok (req_pgn r)"

interpretation request_format: wire_format Request_encode Request_decode Request_ok 3
  by unfold_locales
    (auto simp: Request_encode_def Request_decode_def Request_ok_def REQUEST_LEN_def Let_def
      Pgn_of_bytes_roundtrip)

text \<open>A request padded to a full frame still decodes: only the first three bytes are read.\<close>

lemma Request_decode_padded:
  "Request_ok r \<Longrightarrow> Request_decode (Request_encode r @ pad) = Inr r"
  by (simp add: Request_encode_def Request_decode_def Request_ok_def REQUEST_LEN_def Let_def
      Pgn_of_bytes_roundtrip)

section \<open>Acknowledgement\<close>

datatype ack_control = Acknowledged | NotSupported | AccessDenied | Busy | OtherAck u8

primrec AckControl_as_u8 :: "ack_control \<Rightarrow> u8" where
  "AckControl_as_u8 Acknowledged = 0"
| "AckControl_as_u8 NotSupported = 1"
| "AckControl_as_u8 AccessDenied = 2"
| "AckControl_as_u8 Busy = 3"
| "AckControl_as_u8 (OtherAck raw) = raw"

definition AckControl_from_u8 :: "u8 \<Rightarrow> ack_control" where
  "AckControl_from_u8 raw =
     (if raw = 0 then Acknowledged else if raw = 1 then NotSupported
      else if raw = 2 then AccessDenied else if raw = 3 then Busy else OtherAck raw)"

definition AckControl_is_positive :: "ack_control \<Rightarrow> bool" where
  "AckControl_is_positive c = (c = Acknowledged)"

record acknowledgement =
  ack_control :: ack_control
  ack_group_function :: u8
  ack_address :: address
  ack_pgn :: pgn

definition Acknowledgement_positive :: "pgn \<Rightarrow> address \<Rightarrow> acknowledgement" where
  "Acknowledgement_positive p a =
     \<lparr>ack_control = Acknowledged, ack_group_function = FILL, ack_address = a, ack_pgn = p\<rparr>"

definition Acknowledgement_negative :: "pgn \<Rightarrow> acknowledgement" where
  "Acknowledgement_negative p =
     \<lparr>ack_control = NotSupported, ack_group_function = FILL, ack_address = Address_NULL, ack_pgn = p\<rparr>"

definition Acknowledgement_encode :: "acknowledgement \<Rightarrow> bytes" where
  "Acknowledgement_encode a =
     (let p = Pgn_as_u32 (ack_pgn a) in
      [AckControl_as_u8 (ack_control a), ack_group_function a, FILL, FILL,
       Address_as_u8 (ack_address a), byte_at 0 p, byte_at 1 p, byte_at 2 p])"

definition Acknowledgement_decode :: "bytes \<Rightarrow> acknowledgement" where
  "Acknowledgement_decode data =
     \<lparr>ack_control = AckControl_from_u8 (data ! 0), ack_group_function = data ! 1,
      ack_address = Address (data ! 4), ack_pgn = Pgn_of_bytes (data ! 5) (data ! 6) (data ! 7)\<rparr>"

text \<open>
  \<^verbatim>\<open>AckControl::Other\<close> can be built with a defined byte; what the decoder builds is canonical.
\<close>

definition AckControl_ok :: "ack_control \<Rightarrow> bool" where
  "AckControl_ok c = (AckControl_from_u8 (AckControl_as_u8 c) = c)"

lemma AckControl_as_from [simp]: "AckControl_as_u8 (AckControl_from_u8 raw) = raw"
  by (simp add: AckControl_from_u8_def)

lemma AckControl_consts_ok [simp]:
  "AckControl_ok Acknowledged" "AckControl_ok NotSupported" "AckControl_ok AccessDenied" "AckControl_ok Busy"
  by (simp_all add: AckControl_ok_def AckControl_from_u8_def)

definition Acknowledgement_ok :: "acknowledgement \<Rightarrow> bool" where
  "Acknowledgement_ok a \<longleftrightarrow> AckControl_ok (ack_control a) \<and> Pgn_ok (ack_pgn a)"

interpretation ack_format: frame_format Acknowledgement_encode "\<lambda>d. Inr (Acknowledgement_decode d)"
  Acknowledgement_ok 8
  by unfold_locales
    (auto simp: Acknowledgement_encode_def Acknowledgement_decode_def Acknowledgement_ok_def
      AckControl_ok_def Let_def Pgn_of_bytes_roundtrip)

section \<open>Proprietary groups\<close>

record proprietary_b =
  pb_group_extension :: u8
  pb_data_page :: bool

definition ProprietaryB_new :: "u8 \<Rightarrow> proprietary_b" where
  "ProprietaryB_new ge = \<lparr>pb_group_extension = ge, pb_data_page = False\<rparr>"

definition ProprietaryB_on_data_page_1 :: "u8 \<Rightarrow> proprietary_b" where
  "ProprietaryB_on_data_page_1 ge = \<lparr>pb_group_extension = ge, pb_data_page = True\<rparr>"

definition ProprietaryB_from_pgn :: "pgn \<Rightarrow> proprietary_b option" where
  "ProprietaryB_from_pgn p =
     (let raw = Pgn_as_u32 p in
      if raw \<ge> Pgn_as_u32 PGN_PROPRIETARY_B_START \<and> raw \<le> Pgn_as_u32 PGN_PROPRIETARY_B_END
      then Some (ProprietaryB_new (ucast raw))
      else if raw \<ge> Pgn_as_u32 PGN_PROPRIETARY_B2_START \<and> raw \<le> Pgn_as_u32 PGN_PROPRIETARY_B2_END
      then Some (ProprietaryB_on_data_page_1 (ucast raw))
      else None)"

definition ProprietaryB_pgn :: "proprietary_b \<Rightarrow> pgn" where
  "ProprietaryB_pgn g =
     (let base = (if pb_data_page g then Pgn_as_u32 PGN_PROPRIETARY_B2_START
                  else Pgn_as_u32 PGN_PROPRIETARY_B_START)
      in Pgn_new_masked (base OR ucast (pb_group_extension g)))"

definition addressed_id :: "priority \<Rightarrow> address \<Rightarrow> address \<Rightarrow> can_id j1939_result" where
  "addressed_id priority destination source = Id_from_parts priority PGN_PROPRIETARY_A destination source"

definition proprietary_broadcast_id :: "priority \<Rightarrow> proprietary_b \<Rightarrow> address \<Rightarrow> can_id" where
  "proprietary_broadcast_id priority g source = Id_broadcast priority (ProprietaryB_pgn g) source"

definition is_proprietary :: "pgn \<Rightarrow> bool" where
  "is_proprietary p =
     (Pgn_as_u32 p = Pgn_as_u32 PGN_PROPRIETARY_A \<or> ProprietaryB_from_pgn p \<noteq> None)"

lemma proprietary_range_vals:
  "Pgn_as_u32 PGN_PROPRIETARY_B_START = 0xFF00" "Pgn_as_u32 PGN_PROPRIETARY_B_END = 0xFFFF"
  "Pgn_as_u32 PGN_PROPRIETARY_B2_START = 0x1FF00" "Pgn_as_u32 PGN_PROPRIETARY_B2_END = 0x1FFFF"
  by (simp_all add: pgn_eval)

lemma or_low_byte:
  "(0xFF00 OR ucast (g :: u8) :: u32) = 0xFF00 + ucast g"
  "(0x1FF00 OR ucast (g :: u8) :: u32) = 0x1FF00 + ucast g"
proof -
  have "0xFF00 AND (ucast g :: u32) = 0" "0x1FF00 AND (ucast g :: u32) = 0" by (simp_all add: word_bits)
  then show "(0xFF00 OR ucast g :: u32) = 0xFF00 + ucast g" "(0x1FF00 OR ucast g :: u32) = 0x1FF00 + ucast g"
    by (simp_all add: disjunctive_add_eq_or)
qed

lemma ProprietaryB_pgn_val:
  "Pgn_as_u32 (ProprietaryB_pgn g) =
     (if pb_data_page g then 0x1FF00 OR ucast (pb_group_extension g) else 0xFF00 OR ucast (pb_group_extension g))"
proof -
  have n: "normalise ((0xFF00 OR ucast x) AND 0x3FFFF) = 0xFF00 OR ucast x"
    "normalise ((0x1FF00 OR ucast x) AND 0x3FFFF) = 0x1FF00 OR ucast x" for x :: u8
  proof -
    have f: "(ucast (drop_bit 8 ((0xFF00 OR ucast x) AND 0x3FFFF :: u32)) :: u8) = 0xFF"
      "(ucast (drop_bit 8 ((0x1FF00 OR ucast x) AND 0x3FFFF :: u32)) :: u8) = 0xFF"
      "((0xFF00 OR ucast x) AND 0x3FFFF :: u32) = 0xFF00 OR ucast x"
      "((0x1FF00 OR ucast x) AND 0x3FFFF :: u32) = 0x1FF00 OR ucast x"
      by (simp_all add: word_bits)
    then show "normalise ((0xFF00 OR ucast x) AND 0x3FFFF) = 0xFF00 OR ucast x"
      "normalise ((0x1FF00 OR ucast x) AND 0x3FFFF) = 0x1FF00 OR ucast x"
      unfolding normalise_def PDU2_FORMAT_MIN_def by simp_all
  qed
  show ?thesis
    unfolding ProprietaryB_pgn_def Let_def proprietary_range_vals Pgn_new_masked_def Pgn_MAX_def
    by (simp only: Pgn_as_u32.simps n split: if_split) simp
qed

lemma ProprietaryB_roundtrip: "ProprietaryB_from_pgn (ProprietaryB_pgn g) = Some g"
proof (cases g)
  case (fields x dp)
  have u: "unat (0xFF00 OR ucast x :: u32) = 0xFF00 + unat x" "unat (0x1FF00 OR ucast x :: u32) = 0x1FF00 + unat x"
    using unat_u8_lt [of x] unfolding or_low_byte
    by (simp_all add: unat_word_ariths unsigned_ucast_eq take_bit_nat_eq_self)
  have c: "ucast (0xFF00 OR ucast x :: u32) = x" "ucast (0x1FF00 OR ucast x :: u32) = x"
    by (simp_all add: word_bits)
  show ?thesis
    unfolding ProprietaryB_from_pgn_def Let_def proprietary_range_vals ProprietaryB_pgn_val
    using u unat_u8_lt [of x]
    by (cases dp)
      (simp_all add: fields word_le_nat_alt c ProprietaryB_new_def ProprietaryB_on_data_page_1_def)
qed

end
