(* ===== verification/Tp_Codec.thy ===== *)
theory Tp_Codec
  imports Request_Ack
begin

text \<open>
  The messages of the transport protocol, first half of \<^verbatim>\<open>core/src/tp.rs\<close>: connection management
  (TP.CM) and data transfer (TP.DT), their eight bytes, and the number of packets a message takes.
\<close>

section \<open>Sizes\<close>

definition BYTES_PER_PACKET :: nat where "BYTES_PER_PACKET = 7"
definition TP_MIN_MESSAGE_SIZE :: u16 where "TP_MIN_MESSAGE_SIZE = 9"
definition TP_MAX_MESSAGE_SIZE :: u16 where "TP_MAX_MESSAGE_SIZE = 1785"
definition T1_TIMEOUT_MS :: u16 where "T1_TIMEOUT_MS = 750"

definition packet_count :: "u16 \<Rightarrow> u8" where
  "packet_count sz =
     (if sz > TP_MAX_MESSAGE_SIZE then 255
      else word_of_nat (div_ceil (unat sz) BYTES_PER_PACKET))"

lemma unat_packet_count:
  "sz \<le> TP_MAX_MESSAGE_SIZE \<Longrightarrow> unat (packet_count sz) = (unat sz + 6) div 7"
  by (auto simp: packet_count_def div_ceil_def BYTES_PER_PACKET_def TP_MAX_MESSAGE_SIZE_def unat_iffs
      unat_word_of_nat)

lemma packet_count_saturates: "TP_MAX_MESSAGE_SIZE < sz \<Longrightarrow> packet_count sz = 255"
  by (simp add: packet_count_def)

text \<open>The last packet starts before the end of the message, and the packets cover it.\<close>

lemma packet_count_covers:
  assumes "9 \<le> unat sz" and "sz \<le> TP_MAX_MESSAGE_SIZE"
  shows "(unat (packet_count sz) - 1) * 7 < unat sz" and "unat sz \<le> unat (packet_count sz) * 7"
    and "2 \<le> unat (packet_count sz)"
  using assms(1) unfolding unat_packet_count [OF assms(2)] by linarith+

section \<open>Abort reasons\<close>

datatype abort_reason =
    AlreadyInSession
  | ResourcesUnavailable
  | Timeout
  | UnexpectedCts
  | RetransmitLimit
  | UnexpectedDataPacket
  | BadSequenceNumber
  | DuplicateSequenceNumber
  | OtherReason u8

primrec AbortReason_as_u8 :: "abort_reason \<Rightarrow> u8" where
  "AbortReason_as_u8 AlreadyInSession = 1"
| "AbortReason_as_u8 ResourcesUnavailable = 2"
| "AbortReason_as_u8 Timeout = 3"
| "AbortReason_as_u8 UnexpectedCts = 4"
| "AbortReason_as_u8 RetransmitLimit = 5"
| "AbortReason_as_u8 UnexpectedDataPacket = 6"
| "AbortReason_as_u8 BadSequenceNumber = 7"
| "AbortReason_as_u8 DuplicateSequenceNumber = 8"
| "AbortReason_as_u8 (OtherReason raw) = raw"

definition AbortReason_from_u8 :: "u8 \<Rightarrow> abort_reason" where
  "AbortReason_from_u8 raw =
     (if raw = 1 then AlreadyInSession else if raw = 2 then ResourcesUnavailable
      else if raw = 3 then Timeout else if raw = 4 then UnexpectedCts
      else if raw = 5 then RetransmitLimit else if raw = 6 then UnexpectedDataPacket
      else if raw = 7 then BadSequenceNumber else if raw = 8 then DuplicateSequenceNumber
      else OtherReason raw)"

definition AbortReason_ok :: "abort_reason \<Rightarrow> bool" where
  "AbortReason_ok r = (AbortReason_from_u8 (AbortReason_as_u8 r) = r)"

lemma AbortReason_as_from [simp]: "AbortReason_as_u8 (AbortReason_from_u8 raw) = raw"
  by (simp add: AbortReason_from_u8_def)

lemma AbortReason_ok_iff: "AbortReason_ok r \<longleftrightarrow> (\<forall>raw. r = OtherReason raw \<longrightarrow> raw \<notin> {1,2,3,4,5,6,7,8})"
  by (cases r) (auto simp: AbortReason_ok_def AbortReason_from_u8_def)

section \<open>Connection management\<close>

definition CB_RTS :: u8 where "CB_RTS = 0x10"
definition CB_CTS :: u8 where "CB_CTS = 0x11"
definition CB_EOM_ACK :: u8 where "CB_EOM_ACK = 0x13"
definition CB_BAM :: u8 where "CB_BAM = 0x20"
definition CB_ABORT :: u8 where "CB_ABORT = 0xFF"

lemmas CB_defs = CB_RTS_def CB_CTS_def CB_EOM_ACK_def CB_BAM_def CB_ABORT_def

text \<open>The fields in the order of the source: size, packets, limit per CTS, next packet, reason, group.\<close>

datatype tp_cm =
    Rts u16 u8 u8 pgn
  | Cts u8 u8 pgn
  | EndOfMsgAck u16 u8 pgn
  | Bam u16 u8 pgn
  | Abort abort_reason pgn

definition TpCm_bam :: "u16 \<Rightarrow> pgn \<Rightarrow> tp_cm j1939_result" where
  "TpCm_bam sz p =
     (if sz < TP_MIN_MESSAGE_SIZE \<or> sz > TP_MAX_MESSAGE_SIZE then Inl (InvalidMessageSize sz)
      else Inr (Bam sz (packet_count sz) p))"

definition TpCm_rts :: "u16 \<Rightarrow> pgn \<Rightarrow> tp_cm j1939_result" where
  "TpCm_rts sz p =
     (if sz < TP_MIN_MESSAGE_SIZE \<or> sz > TP_MAX_MESSAGE_SIZE then Inl (InvalidMessageSize sz)
      else Inr (Rts sz (packet_count sz) 0xFF p))"

primrec TpCm_pgn :: "tp_cm \<Rightarrow> pgn" where
  "TpCm_pgn (Rts _ _ _ p) = p"
| "TpCm_pgn (Cts _ _ p) = p"
| "TpCm_pgn (EndOfMsgAck _ _ p) = p"
| "TpCm_pgn (Bam _ _ p) = p"
| "TpCm_pgn (Abort _ p) = p"

primrec TpCm_control_byte :: "tp_cm \<Rightarrow> u8" where
  "TpCm_control_byte (Rts _ _ _ _) = CB_RTS"
| "TpCm_control_byte (Cts _ _ _) = CB_CTS"
| "TpCm_control_byte (EndOfMsgAck _ _ _) = CB_EOM_ACK"
| "TpCm_control_byte (Bam _ _ _) = CB_BAM"
| "TpCm_control_byte (Abort _ _) = CB_ABORT"

definition TpCm_encode :: "tp_cm \<Rightarrow> bytes" where
  "TpCm_encode cm =
     (let p = Pgn_as_u32 (TpCm_pgn cm);
          (b1, b2, b3, b4) =
            (case cm of
               Rts sz packets max_packets_per_cts _ \<Rightarrow> (byte_at 0 sz, byte_at 1 sz, packets, max_packets_per_cts)
             | Cts packets next_packet _ \<Rightarrow> (packets, next_packet, FILL, FILL)
             | EndOfMsgAck sz packets _ \<Rightarrow> (byte_at 0 sz, byte_at 1 sz, packets, FILL)
             | Bam sz packets _ \<Rightarrow> (byte_at 0 sz, byte_at 1 sz, packets, FILL)
             | Abort reason _ \<Rightarrow> (AbortReason_as_u8 reason, FILL, FILL, FILL))
      in [TpCm_control_byte cm, b1, b2, b3, b4, byte_at 0 p, byte_at 1 p, byte_at 2 p])"

definition TpCm_decode :: "bytes \<Rightarrow> tp_cm j1939_result" where
  "TpCm_decode data =
     (let p = Pgn_of_bytes (data ! 5) (data ! 6) (data ! 7);
          sz = u16_of (data ! 1) (data ! 2)
      in if data ! 0 = CB_RTS then Inr (Rts sz (data ! 3) (data ! 4) p)
         else if data ! 0 = CB_CTS then Inr (Cts (data ! 1) (data ! 2) p)
         else if data ! 0 = CB_EOM_ACK then Inr (EndOfMsgAck sz (data ! 3) p)
         else if data ! 0 = CB_BAM then Inr (Bam sz (data ! 3) p)
         else if data ! 0 = CB_ABORT then Inr (Abort (AbortReason_from_u8 (data ! 1)) p)
         else Inl (UnknownControlByte (data ! 0)))"

definition TpCm_ok :: "tp_cm \<Rightarrow> bool" where
  "TpCm_ok cm \<longleftrightarrow> Pgn_ok (TpCm_pgn cm) \<and> (case cm of Abort reason _ \<Rightarrow> AbortReason_ok reason | _ \<Rightarrow> True)"

lemma length_TpCm_encode [simp]: "length (TpCm_encode cm) = 8"
  by (simp add: TpCm_encode_def Let_def split_beta)

lemma TpCm_decode_encode:
  assumes "TpCm_ok cm"
  shows "TpCm_decode (TpCm_encode cm) = Inr cm"
proof -
  from assms have "Pgn_ok (TpCm_pgn cm)" by (simp add: TpCm_ok_def)
  note p = Pgn_of_bytes_roundtrip [OF this]
  show ?thesis
    using p assms
    by (cases cm)
      (simp_all add: TpCm_encode_def TpCm_decode_def Let_def CB_defs TpCm_ok_def AbortReason_ok_def)
qed

interpretation tp_cm_format: frame_format TpCm_encode TpCm_decode TpCm_ok 8
  by unfold_locales (simp_all add: TpCm_decode_encode)

lemma TpCm_decode_ok: "TpCm_decode d = Inr cm \<Longrightarrow> TpCm_ok cm"
  by (auto simp: TpCm_decode_def TpCm_ok_def Let_def AbortReason_ok_def split: if_splits)

section \<open>Data transfer\<close>

record tp_dt =
  dt_sequence :: u8
  dt_data :: bytes

definition TpDt_new :: "u8 \<Rightarrow> bytes \<Rightarrow> tp_dt" where
  "TpDt_new s data =
     (let n = min (length data) BYTES_PER_PACKET
      in \<lparr>dt_sequence = s, dt_data = write_slice 0 (take n data) (replicate BYTES_PER_PACKET FILL)\<rparr>)"

definition TpDt_encode :: "tp_dt \<Rightarrow> bytes" where
  "TpDt_encode dt =
     [dt_sequence dt, dt_data dt ! 0, dt_data dt ! 1, dt_data dt ! 2, dt_data dt ! 3, dt_data dt ! 4,
      dt_data dt ! 5, dt_data dt ! 6]"

definition TpDt_decode :: "bytes \<Rightarrow> tp_dt" where
  "TpDt_decode data =
     \<lparr>dt_sequence = data ! 0,
      dt_data = [data ! 1, data ! 2, data ! 3, data ! 4, data ! 5, data ! 6, data ! 7]\<rparr>"

definition TpDt_ok :: "tp_dt \<Rightarrow> bool" where
  "TpDt_ok dt = (length (dt_data dt) = BYTES_PER_PACKET)"

lemma TpDt_new_ok [simp]: "TpDt_ok (TpDt_new s data)"
  by (simp add: TpDt_ok_def TpDt_new_def BYTES_PER_PACKET_def Let_def)

lemma TpDt_decode_ok [simp]: "TpDt_ok (TpDt_decode d)"
  by (simp add: TpDt_ok_def TpDt_decode_def BYTES_PER_PACKET_def)

lemma TpDt_new_take:
  "k \<le> length data \<Longrightarrow> k \<le> 7 \<Longrightarrow> take k (dt_data (TpDt_new s data)) = take k data"
  by (simp add: TpDt_new_def BYTES_PER_PACKET_def write_slice_def Let_def)

lemma TpDt_decode_encode: "TpDt_ok dt \<Longrightarrow> TpDt_decode (TpDt_encode dt) = dt"
  by (cases dt)
    (auto simp: TpDt_ok_def BYTES_PER_PACKET_def TpDt_decode_def TpDt_encode_def numeral_eq_Suc length_Suc_conv)

lemma length_TpDt_encode [simp]: "length (TpDt_encode dt) = 8"
  by (simp add: TpDt_encode_def)

interpretation tp_dt_format: frame_format TpDt_encode "\<lambda>d. Inr (TpDt_decode d)" TpDt_ok 8
  by unfold_locales (simp_all add: TpDt_decode_encode)

end
