(* ===== verification/Session_Table.thy ===== *)
theory Session_Table
  imports J1939_Types
begin

text \<open>
  The table of sessions both reassemblers keep (\<^verbatim>\<open>Slot\<close>, \<^verbatim>\<open>slot_of\<close>, \<^verbatim>\<open>slot_for\<close>, \<^verbatim>\<open>abandon\<close> and
  \<^verbatim>\<open>reset\<close> of \<^verbatim>\<open>core/src/tp.rs\<close> and \<^verbatim>\<open>core/src/etp.rs\<close>): a fixed array of slots, each with a buffer
  and perhaps a session, found by the address of the peer. The two files declare the same
  operations over their own session type; here they are polymorphic in it, with the field that
  names the peer as the argument \<open>key\<close>. The lemmas show that the array is a finite map from peers
  to their session and buffer, bounded by the number of slots.
\<close>

record 's slot =
  slot_buffer :: bytes
  slot_session :: "'s option"

type_synonym 's table = "'s slot list"

definition new_table :: "nat \<Rightarrow> nat \<Rightarrow> 's table" where
  "new_table n sessions = replicate sessions \<lparr>slot_buffer = replicate n 0, slot_session = None\<rparr>"

definition is_busy :: "'s table \<Rightarrow> bool" where
  "is_busy r = list_ex (\<lambda>sl. slot_session sl \<noteq> None) r"

definition active_sessions :: "'s table \<Rightarrow> nat" where
  "active_sessions r = length (filter (\<lambda>sl. slot_session sl \<noteq> None) r)"

definition slot_of :: "('s \<Rightarrow> address) \<Rightarrow> 's table \<Rightarrow> address \<Rightarrow> nat option" where
  "slot_of key r a =
     position (\<lambda>sl. case slot_session sl of Some s \<Rightarrow> key s = a | None \<Rightarrow> False) r"

definition free_slot :: "'s table \<Rightarrow> nat option" where
  "free_slot r = position (\<lambda>sl. slot_session sl = None) r"

definition slot_for :: "('s \<Rightarrow> address) \<Rightarrow> 's table \<Rightarrow> address \<Rightarrow> nat option" where
  "slot_for key r a = (case slot_of key r a of Some i \<Rightarrow> Some i | None \<Rightarrow> free_slot r)"

definition is_receiving_from :: "('s \<Rightarrow> address) \<Rightarrow> 's table \<Rightarrow> address \<Rightarrow> bool" where
  "is_receiving_from key r a = (slot_of key r a \<noteq> None)"

definition set_session :: "nat \<Rightarrow> 's option \<Rightarrow> 's table \<Rightarrow> 's table" where
  "set_session i s r = r[i := (r ! i)\<lparr>slot_session := s\<rparr>]"

definition set_slot :: "nat \<Rightarrow> bytes \<Rightarrow> 's option \<Rightarrow> 's table \<Rightarrow> 's table" where
  "set_slot i b s r = r[i := (r ! i)\<lparr>slot_buffer := b, slot_session := s\<rparr>]"

definition abandon :: "('s \<Rightarrow> address) \<Rightarrow> address \<Rightarrow> 's table \<Rightarrow> bool \<times> 's table" where
  "abandon key a r =
     (case slot_of key r a of Some i \<Rightarrow> (True, set_session i None r) | None \<Rightarrow> (False, r))"

definition reset :: "'s table \<Rightarrow> 's table" where
  "reset r = map (\<lambda>sl. sl\<lparr>slot_session := None\<rparr>) r"

section \<open>The table as a map from peers\<close>

text \<open>What the table holds for a peer: its session and the buffer it fills.\<close>

definition entry_of :: "('s \<Rightarrow> address) \<Rightarrow> 's table \<Rightarrow> address \<Rightarrow> ('s \<times> bytes) option" where
  "entry_of key r a =
     (case slot_of key r a of
        Some i \<Rightarrow> map_option (\<lambda>s. (s, slot_buffer (r ! i))) (slot_session (r ! i))
      | None \<Rightarrow> None)"

definition one_per_peer :: "('s \<Rightarrow> address) \<Rightarrow> 's table \<Rightarrow> bool" where
  "one_per_peer key r \<longleftrightarrow>
     (\<forall>i<length r. \<forall>j<length r. \<forall>s t. slot_session (r ! i) = Some s \<and> slot_session (r ! j) = Some t
        \<and> key s = key t \<longrightarrow> i = j)"

lemma sessions_distinct:
  assumes "one_per_peer key r"
  shows "distinct (map key (List.map_filter slot_session r))"
  using assms
proof (induction r)
  case (Cons sl r)
  have "one_per_peer key r"
    using Cons.prems unfolding one_per_peer_def
    by (metis Suc_inject Suc_less_eq length_Cons nth_Cons_Suc)
  moreover have "key s \<noteq> key t" if "slot_session sl = Some s" "t \<in> set (List.map_filter slot_session r)" for s t
  proof
    assume "key s = key t"
    from that(2) obtain j where "j < length r" "slot_session (r ! j) = Some t"
      by (auto simp: List.map_filter_def in_set_conv_nth)
    with Cons.prems that(1) \<open>key s = key t\<close> show False
      unfolding one_per_peer_def by (metis Suc_less_eq length_Cons nat.distinct(1) nth_Cons_0 nth_Cons_Suc zero_less_Suc)
  qed
  ultimately show ?case using Cons.IH by (cases "slot_session sl") (auto simp: map_filter_simps)
qed (simp add: map_filter_simps)

lemma slot_of_SomeD:
  assumes "slot_of key r a = Some i"
  shows "i < length r" and "\<exists>s. slot_session (r ! i) = Some s \<and> key s = a"
  using position_Some [OF assms [unfolded slot_of_def]] by (auto split: option.splits)

lemma slot_of_NoneD: "slot_of key r a = None \<Longrightarrow> i < length r \<Longrightarrow> slot_session (r ! i) = Some s \<Longrightarrow> key s \<noteq> a"
proof -
  assume none: "slot_of key r a = None" and i: "i < length r" and s: "slot_session (r ! i) = Some s"
  from none have "\<forall>sl \<in> set r. \<not> (case slot_session sl of Some s \<Rightarrow> key s = a | None \<Rightarrow> False)"
    unfolding slot_of_def position_None .
  with nth_mem [OF i] s show "key s \<noteq> a" by fastforce
qed

lemma slot_of_eq:
  assumes "one_per_peer key r" and "i < length r" and "slot_session (r ! i) = Some s"
  shows "slot_of key r (key s) = Some i"
proof (cases "slot_of key r (key s)")
  case None
  from slot_of_NoneD [OF None assms(2,3)] show ?thesis by simp
next
  case (Some j)
  with slot_of_SomeD [OF Some] assms have "j = i" unfolding one_per_peer_def by metis
  with Some show ?thesis by simp
qed

lemma free_slotD: "free_slot r = Some i \<Longrightarrow> i < length r \<and> slot_session (r ! i) = None"
  unfolding free_slot_def by (drule position_Some) auto

lemma free_slot_None: "free_slot r = None \<longleftrightarrow> active_sessions r = length r"
proof -
  have "active_sessions r = length r \<longleftrightarrow> filter (\<lambda>sl. slot_session sl \<noteq> None) r = r"
    unfolding active_sessions_def by (metis filter_True length_filter_less less_irrefl filter_id_conv)
  then show ?thesis by (auto simp: free_slot_def position_None filter_id_conv)
qed

lemma slot_for_lt: "slot_for key r a = Some i \<Longrightarrow> i < length r"
  using slot_of_SomeD(1) free_slotD by (fastforce simp: slot_for_def split: option.splits)

lemma slot_for_old:
  "slot_for key r a = Some i \<Longrightarrow> slot_session (r ! i) = None \<and> slot_of key r a = None \<or>
     slot_of key r a = Some i"
  using free_slotD by (fastforce simp: slot_for_def split: option.splits)

lemma entry_of_Some_iff:
  assumes "one_per_peer key r"
  shows "entry_of key r a = Some (s, b) \<longleftrightarrow>
    (\<exists>i<length r. r ! i = \<lparr>slot_buffer = b, slot_session = Some s\<rparr> \<and> key s = a)"
proof
  assume e: "entry_of key r a = Some (s, b)"
  then obtain i where i: "slot_of key r a = Some i" "slot_session (r ! i) = Some s" "slot_buffer (r ! i) = b"
    by (auto simp: entry_of_def split: option.splits)
  with slot_of_SomeD [OF i(1)] show "\<exists>i<length r. r ! i = \<lparr>slot_buffer = b, slot_session = Some s\<rparr> \<and> key s = a"
    by (intro exI [of _ i]) (cases "r ! i", auto)
next
  assume "\<exists>i<length r. r ! i = \<lparr>slot_buffer = b, slot_session = Some s\<rparr> \<and> key s = a"
  then obtain i where i: "i < length r" "r ! i = \<lparr>slot_buffer = b, slot_session = Some s\<rparr>" "key s = a" by blast
  with slot_of_eq [OF assms, of i s] show "entry_of key r a = Some (s, b)"
    by (simp add: entry_of_def)
qed

lemma entry_of_None_iff: "entry_of key r a = None \<longleftrightarrow> slot_of key r a = None"
  using slot_of_SomeD by (fastforce simp: entry_of_def split: option.splits)

text \<open>
  Writing a slot. Either the peer's own slot is written, or a free one for a peer without a
  session: in both cases the map changes at that peer alone.
\<close>

lemma length_set_slot [simp]: "length (set_slot i b s r) = length r" "length (set_session i s r) = length r"
  by (simp_all add: set_slot_def set_session_def)

lemma set_session_eq: "set_session i s r = set_slot i (slot_buffer (r ! i)) s r"
  by (simp add: set_session_def set_slot_def)

lemma nth_set_slot:
  "j < length r \<Longrightarrow> set_slot i b s r ! j = (if j = i then \<lparr>slot_buffer = b, slot_session = s\<rparr> else r ! j)"
  by (cases "r ! i") (simp add: set_slot_def)

lemma set_slot_one_per_peer:
  assumes ok: "one_per_peer key r" and i: "slot_for key r a = Some i"
    and s: "\<And>t. s = Some t \<Longrightarrow> key t = a"
  shows "one_per_peer key (set_slot i b s r)"
  unfolding one_per_peer_def
proof (intro allI impI)
  fix j k t u
  assume j: "j < length (set_slot i b s r)" and k: "k < length (set_slot i b s r)"
    and h: "slot_session (set_slot i b s r ! j) = Some t \<and> slot_session (set_slot i b s r ! k) = Some u \<and> key t = key u"
  have other: "slot_of key r a = Some l" if "l < length r" "slot_session (r ! l) = Some v" "key v = a" for l v
    using slot_of_eq [OF ok that(1,2)] that(3) by simp
  have "l = i" if "l < length r" "slot_session (r ! l) = Some v" "key v = a" for l v
    using other [OF that] slot_for_old [OF i] by auto
  then show "j = k"
    using j k h s ok unfolding one_per_peer_def
    by (auto simp: nth_set_slot split: if_splits)
qed

lemma entry_of_set_slot:
  assumes ok: "one_per_peer key r" and i: "slot_for key r a = Some i"
    and s: "\<And>t. s = Some t \<Longrightarrow> key t = a"
  shows "entry_of key (set_slot i b s r) = (entry_of key r)(a := map_option (\<lambda>t. (t, b)) s)"
proof (rule ext)
  fix c
  have ok': "one_per_peer key (set_slot i b s r)" by (rule set_slot_one_per_peer [OF ok i s])
  have old: "l = i" if "l < length r" "slot_session (r ! l) = Some v" "key v = a" for l v
    using slot_of_eq [OF ok that(1,2)] that(3) slot_for_old [OF i] by auto
  have free: "key v = a" if "slot_session (r ! i) = Some v" for v
    using slot_for_old [OF i] that slot_of_SomeD(2) by fastforce
  have "entry_of key (set_slot i b s r) c = Some (t, d) \<longleftrightarrow>
      ((entry_of key r)(a := map_option (\<lambda>t. (t, b)) s)) c = Some (t, d)" for t d
  proof (cases "c = a")
    case True
    have "(\<exists>j<length r. set_slot i b s r ! j = \<lparr>slot_buffer = d, slot_session = Some t\<rparr> \<and> key t = a)
        \<longleftrightarrow> s = Some t \<and> b = d"
    proof
      assume "\<exists>j<length r. set_slot i b s r ! j = \<lparr>slot_buffer = d, slot_session = Some t\<rparr> \<and> key t = a"
      then obtain j where j: "j < length r" "set_slot i b s r ! j = \<lparr>slot_buffer = d, slot_session = Some t\<rparr>" "key t = a"
        by blast
      have "j = i"
      proof (rule ccontr)
        assume "j \<noteq> i"
        with j show False using old [of j t] by (simp add: nth_set_slot)
      qed
      with j show "s = Some t \<and> b = d" by (simp add: nth_set_slot)
    next
      assume "s = Some t \<and> b = d"
      with s slot_for_lt [OF i] show "\<exists>j<length r. set_slot i b s r ! j = \<lparr>slot_buffer = d, slot_session = Some t\<rparr> \<and> key t = a"
        by (intro exI [of _ i]) (simp add: nth_set_slot)
    qed
    then show ?thesis using True by (auto simp: entry_of_Some_iff [OF ok'])
  next
    case False
    have "set_slot i b s r ! j = \<lparr>slot_buffer = d, slot_session = Some t\<rparr> \<longleftrightarrow>
        r ! j = \<lparr>slot_buffer = d, slot_session = Some t\<rparr>" if "key t = c" "j < length r" for j
      using s [of t] free [of t] that False by (auto simp: nth_set_slot)
    then show ?thesis using False by (auto simp: entry_of_Some_iff [OF ok'] entry_of_Some_iff [OF ok])
  qed
  then show "entry_of key (set_slot i b s r) c = ((entry_of key r)(a := map_option (\<lambda>t. (t, b)) s)) c"
    by (intro option_eqI) (metis prod.collapse)
qed

lemma slot_for_of_slot: "slot_of key r a = Some i \<Longrightarrow> slot_for key r a = Some i"
  by (simp add: slot_for_def)

text \<open>Capacity: the peers with a session are as many as the slots in use.\<close>

lemma card_dom_entry:
  assumes ok: "one_per_peer key r"
  shows "card (dom (entry_of key r)) = active_sessions r"
proof -
  let ?I = "{i. i < length r \<and> slot_session (r ! i) \<noteq> None}"
  let ?f = "\<lambda>i. key (the (slot_session (r ! i)))"
  have "dom (entry_of key r) = ?f ` ?I"
  proof (intro equalityI subsetI)
    fix a assume "a \<in> dom (entry_of key r)"
    then obtain s b where "entry_of key r a = Some (s, b)" by (auto simp: dom_def)
    then show "a \<in> ?f ` ?I" unfolding entry_of_Some_iff [OF ok] by force
  next
    fix a assume "a \<in> ?f ` ?I"
    then obtain i s where "i < length r" "slot_session (r ! i) = Some s" "a = key s" by auto
    with slot_of_eq [OF ok] show "a \<in> dom (entry_of key r)" by (simp add: entry_of_def dom_def)
  qed
  moreover have "inj_on ?f ?I" using ok by (auto simp: inj_on_def one_per_peer_def)
  moreover have "card ?I = active_sessions r"
    by (simp add: active_sessions_def length_filter_conv_card)
  ultimately show ?thesis by (simp add: card_image)
qed

lemma slot_for_None:
  assumes "one_per_peer key r"
  shows "slot_for key r a = None \<longleftrightarrow> entry_of key r a = None \<and> card (dom (entry_of key r)) = length r"
  unfolding card_dom_entry [OF assms] entry_of_None_iff
  by (auto simp: slot_for_def free_slot_None split: option.splits)

lemma active_le: "active_sessions r \<le> length r"
  by (simp add: active_sessions_def)

lemma is_busy_iff: "is_busy r \<longleftrightarrow> active_sessions r \<noteq> 0"
  by (induction r) (auto simp: is_busy_def active_sessions_def)

lemma new_table_ok [simp]: "one_per_peer key (new_table n k)" "entry_of key (new_table n k) = Map.empty"
proof -
  have idle: "slot_session sl = None" if "sl \<in> set (new_table n k)" for sl :: "'s slot"
    using that by (auto simp: new_table_def split: if_splits)
  then show ok: "one_per_peer key (new_table n k)"
    unfolding one_per_peer_def by (metis nth_mem option.distinct(1))
  show "entry_of key (new_table n k) = Map.empty"
    by (rule ext) (auto simp: entry_of_None_iff slot_of_def position_None idle)
qed

text \<open>
  Updating every session at once, as the timers do: a session is replaced or dropped, and the
  map changes pointwise.
\<close>

definition update_sessions :: "('s \<Rightarrow> 's option) \<Rightarrow> 's table \<Rightarrow> 's table" where
  "update_sessions g r =
     map (\<lambda>sl. sl\<lparr>slot_session := Option.bind (slot_session sl) g\<rparr>) r"

lemma length_update_sessions [simp]: "length (update_sessions g r) = length r"
  by (simp add: update_sessions_def)

lemma reset_eq: "reset r = update_sessions (\<lambda>_. None) r"
  by (simp add: reset_def update_sessions_def)

lemma update_sessions_ok:
  assumes ok: "one_per_peer key r" and g: "\<And>s t. g s = Some t \<Longrightarrow> key t = key s"
  shows "one_per_peer key (update_sessions g r)"
  unfolding one_per_peer_def
proof (intro allI impI)
  fix i j t u
  assume i: "i < length (update_sessions g r)" and j: "j < length (update_sessions g r)"
    and h: "slot_session (update_sessions g r ! i) = Some t \<and> slot_session (update_sessions g r ! j) = Some u \<and> key t = key u"
  from i h obtain s where "slot_session (r ! i) = Some s" "g s = Some t"
    by (auto simp: update_sessions_def bind_eq_Some_conv)
  moreover from j h obtain v where "slot_session (r ! j) = Some v" "g v = Some u"
    by (auto simp: update_sessions_def bind_eq_Some_conv)
  ultimately show "i = j" using ok i j h g unfolding one_per_peer_def by (metis length_update_sessions)
qed

lemma entry_of_update_sessions:
  assumes ok: "one_per_peer key r" and g: "\<And>s t. g s = Some t \<Longrightarrow> key t = key s"
  shows "entry_of key (update_sessions g r) a =
    Option.bind (entry_of key r a) (\<lambda>(s, b). map_option (\<lambda>t. (t, b)) (g s))"
proof -
  note ok' = update_sessions_ok [OF ok g]
  have "entry_of key (update_sessions g r) a = Some (t, d) \<longleftrightarrow>
      (\<exists>s. entry_of key r a = Some (s, d) \<and> g s = Some t)" for t d
  proof
    assume "entry_of key (update_sessions g r) a = Some (t, d)"
    then obtain i where i: "i < length r" "update_sessions g r ! i = \<lparr>slot_buffer = d, slot_session = Some t\<rparr>" "key t = a"
      by (auto simp: entry_of_Some_iff [OF ok'])
    then obtain s where s: "r ! i = \<lparr>slot_buffer = d, slot_session = Some s\<rparr>" "g s = Some t"
      by (cases "r ! i") (auto simp: update_sessions_def bind_eq_Some_conv)
    with i g [OF s(2)] have "entry_of key r a = Some (s, d)" by (auto simp: entry_of_Some_iff [OF ok])
    with s show "\<exists>s. entry_of key r a = Some (s, d) \<and> g s = Some t" by blast
  next
    assume "\<exists>s. entry_of key r a = Some (s, d) \<and> g s = Some t"
    then obtain s i where s: "g s = Some t" and i: "i < length r"
      "r ! i = \<lparr>slot_buffer = d, slot_session = Some s\<rparr>" "key s = a"
      by (auto simp: entry_of_Some_iff [OF ok])
    then have "update_sessions g r ! i = \<lparr>slot_buffer = d, slot_session = Some t\<rparr>"
      by (simp add: update_sessions_def)
    with i g [OF s] show "entry_of key (update_sessions g r) a = Some (t, d)"
      by (auto simp: entry_of_Some_iff [OF ok'])
  qed
  then have "entry_of key (update_sessions g r) a = Some x \<longleftrightarrow>
      Option.bind (entry_of key r a) (\<lambda>(s, b). map_option (\<lambda>t. (t, b)) (g s)) = Some x" for x
    by (cases x) (simp add: bind_eq_Some_conv split_beta)
  then show ?thesis by (rule option_eqI)
qed

lemma abandon_eq:
  assumes "one_per_peer key r"
  shows "one_per_peer key (snd (abandon key a r))"
    and "entry_of key (snd (abandon key a r)) = (entry_of key r)(a := None)"
    and "fst (abandon key a r) = (entry_of key r a \<noteq> None)"
proof -
  have *: "one_per_peer key (snd (abandon key a r)) \<and> entry_of key (snd (abandon key a r)) = (entry_of key r)(a := None)"
  proof (cases "slot_of key r a")
    case None
    then show ?thesis using assms entry_of_None_iff [of key r a] by (simp add: abandon_def fun_upd_idem)
  next
    case (Some i)
    note i = slot_for_of_slot [OF Some]
    show ?thesis
      using set_slot_one_per_peer [OF assms i, of None] entry_of_set_slot [OF assms i, of None]
      by (simp add: abandon_def Some set_session_eq)
  qed
  then show "one_per_peer key (snd (abandon key a r))"
    and "entry_of key (snd (abandon key a r)) = (entry_of key r)(a := None)" by simp_all
  show "fst (abandon key a r) = (entry_of key r a \<noteq> None)"
    using entry_of_None_iff [of key r a] by (auto simp: abandon_def split: option.splits)
qed

lemma length_abandon [simp]: "length (snd (abandon key a r)) = length r"
  by (simp add: abandon_def split: option.splits)

section \<open>Well-formed tables\<close>

definition table_ok :: "('s \<Rightarrow> address) \<Rightarrow> nat \<Rightarrow> ('s \<Rightarrow> bool) \<Rightarrow> 's table \<Rightarrow> bool" where
  "table_ok key n P r \<longleftrightarrow>
     one_per_peer key r \<and> (\<forall>sl \<in> set r. length (slot_buffer sl) = n \<and> pred_option P (slot_session sl))"

lemma table_ok_one [intro]: "table_ok key n P r \<Longrightarrow> one_per_peer key r"
  by (simp add: table_ok_def)

lemma table_ok_new [simp]: "table_ok key n P (new_table n k)"
  unfolding table_ok_def
proof (intro conjI ballI)
  show "one_per_peer key (new_table n k)" by simp
  fix sl :: "'a slot" assume "sl \<in> set (new_table n k)"
  then have "sl = \<lparr>slot_buffer = replicate n 0, slot_session = None\<rparr>"
    unfolding new_table_def by (simp split: if_splits)
  then show "length (slot_buffer sl) = n" and "pred_option P (slot_session sl)" by simp_all
qed

lemma table_ok_buffer: "table_ok key n P r \<Longrightarrow> i < length r \<Longrightarrow> length (slot_buffer (r ! i)) = n"
  by (simp add: table_ok_def)

lemma table_ok_slot_of:
  assumes ok: "table_ok key n P r" and i: "slot_of key r a = Some i"
  obtains s b where "i < length r" and "r ! i = \<lparr>slot_buffer = b, slot_session = Some s\<rparr>"
    and "key s = a" and "length b = n" and "P s" and "entry_of key r a = Some (s, b)"
proof -
  from slot_of_SomeD [OF i] obtain s where s: "i < length r" "slot_session (r ! i) = Some s" "key s = a"
    by auto
  moreover from s(1) ok have "length (slot_buffer (r ! i)) = n" "pred_option P (slot_session (r ! i))"
    by (simp_all add: table_ok_def)
  ultimately show thesis using i that [of "slot_buffer (r ! i)" s]
    by (cases "r ! i") (simp add: entry_of_def)
qed

lemma table_ok_entry: "table_ok key n P r \<Longrightarrow> entry_of key r a = Some (s, b) \<Longrightarrow> key s = a \<and> length b = n \<and> P s"
  by (cases "slot_of key r a") (auto elim: table_ok_slot_of simp: entry_of_None_iff [THEN iffD2])

lemma table_ok_set_slot:
  assumes ok: "table_ok key n P r" and i: "slot_for key r a = Some i"
    and b: "length b = n" and s: "\<And>t. s = Some t \<Longrightarrow> key t = a \<and> P t"
  shows "table_ok key n P (set_slot i b s r)"
    and "entry_of key (set_slot i b s r) = (entry_of key r)(a := map_option (\<lambda>t. (t, b)) s)"
proof -
  have one: "one_per_peer key r" using ok by blast
  have "set (set_slot i b s r) \<subseteq> insert \<lparr>slot_buffer = b, slot_session = s\<rparr> (set r)"
    unfolding set_slot_def by (rule subset_trans [OF set_update_subset_insert]) (cases "r ! i", simp)
  with ok b s have "\<forall>sl \<in> set (set_slot i b s r). length (slot_buffer sl) = n \<and> pred_option P (slot_session sl)"
    unfolding table_ok_def by (cases s) auto
  with set_slot_one_per_peer [OF one i, of s b] s show "table_ok key n P (set_slot i b s r)"
    unfolding table_ok_def by blast
  show "entry_of key (set_slot i b s r) = (entry_of key r)(a := map_option (\<lambda>t. (t, b)) s)"
    using entry_of_set_slot [OF one i, of s b] s by blast
qed

lemma table_ok_set_session:
  assumes "table_ok key n P r" and "slot_for key r a = Some i" and "\<And>t. s = Some t \<Longrightarrow> key t = a \<and> P t"
  shows "table_ok key n P (set_session i s r)"
    and "entry_of key (set_session i s r) = (entry_of key r)(a := map_option (\<lambda>t. (t, slot_buffer (r ! i))) s)"
  using table_ok_set_slot [OF assms(1,2) table_ok_buffer [OF assms(1) slot_for_lt [OF assms(2)]], of s] assms(3)
  by (simp_all add: set_session_eq)

lemma table_ok_abandon: "table_ok key n P r \<Longrightarrow> table_ok key n P (snd (abandon key a r))"
  by (auto simp: abandon_def intro!: table_ok_set_session slot_for_of_slot split: option.splits)

lemma table_ok_update_sessions:
  assumes "table_ok key n P r" and "\<And>s t. P s \<Longrightarrow> g s = Some t \<Longrightarrow> P t"
    and "\<And>s t. g s = Some t \<Longrightarrow> key t = key s"
  shows "table_ok key n P (update_sessions g r)"
proof -
  have "pred_option P (Option.bind s g)" if "pred_option P s" for s
  proof (cases s)
    case (Some u)
    with that show ?thesis by (cases "g u") (simp_all add: assms(2))
  qed simp
  moreover have "one_per_peer key (update_sessions g r)"
    by (rule update_sessions_ok [OF table_ok_one [OF assms(1)] assms(3)])
  ultimately show ?thesis using assms(1) by (simp add: table_ok_def update_sessions_def)
qed

lemma table_ok_reset: "table_ok key n P r \<Longrightarrow> table_ok key n P (reset r)"
  unfolding reset_eq by (erule table_ok_update_sessions) simp_all

lemma entry_of_reset: "table_ok key n P r \<Longrightarrow> entry_of key (reset r) = Map.empty"
  using entry_of_update_sessions [OF table_ok_one, of key n P r "\<lambda>_. None"]
  by (intro ext) (simp add: reset_eq bind_eq_None_conv split_beta)

text \<open>The sessions a timer drops, named by their peers.\<close>

lemma dropped_sessions:
  assumes ok: "table_ok key n P r"
  shows "{f s | s sl. sl \<in> set r \<and> slot_session sl = Some s \<and> D s} =
    {f s | s b a. entry_of key r a = Some (s, b) \<and> D s}"
proof (intro Collect_cong iffI)
  note one = table_ok_one [OF ok]
  fix x assume "\<exists>s sl. x = f s \<and> sl \<in> set r \<and> slot_session sl = Some s \<and> D s"
  then obtain s i where s: "x = f s" "D s" "i < length r" "slot_session (r ! i) = Some s"
    by (auto simp: in_set_conv_nth)
  then have "entry_of key r (key s) = Some (s, slot_buffer (r ! i))"
    unfolding entry_of_Some_iff [OF one] by (intro exI [of _ i]) simp
  with s show "\<exists>s b a. x = f s \<and> entry_of key r a = Some (s, b) \<and> D s" by blast
next
  note one = table_ok_one [OF ok]
  fix x assume "\<exists>s b a. x = f s \<and> entry_of key r a = Some (s, b) \<and> D s"
  then obtain s b i where s: "x = f s" "D s" "i < length r" "r ! i = \<lparr>slot_buffer = b, slot_session = Some s\<rparr>"
    by (auto simp: entry_of_Some_iff [OF one])
  with nth_mem [OF s(3)] show "\<exists>s sl. x = f s \<and> sl \<in> set r \<and> slot_session sl = Some s \<and> D s"
    by (intro exI [of _ s] exI [of _ "r ! i"]) simp
qed

text \<open>A new table has room for everybody, and evaluates by these definitions.\<close>

lemma new_table_room: "0 < k \<Longrightarrow> slot_for key (new_table n k) a \<noteq> None"
  by (cases k) (simp_all add: slot_for_def free_slot_def new_table_def split: option.split)

lemma new_table_no_session [simp]: "slot_of key (new_table n k) a = None"
  using new_table_ok(2) [of key n k] entry_of_None_iff [of key "new_table n k" a] by simp

lemmas table_eval = new_table_def slot_of_def slot_for_def free_slot_def set_session_def set_slot_def

end
