(* ===== verification/Tp_Receive.thy ===== *)
theory Tp_Receive
  imports Tp_Codec Session_Table
begin

text \<open>
  The receive side of the transport protocol: \<^verbatim>\<open>Session\<close>, \<^verbatim>\<open>Rx\<close> and \<^verbatim>\<open>Reassembler\<close> of
  \<^verbatim>\<open>core/src/tp.rs\<close>. The buffer size \<open>N\<close> of the const generic is an argument where the code
  compares with it. A data packet is a step in the option monad: an index out of range, a slice
  whose lengths disagree or an overflowing subtraction would be \<open>None\<close>. The second half states
  what the reassembler promises, a finite map from senders to received prefixes, and shows that
  every operation refines it.
\<close>

section \<open>State and operations\<close>

record rx_session =
  ses_source :: address
  ses_pgn :: pgn
  ses_size :: u16
  ses_packets :: u8
  ses_next_sequence :: u8
  ses_window_remaining :: u8
  ses_max_packets_per_cts :: u8
  ses_broadcast :: bool
  ses_idle_ms :: u16

type_synonym reassembler = "rx_session table"

datatype rx =
    RxIdle
  | RxSend tp_cm
  | RxMessage pgn address bytes "tp_cm option"

definition valid_announcement :: "u16 \<Rightarrow> u8 \<Rightarrow> bool" where
  "valid_announcement sz packets =
     (sz \<ge> TP_MIN_MESSAGE_SIZE \<and> sz \<le> TP_MAX_MESSAGE_SIZE \<and> packets = packet_count sz)"

definition grant_window :: "u8 \<Rightarrow> u8 \<Rightarrow> u8" where
  "grant_window packets max_packets_per_cts =
     (if max_packets_per_cts = 0 \<or> max_packets_per_cts = 0xFF then packets
      else if max_packets_per_cts < packets then max_packets_per_cts
      else packets)"

definition rx_begin ::
  "nat \<Rightarrow> address \<Rightarrow> pgn \<Rightarrow> u16 \<Rightarrow> u8 \<Rightarrow> bool \<Rightarrow> u8 \<Rightarrow> u8 \<Rightarrow> reassembler \<Rightarrow> reassembler" where
  "rx_begin index source p sz packets broadcast window max_packets_per_cts r =
     set_session index
       (Some \<lparr>ses_source = source, ses_pgn = p, ses_size = sz, ses_packets = packets,
              ses_next_sequence = 1, ses_window_remaining = window,
              ses_max_packets_per_cts = max_packets_per_cts, ses_broadcast = broadcast,
              ses_idle_ms = 0\<rparr>) r"

definition rx_on_bam :: "nat \<Rightarrow> address \<Rightarrow> u16 \<Rightarrow> u8 \<Rightarrow> pgn \<Rightarrow> reassembler \<Rightarrow> rx \<times> reassembler" where
  "rx_on_bam N source sz packets p r =
     (if \<not> valid_announcement sz packets \<or> unat sz > N then (RxIdle, snd (abandon ses_source source r))
      else
        (case slot_for ses_source r source of
           None \<Rightarrow> (RxIdle, r)
         | Some index \<Rightarrow> (RxIdle, rx_begin index source p sz packets True packets 0 r)))"

definition rx_in_session :: "address \<Rightarrow> (rx_session \<Rightarrow> bool) \<Rightarrow> reassembler \<Rightarrow> bool" where
  "rx_in_session source P r =
     (case slot_of ses_source r source of
        Some index \<Rightarrow> (case slot_session (r ! index) of Some s \<Rightarrow> P s | None \<Rightarrow> False)
      | None \<Rightarrow> False)"

definition rx_on_rts :: "nat \<Rightarrow> address \<Rightarrow> u16 \<Rightarrow> u8 \<Rightarrow> u8 \<Rightarrow> pgn \<Rightarrow> reassembler \<Rightarrow> rx \<times> reassembler" where
  "rx_on_rts N source sz packets max_packets_per_cts p r =
     (if \<not> valid_announcement sz packets then (RxSend (Abort (OtherReason FILL) p), r)
      else if unat sz > N then (RxSend (Abort ResourcesUnavailable p), r)
      else if rx_in_session source (\<lambda>s. \<not> ses_broadcast s) r then (RxSend (Abort AlreadyInSession p), r)
      else
        (case slot_for ses_source r source of
           None \<Rightarrow> (RxSend (Abort ResourcesUnavailable p), r)
         | Some index \<Rightarrow>
             (let window = grant_window packets max_packets_per_cts
              in (RxSend (Cts window 1 p),
                  rx_begin index source p sz packets False window max_packets_per_cts r))))"

definition rx_on_abort :: "address \<Rightarrow> pgn \<Rightarrow> reassembler \<Rightarrow> rx \<times> reassembler" where
  "rx_on_abort source p r =
     (RxIdle,
      case slot_of ses_source r source of
        Some index \<Rightarrow>
          (case slot_session (r ! index) of
             Some s \<Rightarrow> if ses_pgn s = p then set_session index None r else r
           | None \<Rightarrow> r)
      | None \<Rightarrow> r)"

fun rx_on_tp_cm :: "nat \<Rightarrow> address \<Rightarrow> tp_cm \<Rightarrow> reassembler \<Rightarrow> rx \<times> reassembler" where
  "rx_on_tp_cm N source (Bam sz packets p) r = rx_on_bam N source sz packets p r"
| "rx_on_tp_cm N source (Rts sz packets max_packets_per_cts p) r =
     rx_on_rts N source sz packets max_packets_per_cts p r"
| "rx_on_tp_cm N source (Abort reason p) r = rx_on_abort source p r"
| "rx_on_tp_cm N source (Cts _ _ _) r = (RxIdle, r)"
| "rx_on_tp_cm N source (EndOfMsgAck _ _ _) r = (RxIdle, r)"

definition rx_out_of_order :: "rx_session \<Rightarrow> tp_dt \<Rightarrow> rx" where
  "rx_out_of_order s dt =
     (if ses_broadcast s then RxIdle
      else RxSend (Abort (if dt_sequence dt < ses_next_sequence s then DuplicateSequenceNumber
                          else BadSequenceNumber) (ses_pgn s)))"

text \<open>The expected packet: its slice is copied, then the message is complete or the session advances.\<close>

definition rx_take_packet :: "nat \<Rightarrow> rx_session \<Rightarrow> tp_dt \<Rightarrow> reassembler \<Rightarrow> (rx \<times> reassembler) option" where
  "rx_take_packet index s dt r =
     do { before \<leftarrow> checked_usize_sub (unat (dt_sequence dt)) 1;
          let offset = before * BYTES_PER_PACKET;
          let stop = min (offset + BYTES_PER_PACKET) (unat (ses_size s));
          n \<leftarrow> checked_usize_sub stop offset;
          payload \<leftarrow> slice 0 n (dt_data dt);
          buf \<leftarrow> copy_from_slice offset stop payload (slot_buffer (r ! index));
          if dt_sequence dt = ses_packets s then
            do { message \<leftarrow> slice 0 (unat (ses_size s)) buf;
                 let ack = (if ses_broadcast s then None
                            else Some (EndOfMsgAck (ses_size s) (ses_packets s) (ses_pgn s)));
                 Some (RxMessage (ses_pgn s) (ses_source s) message ack, set_slot index buf None r) }
          else
            do { following \<leftarrow> checked_add (ses_next_sequence s) 1;
                 let s1 = s\<lparr>ses_next_sequence := following,
                            ses_window_remaining := saturating_sub (ses_window_remaining s) 1,
                            ses_idle_ms := 0\<rparr>;
                 if \<not> ses_broadcast s1 \<and> ses_window_remaining s1 = 0 then
                   do { ahead \<leftarrow> checked_sub (ses_packets s1) (ses_next_sequence s1);
                        remaining \<leftarrow> checked_add ahead 1;
                        let window = grant_window remaining (ses_max_packets_per_cts s1);
                        Some (RxSend (Cts window (ses_next_sequence s1) (ses_pgn s1)),
                              set_slot index buf (Some (s1\<lparr>ses_window_remaining := window\<rparr>)) r) }
                 else Some (RxIdle, set_slot index buf (Some s1) r) } }"

definition rx_on_tp_dt :: "address \<Rightarrow> tp_dt \<Rightarrow> reassembler \<Rightarrow> (rx \<times> reassembler) option" where
  "rx_on_tp_dt source dt r =
     (case slot_of ses_source r source of
        None \<Rightarrow> Some (RxIdle, r)
      | Some index \<Rightarrow>
          (case slot_session (r ! index) of
             None \<Rightarrow> Some (RxIdle, r)
           | Some s \<Rightarrow>
               if dt_sequence dt \<noteq> ses_next_sequence s
               then Some (rx_out_of_order s dt, set_session index None r)
               else rx_take_packet index s dt r))"

text \<open>The timer; the calls of the closure \<open>on_timeout\<close> are the list, in their order.\<close>

definition rx_abort_of :: "rx_session \<Rightarrow> address \<times> tp_cm option" where
  "rx_abort_of s =
     (ses_source s, if ses_broadcast s then None else Some (Abort Timeout (ses_pgn s)))"

fun rx_tick_with_timeout ::
  "u16 \<Rightarrow> u16 \<Rightarrow> reassembler \<Rightarrow> (address \<times> tp_cm option) list \<times> reassembler" where
  "rx_tick_with_timeout elapsed_ms timeout_ms [] = ([], [])"
| "rx_tick_with_timeout elapsed_ms timeout_ms (sl # r) =
     (let (calls, r1) = rx_tick_with_timeout elapsed_ms timeout_ms r
      in case slot_session sl of
           None \<Rightarrow> (calls, sl # r1)
         | Some s \<Rightarrow>
             (let idle = saturating_add (ses_idle_ms s) elapsed_ms
              in if idle \<le> timeout_ms
                 then (calls, sl\<lparr>slot_session := Some (s\<lparr>ses_idle_ms := idle\<rparr>)\<rparr> # r1)
                 else (rx_abort_of s # calls, sl\<lparr>slot_session := None\<rparr> # r1)))"

definition rx_tick :: "u16 \<Rightarrow> reassembler \<Rightarrow> (address \<times> tp_cm option) list \<times> reassembler" where
  "rx_tick elapsed_ms = rx_tick_with_timeout elapsed_ms T1_TIMEOUT_MS"

section \<open>Invariant\<close>

text \<open>
  Every session announces a coherent message that fits the buffer, expects a packet of it, and
  holds a window that is open and does not reach past the last packet; a broadcast has no limit, so
  its window is all that is missing.
\<close>

definition rx_session_ok :: "nat \<Rightarrow> rx_session \<Rightarrow> bool" where
  "rx_session_ok N s \<longleftrightarrow>
     valid_announcement (ses_size s) (ses_packets s) \<and> unat (ses_size s) \<le> N \<and>
     1 \<le> unat (ses_next_sequence s) \<and> unat (ses_next_sequence s) \<le> unat (ses_packets s) \<and>
     1 \<le> unat (ses_window_remaining s) \<and>
     unat (ses_next_sequence s) + unat (ses_window_remaining s) \<le> unat (ses_packets s) + 1 \<and>
     (ses_broadcast s \<longrightarrow> unat (ses_next_sequence s) + unat (ses_window_remaining s) = unat (ses_packets s) + 1) \<and>
     Pgn_ok (ses_pgn s)"

definition rx_ok :: "nat \<Rightarrow> reassembler \<Rightarrow> bool" where
  "rx_ok N r = table_ok ses_source N (rx_session_ok N) r"

lemma rx_ok_new: "rx_ok N (new_table N k)"
  by (simp add: rx_ok_def)

lemma announced_packets:
  assumes "valid_announcement sz n"
  shows "9 \<le> unat sz" and "unat sz \<le> 1785" and "unat n = (unat sz + 6) div 7"
    and "(unat n - 1) * 7 < unat sz" and "unat sz \<le> unat n * 7" and "2 \<le> unat n"
  using assms unat_packet_count [of sz] packet_count_covers [of sz]
  unfolding valid_announcement_def by (simp_all add: TP_MIN_MESSAGE_SIZE_def TP_MAX_MESSAGE_SIZE_def unat_iffs)

lemma grant_window_bounds: "1 \<le> unat n \<Longrightarrow> 1 \<le> unat (grant_window n m) \<and> unat (grant_window n m) \<le> unat n"
  by (auto simp: grant_window_def unat_iffs) 

section \<open>What the reassembler promises\<close>

text \<open>
  A transfer as the peer sees it: what was announced and the bytes received so far. The receiver is
  a finite map from senders to transfers with room for \<open>K\<close> of them.
\<close>

record transfer =
  xf_pgn :: pgn
  xf_size :: nat
  xf_data :: bytes
  xf_broadcast :: bool
  xf_window :: nat
  xf_limit :: u8
  xf_idle :: u16

type_synonym receiver = "address \<rightharpoonup> transfer"

definition transfer_of :: "rx_session \<times> bytes \<Rightarrow> transfer" where
  "transfer_of e =
     (case e of (s, b) \<Rightarrow>
       \<lparr>xf_pgn = ses_pgn s, xf_size = unat (ses_size s),
        xf_data = take ((unat (ses_next_sequence s) - 1) * 7) b,
        xf_broadcast = ses_broadcast s, xf_window = unat (ses_window_remaining s),
        xf_limit = ses_max_packets_per_cts s, xf_idle = ses_idle_ms s\<rparr>)"

lemma transfer_of_sel [simp]:
  "xf_pgn (transfer_of (s, b)) = ses_pgn s"
  "xf_size (transfer_of (s, b)) = unat (ses_size s)"
  "xf_data (transfer_of (s, b)) = take ((unat (ses_next_sequence s) - 1) * 7) b"
  "xf_broadcast (transfer_of (s, b)) = ses_broadcast s"
  "xf_window (transfer_of (s, b)) = unat (ses_window_remaining s)"
  "xf_limit (transfer_of (s, b)) = ses_max_packets_per_cts s"
  "xf_idle (transfer_of (s, b)) = ses_idle_ms s"
  by (simp_all add: transfer_of_def)

definition receiver_of :: "reassembler \<Rightarrow> receiver" where
  "receiver_of r = (\<lambda>a. map_option transfer_of (entry_of ses_source r a))"

definition xf_packets :: "transfer \<Rightarrow> nat" where "xf_packets t = (xf_size t + 6) div 7"
definition xf_expected :: "transfer \<Rightarrow> nat" where "xf_expected t = length (xf_data t) div 7 + 1"

definition spec_new :: "pgn \<Rightarrow> u16 \<Rightarrow> bool \<Rightarrow> u8 \<Rightarrow> u8 \<Rightarrow> transfer" where
  "spec_new p sz broadcast window limit =
     \<lparr>xf_pgn = p, xf_size = unat sz, xf_data = [], xf_broadcast = broadcast,
      xf_window = unat window, xf_limit = limit, xf_idle = 0\<rparr>"

definition room_for :: "nat \<Rightarrow> address \<Rightarrow> receiver \<Rightarrow> bool" where
  "room_for K a m = (m a \<noteq> None \<or> card (dom m) \<noteq> K)"

fun spec_on_tp_cm :: "nat \<Rightarrow> nat \<Rightarrow> address \<Rightarrow> tp_cm \<Rightarrow> receiver \<Rightarrow> rx \<times> receiver" where
  "spec_on_tp_cm N K a (Bam sz packets p) m =
     (if \<not> valid_announcement sz packets \<or> unat sz > N then (RxIdle, m(a := None))
      else if room_for K a m then (RxIdle, m(a \<mapsto> spec_new p sz True packets 0))
      else (RxIdle, m))"
| "spec_on_tp_cm N K a (Rts sz packets limit p) m =
     (if \<not> valid_announcement sz packets then (RxSend (Abort (OtherReason FILL) p), m)
      else if unat sz > N then (RxSend (Abort ResourcesUnavailable p), m)
      else if pred_option (\<lambda>t. \<not> xf_broadcast t) (m a) \<and> m a \<noteq> None
        then (RxSend (Abort AlreadyInSession p), m)
      else if room_for K a m
        then (RxSend (Cts (grant_window packets limit) 1 p),
              m(a \<mapsto> spec_new p sz False (grant_window packets limit) limit))
      else (RxSend (Abort ResourcesUnavailable p), m))"
| "spec_on_tp_cm N K a (Abort reason p) m =
     (RxIdle, case m a of Some t \<Rightarrow> if xf_pgn t = p then m(a := None) else m | None \<Rightarrow> m)"
| "spec_on_tp_cm N K a _ m = (RxIdle, m)"

definition spec_refusal :: "transfer \<Rightarrow> tp_dt \<Rightarrow> rx" where
  "spec_refusal t dt =
     (if xf_broadcast t then RxIdle
      else RxSend (Abort (if unat (dt_sequence dt) < xf_expected t then DuplicateSequenceNumber
                          else BadSequenceNumber) (xf_pgn t)))"

definition spec_deliver :: "address \<Rightarrow> transfer \<Rightarrow> bytes \<Rightarrow> rx" where
  "spec_deliver a t data =
     RxMessage (xf_pgn t) a data
       (if xf_broadcast t then None
        else Some (EndOfMsgAck (word_of_nat (xf_size t)) (word_of_nat (xf_packets t)) (xf_pgn t)))"

definition spec_on_tp_dt :: "address \<Rightarrow> tp_dt \<Rightarrow> receiver \<Rightarrow> rx \<times> receiver" where
  "spec_on_tp_dt a dt m =
     (case m a of
        None \<Rightarrow> (RxIdle, m)
      | Some t \<Rightarrow>
          if unat (dt_sequence dt) \<noteq> xf_expected t then (spec_refusal t dt, m(a := None))
          else
            (let data = take (xf_size t) (xf_data t @ dt_data dt);
                 t1 = t\<lparr>xf_data := data, xf_window := xf_window t - 1, xf_idle := 0\<rparr>
             in if length data = xf_size t then (spec_deliver a t data, m(a := None))
                else if \<not> xf_broadcast t \<and> xf_window t = 1 then
                  (let window = grant_window (word_of_nat (xf_packets t - xf_expected t)) (xf_limit t)
                   in (RxSend (Cts window (word_of_nat (xf_expected t + 1)) (xf_pgn t)),
                       m(a \<mapsto> t1\<lparr>xf_window := unat window\<rparr>)))
                else (RxIdle, m(a \<mapsto> t1))))"

definition spec_tick :: "u16 \<Rightarrow> u16 \<Rightarrow> receiver \<Rightarrow> receiver" where
  "spec_tick elapsed timeout m =
     (\<lambda>a. Option.bind (m a) (\<lambda>t. let idle = saturating_add (xf_idle t) elapsed
        in if idle \<le> timeout then Some (t\<lparr>xf_idle := idle\<rparr>) else None))"

section \<open>Refinement\<close>

lemma rx_slotE:
  assumes "rx_ok N r" and "slot_of ses_source r a = Some i"
  obtains s b where "i < length r" and "r ! i = \<lparr>slot_buffer = b, slot_session = Some s\<rparr>"
    and "ses_source s = a" and "length b = N" and "rx_session_ok N s"
    and "receiver_of r a = Some (transfer_of (s, b))"
  using table_ok_slot_of [OF assms(1) [unfolded rx_ok_def] assms(2)]
  by (metis receiver_of_def option.simps(9))

lemma receiver_of_None: "receiver_of r a = None \<longleftrightarrow> slot_of ses_source r a = None"
  by (simp add: receiver_of_def entry_of_None_iff)

lemma receiver_of_new [simp]: "receiver_of (new_table N k) = Map.empty"
  by (rule ext) (simp add: receiver_of_def)

lemma dom_receiver_of: "dom (receiver_of r) = dom (entry_of ses_source r)"
  by (auto simp: receiver_of_def)

lemma room_for_iff:
  assumes "rx_ok N r"
  shows "room_for (length r) a (receiver_of r) \<longleftrightarrow> slot_for ses_source r a \<noteq> None"
  using slot_for_None [OF table_ok_one [OF assms [unfolded rx_ok_def]], of a]
  by (simp add: room_for_def dom_receiver_of receiver_of_None entry_of_None_iff)

lemma receiver_capacity: "rx_ok N r \<Longrightarrow> card (dom (receiver_of r)) \<le> length r"
  unfolding dom_receiver_of using active_le [of r] by (simp add: rx_ok_def card_dom_entry table_ok_one)

lemma rx_set_slot:
  assumes "rx_ok N r" and "slot_for ses_source r a = Some i" and "length b = N"
    and "\<And>t. s = Some t \<Longrightarrow> ses_source t = a \<and> rx_session_ok N t"
  shows "rx_ok N (set_slot i b s r)"
    and "receiver_of (set_slot i b s r) = (receiver_of r)(a := map_option (\<lambda>t. transfer_of (t, b)) s)"
  using table_ok_set_slot [OF assms(1) [unfolded rx_ok_def] assms(2-4)]
  by (auto simp: rx_ok_def receiver_of_def fun_eq_iff option.map_comp comp_def)

lemma rx_drop:
  assumes "rx_ok N r" and "slot_of ses_source r a = Some i"
  shows "rx_ok N (set_session i None r)" and "receiver_of (set_session i None r) = (receiver_of r)(a := None)"
proof -
  have len: "length (slot_buffer (r ! i)) = N"
    using table_ok_buffer slot_of_SomeD(1) [OF assms(2)] assms(1) unfolding rx_ok_def by blast
  show "rx_ok N (set_session i None r)" and "receiver_of (set_session i None r) = (receiver_of r)(a := None)"
    unfolding set_session_eq
    using rx_set_slot [OF assms(1) slot_for_of_slot [OF assms(2)] len, where s = None] by simp_all
qed

lemma rx_abandon:
  assumes "rx_ok N r"
  shows "rx_ok N (snd (abandon ses_source a r))"
    and "receiver_of (snd (abandon ses_source a r)) = (receiver_of r)(a := None)"
  using assms abandon_eq(2) [OF table_ok_one, of ses_source N "rx_session_ok N" r a]
  by (auto simp: rx_ok_def receiver_of_def fun_eq_iff intro: table_ok_abandon)

lemma rx_begin_refines:
  assumes r: "rx_ok N r" and i: "slot_for ses_source r a = Some i" and an: "valid_announcement sz packets"
    and sz: "unat sz \<le> N" and p: "Pgn_ok p" and w: "1 \<le> unat w" "unat w \<le> unat packets"
    and bc: "bc \<longrightarrow> w = packets"
  shows "rx_ok N (rx_begin i a p sz packets bc w limit r)"
    and "receiver_of (rx_begin i a p sz packets bc w limit r) = (receiver_of r)(a \<mapsto> spec_new p sz bc w limit)"
proof -
  let ?s = "\<lparr>ses_source = a, ses_pgn = p, ses_size = sz, ses_packets = packets, ses_next_sequence = 1,
      ses_window_remaining = w, ses_max_packets_per_cts = limit, ses_broadcast = bc, ses_idle_ms = 0\<rparr>"
  have len: "length (slot_buffer (r ! i)) = N"
    using table_ok_buffer r slot_for_lt [OF i] unfolding rx_ok_def by blast
  have ok: "rx_session_ok N ?s"
    using announced_packets(6) [OF an] an sz p w bc by (auto simp: rx_session_ok_def)
  have eq: "rx_begin i a p sz packets bc w limit r = set_slot i (slot_buffer (r ! i)) (Some ?s) r"
    by (simp add: rx_begin_def set_session_eq)
  have xf: "transfer_of (?s, slot_buffer (r ! i)) = spec_new p sz bc w limit"
    by (simp add: transfer_of_def spec_new_def)
  show "rx_ok N (rx_begin i a p sz packets bc w limit r)"
    unfolding eq by (rule rx_set_slot(1) [OF r i len]) (use ok in auto)
  show "receiver_of (rx_begin i a p sz packets bc w limit r) = (receiver_of r)(a \<mapsto> spec_new p sz bc w limit)"
    unfolding eq using rx_set_slot(2) [OF r i len, of "Some ?s"] ok xf by auto
qed

text \<open>A session is in use exactly when the map has a transfer; its predicates carry over.\<close>

lemma rx_in_session_iff:
  assumes "rx_ok N r" and "\<And>s b. P s = Q (transfer_of (s, b))"
  shows "rx_in_session a P r \<longleftrightarrow> (\<exists>t. receiver_of r a = Some t \<and> Q t)"
proof (cases "slot_of ses_source r a")
  case None
  moreover from None have "receiver_of r a = None" by (simp add: receiver_of_None)
  ultimately show ?thesis by (simp add: rx_in_session_def)
next
  case (Some i)
  obtain s b where "r ! i = \<lparr>slot_buffer = b, slot_session = Some s\<rparr>" "receiver_of r a = Some (transfer_of (s, b))"
    by (rule rx_slotE [OF assms(1) Some])
  with Some assms(2) show ?thesis by (simp add: rx_in_session_def)
qed

lemma rx_on_bam_refines:
  assumes r: "rx_ok N r" and p: "Pgn_ok p"
  shows "rx_ok N (snd (rx_on_bam N a sz packets p r))"
    and "spec_on_tp_cm N (length r) a (Bam sz packets p) (receiver_of r) =
      map_prod id receiver_of (rx_on_bam N a sz packets p r)"
proof -
  have "rx_ok N (snd (rx_on_bam N a sz packets p r)) \<and>
    spec_on_tp_cm N (length r) a (Bam sz packets p) (receiver_of r) =
      map_prod id receiver_of (rx_on_bam N a sz packets p r)"
  proof (cases "\<not> valid_announcement sz packets \<or> unat sz > N")
    case True
    with rx_abandon [OF r] show ?thesis by (auto simp: rx_on_bam_def)
  next
    case False
    show ?thesis
    proof (cases "slot_for ses_source r a")
      case None
      with False r room_for_iff [OF r, of a] show ?thesis by (auto simp: rx_on_bam_def)
    next
      case (Some i)
      from False have an: "valid_announcement sz packets" and sz: "unat sz \<le> N" by simp_all
      have w: "1 \<le> unat packets" using announced_packets(6) [OF an] by simp
      from rx_begin_refines [OF r Some an sz p w order_refl, where bc = True and limit = 0] False Some room_for_iff [OF r, of a]
      show ?thesis by (auto simp: rx_on_bam_def)
    qed
  qed
  then show "rx_ok N (snd (rx_on_bam N a sz packets p r))"
    and "spec_on_tp_cm N (length r) a (Bam sz packets p) (receiver_of r) =
      map_prod id receiver_of (rx_on_bam N a sz packets p r)" by simp_all
qed

lemma rx_on_rts_refines:
  assumes r: "rx_ok N r" and p: "Pgn_ok p"
  shows "rx_ok N (snd (rx_on_rts N a sz packets limit p r)) \<and>
    spec_on_tp_cm N (length r) a (Rts sz packets limit p) (receiver_of r) =
      map_prod id receiver_of (rx_on_rts N a sz packets limit p r)"
proof -
  have sess: "rx_in_session a (\<lambda>s. \<not> ses_broadcast s) r \<longleftrightarrow>
      pred_option (\<lambda>t. \<not> xf_broadcast t) (receiver_of r a) \<and> receiver_of r a \<noteq> None"
    by (subst rx_in_session_iff [OF r, where Q = "\<lambda>t. \<not> xf_broadcast t"])
      (auto simp: transfer_of_def)
  consider (bad) "\<not> valid_announcement sz packets" | (big) "valid_announcement sz packets" "unat sz > N"
    | (busy) "valid_announcement sz packets" "unat sz \<le> N" "rx_in_session a (\<lambda>s. \<not> ses_broadcast s) r"
    | (full) "valid_announcement sz packets" "unat sz \<le> N" "\<not> rx_in_session a (\<lambda>s. \<not> ses_broadcast s) r"
        "slot_for ses_source r a = None"
    | (granted) i where "valid_announcement sz packets" "unat sz \<le> N" "\<not> rx_in_session a (\<lambda>s. \<not> ses_broadcast s) r"
        "slot_for ses_source r a = Some i"
    by (cases "slot_for ses_source r a") force+
  then show ?thesis
  proof cases
    case bad
    with r show ?thesis by (simp add: rx_on_rts_def)
  next
    case big
    with r show ?thesis by (simp add: rx_on_rts_def)
  next
    case busy
    with r sess show ?thesis by (simp add: rx_on_rts_def)
  next
    case full
    with r room_for_iff [OF r, of a] show ?thesis
      by (simp add: rx_on_rts_def sess del: spec_on_tp_cm.simps) (simp add: sess)
  next
    case (granted i)
    have w: "1 \<le> unat (grant_window packets limit)" "unat (grant_window packets limit) \<le> unat packets"
      using grant_window_bounds [of packets limit] announced_packets(6) [OF granted(1)] by simp_all
    from rx_begin_refines [OF r granted(4,1,2) p w, where bc = False and limit = limit] granted r room_for_iff [OF r, of a]
    show ?thesis by (simp add: rx_on_rts_def sess Let_def)
  qed
qed

lemma rx_on_abort_refines:
  assumes r: "rx_ok N r"
  shows "rx_ok N (snd (rx_on_abort a p r)) \<and>
    spec_on_tp_cm N (length r) a (Abort reason p) (receiver_of r) = map_prod id receiver_of (rx_on_abort a p r)"
proof (cases "slot_of ses_source r a")
  case None
  moreover from None have "receiver_of r a = None" by (simp add: receiver_of_None)
  ultimately show ?thesis using r by (simp add: rx_on_abort_def)
next
  case (Some i)
  obtain s b where s: "r ! i = \<lparr>slot_buffer = b, slot_session = Some s\<rparr>" "receiver_of r a = Some (transfer_of (s, b))"
    by (rule rx_slotE [OF r Some])
  have "xf_pgn (transfer_of (s, b)) = ses_pgn s" by (simp add: transfer_of_def)
  with s Some r rx_drop [OF r Some] show ?thesis by (simp add: rx_on_abort_def)
qed

lemma length_rx_begin [simp]: "length (rx_begin i a p sz packets bc w limit r) = length r"
  by (simp add: rx_begin_def)

lemma length_rx_on_tp_cm [simp]: "length (snd (rx_on_tp_cm N a cm r)) = length r"
  by (cases cm)
    (simp_all add: rx_on_bam_def rx_on_rts_def rx_on_abort_def Let_def split: option.split)

lemma rx_on_tp_cm_refines:
  assumes "rx_ok N r" and "TpCm_ok cm"
  shows "rx_ok N (snd (rx_on_tp_cm N a cm r))"
    and "spec_on_tp_cm N (length r) a cm (receiver_of r) = map_prod id receiver_of (rx_on_tp_cm N a cm r)"
proof -
  from assms(2) have p: "Pgn_ok (TpCm_pgn cm)" by (simp add: TpCm_ok_def)
  have "rx_ok N (snd (rx_on_tp_cm N a cm r)) \<and>
    spec_on_tp_cm N (length r) a cm (receiver_of r) = map_prod id receiver_of (rx_on_tp_cm N a cm r)"
    using assms(1) p
    by (cases cm)
      (simp_all add: rx_on_bam_refines rx_on_rts_refines rx_on_abort_refines del: spec_on_tp_cm.simps(1-3))
  then show "rx_ok N (snd (rx_on_tp_cm N a cm r))"
    and "spec_on_tp_cm N (length r) a cm (receiver_of r) = map_prod id receiver_of (rx_on_tp_cm N a cm r)"
    by simp_all
qed

text \<open>The expected packet: the bytes it adds and the window it uses.\<close>

lemma transfer_of_facts:
  assumes "rx_session_ok N s" and "length b = N"
  shows "length (xf_data (transfer_of (s, b))) = (unat (ses_next_sequence s) - 1) * 7"
    and "xf_expected (transfer_of (s, b)) = unat (ses_next_sequence s)"
    and "xf_packets (transfer_of (s, b)) = unat (ses_packets s)"
    and "(unat (ses_next_sequence s) - 1) * 7 < unat (ses_size s)"
proof -
  from assms(1) have an: "valid_announcement (ses_size s) (ses_packets s)"
    and q: "1 \<le> unat (ses_next_sequence s)" "unat (ses_next_sequence s) \<le> unat (ses_packets s)"
    and N: "unat (ses_size s) \<le> N"
    by (simp_all add: rx_session_ok_def)
  from q announced_packets(3) [OF an] announced_packets(1) [OF an]
  show off: "(unat (ses_next_sequence s) - 1) * 7 < unat (ses_size s)" by linarith
  show len: "length (xf_data (transfer_of (s, b))) = (unat (ses_next_sequence s) - 1) * 7"
    using off N assms(2) by (simp add: transfer_of_def)
  show "xf_expected (transfer_of (s, b)) = unat (ses_next_sequence s)"
    unfolding xf_expected_def len using q(1) by simp
  show "xf_packets (transfer_of (s, b)) = unat (ses_packets s)"
    by (simp add: xf_packets_def transfer_of_def announced_packets(3) [OF an])
qed

text \<open>The session after its packet, and the window it is granted when the last one is used up.\<close>

lemma advanced_session:
  assumes ok: "rx_session_ok N s" and more: "ses_next_sequence s \<noteq> ses_packets s"
  defines "q \<equiv> unat (ses_next_sequence s)" and "n \<equiv> unat (ses_packets s)"
  shows "checked_add (ses_next_sequence s) 1 = Some (ses_next_sequence s + 1)"
    and "unat (ses_next_sequence s + 1) = q + 1" and "q < n"
    and "checked_sub (ses_packets s) (ses_next_sequence s + 1) = Some (ses_packets s - (ses_next_sequence s + 1))"
    and "checked_add (ses_packets s - (ses_next_sequence s + 1)) 1 = Some (word_of_nat (n - q))"
    and "unat (word_of_nat (n - q) :: u8) = n - q"
proof -
  from ok more show q: "q < n" by (simp add: rx_session_ok_def q_def n_def word_unat_eq_iff)
  have n: "n < 256" unfolding n_def by (rule unat_u8_lt)
  show "checked_add (ses_next_sequence s) 1 = Some (ses_next_sequence s + 1)"
    by (rule checked_add_defined) (use q n in \<open>simp add: q_def\<close>)
  show next_eq: "unat (ses_next_sequence s + 1) = q + 1"
    using unat_add_no_wrap [of "ses_next_sequence s" 1] q n by (simp add: q_def)
  then have le: "ses_next_sequence s + 1 \<le> ses_packets s" using q by (simp add: word_le_nat_alt n_def)
  then show "checked_sub (ses_packets s) (ses_next_sequence s + 1) = Some (ses_packets s - (ses_next_sequence s + 1))"
    by (rule checked_sub_defined)
  have d: "unat (ses_packets s - (ses_next_sequence s + 1)) = n - (q + 1)"
    using unat_sub_no_wrap [OF le] next_eq by (simp add: n_def)
  show u: "unat (word_of_nat (n - q) :: u8) = n - q"
    using n by (simp add: unat_word_of_nat)
  have "unat (ses_packets s - (ses_next_sequence s + 1) + 1) = n - q"
    using unat_add_no_wrap [of "ses_packets s - (ses_next_sequence s + 1)" 1] d q n by simp
  then have "ses_packets s - (ses_next_sequence s + 1) + 1 = word_of_nat (n - q)"
    using u by (simp add: word_unat_eq_iff)
  then show "checked_add (ses_packets s - (ses_next_sequence s + 1)) 1 = Some (word_of_nat (n - q))"
    using d n q by (simp add: checked_add_def)
qed

lemma rx_take_last:
  assumes s: "rx_session_ok N s" and b: "length b = N" and dt: "TpDt_ok dt"
    and slot: "r ! i = \<lparr>slot_buffer = b, slot_session = Some s\<rparr>"
    and q: "dt_sequence dt = ses_next_sequence s" and last: "ses_next_sequence s = ses_packets s"
  defines "t \<equiv> transfer_of (s, b)"
  obtains buf where "length buf = N" and "length (take (xf_size t) (xf_data t @ dt_data dt)) = xf_size t"
    and "rx_take_packet i s dt r =
      Some (spec_deliver (ses_source s) t (take (xf_size t) (xf_data t @ dt_data dt)), set_slot i buf None r)"
proof -
  let ?off = "(unat (ses_next_sequence s) - 1) * 7" and ?z = "unat (ses_size s)"
  note facts = transfer_of_facts [OF s b]
  from s have an: "valid_announcement (ses_size s) (ses_packets s)" and N: "?z \<le> N"
    and pos: "1 \<le> unat (ses_next_sequence s)" by (simp_all add: rx_session_ok_def)
  have d: "length (dt_data dt) = 7" using dt by (simp add: TpDt_ok_def BYTES_PER_PACKET_def)
  have stop: "min (?off + 7) ?z = ?z" using announced_packets(5) [OF an] last pos by simp
  note bytes = take_packet_bytes [OF facts(4) N [folded b] d, unfolded stop]
  let ?buf = "write_slice ?off (take (?z - ?off) (dt_data dt)) b"
  have data: "take ?z ?buf = take (xf_size t) (xf_data t @ dt_data dt)"
    unfolding bytes(4) by (simp add: t_def transfer_of_def)
  have "length (take ?z ?buf) = xf_size t" using bytes(3) N b by (simp add: t_def transfer_of_def)
  moreover have "rx_take_packet i s dt r =
      Some (spec_deliver (ses_source s) t (take ?z ?buf), set_slot i ?buf None r)"
    using bytes(1-3) N b pos stop last facts(3,4) slot q
    by (simp add: rx_take_packet_def checked_usize_sub_def BYTES_PER_PACKET_def Let_def slice_def
        spec_deliver_def t_def)
  ultimately show thesis using that [of ?buf, folded data] bytes(3) b by simp
qed

lemma rx_take_more:
  assumes s: "rx_session_ok N s" and b: "length b = N" and dt: "TpDt_ok dt"
    and slot: "r ! i = \<lparr>slot_buffer = b, slot_session = Some s\<rparr>"
    and q: "dt_sequence dt = ses_next_sequence s" and more: "ses_next_sequence s \<noteq> ses_packets s"
  defines "t \<equiv> transfer_of (s, b)"
  defines "data \<equiv> take (xf_size t) (xf_data t @ dt_data dt)"
  defines "w \<equiv> grant_window (word_of_nat (xf_packets t - xf_expected t)) (xf_limit t)"
  defines "again \<equiv> \<not> xf_broadcast t \<and> xf_window t = 1"
  defines "t1 \<equiv> t\<lparr>xf_data := data, xf_window := xf_window t - 1, xf_idle := 0\<rparr>"
  obtains buf s1 where "length buf = N" and "rx_session_ok N s1" and "ses_source s1 = ses_source s"
    and "length data \<noteq> xf_size t"
    and "transfer_of (s1, buf) = (if again then t1\<lparr>xf_window := unat w\<rparr> else t1)"
    and "rx_take_packet i s dt r = Some
      (if again then RxSend (Cts w (word_of_nat (xf_expected t + 1)) (xf_pgn t)) else RxIdle,
       set_slot i buf (Some s1) r)"
proof -
  let ?off = "(unat (ses_next_sequence s) - 1) * 7" and ?z = "unat (ses_size s)"
  let ?buf = "write_slice ?off (take 7 (dt_data dt)) b"
  note facts = transfer_of_facts [OF s b] and adv = advanced_session [OF s more]
  from s have an: "valid_announcement (ses_size s) (ses_packets s)" and N: "?z \<le> N"
    and pos: "1 \<le> unat (ses_next_sequence s)" and win: "1 \<le> unat (ses_window_remaining s)"
      "unat (ses_next_sequence s) + unat (ses_window_remaining s) \<le> unat (ses_packets s) + 1"
    and bc: "ses_broadcast s \<longrightarrow> unat (ses_next_sequence s) + unat (ses_window_remaining s) = unat (ses_packets s) + 1"
    and p: "Pgn_ok (ses_pgn s)"
    by (simp_all add: rx_session_ok_def)
  have d: "length (dt_data dt) = 7" using dt by (simp add: TpDt_ok_def BYTES_PER_PACKET_def)
  have full: "?off + 7 = unat (ses_next_sequence s) * 7" using pos by simp
  have lt: "?off + 7 < ?z" using adv(3) announced_packets(3,4) [OF an] full by linarith
  then have stop: "min (?off + 7) ?z = ?off + 7" by simp
  note bytes = take_packet_bytes [OF facts(4) N [folded b] d, unfolded stop add_diff_cancel_left']
  let ?s1 = "s\<lparr>ses_next_sequence := ses_next_sequence s + 1,
      ses_window_remaining := saturating_sub (ses_window_remaining s) 1, ses_idle_ms := 0\<rparr>"
  have w1: "unat (saturating_sub (ses_window_remaining s) 1) = unat (ses_window_remaining s) - 1"
    by (simp add: unat_saturating_sub)
  have data: "take (unat (ses_next_sequence s) * 7) ?buf = data"
    using bytes(4) unfolding full by (simp add: data_def t_def)
  have len: "length data \<noteq> xf_size t"
    using lt facts(1) d by (simp add: data_def t_def transfer_of_def)
  have wq: "w = grant_window (word_of_nat (unat (ses_packets s) - unat (ses_next_sequence s))) (ses_max_packets_per_cts s)"
    using facts(2,3) by (simp add: w_def t_def)
  have next_eq: "word_of_nat (xf_expected t + 1) = ses_next_sequence s + 1"
    using facts(2) by (simp add: t_def)
  have zero: "saturating_sub (ses_window_remaining s) 1 = 0 \<longleftrightarrow> unat (ses_window_remaining s) = 1"
    using w1 win(1) by (auto simp: word_unat_eq_iff)
  have xf1: "transfer_of (?s1, ?buf) = t1"
    using data adv(2) w1 by (simp add: transfer_of_def t1_def t_def)
  have head: "rx_take_packet i s dt r =
      (if \<not> ses_broadcast s \<and> saturating_sub (ses_window_remaining s) 1 = 0
       then Some (RxSend (Cts w (ses_next_sequence s + 1) (ses_pgn s)),
              set_slot i ?buf (Some (?s1\<lparr>ses_window_remaining := w\<rparr>)) r)
       else Some (RxIdle, set_slot i ?buf (Some ?s1) r))"
    using bytes(1,2) pos stop facts(4) q more slot adv(1,4,5) wq
    by (simp add: rx_take_packet_def checked_usize_sub_def BYTES_PER_PACKET_def Let_def)
  show thesis
  proof (cases again)
    case True
    then have ag: "\<not> ses_broadcast s" "unat (ses_window_remaining s) = 1"
      by (simp_all add: again_def t_def transfer_of_def)
    have wb: "1 \<le> unat w" "unat w \<le> unat (ses_packets s) - unat (ses_next_sequence s)"
      using grant_window_bounds [of "word_of_nat (unat (ses_packets s) - unat (ses_next_sequence s))"
          "ses_max_packets_per_cts s"] adv(3,6) unfolding wq by simp_all
    have ok: "rx_session_ok N (?s1\<lparr>ses_window_remaining := w\<rparr>)"
      using an N p adv(2,3) wb ag(1) by (auto simp: rx_session_ok_def)
    have xf: "transfer_of (?s1\<lparr>ses_window_remaining := w\<rparr>, ?buf) = t1\<lparr>xf_window := unat w\<rparr>"
      using xf1 [symmetric] by (simp add: transfer_of_def)
    show thesis
      by (rule that [of ?buf "?s1\<lparr>ses_window_remaining := w\<rparr>"])
        (use True ag zero ok xf head len bytes(3) b next_eq in \<open>simp_all add: t_def transfer_of_def\<close>)
  next
    case False
    then have ag: "ses_broadcast s \<or> unat (ses_window_remaining s) \<noteq> 1"
      by (simp add: again_def t_def transfer_of_def)
    have ok: "rx_session_ok N ?s1"
      using an N p adv(2,3) win w1 ag bc by (auto simp: rx_session_ok_def)
    show thesis
      by (rule that [of ?buf ?s1])
        (use False ag zero ok xf1 head len bytes(3) b in \<open>simp_all\<close>)
  qed
qed

lemma spec_on_tp_dt_expected:
  assumes "m a = Some t" and "unat (dt_sequence dt) = xf_expected t"
  defines "data \<equiv> take (xf_size t) (xf_data t @ dt_data dt)"
  defines "t1 \<equiv> t\<lparr>xf_data := data, xf_window := xf_window t - 1, xf_idle := 0\<rparr>"
  defines "w \<equiv> grant_window (word_of_nat (xf_packets t - xf_expected t)) (xf_limit t)"
  defines "again \<equiv> \<not> xf_broadcast t \<and> xf_window t = 1"
  shows "length data = xf_size t \<Longrightarrow> spec_on_tp_dt a dt m = (spec_deliver a t data, m(a := None))"
    and "length data \<noteq> xf_size t \<Longrightarrow> spec_on_tp_dt a dt m =
      (if again then RxSend (Cts w (word_of_nat (xf_expected t + 1)) (xf_pgn t)) else RxIdle,
       m(a \<mapsto> if again then t1\<lparr>xf_window := unat w\<rparr> else t1))"
proof -
  have "spec_on_tp_dt a dt m =
      (if length data = xf_size t then (spec_deliver a t data, m(a := None))
       else if again then (RxSend (Cts w (word_of_nat (xf_expected t + 1)) (xf_pgn t)), m(a \<mapsto> t1\<lparr>xf_window := unat w\<rparr>))
       else (RxIdle, m(a \<mapsto> t1)))"
    unfolding spec_on_tp_dt_def assms(1) option.case assms(2) Let_def data_def t1_def w_def again_def
    by (simp only: simp_thms if_False)
  then show "length data = xf_size t \<Longrightarrow> spec_on_tp_dt a dt m = (spec_deliver a t data, m(a := None))"
    and "length data \<noteq> xf_size t \<Longrightarrow> spec_on_tp_dt a dt m =
      (if again then RxSend (Cts w (word_of_nat (xf_expected t + 1)) (xf_pgn t)) else RxIdle,
       m(a \<mapsto> if again then t1\<lparr>xf_window := unat w\<rparr> else t1))" by simp_all
qed

lemma rx_on_tp_dt_refines:
  assumes r: "rx_ok N r" and dt: "TpDt_ok dt"
  obtains out r1 where "rx_on_tp_dt a dt r = Some (out, r1)" and "rx_ok N r1" and "length r1 = length r"
    and "spec_on_tp_dt a dt (receiver_of r) = (out, receiver_of r1)"
proof (cases "slot_of ses_source r a")
  case None
  then have "receiver_of r a = None" by (simp add: receiver_of_None)
  with None r that [of RxIdle r] show thesis by (simp add: rx_on_tp_dt_def spec_on_tp_dt_def)
next
  case (Some i)
  obtain s b where i: "i < length r" and slot: "r ! i = \<lparr>slot_buffer = b, slot_session = Some s\<rparr>"
    and src: "ses_source s = a" and b: "length b = N" and s: "rx_session_ok N s"
    and xf: "receiver_of r a = Some (transfer_of (s, b))"
    by (rule rx_slotE [OF r Some])
  let ?t = "transfer_of (s, b)"
  note expected = transfer_of_facts(2) [OF s b] and slot_for = slot_for_of_slot [OF Some]
  show thesis
  proof (cases "dt_sequence dt = ses_next_sequence s")
    case False
    then have "unat (dt_sequence dt) \<noteq> xf_expected ?t" using expected by (simp add: word_unat_eq_iff)
    then have "spec_on_tp_dt a dt (receiver_of r) = (rx_out_of_order s dt, receiver_of (set_session i None r))"
      using rx_drop(2) [OF r Some] xf expected
      by (simp add: spec_on_tp_dt_def spec_refusal_def rx_out_of_order_def word_less_nat_alt)
    with False Some slot rx_drop(1) [OF r Some] show thesis
      by (intro that [of "rx_out_of_order s dt" "set_session i None r"]) (simp_all add: rx_on_tp_dt_def)
  next
    case True
    with Some slot have step: "rx_on_tp_dt a dt r = rx_take_packet i s dt r"
      by (simp add: rx_on_tp_dt_def)
    have q: "unat (dt_sequence dt) = xf_expected ?t" using True expected by simp
    let ?data = "take (xf_size ?t) (xf_data ?t @ dt_data dt)"
    show thesis
    proof (cases "ses_next_sequence s = ses_packets s")
      case last: True
      obtain buf where buf: "length buf = N" "length ?data = xf_size ?t"
        "rx_take_packet i s dt r = Some (spec_deliver a ?t ?data, set_slot i buf None r)"
        by (rule rx_take_last [OF s b dt slot True last]) (simp add: src)
      show thesis
      proof (rule that)
        show "rx_on_tp_dt a dt r = Some (spec_deliver a ?t ?data, set_slot i buf None r)"
          unfolding step buf(3) ..
        show "rx_ok N (set_slot i buf None r)" by (rule rx_set_slot(1) [OF r slot_for buf(1)]) simp
        show "spec_on_tp_dt a dt (receiver_of r) = (spec_deliver a ?t ?data, receiver_of (set_slot i buf None r))"
          unfolding spec_on_tp_dt_expected(1) [where m = "receiver_of r", OF xf q buf(2)]
            rx_set_slot(2) [OF r slot_for buf(1), of None, simplified] ..
      qed simp
    next
      case more: False
      obtain buf s1 where buf: "length buf = N" "rx_session_ok N s1" "ses_source s1 = ses_source s"
        "length ?data \<noteq> xf_size ?t"
        "transfer_of (s1, buf) =
          (if \<not> xf_broadcast ?t \<and> xf_window ?t = 1
           then ?t\<lparr>xf_data := ?data, xf_window := xf_window ?t - 1, xf_idle := 0\<rparr>
             \<lparr>xf_window := unat (grant_window (word_of_nat (xf_packets ?t - xf_expected ?t)) (xf_limit ?t))\<rparr>
           else ?t\<lparr>xf_data := ?data, xf_window := xf_window ?t - 1, xf_idle := 0\<rparr>)"
        "rx_take_packet i s dt r = Some
          (if \<not> xf_broadcast ?t \<and> xf_window ?t = 1
           then RxSend (Cts (grant_window (word_of_nat (xf_packets ?t - xf_expected ?t)) (xf_limit ?t))
                  (word_of_nat (xf_expected ?t + 1)) (xf_pgn ?t))
           else RxIdle, set_slot i buf (Some s1) r)"
        by (rule rx_take_more [OF s b dt slot True more])
      have s1: "ses_source t = a \<and> rx_session_ok N t" if "Some s1 = Some t" for t
        using that buf(2,3) src by simp
      have eq: "receiver_of (set_slot i buf (Some s1) r) = (receiver_of r)(a \<mapsto> transfer_of (s1, buf))"
        using rx_set_slot(2) [OF r slot_for buf(1), of "Some s1"] s1 by (simp del: transfer_of_sel)
      show thesis
      proof (rule that)
        show "rx_on_tp_dt a dt r = Some
          (if \<not> xf_broadcast ?t \<and> xf_window ?t = 1
           then RxSend (Cts (grant_window (word_of_nat (xf_packets ?t - xf_expected ?t)) (xf_limit ?t))
                  (word_of_nat (xf_expected ?t + 1)) (xf_pgn ?t))
           else RxIdle, set_slot i buf (Some s1) r)"
          unfolding step buf(6) ..
        show "rx_ok N (set_slot i buf (Some s1) r)" by (rule rx_set_slot(1) [OF r slot_for buf(1) s1])
        show "spec_on_tp_dt a dt (receiver_of r) =
          (if \<not> xf_broadcast ?t \<and> xf_window ?t = 1
           then RxSend (Cts (grant_window (word_of_nat (xf_packets ?t - xf_expected ?t)) (xf_limit ?t))
                  (word_of_nat (xf_expected ?t + 1)) (xf_pgn ?t))
           else RxIdle, receiver_of (set_slot i buf (Some s1) r))"
          unfolding spec_on_tp_dt_expected(2) [where m = "receiver_of r", OF xf q buf(4)]
            eq buf(5) ..
      qed simp
    qed
  qed
qed

text \<open>The timer is the pointwise update of the sessions, and its calls name the ones it drops.\<close>

definition rx_aged :: "u16 \<Rightarrow> u16 \<Rightarrow> rx_session \<Rightarrow> rx_session option" where
  "rx_aged elapsed timeout s =
     (let idle = saturating_add (ses_idle_ms s) elapsed
      in if idle \<le> timeout then Some (s\<lparr>ses_idle_ms := idle\<rparr>) else None)"

lemma rx_aged_SomeD:
  "rx_aged elapsed timeout s = Some t \<Longrightarrow> ses_source t = ses_source s \<and> (rx_session_ok N s \<longrightarrow> rx_session_ok N t)"
  by (auto simp: rx_aged_def Let_def rx_session_ok_def split: if_splits)

lemma rx_tick_state: "snd (rx_tick_with_timeout elapsed timeout r) = update_sessions (rx_aged elapsed timeout) r"
  by (induction r)
    (auto simp: update_sessions_def rx_aged_def Let_def split_beta split: option.split)

lemma rx_tick_calls:
  "set (fst (rx_tick_with_timeout elapsed timeout r)) =
     {rx_abort_of s | s sl. sl \<in> set r \<and> slot_session sl = Some s \<and> rx_aged elapsed timeout s = None}"
proof (induction r)
  case Nil
  then show ?case by simp
next
  case (Cons sl r)
  then show ?case
    by (cases "slot_session sl") (auto simp: rx_aged_def Let_def split_beta)
qed

text \<open>A tick reports in the order of the slots, each session once.\<close>

lemma rx_tick_calls_list:
  "fst (rx_tick_with_timeout elapsed timeout r) =
     map rx_abort_of (filter (\<lambda>s. rx_aged elapsed timeout s = None) (List.map_filter slot_session r))"
proof (induction r)
  case (Cons sl r)
  then show ?case
    by (cases "slot_session sl") (auto simp: rx_aged_def Let_def split_beta map_filter_simps)
qed (simp add: map_filter_simps)

lemma rx_tick_once:
  assumes "rx_ok N r"
  shows "distinct (map fst (fst (rx_tick_with_timeout elapsed timeout r)))"
proof -
  have "distinct (map ses_source (List.map_filter slot_session r))"
    using sessions_distinct [OF table_ok_one] assms unfolding rx_ok_def by blast
  then have "distinct (map ses_source (filter P (List.map_filter slot_session r)))" for P
    by (rule distinct_map_filter)
  then show ?thesis by (simp add: rx_tick_calls_list comp_def rx_abort_of_def)
qed

lemma spec_tick_None:
  "spec_tick elapsed timeout m a = None \<longleftrightarrow> (\<forall>t. m a = Some t \<longrightarrow> timeout < saturating_add (xf_idle t) elapsed)"
  by (cases "m a") (auto simp: spec_tick_def Let_def)

lemma rx_tick_drops:
  assumes r: "rx_ok N r"
  shows "set (fst (rx_tick_with_timeout elapsed timeout r)) =
    {(a, if xf_broadcast t then None else Some (Abort Timeout (xf_pgn t))) | a t.
       receiver_of r a = Some t \<and> spec_tick elapsed timeout (receiver_of r) a = None}" (is "?C = ?D")
proof -
  have aged: "rx_aged elapsed timeout s = None \<longleftrightarrow> timeout < saturating_add (ses_idle_ms s) elapsed" for s
    by (auto simp: rx_aged_def Let_def)
  have "?C = {rx_abort_of s | s b a. entry_of ses_source r a = Some (s, b) \<and> rx_aged elapsed timeout s = None}"
    unfolding rx_tick_calls by (rule dropped_sessions [OF r [unfolded rx_ok_def]])
  also have "\<dots> = ?D"
  proof (intro Collect_cong iffI)
    fix x assume "\<exists>s b a. x = rx_abort_of s \<and> entry_of ses_source r a = Some (s, b) \<and> rx_aged elapsed timeout s = None"
    then obtain s b a where e: "x = rx_abort_of s" "entry_of ses_source r a = Some (s, b)" "rx_aged elapsed timeout s = None"
      by blast
    with table_ok_entry [OF r [unfolded rx_ok_def] e(2)]
    show "\<exists>a t. x = (a, if xf_broadcast t then None else Some (Abort Timeout (xf_pgn t))) \<and>
        receiver_of r a = Some t \<and> spec_tick elapsed timeout (receiver_of r) a = None"
      by (intro exI [of _ a] exI [of _ "transfer_of (s, b)"])
        (simp add: rx_abort_of_def receiver_of_def spec_tick_None aged)
  next
    fix x assume "\<exists>a t. x = (a, if xf_broadcast t then None else Some (Abort Timeout (xf_pgn t))) \<and>
        receiver_of r a = Some t \<and> spec_tick elapsed timeout (receiver_of r) a = None"
    then obtain a s b where e: "x = (a, if ses_broadcast s then None else Some (Abort Timeout (ses_pgn s)))"
      "entry_of ses_source r a = Some (s, b)" "rx_aged elapsed timeout s = None"
      by (auto simp: receiver_of_def spec_tick_None aged cong: if_cong)
    with table_ok_entry [OF r [unfolded rx_ok_def] e(2)]
    show "\<exists>s b a. x = rx_abort_of s \<and> entry_of ses_source r a = Some (s, b) \<and> rx_aged elapsed timeout s = None"
      by (intro exI [of _ s] exI [of _ b] exI [of _ a]) (simp add: rx_abort_of_def)
  qed
  finally show ?thesis .
qed

lemma rx_tick_refines:
  assumes r: "rx_ok N r"
  shows "rx_ok N (snd (rx_tick_with_timeout elapsed timeout r))"
    and "receiver_of (snd (rx_tick_with_timeout elapsed timeout r)) = spec_tick elapsed timeout (receiver_of r)"
proof -
  have ok: "table_ok ses_source N (rx_session_ok N) r" using r by (simp add: rx_ok_def)
  have src: "ses_source t = ses_source s" if "rx_aged elapsed timeout s = Some t" for s t
    using rx_aged_SomeD [OF that] by simp
  have "table_ok ses_source N (rx_session_ok N) (update_sessions (rx_aged elapsed timeout) r)"
    by (rule table_ok_update_sessions [OF ok _ src]) (use rx_aged_SomeD in blast)
  then show "rx_ok N (snd (rx_tick_with_timeout elapsed timeout r))"
    by (simp add: rx_ok_def rx_tick_state)
  show "receiver_of (snd (rx_tick_with_timeout elapsed timeout r)) = spec_tick elapsed timeout (receiver_of r)"
  proof
    fix a
    have "map_option transfer_of (Option.bind e (\<lambda>(s, b). map_option (\<lambda>t. (t, b)) (rx_aged elapsed timeout s)))
        = Option.bind (map_option transfer_of e) (\<lambda>t. let idle = saturating_add (xf_idle t) elapsed
             in if idle \<le> timeout then Some (t\<lparr>xf_idle := idle\<rparr>) else None)" for e
      by (cases e) (auto simp: rx_aged_def Let_def transfer_of_def split: prod.splits)
    then show "receiver_of (snd (rx_tick_with_timeout elapsed timeout r)) a = spec_tick elapsed timeout (receiver_of r) a"
      unfolding rx_tick_state receiver_of_def spec_tick_def
        entry_of_update_sessions [where key = ses_source and g = "rx_aged elapsed timeout", OF table_ok_one [OF ok] src, simplified] .
  qed
qed

section \<open>The reassembler as a machine\<close>

text \<open>The calls a node makes, in any order. The output is the answer and the calls of \<open>on_timeout\<close>.\<close>

datatype rx_event =
    RxCm address tp_cm
  | RxDt address tp_dt
  | RxTick u16 u16
  | RxAbandon address
  | RxReset

type_synonym rx_output = "rx \<times> (address \<times> tp_cm option) list"

fun rx_step :: "nat \<Rightarrow> rx_event \<Rightarrow> reassembler \<Rightarrow> (rx_output \<times> reassembler) option" where
  "rx_step N (RxCm a cm) r = (let (out, r1) = rx_on_tp_cm N a cm r in Some ((out, []), r1))"
| "rx_step N (RxDt a dt) r = do { (out, r1) \<leftarrow> rx_on_tp_dt a dt r; Some ((out, []), r1) }"
| "rx_step N (RxTick elapsed timeout) r =
     (let (calls, r1) = rx_tick_with_timeout elapsed timeout r in Some ((RxIdle, calls), r1))"
| "rx_step N (RxAbandon a) r = Some ((RxIdle, []), snd (abandon ses_source a r))"
| "rx_step N RxReset r = Some ((RxIdle, []), reset r)"

primrec rx_admissible :: "rx_event \<Rightarrow> bool" where
  "rx_admissible (RxCm a cm) = TpCm_ok cm"
| "rx_admissible (RxDt a dt) = TpDt_ok dt"
| "rx_admissible (RxTick e t) = True"
| "rx_admissible (RxAbandon a) = True"
| "rx_admissible RxReset = True"

primrec rx_concerns :: "rx_event \<Rightarrow> address \<Rightarrow> bool" where
  "rx_concerns (RxCm a cm) p = (a = p)"
| "rx_concerns (RxDt a dt) p = (a = p)"
| "rx_concerns (RxTick e t) p = True"
| "rx_concerns (RxAbandon a) p = (a = p)"
| "rx_concerns RxReset p = True"

fun spec_step :: "nat \<Rightarrow> nat \<Rightarrow> rx_event \<Rightarrow> receiver \<Rightarrow> rx \<times> receiver" where
  "spec_step N K (RxCm a cm) m = spec_on_tp_cm N K a cm m"
| "spec_step N K (RxDt a dt) m = spec_on_tp_dt a dt m"
| "spec_step N K (RxTick elapsed timeout) m = (RxIdle, spec_tick elapsed timeout m)"
| "spec_step N K (RxAbandon a) m = (RxIdle, m(a := None))"
| "spec_step N K RxReset m = (RxIdle, Map.empty)"

lemma rx_step_refines:
  assumes "rx_ok N r" and "rx_admissible e"
  obtains out calls r1 where "rx_step N e r = Some ((out, calls), r1)" and "rx_ok N r1"
    and "length r1 = length r" and "spec_step N (length r) e (receiver_of r) = (out, receiver_of r1)"
proof (cases e)
  case (RxCm a cm)
  with assms rx_on_tp_cm_refines [of N r cm a] length_rx_on_tp_cm [of N a cm r] that show thesis
    by (cases "rx_on_tp_cm N a cm r") simp
next
  case (RxDt a dt)
  with assms(2) have dt: "TpDt_ok dt" by simp
  obtain out r1 where "rx_on_tp_dt a dt r = Some (out, r1)" "rx_ok N r1" "length r1 = length r"
    "spec_on_tp_dt a dt (receiver_of r) = (out, receiver_of r1)"
    by (rule rx_on_tp_dt_refines [OF assms(1) dt])
  with RxDt that show thesis by simp
next
  case (RxTick elapsed timeout)
  moreover have "length (snd (rx_tick_with_timeout elapsed timeout r)) = length r"
    by (simp add: rx_tick_state)
  ultimately show thesis using rx_tick_refines [OF assms(1), of elapsed timeout] that
    by (cases "rx_tick_with_timeout elapsed timeout r") simp
next
  case (RxAbandon a)
  with rx_abandon [OF assms(1), of a] that show thesis by simp
next
  case RxReset
  have "rx_ok N (reset r)" using assms(1) by (simp add: rx_ok_def table_ok_reset)
  moreover have "receiver_of (reset r) = Map.empty"
    using entry_of_reset [OF assms(1) [unfolded rx_ok_def]] by (simp add: receiver_of_def)
  moreover have "length (reset r) = length r" by (simp add: reset_def)
  ultimately show thesis using RxReset that by simp
qed

lemma spec_step_isolated: "\<not> rx_concerns e p \<Longrightarrow> snd (spec_step N K e m) p = m p"
proof (cases e)
  case (RxCm a cm)
  then show "\<not> rx_concerns e p \<Longrightarrow> ?thesis" by (cases cm) (auto split: option.split)
next
  case (RxDt a dt)
  then show "\<not> rx_concerns e p \<Longrightarrow> ?thesis" by (auto simp: spec_on_tp_dt_def Let_def split: option.split)
qed simp_all

interpretation receiving: peer_machine "rx_step N" "rx_ok N" rx_admissible receiver_of rx_concerns for N
proof
  show "\<exists>out s'. rx_step N e s = Some (out, s') \<and> rx_ok N s'" if "rx_ok N s" "rx_admissible e" for s e
    using that by (metis rx_step_refines)
  show "receiver_of s' p = receiver_of s p"
    if "rx_ok N s" "rx_admissible e" "rx_step N e s = Some (out, s')" "\<not> rx_concerns e p" for s e out s' p
    using that spec_step_isolated [OF that(4), of N "length s" "receiver_of s"]
    by (metis rx_step_refines option.inject prod.inject snd_conv)
qed

text \<open>The abstract machine, and the simulation over any list of calls.\<close>

fun spec_run :: "nat \<Rightarrow> nat \<Rightarrow> rx_event list \<Rightarrow> receiver \<Rightarrow> rx list \<times> receiver" where
  "spec_run N K [] m = ([], m)"
| "spec_run N K (e # es) m =
     (let (out, m1) = spec_step N K e m; (outs, m2) = spec_run N K es m1 in (out # outs, m2))"

lemma rx_run_refines:
  "rx_ok N r \<Longrightarrow> list_all rx_admissible es \<Longrightarrow>
     \<exists>outs r1. run_machine (rx_step N) es r = Some (outs, r1) \<and> rx_ok N r1 \<and> length r1 = length r \<and>
       spec_run N (length r) es (receiver_of r) = (map fst outs, receiver_of r1)"
proof (induction es arbitrary: r)
  case Nil
  then show ?case by simp
next
  case (Cons e es)
  then have adm: "rx_admissible e" "list_all rx_admissible es" by simp_all
  obtain out calls r1 where st: "rx_step N e r = Some ((out, calls), r1)" "rx_ok N r1" "length r1 = length r"
    "spec_step N (length r) e (receiver_of r) = (out, receiver_of r1)"
    by (rule rx_step_refines [OF Cons.prems(1) adm(1)])
  from Cons.IH [OF st(2) adm(2)] obtain outs r2 where "run_machine (rx_step N) es r1 = Some (outs, r2)"
    "rx_ok N r2" "length r2 = length r1" "spec_run N (length r1) es (receiver_of r1) = (map fst outs, receiver_of r2)"
    by blast
  with st show ?case by (intro exI [of _ "(out, calls) # outs"] exI [of _ r2]) simp
qed

lemma new_table_idle [simp]: "\<not> rx_in_session a P (new_table N k)"
  by (simp add: rx_in_session_def)

lemmas rx_eval = rx_on_bam_def rx_on_rts_def rx_in_session_def rx_begin_def valid_announcement_def
  packet_count_def div_ceil_def TP_MIN_MESSAGE_SIZE_def TP_MAX_MESSAGE_SIZE_def BYTES_PER_PACKET_def
  grant_window_def rx_abort_of_def

end
