(* ===== verification/Tp_Send.thy ===== *)
theory Tp_Send
  imports Tp_Codec
begin

text \<open>
  The send side of the transport protocol: \<^verbatim>\<open>Tx\<close> and \<^verbatim>\<open>Transmitter\<close> of \<^verbatim>\<open>core/src/tp.rs\<close>. Pulling a
  packet is a step in the option monad, where a slice out of range or an overflow is \<open>None\<close>. The
  lemmas give the packet each call yields, the window a CTS opens, and the whole sequence of
  packets that \<open>while let Some(dt) = tx.next_packet()\<close> pulls.
\<close>

datatype tx =
    TxIdle
  | TxSendData
  | TxComplete
  | TxAborted abort_reason

record transmitter =
  tx_pgn :: pgn
  tx_data :: bytes
  tx_packets :: u8
  tx_next_sequence :: u16
  tx_window_remaining :: u8
  tx_broadcast :: bool
  tx_complete :: bool
  tx_max_packets_per_cts :: u8

definition Transmitter_build :: "pgn \<Rightarrow> bytes \<Rightarrow> bool \<Rightarrow> transmitter j1939_result" where
  "Transmitter_build p data broadcast =
     (let sz = length data
      in if sz < unat TP_MIN_MESSAGE_SIZE \<or> sz > unat TP_MAX_MESSAGE_SIZE
         then Inl (InvalidMessageSize (word_of_nat (min sz 65535)))
         else
           (let packets = packet_count (word_of_nat sz)
            in Inr \<lparr>tx_pgn = p, tx_data = data, tx_packets = packets, tx_next_sequence = 1,
                    tx_window_remaining = (if broadcast then packets else 0),
                    tx_broadcast = broadcast, tx_complete = False, tx_max_packets_per_cts = 0xFF\<rparr>))"

definition Transmitter_broadcast :: "pgn \<Rightarrow> bytes \<Rightarrow> transmitter j1939_result" where
  "Transmitter_broadcast p data = Transmitter_build p data True"

definition Transmitter_addressed :: "pgn \<Rightarrow> bytes \<Rightarrow> transmitter j1939_result" where
  "Transmitter_addressed p data = Transmitter_build p data False"

definition with_max_packets_per_cts :: "u8 \<Rightarrow> transmitter \<Rightarrow> transmitter" where
  "with_max_packets_per_cts m tx = tx\<lparr>tx_max_packets_per_cts := m\<rparr>"

definition tx_start :: "transmitter \<Rightarrow> tp_cm" where
  "tx_start tx =
     (let sz = word_of_nat (length (tx_data tx))
      in if tx_broadcast tx then Bam sz (tx_packets tx) (tx_pgn tx)
         else Rts sz (tx_packets tx) (tx_max_packets_per_cts tx) (tx_pgn tx))"

text \<open>The subtraction and addition of the CTS branch are checked as the code's are.\<close>

definition tx_on_tp_cm :: "tp_cm \<Rightarrow> transmitter \<Rightarrow> (tx \<times> transmitter) option" where
  "tx_on_tp_cm cm tx =
     (if TpCm_pgn cm \<noteq> tx_pgn tx then Some (TxIdle, tx)
      else
        (case cm of
           Cts packets next_packet _ \<Rightarrow>
             if packets = 0 then Some (TxIdle, tx)
             else if next_packet = 0 \<or> next_packet > tx_packets tx then Some (TxIdle, tx)
             else
               do { ahead \<leftarrow> checked_sub (tx_packets tx) next_packet;
                    left \<leftarrow> checked_add ahead 1;
                    Some (TxSendData,
                          tx\<lparr>tx_next_sequence := ucast next_packet, tx_window_remaining := min packets left\<rparr>) }
         | EndOfMsgAck _ _ _ \<Rightarrow> Some (TxComplete, tx\<lparr>tx_complete := True\<rparr>)
         | Abort reason _ \<Rightarrow> Some (TxAborted reason, tx)
         | Rts _ _ _ _ \<Rightarrow> Some (TxIdle, tx)
         | Bam _ _ _ \<Rightarrow> Some (TxIdle, tx)))"

definition tx_next_packet :: "transmitter \<Rightarrow> (tp_dt option \<times> transmitter) option" where
  "tx_next_packet tx =
     (if tx_window_remaining tx = 0 \<or> tx_next_sequence tx > ucast (tx_packets tx) then Some (None, tx)
      else
        do { let sequence = tx_next_sequence tx;
             before \<leftarrow> checked_usize_sub (unat sequence) 1;
             let offset = before * BYTES_PER_PACKET;
             let stop = min (offset + BYTES_PER_PACKET) (length (tx_data tx));
             payload \<leftarrow> slice offset stop (tx_data tx);
             let packet = TpDt_new (ucast sequence) payload;
             following \<leftarrow> checked_add (tx_next_sequence tx) 1;
             window \<leftarrow> checked_sub (tx_window_remaining tx) 1;
             Some (Some packet,
                   tx\<lparr>tx_next_sequence := following, tx_window_remaining := window,
                      tx_complete := (tx_complete tx \<or> (tx_broadcast tx \<and> following > ucast (tx_packets tx)))\<rparr>) })"

section \<open>Invariant\<close>

definition tx_ok :: "transmitter \<Rightarrow> bool" where
  "tx_ok tx \<longleftrightarrow>
     9 \<le> length (tx_data tx) \<and> length (tx_data tx) \<le> 1785 \<and>
     unat (tx_packets tx) = (length (tx_data tx) + 6) div 7 \<and>
     1 \<le> unat (tx_next_sequence tx) \<and>
     unat (tx_next_sequence tx) + unat (tx_window_remaining tx) \<le> unat (tx_packets tx) + 1"

lemma build_InlI:
  "length data < 9 \<or> 1785 < length data \<Longrightarrow>
     Transmitter_build p data bc = Inl (InvalidMessageSize (word_of_nat (min (length data) 65535)))"
  by (auto simp: Transmitter_build_def TP_MIN_MESSAGE_SIZE_def TP_MAX_MESSAGE_SIZE_def)

lemma packet_count_length:
  assumes "n \<le> 1785"
  shows "unat (word_of_nat n :: u16) = n" and "unat (packet_count (word_of_nat n)) = (n + 6) div 7"
proof -
  show u: "unat (word_of_nat n :: u16) = n" using assms by (simp add: unat_word_of_nat)
  then have "(word_of_nat n :: u16) \<le> TP_MAX_MESSAGE_SIZE"
    using assms by (simp add: word_le_nat_alt TP_MAX_MESSAGE_SIZE_def)
  from unat_packet_count [OF this] u show "unat (packet_count (word_of_nat n)) = (n + 6) div 7" by simp
qed

lemma build_InrD:
  assumes "Transmitter_build p data bc = Inr tx"
  shows "tx_ok tx" and "tx_pgn tx = p" and "tx_data tx = data" and "tx_broadcast tx = bc"
    and "tx_next_sequence tx = 1" and "\<not> tx_complete tx" and "tx_packets tx = packet_count (word_of_nat (length data))"
    and "tx_window_remaining tx = (if bc then tx_packets tx else 0)" and "9 \<le> length data" and "length data \<le> 1785"
proof -
  from assms have l: "9 \<le> length data" "length data \<le> 1785"
    by (auto simp: Transmitter_build_def TP_MIN_MESSAGE_SIZE_def TP_MAX_MESSAGE_SIZE_def Let_def split: if_splits)
  with assms have tx: "tx = \<lparr>tx_pgn = p, tx_data = data, tx_packets = packet_count (word_of_nat (length data)),
      tx_next_sequence = 1, tx_window_remaining = (if bc then packet_count (word_of_nat (length data)) else 0),
      tx_broadcast = bc, tx_complete = False, tx_max_packets_per_cts = 0xFF\<rparr>"
    by (simp add: Transmitter_build_def TP_MIN_MESSAGE_SIZE_def TP_MAX_MESSAGE_SIZE_def Let_def)
  show "9 \<le> length data" and "length data \<le> 1785" by (fact l)+
  show "tx_ok tx" using l packet_count_length [OF l(2)] by (simp add: tx tx_ok_def)
  show "tx_pgn tx = p" and "tx_data tx = data" and "tx_broadcast tx = bc"
    and "tx_next_sequence tx = 1" and "\<not> tx_complete tx" and "tx_packets tx = packet_count (word_of_nat (length data))"
    and "tx_window_remaining tx = (if bc then tx_packets tx else 0)"
    by (simp_all add: tx)
qed

lemma build_defined: "9 \<le> length data \<Longrightarrow> length data \<le> 1785 \<Longrightarrow> \<exists>tx. Transmitter_build p data bc = Inr tx"
  by (simp add: Transmitter_build_def TP_MIN_MESSAGE_SIZE_def TP_MAX_MESSAGE_SIZE_def Let_def)

lemma with_max_ok [simp]: "tx_ok (with_max_packets_per_cts m tx) = tx_ok tx"
  by (simp add: tx_ok_def with_max_packets_per_cts_def)

section \<open>The packets\<close>

text \<open>Packet \<open>k\<close> (from 1) of a message: its sequence number and its seven bytes, padded at the end.\<close>

definition packet_of :: "bytes \<Rightarrow> nat \<Rightarrow> tp_dt" where
  "packet_of data k = TpDt_new (word_of_nat k) (take 7 (drop ((k - 1) * 7) data))"

lemma packet_of_ok [simp]: "TpDt_ok (packet_of data k)"
  by (simp add: packet_of_def)

lemma packet_of_sequence: "dt_sequence (packet_of data k) = word_of_nat k"
  by (simp add: packet_of_def TpDt_new_def Let_def)

lemma packet_of_data:
  assumes "1 \<le> k"
  shows "take (length data) (take ((k - 1) * 7) data @ dt_data (packet_of data k)) = take (k * 7) data"
proof -
  let ?off = "(k - 1) * 7" and ?rest = "drop ((k - 1) * 7) data"
  have k: "k * 7 = ?off + 7" using assms by simp
  have new: "take n (dt_data (packet_of data k)) = take n ?rest" if "n \<le> length ?rest" "n \<le> 7" for n
    using that TpDt_new_take [of n "take 7 ?rest"] by (simp add: packet_of_def min_def)
  have len: "length (dt_data (packet_of data k)) = 7"
    using packet_of_ok [of data k] by (simp add: TpDt_ok_def BYTES_PER_PACKET_def)
  show ?thesis
  proof (cases "length data \<le> ?off")
    case True
    then show ?thesis using k by simp
  next
    case False
    then have "take (length data) (take ?off data @ dt_data (packet_of data k))
        = take ?off data @ take (min 7 (length ?rest)) (dt_data (packet_of data k))"
      using len by (simp add: min_def)
    also have "\<dots> = take ?off data @ take (min 7 (length ?rest)) ?rest"
      by (subst new) simp_all
    also have "\<dots> = take (?off + 7) data" by (simp add: take_add min_def)
    finally show ?thesis unfolding k .
  qed
qed

definition tx_advanced :: "transmitter \<Rightarrow> transmitter" where
  "tx_advanced tx =
     tx\<lparr>tx_next_sequence := tx_next_sequence tx + 1, tx_window_remaining := tx_window_remaining tx - 1,
        tx_complete := (tx_complete tx \<or> (tx_broadcast tx \<and> unat (tx_next_sequence tx) = unat (tx_packets tx)))\<rparr>"

lemma tx_next_packet_None:
  "tx_window_remaining tx = 0 \<Longrightarrow> tx_next_packet tx = Some (None, tx)"
  by (simp add: tx_next_packet_def)

lemma tx_next_packet_Some:
  assumes ok: "tx_ok tx" and w: "tx_window_remaining tx \<noteq> 0"
  shows "tx_next_packet tx = Some (Some (packet_of (tx_data tx) (unat (tx_next_sequence tx))), tx_advanced tx)"
    and "tx_ok (tx_advanced tx)"
    and "unat (tx_next_sequence (tx_advanced tx)) = unat (tx_next_sequence tx) + 1"
    and "unat (tx_window_remaining (tx_advanced tx)) = unat (tx_window_remaining tx) - 1"
proof -
  let ?q = "unat (tx_next_sequence tx)" and ?n = "unat (tx_packets tx)"
  let ?off = "(?q - 1) * 7" and ?d = "tx_data tx"
  have w1: "1 \<le> unat (tx_window_remaining tx)" using w by (simp add: word_unat_eq_iff)
  from ok have q: "1 \<le> ?q" and n: "?n = (length ?d + 6) div 7" and qw: "?q + unat (tx_window_remaining tx) \<le> ?n + 1"
    by (simp_all add: tx_ok_def)
  have qn: "?q \<le> ?n" using qw w1 by linarith
  have n256: "?n < 256" by (rule unat_u8_lt)
  have le: "\<not> tx_next_sequence tx > ucast (tx_packets tx)"
    using qn n256 by (simp add: word_less_nat_alt unat_ucast_widen)
  have off: "?off < length ?d" using qn q n by linarith
  have nx: "unat (tx_next_sequence tx + 1) = ?q + 1"
    using unat_add_no_wrap [of "tx_next_sequence tx" 1] qn n256 by simp
  have wx: "unat (tx_window_remaining tx - 1) = unat (tx_window_remaining tx) - 1"
    using w1 unat_sub_no_wrap [of 1 "tx_window_remaining tx"] by (simp add: word_le_nat_alt)
  have sl: "slice ?off (min (?off + 7) (length ?d)) ?d = Some (take 7 (drop ?off ?d))"
    using off by (auto simp: slice_def min_def)
  have fin: "tx_next_sequence tx + 1 > ucast (tx_packets tx) \<longleftrightarrow> ?q = ?n"
    using qn nx n256 by (auto simp: word_less_nat_alt unat_ucast_widen)
  have c1: "checked_add (tx_next_sequence tx) 1 = Some (tx_next_sequence tx + 1)"
    using qn n256 by (intro checked_add_defined) simp
  have c2: "checked_sub (tx_window_remaining tx) 1 = Some (tx_window_remaining tx - 1)"
    using w1 by (intro checked_sub_defined) (simp add: word_le_nat_alt)
  show "tx_next_packet tx = Some (Some (packet_of ?d ?q), tx_advanced tx)"
    using w le q c1 c2 sl
    by (simp add: tx_next_packet_def checked_usize_sub_def BYTES_PER_PACKET_def Let_def packet_of_def
        tx_advanced_def fin)
  show "tx_ok (tx_advanced tx)"
    using ok nx wx w1 qw by (simp add: tx_ok_def tx_advanced_def)
  show "unat (tx_next_sequence (tx_advanced tx)) = ?q + 1"
    and "unat (tx_window_remaining (tx_advanced tx)) = unat (tx_window_remaining tx) - 1"
    using nx wx by (simp_all add: tx_advanced_def)
qed

lemma tx_next_packet_total:
  assumes "tx_ok tx"
  shows "\<exists>p tx1. tx_next_packet tx = Some (p, tx1) \<and> tx_ok tx1"
  using assms tx_next_packet_None [of tx] tx_next_packet_Some [of tx]
  by (cases "tx_window_remaining tx = 0") auto

text \<open>A CTS that asks for packets of the message opens a window that ends with the message.\<close>

lemma tx_on_cts:
  assumes ok: "tx_ok tx" and p: "p = tx_pgn tx" and n: "n \<noteq> 0" and q: "q \<noteq> 0" "q \<le> tx_packets tx"
  defines "w \<equiv> min (unat n) (unat (tx_packets tx) - unat q + 1)"
  obtains tx1 where "tx_on_tp_cm (Cts n q p) tx = Some (TxSendData, tx1)" and "tx_ok tx1"
    and "tx1 = tx\<lparr>tx_next_sequence := ucast q, tx_window_remaining := word_of_nat w\<rparr>"
    and "unat (tx_next_sequence tx1) = unat q" and "unat (tx_window_remaining tx1) = w"
proof -
  have q1: "1 \<le> unat q" "unat q \<le> unat (tx_packets tx)" using q by (simp_all add: word_unat_eq_iff word_le_nat_alt)
  have n1: "1 \<le> unat n" using n by (simp add: word_unat_eq_iff)
  have lt: "unat (tx_packets tx) < 256" by (rule unat_u8_lt)
  have d: "unat (tx_packets tx - q) = unat (tx_packets tx) - unat q" by (rule unat_sub_no_wrap [OF q(2)])
  have s: "unat (tx_packets tx - q + 1) = unat (tx_packets tx) - unat q + 1"
    using unat_add_no_wrap [of "tx_packets tx - q" 1] d lt q1 by simp
  have c: "checked_sub (tx_packets tx) q = Some (tx_packets tx - q)"
      "checked_add (tx_packets tx - q) 1 = Some (tx_packets tx - q + 1)"
    using q(2) d lt q1 by (simp_all add: checked_sub_defined checked_add_def)
  have w: "unat (min n (tx_packets tx - q + 1)) = w"
    using s by (simp add: w_def min_def word_le_nat_alt)
  then have weq: "min n (tx_packets tx - q + 1) = word_of_nat w" by (metis of_nat_unat ucast_id)
  let ?tx1 = "tx\<lparr>tx_next_sequence := ucast q, tx_window_remaining := word_of_nat w\<rparr>"
  have uq: "unat (ucast q :: u16) = unat q" by (simp add: unat_ucast_widen)
  have uw: "unat (word_of_nat w :: u8) = w" using w weq by simp
  have "w + unat q \<le> unat (tx_packets tx) + 1" using q1 by (simp add: w_def)
  then have "tx_ok ?tx1" using ok uq uw q1 by (simp add: tx_ok_def)
  moreover have "tx_on_tp_cm (Cts n q p) tx = Some (TxSendData, ?tx1)"
    using p n q c weq by (auto simp: tx_on_tp_cm_def)
  ultimately show thesis using that uq uw by simp
qed

lemma tx_on_tp_cm_total:
  assumes ok: "tx_ok tx"
  shows "\<exists>out tx1. tx_on_tp_cm cm tx = Some (out, tx1) \<and> tx_ok tx1"
proof (cases cm)
  case (Cts n q p)
  show ?thesis
  proof (cases "p = tx_pgn tx \<and> n \<noteq> 0 \<and> q \<noteq> 0 \<and> q \<le> tx_packets tx")
    case True
    then show ?thesis using tx_on_cts [OF ok, of p n q] Cts by metis
  next
    case False
    then show ?thesis using ok Cts by (auto simp: tx_on_tp_cm_def)
  qed
qed (use ok in \<open>auto simp: tx_on_tp_cm_def tx_ok_def\<close>)

text \<open>Pulling until nothing is left; the fuel is a bound on the number of packets.\<close>

fun tx_drain :: "nat \<Rightarrow> transmitter \<Rightarrow> (tp_dt list \<times> transmitter) option" where
  "tx_drain 0 tx = None"
| "tx_drain (Suc fuel) tx =
     do { (p, tx1) \<leftarrow> tx_next_packet tx;
          case p of
            None \<Rightarrow> Some ([], tx1)
          | Some d \<Rightarrow> do { (ds, tx2) \<leftarrow> tx_drain fuel tx1; Some (d # ds, tx2) } }"

lemma tx_drain_packets:
  assumes "tx_ok tx" and "unat (tx_window_remaining tx) < fuel"
  obtains tx1 where "tx_drain fuel tx =
      Some (map (packet_of (tx_data tx)) [unat (tx_next_sequence tx) ..< unat (tx_next_sequence tx) + unat (tx_window_remaining tx)], tx1)"
    and "tx_ok tx1" and "tx_window_remaining tx1 = 0" and "tx_data tx1 = tx_data tx" and "tx_pgn tx1 = tx_pgn tx"
    and "tx_packets tx1 = tx_packets tx" and "tx_broadcast tx1 = tx_broadcast tx"
    and "tx_max_packets_per_cts tx1 = tx_max_packets_per_cts tx"
    and "unat (tx_next_sequence tx1) = unat (tx_next_sequence tx) + unat (tx_window_remaining tx)"
    and "tx_complete tx1 \<longleftrightarrow> tx_complete tx \<or> tx_broadcast tx \<and> tx_window_remaining tx \<noteq> 0 \<and>
      unat (tx_next_sequence tx) + unat (tx_window_remaining tx) = unat (tx_packets tx) + 1"
  using assms
proof (induction fuel arbitrary: tx thesis)
  case 0
  then show ?case by simp
next
  case (Suc fuel)
  show ?case
  proof (cases "tx_window_remaining tx = 0")
    case True
    with Suc.prems show ?thesis by (simp add: tx_next_packet_None)
  next
    case False
    note step = tx_next_packet_Some [OF Suc.prems(2) False]
    have w1: "1 \<le> unat (tx_window_remaining tx)" using False by (simp add: word_unat_eq_iff)
    have fuel: "unat (tx_window_remaining (tx_advanced tx)) < fuel" using step(4) w1 Suc.prems(3) by linarith
    have keep: "tx_data (tx_advanced tx) = tx_data tx" "tx_pgn (tx_advanced tx) = tx_pgn tx"
      "tx_packets (tx_advanced tx) = tx_packets tx" "tx_broadcast (tx_advanced tx) = tx_broadcast tx"
      "tx_max_packets_per_cts (tx_advanced tx) = tx_max_packets_per_cts tx"
      by (simp_all add: tx_advanced_def)
    have fin: "tx_complete (tx_advanced tx) \<longleftrightarrow>
        tx_complete tx \<or> tx_broadcast tx \<and> unat (tx_next_sequence tx) = unat (tx_packets tx)"
      by (simp add: tx_advanced_def)
    have bound: "unat (tx_next_sequence tx) + unat (tx_window_remaining tx) \<le> unat (tx_packets tx) + 1"
      using Suc.prems(2) by (simp add: tx_ok_def)
    have last: "tx_window_remaining (tx_advanced tx) \<noteq> 0 \<longleftrightarrow> unat (tx_window_remaining tx) \<noteq> 1"
      using step(4) w1 by (auto simp: word_unat_eq_iff)
    obtain tx1 where r: "tx_drain fuel (tx_advanced tx) =
        Some (map (packet_of (tx_data tx)) [unat (tx_next_sequence tx) + 1 ..< unat (tx_next_sequence tx) + unat (tx_window_remaining tx)], tx1)"
      and r1: "tx_ok tx1" "tx_window_remaining tx1 = 0" "tx_data tx1 = tx_data tx" "tx_pgn tx1 = tx_pgn tx"
        "tx_packets tx1 = tx_packets tx" "tx_broadcast tx1 = tx_broadcast tx"
        "tx_max_packets_per_cts tx1 = tx_max_packets_per_cts tx"
        "unat (tx_next_sequence tx1) = unat (tx_next_sequence tx) + unat (tx_window_remaining tx)"
      and r2: "tx_complete tx1 \<longleftrightarrow> tx_complete (tx_advanced tx) \<or> tx_broadcast tx \<and> tx_window_remaining (tx_advanced tx) \<noteq> 0 \<and>
        unat (tx_next_sequence tx) + unat (tx_window_remaining tx) = unat (tx_packets tx) + 1"
      using w1 by (rule_tac Suc.IH [OF _ step(2) fuel]) (simp add: keep step(3,4))
    have "tx_drain (Suc fuel) tx =
        Some (map (packet_of (tx_data tx)) [unat (tx_next_sequence tx) ..< unat (tx_next_sequence tx) + unat (tx_window_remaining tx)], tx1)"
      using r w1 step(1) by (simp add: upt_conv_Cons)
    moreover have "tx_complete tx1 \<longleftrightarrow> tx_complete tx \<or> tx_broadcast tx \<and> tx_window_remaining tx \<noteq> 0 \<and>
        unat (tx_next_sequence tx) + unat (tx_window_remaining tx) = unat (tx_packets tx) + 1"
      using r2 fin last bound w1 False by auto
    ultimately show ?thesis using Suc.prems(1) r1 by blast
  qed
qed

end
