(* ===== verification/Tp_Transfer.thy ===== *)
theory Tp_Transfer
  imports Tp_Receive Tp_Send
begin

text \<open>
  Whole transfers: the transmitter of \<^verbatim>\<open>core/src/tp.rs\<close> against its reassembler. A broadcast is
  followed through any interleaving with other senders and timer ticks; a connection-managed
  transfer is the conversation of the two, with the receiver's windows and the acknowledgement.
\<close>

section \<open>One packet\<close>

definition message_packets :: "bytes \<Rightarrow> nat" where
  "message_packets data = (length data + 6) div 7"

text \<open>The transfer of \<open>data\<close> when packet \<open>k\<close> is expected.\<close>

definition transfer_at :: "bytes \<Rightarrow> pgn \<Rightarrow> bool \<Rightarrow> u8 \<Rightarrow> nat \<Rightarrow> nat \<Rightarrow> u16 \<Rightarrow> transfer" where
  "transfer_at data p bc lim w k i =
     \<lparr>xf_pgn = p, xf_size = length data, xf_data = take ((k - 1) * 7) data, xf_broadcast = bc,
      xf_window = w, xf_limit = lim, xf_idle = i\<rparr>"

lemma transfer_at_sel [simp]:
  "xf_pgn (transfer_at data p bc lim w k i) = p" "xf_size (transfer_at data p bc lim w k i) = length data"
  "xf_broadcast (transfer_at data p bc lim w k i) = bc" "xf_window (transfer_at data p bc lim w k i) = w"
  "xf_limit (transfer_at data p bc lim w k i) = lim" "xf_idle (transfer_at data p bc lim w k i) = i"
  "xf_packets (transfer_at data p bc lim w k i) = message_packets data"
  by (simp_all add: transfer_at_def xf_packets_def message_packets_def)

lemma transfer_at_expected:
  assumes "1 \<le> k" and "k \<le> message_packets data"
  shows "xf_expected (transfer_at data p bc lim w k i) = k"
proof -
  have "(k - 1) * 7 \<le> length data" using assms unfolding message_packets_def by linarith
  then show ?thesis using assms(1) by (simp add: transfer_at_def xf_expected_def min_def)
qed

lemma transfer_at_next:
  assumes "1 \<le> k"
  shows "take (length data)
    (xf_data (transfer_at data p bc lim w k i) @ dt_data (packet_of data k)) = take (k * 7) data"
  using packet_of_data [OF assms, of data] by (simp add: transfer_at_def)

lemma last_packet_iff: "length (take (k * 7) data) = length data \<longleftrightarrow> message_packets data \<le> k"
  unfolding message_packets_def by (simp add: min_def) linarith

lemma spec_on_packet:
  assumes m: "m a = Some (transfer_at data p bc lim w k i)" and k: "1 \<le> k" "k \<le> message_packets data" "k < 256"
  defines "g \<equiv> grant_window (word_of_nat (message_packets data - k)) lim"
  shows "k = message_packets data \<Longrightarrow> spec_on_tp_dt a (packet_of data k) m =
      (RxMessage p a data
         (if bc then None
          else Some (EndOfMsgAck (word_of_nat (length data)) (word_of_nat (message_packets data)) p)),
       m(a := None))"
    and "k < message_packets data \<Longrightarrow> bc \<or> w \<noteq> 1 \<Longrightarrow> spec_on_tp_dt a (packet_of data k) m =
      (RxIdle, m(a \<mapsto> transfer_at data p bc lim (w - 1) (k + 1) 0))"
    and "k < message_packets data \<Longrightarrow> \<not> bc \<Longrightarrow> w = 1 \<Longrightarrow> spec_on_tp_dt a (packet_of data k) m =
      (RxSend (Cts g (word_of_nat (k + 1)) p), m(a \<mapsto> transfer_at data p bc lim (unat g) (k + 1) 0))"
proof -
  let ?t = "transfer_at data p bc lim w k i"
  note expected = transfer_at_expected [OF k(1,2), of p bc lim w i]
  have q: "unat (dt_sequence (packet_of data k)) = xf_expected ?t"
    using k(3) unfolding expected packet_of_sequence by (simp add: unat_word_of_nat)
  note step = spec_on_tp_dt_expected [where m = m, OF m q, unfolded spec_deliver_def transfer_at_sel expected transfer_at_next [OF k(1)]]
  have upd: "?t\<lparr>xf_data := take (k * 7) data, xf_window := v, xf_idle := 0\<rparr> = transfer_at data p bc lim v (k + 1) 0" for v
    by (simp add: transfer_at_def)
  have upd': "?t\<lparr>xf_data := take (k * 7) data, xf_window := u, xf_idle := 0, xf_window := v\<rparr>
      = transfer_at data p bc lim v (k + 1) 0" for u v
    by (simp add: transfer_at_def)
  show "k = message_packets data \<Longrightarrow> spec_on_tp_dt a (packet_of data k) m =
      (RxMessage p a data
         (if bc then None
          else Some (EndOfMsgAck (word_of_nat (length data)) (word_of_nat (message_packets data)) p)),
       m(a := None))"
    using step(1) last_packet_iff [of k data] by simp
  show "k < message_packets data \<Longrightarrow> bc \<or> w \<noteq> 1 \<Longrightarrow> spec_on_tp_dt a (packet_of data k) m =
      (RxIdle, m(a \<mapsto> transfer_at data p bc lim (w - 1) (k + 1) 0))"
    using step(2) last_packet_iff [of k data] by (auto simp: upd simp del: length_take)
  show "k < message_packets data \<Longrightarrow> \<not> bc \<Longrightarrow> w = 1 \<Longrightarrow> spec_on_tp_dt a (packet_of data k) m =
      (RxSend (Cts g (word_of_nat (k + 1)) p), m(a \<mapsto> transfer_at data p bc lim (unat g) (k + 1) 0))"
    using step(2) last_packet_iff [of k data] by (simp add: upd' g_def transfer_at_def del: length_take)
qed

section \<open>A broadcast among other traffic\<close>

text \<open>
  The calls that belong to a sender, and its quiet time: between two of its packets the ticks add
  up to no more than the timeout.
\<close>

primrec rx_from :: "address \<Rightarrow> rx_event \<Rightarrow> bool" where
  "rx_from a (RxCm b cm) = (a = b)"
| "rx_from a (RxDt b dt) = (a = b)"
| "rx_from a (RxTick e t) = False"
| "rx_from a (RxAbandon b) = (a = b)"
| "rx_from a RxReset = True"

fun paced :: "address \<Rightarrow> nat \<Rightarrow> rx_event list \<Rightarrow> bool" where
  "paced a quiet [] = True"
| "paced a quiet (RxTick elapsed timeout # es) =
     (quiet + unat elapsed \<le> unat timeout \<and> paced a (quiet + unat elapsed) es)"
| "paced a quiet (e # es) = paced a (if rx_from a e then 0 else quiet) es"

definition answers_to :: "address \<Rightarrow> rx_event list \<Rightarrow> rx list \<Rightarrow> rx list" where
  "answers_to a es outs = map snd (filter (\<lambda>(e, out). rx_from a e) (zip es outs))"

lemma answers_to_simps [simp]:
  "answers_to a [] outs = []"
  "answers_to a (e # es) (out # outs) = (if rx_from a e then [out] else []) @ answers_to a es outs"
  by (simp_all add: answers_to_def)

lemma answers_to_subset: "x \<in> set (answers_to a es outs) \<Longrightarrow> x \<in> set outs"
  by (auto simp: answers_to_def dest: set_zip_rightD)

lemma filter_from_packets [simp]: "filter (rx_from a) (map (RxDt a) ds) = map (RxDt a) ds"
  by (induction ds) simp_all

lemma paced_packets [simp]: "paced a q (map (RxDt b) ds)"
  by (induction ds arbitrary: q) simp_all

lemma not_from_keeps:
  assumes "\<not> rx_from a e" and "m a = Some (transfer_at data p bc lim w k i)"
    and "paced a (unat i) (e # es)"
  shows "\<exists>j. snd (spec_step N K e m) a = Some (transfer_at data p bc lim w k j) \<and> paced a (unat j) es"
proof (cases "\<exists>elapsed timeout. e = RxTick elapsed timeout")
  case True
  then obtain elapsed timeout where e: "e = RxTick elapsed timeout" by blast
  with assms(3) have le: "unat i + unat elapsed \<le> unat timeout" and rest: "paced a (unat i + unat elapsed) es"
    by simp_all
  have "unat timeout < 65536" by (rule unat_u16_lt)
  with le have s: "unat (saturating_add i elapsed) = unat i + unat elapsed"
    by (simp add: unat_saturating_add)
  with le have "saturating_add i elapsed \<le> timeout" by (simp add: word_le_nat_alt)
  then have "snd (spec_step N K e m) a = Some (transfer_at data p bc lim w k (saturating_add i elapsed))"
    using assms(2) e by (simp add: spec_tick_def Let_def transfer_at_def)
  with s rest show ?thesis by auto
next
  case False
  then have "\<not> rx_concerns e a" using assms(1) by (cases e) auto
  with spec_step_isolated [OF this, of N K m] assms False show ?thesis by (cases e) auto
qed

lemma broadcast_run:
  assumes "m a = Some (transfer_at data p True lim w k i)" and "1 \<le> k" and "k \<le> message_packets data"
    and "message_packets data < 256"
    and "filter (rx_from a) es = map (\<lambda>j. RxDt a (packet_of data j)) [k ..< message_packets data + 1]"
    and "paced a (unat i) es"
  shows "answers_to a es (fst (spec_run N K es m)) =
    replicate (message_packets data - k) RxIdle @ [RxMessage p a data None]"
  using assms
proof (induction es arbitrary: m w k i)
  case Nil
  then show ?case by simp
next
  case (Cons e es)
  show ?case
  proof (cases "rx_from a e")
    case False
    obtain j where "snd (spec_step N K e m) a = Some (transfer_at data p True lim w k j)" "paced a (unat j) es"
      using not_from_keeps [where m = m and a = a, OF False Cons.prems(1,6)] by blast
    with Cons.IH [of "snd (spec_step N K e m)" w k j] Cons.prems False show ?thesis
      by (simp add: split_beta)
  next
    case True
    with Cons.prems(3,5) have e: "e = RxDt a (packet_of data k)"
      and rest: "filter (rx_from a) es = map (\<lambda>j. RxDt a (packet_of data j)) [k + 1 ..< message_packets data + 1]"
      by (simp_all add: upt_conv_Cons del: upt_Suc)
    have pc: "paced a 0 es" using Cons.prems(6) e by simp
    have k256: "k < 256" using Cons.prems(3,4) by simp
    note step = spec_on_packet [where m = m, OF Cons.prems(1-3) k256]
    show ?thesis
    proof (cases "k = message_packets data")
      case last: True
      from last rest have "filter (rx_from a) es = []" by simp
      then have "answers_to a es outs = []" for outs
        unfolding answers_to_def by (auto simp: filter_empty_conv dest: set_zip_leftD)
      with step(1) [OF last] True e show ?thesis by (simp add: split_beta last)
    next
      case False
      then have k: "k < message_packets data" using Cons.prems(3) by simp
      let ?m1 = "m(a \<mapsto> transfer_at data p True lim (w - 1) (k + 1) 0)"
      have st: "spec_step N K e m = (RxIdle, ?m1)" using step(2) [OF k] e by simp
      have "answers_to a es (fst (spec_run N K es ?m1)) =
          replicate (message_packets data - (k + 1)) RxIdle @ [RxMessage p a data None]"
        by (rule Cons.IH [where i = 0 and w = "w - 1"]) (use Cons.prems(4) rest pc k in simp_all)
      moreover have "replicate (message_packets data - k) RxIdle = RxIdle # replicate (message_packets data - (k + 1)) RxIdle"
        using k by (metis Suc_diff_Suc Suc_eq_plus1 replicate_Suc)
      ultimately show ?thesis using st True by (simp add: split_beta)
    qed
  qed
qed

lemma started:
  assumes "Transmitter_build p data bc = Inr tx"
  shows "valid_announcement (word_of_nat (length data)) (tx_packets tx)"
    and "unat (word_of_nat (length data) :: u16) = length data" and "unat (tx_packets tx) = message_packets data"
    and "2 \<le> message_packets data" and "message_packets data < 256"
proof -
  note b = build_InrD [OF assms]
  note c = packet_count_length [OF b(10)]
  show u: "unat (word_of_nat (length data) :: u16) = length data" by (rule c(1))
  show n: "unat (tx_packets tx) = message_packets data" using c(2) b(7) by (simp add: message_packets_def)
  show "valid_announcement (word_of_nat (length data)) (tx_packets tx)"
    using b(7,9,10) u unfolding valid_announcement_def
    by (simp add: TP_MIN_MESSAGE_SIZE_def TP_MAX_MESSAGE_SIZE_def word_le_nat_alt)
  show "2 \<le> message_packets data" using b(9) unfolding message_packets_def by linarith
  show "message_packets data < 256" unfolding n [symmetric] by (rule unat_u8_lt)
qed

lemma broadcast_drains:
  assumes "Transmitter_broadcast p data = Inr tx"
  obtains tx1 where "tx_drain 256 tx = Some (map (packet_of data) [1 ..< message_packets data + 1], tx1)"
    and "tx_complete tx1"
proof -
  from assms have tx: "Transmitter_build p data True = Inr tx" by (simp add: Transmitter_broadcast_def)
  note b = build_InrD [OF tx] and n = started [OF tx]
  have w: "unat (tx_window_remaining tx) = message_packets data" using b(8) n(3) by simp
  have fuel: "unat (tx_window_remaining tx) < 256" by (rule unat_u8_lt)
  have nz: "tx_window_remaining tx \<noteq> 0" using w n(4) by auto
  show thesis
    by (rule tx_drain_packets [OF b(1) fuel], rule that)
      (use b w n nz in \<open>simp_all add: add.commute\<close>)
qed

lemma broadcast_delivered:
  assumes r: "rx_ok N r" and p: "Pgn_ok p" and tx: "Transmitter_broadcast p data = Inr tx"
    and N: "length data \<le> N" and room: "slot_for ses_source r a \<noteq> None"
    and drain: "tx_drain 256 tx = Some (packets, tx1)"
    and adm: "list_all rx_admissible es" and es: "filter (rx_from a) es = map (RxDt a) packets"
    and pc: "paced a 0 es"
  shows "\<exists>outs r1. run_machine (rx_step N) (RxCm a (tx_start tx) # es) r = Some (outs, r1) \<and> rx_ok N r1 \<and>
    answers_to a (RxCm a (tx_start tx) # es) (map fst outs) =
      replicate (message_packets data) RxIdle @ [RxMessage p a data None]"
proof -
  have tx': "Transmitter_build p data True = Inr tx" using tx by (simp add: Transmitter_broadcast_def)
  note b = build_InrD [OF tx'] and n = started [OF tx']
  have cm: "tx_start tx = Bam (word_of_nat (length data)) (tx_packets tx) p"
    using b(2-4) by (simp add: tx_start_def)
  have packets: "packets = map (packet_of data) [1 ..< message_packets data + 1]"
    using broadcast_drains [OF tx] drain by (metis option.inject prod.inject)
  have adm1: "list_all rx_admissible (RxCm a (tx_start tx) # es)"
    using adm p cm by (simp add: TpCm_ok_def)
  obtain outs r1 where run: "run_machine (rx_step N) (RxCm a (tx_start tx) # es) r = Some (outs, r1)" "rx_ok N r1"
    and spec: "spec_run N (length r) (RxCm a (tx_start tx) # es) (receiver_of r) = (map fst outs, receiver_of r1)"
    using rx_run_refines [OF r adm1] by blast
  let ?m = "(receiver_of r)(a \<mapsto> transfer_at data p True 0 (message_packets data) 1 0)"
  have first: "spec_step N (length r) (RxCm a (tx_start tx)) (receiver_of r) = (RxIdle, ?m)"
    using n(1-3) N room room_for_iff [OF r, of a]
    by (simp add: cm spec_new_def transfer_at_def)
  have "answers_to a es (fst (spec_run N (length r) es ?m)) =
      replicate (message_packets data - 1) RxIdle @ [RxMessage p a data None]"
    by (rule broadcast_run [where i = 0]) (use n pc es packets in \<open>simp_all add: comp_def del: upt_Suc\<close>)
  moreover have "replicate (message_packets data) RxIdle = RxIdle # replicate (message_packets data - 1) RxIdle"
    using n(4) by (cases "message_packets data") simp_all
  moreover have "map fst outs = RxIdle # fst (spec_run N (length r) es ?m)"
    using spec first by (simp add: split_beta)
  ultimately show ?thesis using run by (simp del: run_machine.simps)
qed

section \<open>A connection-managed transfer\<close>

text \<open>A granted window of packets: all idle but the last, which brings a CTS or the message.\<close>

lemma window_run:
  assumes "m a = Some (transfer_at data p False lim w k i)" and "1 \<le> k" and "1 \<le> w"
    and "k + w \<le> message_packets data + 1" and "message_packets data < 256"
  defines "g \<equiv> grant_window (word_of_nat (message_packets data - (k + w - 1))) lim"
  shows "spec_run N K (map (\<lambda>j. RxDt a (packet_of data j)) [k ..< k + w]) m =
    (if k + w = message_packets data + 1
     then (replicate (w - 1) RxIdle @ [RxMessage p a data
            (Some (EndOfMsgAck (word_of_nat (length data)) (word_of_nat (message_packets data)) p))],
           m(a := None))
     else (replicate (w - 1) RxIdle @ [RxSend (Cts g (word_of_nat (k + w)) p)],
           m(a \<mapsto> transfer_at data p False lim (unat g) (k + w) 0)))"
  using assms(1-5) unfolding g_def
proof (induction w arbitrary: m k i)
  case 0
  then show ?case by simp
next
  case (Suc w)
  have k: "k \<le> message_packets data" "k < 256" using Suc.prems by simp_all
  note step = spec_on_packet [where m = m, OF Suc.prems(1,2) k]
  show ?case
  proof (cases "w = 0")
    case True
    then show ?thesis
      using step(1,3) Suc.prems(4) by (auto simp: Let_def)
  next
    case False
    then have lt: "k < message_packets data" and w1: "1 \<le> w" using Suc.prems(4) by simp_all
    let ?m1 = "m(a \<mapsto> transfer_at data p False lim w (k + 1) 0)"
    have st: "spec_step N K (RxDt a (packet_of data k)) m = (RxIdle, ?m1)"
      using step(2) [OF lt] False by simp
    have up: "[k ..< k + Suc w] = k # [k + 1 ..< k + Suc w]" by (simp add: upt_conv_Cons)
    have rep: "RxIdle # replicate (w - 1) RxIdle = replicate w RxIdle" using w1 by (cases w) simp_all
    have shift: "k + 1 + w = k + Suc w" by simp
    let ?g = "grant_window (word_of_nat (message_packets data - (k + Suc w - 1))) lim"
    have ih: "spec_run N K (map (\<lambda>j. RxDt a (packet_of data j)) [k + 1 ..< k + Suc w]) ?m1 =
      (if k + Suc w = message_packets data + 1
       then (replicate (w - 1) RxIdle @ [RxMessage p a data
              (Some (EndOfMsgAck (word_of_nat (length data)) (word_of_nat (message_packets data)) p))],
             m(a := None))
       else (replicate (w - 1) RxIdle @ [RxSend (Cts ?g (word_of_nat (k + Suc w)) p)],
             m(a \<mapsto> transfer_at data p False lim (unat ?g) (k + Suc w) 0)))"
      by (rule Suc.IH [of ?m1 "k + 1" 0, unfolded shift fun_upd_upd])
        (use w1 Suc.prems(2,4,5) in simp_all)
    show ?thesis
      unfolding up list.map spec_run.simps st Let_def prod.case ih
      using rep by (auto simp flip: append_Cons)
  qed
qed

text \<open>
  The conversation: the receiver's answer goes to the transmitter, the packets of the window it
  opens go to the receiver, and so on until the message is out. Each round is one CTS, so 256
  rounds are enough for the 255 packets of the longest message.
\<close>

definition last_answer :: "rx_output list \<Rightarrow> rx" where
  "last_answer outs = (if outs = [] then RxIdle else fst (last outs))"

fun converse :: "nat \<Rightarrow> nat \<Rightarrow> address \<Rightarrow> rx \<Rightarrow> transmitter \<Rightarrow> reassembler \<Rightarrow>
  ((pgn \<times> address \<times> bytes) \<times> transmitter \<times> reassembler) option" where
  "converse 0 N a answer tx r = None"
| "converse (Suc fuel) N a (RxSend cm) tx r =
     do { (t, tx1) \<leftarrow> tx_on_tp_cm cm tx;
          if t = TxSendData then
            do { (packets, tx2) \<leftarrow> tx_drain 256 tx1;
                 (outs, r1) \<leftarrow> run_machine (rx_step N) (map (RxDt a) packets) r;
                 converse fuel N a (last_answer outs) tx2 r1 }
          else None }"
| "converse (Suc fuel) N a (RxMessage p s d (Some ack)) tx r =
     do { (t, tx1) \<leftarrow> tx_on_tp_cm ack tx; Some ((p, s, d), tx1, r) }"
| "converse (Suc fuel) N a answer tx r = None"

definition send_addressed :: "nat \<Rightarrow> address \<Rightarrow> transmitter \<Rightarrow> reassembler \<Rightarrow>
  ((pgn \<times> address \<times> bytes) \<times> transmitter \<times> reassembler) option" where
  "send_addressed N a tx r =
     (let (answer, r1) = rx_on_tp_cm N a (tx_start tx) r in converse 257 N a answer tx r1)"

lemma last_answerI:
  assumes "map fst outs = xs @ [out]"
  shows "last_answer outs = out"
proof -
  from assms have "outs \<noteq> []" by auto
  then have "fst (last outs) = last (map fst outs)" by (simp add: last_map)
  with \<open>outs \<noteq> []\<close> assms show ?thesis by (simp add: last_answer_def)
qed

lemma converse_completes:
  assumes "rx_ok N r" and "tx_ok tx" and "tx_pgn tx = p" and "tx_data tx = data"
    and "unat (tx_packets tx) = message_packets data"
    and "receiver_of r a = Some (transfer_at data p False lim (unat w) k 0)"
    and "1 \<le> k" and "1 \<le> unat w" and "k + unat w \<le> message_packets data + 1"
    and "message_packets data + 2 < k + fuel"
  shows "\<exists>tx1 r1. converse fuel N a (RxSend (Cts w (word_of_nat k) p)) tx r = Some ((p, a, data), tx1, r1) \<and>
    tx_complete tx1 \<and> rx_ok N r1 \<and> receiver_of r1 = (receiver_of r)(a := None)"
  using assms
proof (induction fuel arbitrary: tx r w k)
  case 0
  then show ?case by simp
next
  case (Suc fuel)
  have n256: "message_packets data < 256" using unat_u8_lt [of "tx_packets tx"] Suc.prems(5) by simp
  have kw: "unat (word_of_nat k :: u8) = k" using Suc.prems(7-9) n256 by (simp add: unat_word_of_nat)
  have nz: "w \<noteq> 0" "(word_of_nat k :: u8) \<noteq> 0" "(word_of_nat k :: u8) \<le> tx_packets tx"
    using Suc.prems(5,7-9) kw by (auto simp: word_unat_eq_iff word_le_nat_alt)
  obtain tx1 where t1: "tx_on_tp_cm (Cts w (word_of_nat k) p) tx = Some (TxSendData, tx1)" "tx_ok tx1"
    and eq: "tx1 = tx\<lparr>tx_next_sequence := ucast (word_of_nat k :: u8),
        tx_window_remaining := word_of_nat (min (unat w) (unat (tx_packets tx) - unat (word_of_nat k :: u8) + 1))\<rparr>"
    and q1: "unat (tx_next_sequence tx1) = unat (word_of_nat k :: u8)"
    and w1: "unat (tx_window_remaining tx1) = min (unat w) (unat (tx_packets tx) - unat (word_of_nat k :: u8) + 1)"
    by (rule tx_on_cts [OF Suc.prems(2) Suc.prems(3) [symmetric] nz])
  have win: "unat (tx_window_remaining tx1) = unat w" using w1 kw Suc.prems(5,7-9) by simp
  have q: "unat (tx_next_sequence tx1) = k" using q1 kw by simp
  have keep1: "tx_data tx1 = data" "tx_pgn tx1 = p" "tx_packets tx1 = tx_packets tx" using eq Suc.prems(3,4) by simp_all
  have fuel: "unat (tx_window_remaining tx1) < 256" by (rule unat_u8_lt)
  obtain tx2 where t2: "tx_drain 256 tx1 = Some (map (packet_of data) [k ..< k + unat w], tx2)" "tx_ok tx2"
    and keep2: "tx_data tx2 = data" "tx_pgn tx2 = p" "tx_packets tx2 = tx_packets tx"
    by (rule tx_drain_packets [OF t1(2) fuel]) (simp add: keep1 q win)
  let ?es = "map (\<lambda>j. RxDt a (packet_of data j)) [k ..< k + unat w]"
  have adm: "list_all rx_admissible ?es" by (simp add: list_all_iff)
  obtain outs r1 where run: "run_machine (rx_step N) ?es r = Some (outs, r1)" and r1: "rx_ok N r1"
    and spec: "spec_run N (length r) ?es (receiver_of r) = (map fst outs, receiver_of r1)"
    using rx_run_refines [OF Suc.prems(1) adm] by blast
  note window = window_run [where m = "receiver_of r" and N = N and K = "length r",
      OF Suc.prems(6,7,8,9) n256, unfolded spec]
  have step: "converse (Suc fuel) N a (RxSend (Cts w (word_of_nat k) p)) tx r = converse fuel N a (last_answer outs) tx2 r1"
    using t1(1) t2(1) run by (simp add: comp_def)
  show ?case
  proof (cases "k + unat w = message_packets data + 1")
    case True
    let ?ack = "EndOfMsgAck (word_of_nat (length data)) (word_of_nat (message_packets data)) p"
    from window True have outs: "map fst outs = replicate (unat w - 1) RxIdle @ [RxMessage p a data (Some ?ack)]"
      and m1: "receiver_of r1 = (receiver_of r)(a := None)" by simp_all
    obtain f where f: "fuel = Suc f" using Suc.prems(8-10) True by (cases fuel) simp_all
    have "tx_on_tp_cm ?ack tx2 = Some (TxComplete, tx2\<lparr>tx_complete := True\<rparr>)"
      by (simp add: tx_on_tp_cm_def keep2)
    then show ?thesis
      unfolding step unfolding last_answerI [OF outs] f m1 [symmetric] using r1 by simp
  next
    case False
    define g where "g = grant_window (word_of_nat (message_packets data - (k + unat w - 1))) lim"
    from window False have outs: "map fst outs = replicate (unat w - 1) RxIdle @ [RxSend (Cts g (word_of_nat (k + unat w)) p)]"
      and m1: "receiver_of r1 = (receiver_of r)(a \<mapsto> transfer_at data p False lim (unat g) (k + unat w) 0)"
      by (simp_all add: g_def)
    have left: "unat (word_of_nat (message_packets data - (k + unat w - 1)) :: u8) = message_packets data - (k + unat w - 1)"
      using n256 by (intro unat_u8_of_nat) simp
    have some: "1 \<le> message_packets data - (k + unat w - 1)"
      using Suc.prems(7-9) False by linarith
    have "1 \<le> unat g \<and> unat g \<le> message_packets data - (k + unat w - 1)"
      unfolding g_def using grant_window_bounds [of "word_of_nat (message_packets data - (k + unat w - 1))" lim]
      unfolding left using some by blast
    then have g: "1 \<le> unat g" "k + unat w + unat g \<le> message_packets data + 1"
      using Suc.prems(9) some by linarith+
    have at: "receiver_of r1 a = Some (transfer_at data p False lim (unat g) (k + unat w) 0)" by (simp add: m1)
    have "\<exists>tx1 r2. converse fuel N a (RxSend (Cts g (word_of_nat (k + unat w)) p)) tx2 r1 = Some ((p, a, data), tx1, r2) \<and>
        tx_complete tx1 \<and> rx_ok N r2 \<and> receiver_of r2 = (receiver_of r1)(a := None)"
      by (rule Suc.IH [OF r1 t2(2) keep2(2,1) _ at _ g(1)]) (use Suc.prems g keep2 in simp_all)
    then show ?thesis unfolding step last_answerI [OF outs] m1 fun_upd_upd .
  qed
qed

lemma addressed_delivered:
  assumes r: "rx_ok N r" and p: "Pgn_ok p" and tx: "Transmitter_addressed p data = Inr tx"
    and N: "length data \<le> N" and room: "slot_for ses_source r a \<noteq> None"
    and free: "\<not> rx_in_session a (\<lambda>s. \<not> ses_broadcast s) r"
  shows "\<exists>tx1 r1. send_addressed N a (with_max_packets_per_cts lim tx) r = Some ((p, a, data), tx1, r1) \<and>
    tx_complete tx1 \<and> rx_ok N r1 \<and> receiver_of r1 = (receiver_of r)(a := None)"
proof -
  have tx': "Transmitter_build p data False = Inr tx" using tx by (simp add: Transmitter_addressed_def)
  note b = build_InrD [OF tx'] and n = started [OF tx']
  let ?tx = "with_max_packets_per_cts lim tx" and ?w = "grant_window (tx_packets tx) lim"
  have cm: "tx_start ?tx = Rts (word_of_nat (length data)) (tx_packets tx) lim p"
    using b(2-4) by (simp add: tx_start_def with_max_packets_per_cts_def)
  have w: "1 \<le> unat ?w" "unat ?w \<le> message_packets data"
    using grant_window_bounds [of "tx_packets tx" lim] n(3,4) by simp_all
  obtain r1 where r1: "rx_on_tp_cm N a (tx_start ?tx) r = (RxSend (Cts ?w 1 p), r1)"
    using room free n(1,2) N unfolding cm by (auto simp: rx_on_rts_def Let_def)
  have cmok: "TpCm_ok (tx_start ?tx)" using p by (simp add: cm TpCm_ok_def)
  have ok1: "rx_ok N r1" and m1: "receiver_of r1 = (receiver_of r)(a \<mapsto> transfer_at data p False lim (unat ?w) 1 0)"
  proof -
    note ref = rx_on_tp_cm_refines [OF r cmok, of a, unfolded r1]
    from ref(1) show "rx_ok N r1" by simp
    have "pred_option (\<lambda>t. \<not> xf_broadcast t) (receiver_of r a) \<and> receiver_of r a \<noteq> None \<longleftrightarrow>
        rx_in_session a (\<lambda>s. \<not> ses_broadcast s) r"
      by (subst rx_in_session_iff [OF r, where Q = "\<lambda>t. \<not> xf_broadcast t"]) auto
    with ref(2) free n(1,2) N room room_for_iff [OF r, of a]
    show "receiver_of r1 = (receiver_of r)(a \<mapsto> transfer_at data p False lim (unat ?w) 1 0)"
      by (auto simp: cm spec_new_def transfer_at_def)
  qed
  have "\<exists>tx1 r2. converse 257 N a (RxSend (Cts ?w (word_of_nat 1) p)) ?tx r1 = Some ((p, a, data), tx1, r2) \<and>
      tx_complete tx1 \<and> rx_ok N r2 \<and> receiver_of r2 = (receiver_of r1)(a := None)"
    by (rule converse_completes [OF ok1])
      (use b n w m1 in \<open>simp_all add: with_max_packets_per_cts_def[of lim tx] tx_ok_def\<close>)
  then show ?thesis using r1 m1 by (simp add: send_addressed_def)
qed

end
