(* ===== verification/Node.thy ===== *)
theory Node
  imports Address_Claim Tp_Transfer
begin

text \<open>
  One ECU on the bus, \<^verbatim>\<open>core/src/node.rs\<close>: an outgoing message as a sequence of frames, and the node
  that dispatches every frame it receives to its claimer, its reassembler or the application. A
  step that would panic is \<open>None\<close>. The lemmas show that no frame makes the node panic, that its
  answers carry its own address, and that frames reach the reassembler as the messages they encode.
\<close>

definition ADDRESS_CLAIM_WINDOW_MS :: u16 where "ADDRESS_CLAIM_WINDOW_MS = 250"

datatype event =
    EvtIdle
  | EvtTransmit can_frame
  | EvtMessage pgn address bytes "can_frame option"

datatype progress =
    ProgressIdle
  | ProgressReady
  | ProgressComplete
  | ProgressAborted abort_reason

section \<open>Frames of the node\<close>

definition address_claim_frame :: "address \<Rightarrow> ecu_name \<Rightarrow> can_frame" where
  "address_claim_frame source n =
     Frame_from_payload (Id_broadcast Priority_DEFAULT PGN_ADDRESS_CLAIMED source) (Name_to_bytes n)"

definition tp_id :: "pgn \<Rightarrow> address \<Rightarrow> address \<Rightarrow> can_id option" where
  "tp_id grp destination source =
     (case Id_from_parts Priority_LOWEST grp destination source of Inr i \<Rightarrow> Some i | Inl _ \<Rightarrow> None)"

definition tp_cm_frame :: "address \<Rightarrow> address \<Rightarrow> tp_cm \<Rightarrow> can_frame option" where
  "tp_cm_frame source destination cm =
     (case Id_from_parts Priority_LOWEST PGN_TP_CM destination source of
        Inr i \<Rightarrow> Some (Frame_from_payload i (TpCm_encode cm))
      | Inl _ \<Rightarrow> None)"

section \<open>An outgoing message\<close>

datatype outgoing_state =
    Single bytes bool
  | Multi transmitter bool

record outgoing =
  out_pgn :: pgn
  out_priority :: priority
  out_source :: address
  out_destination :: address
  out_state :: outgoing_state

definition Outgoing_new :: "pgn \<Rightarrow> address \<Rightarrow> address \<Rightarrow> bytes \<Rightarrow> outgoing j1939_result" where
  "Outgoing_new p source destination data =
     (let built = (\<lambda>st. \<lparr>out_pgn = p, out_priority = Priority_DEFAULT, out_source = source,
                         out_destination = destination, out_state = st\<rparr>)
      in if length data \<le> MAX_PAYLOAD then
           (case Id_from_parts Priority_DEFAULT p destination source of
              Inl e \<Rightarrow> Inl e
            | Inr i \<Rightarrow>
                (case Frame_new i data of
                   Inl e \<Rightarrow> Inl e
                 | Inr _ \<Rightarrow> Inr (built (Single data False))))
         else if Address_is_broadcast destination then
           (case Transmitter_broadcast p data of
              Inl e \<Rightarrow> Inl e
            | Inr tx \<Rightarrow> Inr (built (Multi tx False)))
         else
           (case Transmitter_addressed p data of
              Inl e \<Rightarrow> Inl e
            | Inr tx \<Rightarrow> Inr (built (Multi tx False))))"

definition with_priority :: "priority \<Rightarrow> outgoing \<Rightarrow> outgoing" where
  "with_priority pr o1 = o1\<lparr>out_priority := pr\<rparr>"

definition needs_pacing :: "outgoing \<Rightarrow> bool" where
  "needs_pacing o1 =
     (case out_state o1 of
        Multi tx _ \<Rightarrow> Address_is_broadcast (out_destination o1) \<and> tx_packets tx > 0
      | Single _ _ \<Rightarrow> False)"

definition frame_count :: "outgoing \<Rightarrow> nat" where
  "frame_count o1 = (case out_state o1 of Single _ _ \<Rightarrow> 1 | Multi tx _ \<Rightarrow> 1 + unat (tx_packets tx))"

definition out_is_complete :: "outgoing \<Rightarrow> bool" where
  "out_is_complete o1 = (case out_state o1 of Single _ sent \<Rightarrow> sent | Multi tx _ \<Rightarrow> tx_complete tx)"

definition out_next_frame :: "outgoing \<Rightarrow> (can_frame option \<times> outgoing) option" where
  "out_next_frame o1 =
     (case out_state o1 of
        Single data sent \<Rightarrow>
          if sent then Some (None, o1)
          else
            (let o2 = o1\<lparr>out_state := Single data True\<rparr>
             in case Id_from_parts (out_priority o1) (out_pgn o1) (out_destination o1) (out_source o1) of
                  Inl _ \<Rightarrow> Some (None, o2)
                | Inr i \<Rightarrow> (case Frame_new i data of Inl _ \<Rightarrow> Some (None, o2) | Inr f \<Rightarrow> Some (Some f, o2)))
      | Multi tx announced \<Rightarrow>
          if \<not> announced then
            Some (map_option (\<lambda>i. Frame_from_payload i (TpCm_encode (tx_start tx)))
                    (tp_id PGN_TP_CM (out_destination o1) (out_source o1)),
                  o1\<lparr>out_state := Multi tx True\<rparr>)
          else
            do { (packet, tx1) \<leftarrow> tx_next_packet tx;
                 Some (Option.bind packet (\<lambda>dt.
                         map_option (\<lambda>i. Frame_from_payload i (TpDt_encode dt))
                           (tp_id PGN_TP_DT (out_destination o1) (out_source o1))),
                       o1\<lparr>out_state := Multi tx1 True\<rparr>) })"

definition progress_of :: "tx \<Rightarrow> progress" where
  "progress_of t =
     (case t of TxSendData \<Rightarrow> ProgressReady | TxComplete \<Rightarrow> ProgressComplete
      | TxAborted reason \<Rightarrow> ProgressAborted reason | TxIdle \<Rightarrow> ProgressIdle)"

definition out_on_frame :: "can_frame \<Rightarrow> outgoing \<Rightarrow> (progress \<times> outgoing) option" where
  "out_on_frame f o1 =
     (case out_state o1 of
        Single _ _ \<Rightarrow> Some (ProgressIdle, o1)
      | Multi tx announced \<Rightarrow>
          if Frame_pgn f \<noteq> PGN_TP_CM \<or> Frame_source_address f \<noteq> out_destination o1 then Some (ProgressIdle, o1)
          else
            (case TpCm_decode (Frame_payload f) of
               Inl _ \<Rightarrow> Some (ProgressIdle, o1)
             | Inr cm \<Rightarrow>
                 do { (t, tx1) \<leftarrow> tx_on_tp_cm cm tx;
                      Some (progress_of t, o1\<lparr>out_state := Multi tx1 announced\<rparr>) }))"

section \<open>The node\<close>

record node =
  nd_claimer :: claimer
  nd_reassembler :: reassembler
  nd_claim_elapsed_ms :: u16

definition Node_new :: "nat \<Rightarrow> nat \<Rightarrow> ecu_name \<Rightarrow> address \<Rightarrow> node" where
  "Node_new buf sessions n preferred =
     \<lparr>nd_claimer = Claimer_new n preferred, nd_reassembler = new_table buf sessions, nd_claim_elapsed_ms = 0\<rparr>"

definition nd_address :: "node \<Rightarrow> address" where
  "nd_address nd = cl_address (nd_claimer nd)"

definition nd_state :: "node \<Rightarrow> claim_state" where
  "nd_state nd = cl_state (nd_claimer nd)"

definition has_address :: "node \<Rightarrow> bool" where
  "has_address nd = (nd_state nd = Claimed)"

definition transfers_in_flight :: "node \<Rightarrow> nat" where
  "transfers_in_flight nd = active_sessions (nd_reassembler nd)"

definition node_start :: "node \<Rightarrow> can_frame \<times> node" where
  "node_start nd =
     (let (cl, c1) = Claimer_claim (nd_claimer nd)
      in (address_claim_frame (claim_source cl) (claim_name cl),
          nd\<lparr>nd_claimer := c1, nd_claim_elapsed_ms := 0\<rparr>))"

definition claim_tick :: "u16 \<Rightarrow> node \<Rightarrow> node" where
  "claim_tick elapsed_ms nd =
     (if cl_state (nd_claimer nd) = Claiming then
        (let total = saturating_add (nd_claim_elapsed_ms nd) elapsed_ms
         in if total \<ge> ADDRESS_CLAIM_WINDOW_MS
            then nd\<lparr>nd_claim_elapsed_ms := total, nd_claimer := contention_window_elapsed (nd_claimer nd)\<rparr>
            else nd\<lparr>nd_claim_elapsed_ms := total\<rparr>)
      else nd)"

definition abort_frames :: "address \<Rightarrow> (address \<times> tp_cm option) list \<Rightarrow> can_frame list" where
  "abort_frames source calls =
     List.map_filter (\<lambda>(peer, abort). Option.bind abort (tp_cm_frame source peer)) calls"

definition node_tick :: "u16 \<Rightarrow> node \<Rightarrow> can_frame list \<times> node" where
  "node_tick elapsed_ms nd =
     (let nd1 = claim_tick elapsed_ms nd;
          (calls, r1) = rx_tick elapsed_ms (nd_reassembler nd1)
      in (abort_frames (nd_address nd1) calls, nd1\<lparr>nd_reassembler := r1\<rparr>))"

definition act_on_claim :: "claim_action \<Rightarrow> node \<Rightarrow> event \<times> node" where
  "act_on_claim action nd =
     (case action of
        ActIdle \<Rightarrow> (EvtIdle, nd)
      | Announce cl \<Rightarrow>
          (EvtTransmit (address_claim_frame (claim_source cl) (claim_name cl)),
           if cl_state (nd_claimer nd) = Claiming then nd\<lparr>nd_claim_elapsed_ms := 0\<rparr> else nd))"

definition lift :: "rx \<Rightarrow> address \<Rightarrow> address \<Rightarrow> event" where
  "lift outcome a peer =
     (case outcome of
        RxIdle \<Rightarrow> EvtIdle
      | RxSend cm \<Rightarrow> (case tp_cm_frame a peer cm of Some f \<Rightarrow> EvtTransmit f | None \<Rightarrow> EvtIdle)
      | RxMessage p source data ack \<Rightarrow> EvtMessage p source data (Option.bind ack (tp_cm_frame a peer)))"

text \<open>
  The dispatch of a received frame. The request branch falls through to the application when it is
  not a request for the claim of this node.
\<close>

definition asks_for_claim :: "can_frame \<Rightarrow> bool" where
  "asks_for_claim f =
     (case Request_decode (Frame_data f) of Inr rq \<Rightarrow> req_pgn rq = PGN_ADDRESS_CLAIMED | Inl _ \<Rightarrow> False)"

definition is_rts :: "tp_cm \<Rightarrow> bool" where
  "is_rts cm = (case cm of Rts _ _ _ _ \<Rightarrow> True | _ \<Rightarrow> False)"

definition on_tp_cm_frame :: "nat \<Rightarrow> can_frame \<Rightarrow> node \<Rightarrow> event \<times> node" where
  "on_tp_cm_frame buf f nd =
     (let source = Id_source_address (frame_id f) in
      case TpCm_decode (Frame_payload f) of
        Inl _ \<Rightarrow> (EvtIdle, nd)
      | Inr cm \<Rightarrow>
          if is_rts cm \<and> Id_is_broadcast (frame_id f) then (EvtIdle, nd)
          else
            (let (out, r1) = rx_on_tp_cm buf source cm (nd_reassembler nd)
             in (lift out (nd_address nd) source, nd\<lparr>nd_reassembler := r1\<rparr>)))"

definition on_tp_dt_frame :: "can_frame \<Rightarrow> node \<Rightarrow> (event \<times> node) option" where
  "on_tp_dt_frame f nd =
     (let source = Id_source_address (frame_id f) in
      do { (out, r1) \<leftarrow> rx_on_tp_dt source (TpDt_decode (Frame_payload f)) (nd_reassembler nd);
           Some (lift out (nd_address nd) source, nd\<lparr>nd_reassembler := r1\<rparr>) })"

definition node_on_frame :: "nat \<Rightarrow> can_frame \<Rightarrow> node \<Rightarrow> (event \<times> node) option" where
  "node_on_frame buf f nd =
     (let i = frame_id f; source = Id_source_address i; grp = Id_pgn i in
      if \<not> Id_is_addressed_to i (nd_address nd) then Some (EvtIdle, nd)
      else if grp = PGN_ADDRESS_CLAIMED then
        (let (action, c1) = on_address_claimed source (Name_from_bytes (Frame_payload f)) (nd_claimer nd)
         in Some (act_on_claim action (nd\<lparr>nd_claimer := c1\<rparr>)))
      else if grp = PGN_REQUEST \<and> asks_for_claim f then
        Some (act_on_claim (on_request (nd_claimer nd)) nd)
      else if grp = PGN_TP_CM then Some (on_tp_cm_frame buf f nd)
      else if grp = PGN_TP_DT then on_tp_dt_frame f nd
      else Some (EvtMessage grp source (Frame_data f) None, nd))"

definition node_on_commanded_address :: "bytes \<Rightarrow> node \<Rightarrow> can_frame option j1939_result \<times> node" where
  "node_on_commanded_address data nd =
     (let (result, c1) = on_commanded_address data (nd_claimer nd); nd1 = nd\<lparr>nd_claimer := c1\<rparr>
      in case result of
           Inl e \<Rightarrow> (Inl e, nd1)
         | Inr (Announce cl) \<Rightarrow>
             (Inr (Some (address_claim_frame (claim_source cl) (claim_name cl))), nd1\<lparr>nd_claim_elapsed_ms := 0\<rparr>)
         | Inr ActIdle \<Rightarrow> (Inr None, nd1))"

definition give_up_address :: "node \<Rightarrow> can_frame \<times> node" where
  "give_up_address nd =
     (let (cl, c1) = give_up (nd_claimer nd)
      in (address_claim_frame (claim_source cl) (claim_name cl), nd\<lparr>nd_claimer := c1\<rparr>))"

section \<open>Invariant and safety\<close>

definition node_ok :: "nat \<Rightarrow> node \<Rightarrow> bool" where
  "node_ok buf nd \<longleftrightarrow> claimer_ok (nd_claimer nd) \<and> rx_ok buf (nd_reassembler nd)"

lemma Node_new_ok: "node_ok buf (Node_new buf sessions n a)"
  by (simp add: node_ok_def Node_new_def Claimer_new_ok rx_ok_new)

lemma tp_cm_frame_eq:
  "tp_cm_frame source destination cm =
     Some (Frame_from_payload (Can_Id (raw_of_parts Priority_LOWEST PGN_TP_CM destination source)) (TpCm_encode cm))"
  by (simp add: tp_cm_frame_def from_parts_eq Pgn_is_pdu2_def)

text \<open>The identifiers the node puts on its frames.\<close>

lemma tp_frame_id:
  fixes source destination :: address
  assumes "g = PGN_TP_CM \<or> g = PGN_TP_DT"
  defines "i \<equiv> Can_Id (raw_of_parts Priority_LOWEST g destination source)"
  shows "tp_id g destination source = Some i" and "Id_ok i" and "Id_pgn i = g" and "Id_source_address i = source"
    and "Id_destination_address i = Some destination"
    and "Id_is_broadcast i \<longleftrightarrow> destination = Address_GLOBAL"
    and "Id_is_addressed_to i a \<longleftrightarrow> destination = Address_GLOBAL \<or> a = destination"
proof -
  have g: "Pgn_is_pdu1 g" "Pgn_ok g" using assms by auto
  then have parts: "Id_from_parts Priority_LOWEST g destination source = Inr i"
    by (simp add: i_def from_parts_eq Pgn_is_pdu2_def)
  then show "tp_id g destination source = Some i" by (simp add: tp_id_def)
  from from_parts_fields [OF _ g(2) parts] g
  show "Id_ok i" and "Id_pgn i = g" and "Id_source_address i = source"
    and d: "Id_destination_address i = Some destination" by simp_all
  show b: "Id_is_broadcast i \<longleftrightarrow> destination = Address_GLOBAL"
    by (simp add: Id_is_broadcast_def d guard_simps)
  show "Id_is_addressed_to i a \<longleftrightarrow> destination = Address_GLOBAL \<or> a = destination"
    unfolding is_addressed_to_iff b d by auto
qed

lemma claim_frame_fields:
  "Frame_ok (address_claim_frame a n)" "Frame_source_address (address_claim_frame a n) = a"
  "Frame_pgn (address_claim_frame a n) = PGN_ADDRESS_CLAIMED" "Name_from_bytes (Frame_payload (address_claim_frame a n)) = n"
  using broadcast_fields [of Priority_DEFAULT PGN_ADDRESS_CLAIMED a]
  by (simp_all add: address_claim_frame_def from_payload_ok Name_from_to_bytes)

lemma cm_frame_fields:
  assumes "tp_cm_frame source destination cm = Some f"
  shows "Frame_ok f" and "Frame_source_address f = source" and "Frame_pgn f = PGN_TP_CM"
    and "Id_destination_address (frame_id f) = Some destination" and "Frame_payload f = TpCm_encode cm"
  using assms tp_frame_id [of PGN_TP_CM destination source]
  unfolding tp_cm_frame_eq by (auto simp: from_payload_ok)

text \<open>The frames an outcome puts on the bus: all are well formed and carry the sender's address.\<close>

fun event_frames :: "event \<Rightarrow> can_frame list" where
  "event_frames EvtIdle = []"
| "event_frames (EvtTransmit f) = [f]"
| "event_frames (EvtMessage p s d reply) = (case reply of Some f \<Rightarrow> [f] | None \<Rightarrow> [])"

definition sent_by :: "address \<Rightarrow> can_frame list \<Rightarrow> bool" where
  "sent_by a fs = list_all (\<lambda>f. Frame_ok f \<and> Frame_source_address f = a) fs"

lemma sent_by_simps [simp]:
  "sent_by a []" "sent_by a (f # fs) \<longleftrightarrow> Frame_ok f \<and> Frame_source_address f = a \<and> sent_by a fs"
  by (simp_all add: sent_by_def)

lemma lift_sent: "sent_by a (event_frames (lift out a peer))"
  using cm_frame_fields(1,2)
  by (auto simp: lift_def bind_eq_Some_conv tp_cm_frame_eq split: rx.split option.split)

lemma act_on_claim_fields [simp]:
  "nd_claimer (snd (act_on_claim action nd)) = nd_claimer nd"
  "nd_reassembler (snd (act_on_claim action nd)) = nd_reassembler nd"
  by (simp_all add: act_on_claim_def split: claim_action.split)

lemma act_on_claim_sent:
  assumes "action = ActIdle \<or> action = Announce (current_claim (nd_claimer nd))"
  shows "sent_by (nd_address nd) (event_frames (fst (act_on_claim action nd)))"
  using assms by (auto simp: act_on_claim_def nd_address_def claim_frame_fields current_claim_def)

lemma on_address_claimed_announces:
  assumes "on_address_claimed s n c = (action, c')"
  shows "action = ActIdle \<or> action = Announce (current_claim c')"
  using assms by (cases rule: on_address_claimed_cases) auto

lemma node_on_frame_total:
  assumes ok: "node_ok buf nd"
  obtains ev nd' where "node_on_frame buf f nd = Some (ev, nd')" and "node_ok buf nd'"
    and "sent_by (nd_address nd') (event_frames ev)"
proof -
  let ?i = "frame_id f" and ?src = "Id_source_address (frame_id f)"
  from ok have cl: "claimer_ok (nd_claimer nd)" and rx: "rx_ok buf (nd_reassembler nd)" by (simp_all add: node_ok_def)
  consider (other) "\<not> Id_is_addressed_to ?i (nd_address nd)"
    | (claim) "Id_is_addressed_to ?i (nd_address nd)" "Id_pgn ?i = PGN_ADDRESS_CLAIMED"
    | (request) "Id_is_addressed_to ?i (nd_address nd)" "Id_pgn ?i \<noteq> PGN_ADDRESS_CLAIMED"
        "Id_pgn ?i = PGN_REQUEST \<and> asks_for_claim f"
    | (cm) "Id_is_addressed_to ?i (nd_address nd)" "Id_pgn ?i \<noteq> PGN_ADDRESS_CLAIMED"
        "\<not> (Id_pgn ?i = PGN_REQUEST \<and> asks_for_claim f)" "Id_pgn ?i = PGN_TP_CM"
    | (dt) "Id_is_addressed_to ?i (nd_address nd)" "Id_pgn ?i \<noteq> PGN_ADDRESS_CLAIMED"
        "\<not> (Id_pgn ?i = PGN_REQUEST \<and> asks_for_claim f)" "Id_pgn ?i \<noteq> PGN_TP_CM" "Id_pgn ?i = PGN_TP_DT"
    | (app) "Id_is_addressed_to ?i (nd_address nd)" "Id_pgn ?i \<noteq> PGN_ADDRESS_CLAIMED"
        "\<not> (Id_pgn ?i = PGN_REQUEST \<and> asks_for_claim f)" "Id_pgn ?i \<noteq> PGN_TP_CM" "Id_pgn ?i \<noteq> PGN_TP_DT"
    by blast
  then show thesis
  proof cases
    case other
    with ok that [of EvtIdle nd] show thesis by (simp add: node_on_frame_def Let_def)
  next
    case claim
    obtain action c1 where h: "on_address_claimed ?src (Name_from_bytes (Frame_payload f)) (nd_claimer nd) = (action, c1)"
      by (cases "on_address_claimed ?src (Name_from_bytes (Frame_payload f)) (nd_claimer nd)")
    let ?r = "act_on_claim action (nd\<lparr>nd_claimer := c1\<rparr>)"
    have c1: "claimer_ok c1"
      using on_address_claimed_ok [OF cl, of ?src "Name_from_bytes (Frame_payload f)"] h by simp
    have "action = ActIdle \<or> action = Announce (current_claim (nd_claimer (nd\<lparr>nd_claimer := c1\<rparr>)))"
      using on_address_claimed_announces [OF h] by simp
    from act_on_claim_sent [OF this] have "sent_by (nd_address (snd ?r)) (event_frames (fst ?r))"
      by (simp add: nd_address_def)
    with claim h c1 rx that [of "fst ?r" "snd ?r"] show thesis
      by (simp add: node_on_frame_def Let_def node_ok_def)
  next
    case request
    let ?r = "act_on_claim (on_request (nd_claimer nd)) nd"
    have "sent_by (nd_address nd) (event_frames (fst ?r))" by (rule act_on_claim_sent) (simp add: on_request_def)
    then have "sent_by (nd_address (snd ?r)) (event_frames (fst ?r))" by (simp add: nd_address_def)
    with request ok that [of "fst ?r" "snd ?r"] show thesis
      by (simp add: node_on_frame_def Let_def node_ok_def)
  next
    case cm
    let ?r = "on_tp_cm_frame buf f nd"
    have "node_ok buf (snd ?r) \<and> nd_claimer (snd ?r) = nd_claimer nd \<and> sent_by (nd_address nd) (event_frames (fst ?r))"
    proof (cases "TpCm_decode (Frame_payload f)")
      case (Inl e)
      with ok show ?thesis by (simp add: on_tp_cm_frame_def Let_def)
    next
      case (Inr m)
      have "rx_ok buf (snd (rx_on_tp_cm buf ?src m (nd_reassembler nd)))"
        by (rule rx_on_tp_cm_refines(1) [OF rx TpCm_decode_ok [OF Inr]])
      with Inr ok cl lift_sent show ?thesis
        by (auto simp: on_tp_cm_frame_def Let_def node_ok_def split_beta)
    qed
    with cm that [of "fst ?r" "snd ?r"] show thesis
      by (simp add: node_on_frame_def Let_def nd_address_def)
  next
    case dt
    obtain out r1 where "rx_on_tp_dt ?src (TpDt_decode (Frame_payload f)) (nd_reassembler nd) = Some (out, r1)" "rx_ok buf r1"
      by (rule rx_on_tp_dt_refines [OF rx TpDt_decode_ok])
    with dt cl lift_sent that show thesis
      by (simp add: node_on_frame_def on_tp_dt_frame_def Let_def node_ok_def nd_address_def)
  next
    case app
    with ok that show thesis by (simp add: node_on_frame_def Let_def)
  qed
qed

section \<open>The node as a machine\<close>

datatype node_event =
    NdStart
  | NdTick u16
  | NdFrame can_frame
  | NdCommanded bytes
  | NdGiveUp

datatype node_output = OutFrames "can_frame list" | OutEvent event | OutCommanded "can_frame option j1939_result"

fun output_frames :: "node_output \<Rightarrow> can_frame list" where
  "output_frames (OutFrames fs) = fs"
| "output_frames (OutEvent ev) = event_frames ev"
| "output_frames (OutCommanded (Inr (Some f))) = [f]"
| "output_frames (OutCommanded _) = []"

fun node_step :: "nat \<Rightarrow> node_event \<Rightarrow> node \<Rightarrow> (node_output \<times> node) option" where
  "node_step buf NdStart nd = (let (f, nd1) = node_start nd in Some (OutFrames [f], nd1))"
| "node_step buf (NdTick elapsed) nd = (let (fs, nd1) = node_tick elapsed nd in Some (OutFrames fs, nd1))"
| "node_step buf (NdFrame f) nd = do { (ev, nd1) \<leftarrow> node_on_frame buf f nd; Some (OutEvent ev, nd1) }"
| "node_step buf (NdCommanded data) nd =
     (let (r, nd1) = node_on_commanded_address data nd in Some (OutCommanded r, nd1))"
| "node_step buf NdGiveUp nd = (let (f, nd1) = give_up_address nd in Some (OutFrames [f], nd1))"

lemma node_start_total:
  assumes "node_ok buf nd"
  shows "node_ok buf (snd (node_start nd)) \<and> sent_by (nd_address (snd (node_start nd))) [fst (node_start nd)]"
  using assms claim_ok [of "nd_claimer nd"]
  by (auto simp: node_start_def Let_def split_beta node_ok_def nd_address_def claim_frame_fields Claimer_claim_def
      give_up_def current_claim_def)

lemma claim_tick_fields [simp]:
  "nd_reassembler (claim_tick e nd) = nd_reassembler nd" "nd_address (claim_tick e nd) = nd_address nd"
  by (simp_all add: claim_tick_def Let_def nd_address_def contention_window_elapsed_def)

lemma claim_tick_ok: "claimer_ok (nd_claimer nd) \<Longrightarrow> claimer_ok (nd_claimer (claim_tick e nd))"
  by (simp add: claim_tick_def Let_def window_ok)

lemma abort_frames_sent: "sent_by a (abort_frames a calls)"
  using cm_frame_fields(1,2)
  by (induction calls)
    (auto simp: abort_frames_def sent_by_def map_filter_simps bind_eq_Some_conv split: option.split)

lemma node_tick_total:
  assumes "node_ok buf nd"
  shows "node_ok buf (snd (node_tick e nd)) \<and> sent_by (nd_address (snd (node_tick e nd))) (fst (node_tick e nd))"
proof -
  from assms have cl: "claimer_ok (nd_claimer (claim_tick e nd))" and rx: "rx_ok buf (nd_reassembler nd)"
    by (simp_all add: node_ok_def claim_tick_ok)
  have "rx_ok buf (snd (rx_tick e (nd_reassembler nd)))"
    unfolding rx_tick_def by (rule rx_tick_refines(1) [OF rx])
  moreover have "nd_address (claim_tick e nd\<lparr>nd_reassembler := r\<rparr>) = nd_address nd" for r
    using claim_tick_fields(2) [of e nd] by (simp add: nd_address_def)
  ultimately show ?thesis
    using cl abort_frames_sent by (simp add: node_tick_def Let_def split_beta node_ok_def)
qed

lemma node_commanded_total:
  assumes "node_ok buf nd"
  shows "node_ok buf (snd (node_on_commanded_address data nd)) \<and>
    sent_by (nd_address (snd (node_on_commanded_address data nd)))
      (output_frames (OutCommanded (fst (node_on_commanded_address data nd))))"
proof -
  obtain r c1 where h: "on_commanded_address data (nd_claimer nd) = (r, c1)"
    by (cases "on_commanded_address data (nd_claimer nd)")
  have "claimer_ok c1" using on_commanded_address_ok [of "nd_claimer nd" data] assms h by (simp add: node_ok_def)
  from h show ?thesis
    by (cases rule: on_commanded_address_cases)
      (use assms h \<open>claimer_ok c1\<close> in \<open>auto simp: node_on_commanded_address_def node_ok_def nd_address_def
        current_claim_def claim_frame_fields\<close>)
qed

lemma give_up_address_total:
  assumes "node_ok buf nd"
  shows "node_ok buf (snd (give_up_address nd)) \<and>
    sent_by (nd_address (snd (give_up_address nd))) [fst (give_up_address nd)]"
  using assms give_up_ok [of "nd_claimer nd"]
  by (auto simp: give_up_address_def node_ok_def nd_address_def give_up_def claim_frame_fields)

lemma node_step_total:
  assumes "node_ok buf nd"
  obtains out nd' where "node_step buf e nd = Some (out, nd')" and "node_ok buf nd'"
    and "sent_by (nd_address nd') (output_frames out)"
proof (cases e)
  case NdStart
  with node_start_total [OF assms] that [of "OutFrames [fst (node_start nd)]" "snd (node_start nd)"]
  show thesis by (simp add: split_beta Let_def)
next
  case (NdTick t)
  with node_tick_total [OF assms, of t] that [of "OutFrames (fst (node_tick t nd))" "snd (node_tick t nd)"]
  show thesis by (simp add: split_beta Let_def)
next
  case (NdFrame f)
  obtain ev nd' where "node_on_frame buf f nd = Some (ev, nd')" "node_ok buf nd'"
    "sent_by (nd_address nd') (event_frames ev)"
    by (rule node_on_frame_total [OF assms])
  with NdFrame that [of "OutEvent ev" nd'] show thesis by simp
next
  case (NdCommanded data)
  with node_commanded_total [OF assms, of data] that [of "OutCommanded (fst (node_on_commanded_address data nd))"
      "snd (node_on_commanded_address data nd)"]
  show thesis by (simp add: split_beta Let_def)
next
  case NdGiveUp
  with give_up_address_total [OF assms] that [of "OutFrames [fst (give_up_address nd)]" "snd (give_up_address nd)"]
  show thesis by (simp add: split_beta Let_def)
qed

interpretation node: safe_machine "node_step buf" "node_ok buf" "\<lambda>_. True" for buf
  by unfold_locales (metis node_step_total)

section \<open>The contention window\<close>

text \<open>
  A claiming node that hears nothing becomes the owner of its address at the tick that completes
  250 ms, and not before.
\<close>

fun node_ticks :: "u16 list \<Rightarrow> node \<Rightarrow> node" where
  "node_ticks [] nd = nd"
| "node_ticks (e # es) nd = node_ticks es (snd (node_tick e nd))"

lemma tick_claimer:
  "nd_claimer (snd (node_tick e nd)) = nd_claimer (claim_tick e nd)"
  "nd_claim_elapsed_ms (snd (node_tick e nd)) = nd_claim_elapsed_ms (claim_tick e nd)"
  by (simp_all add: node_tick_def Let_def split_beta)

lemma node_ticks_settled:
  "nd_state nd \<noteq> Claiming \<Longrightarrow> nd_claimer (node_ticks es nd) = nd_claimer nd"
proof (induction es arbitrary: nd)
  case (Cons e es)
  have "nd_claimer (snd (node_tick e nd)) = nd_claimer nd"
    using Cons.prems by (simp add: tick_claimer claim_tick_def nd_state_def)
  with Cons.IH [of "snd (node_tick e nd)"] Cons.prems show ?case by (simp add: nd_state_def)
qed simp

lemma claim_tick_window:
  assumes "nd_state nd = Claiming" and "unat (nd_claim_elapsed_ms nd) < 250"
  shows "nd_claimer (claim_tick e nd) =
      (if 250 \<le> unat (nd_claim_elapsed_ms nd) + unat e then (nd_claimer nd)\<lparr>cl_state := Claimed\<rparr> else nd_claimer nd)"
    and "unat (nd_claim_elapsed_ms nd) + unat e < 250 \<Longrightarrow>
      unat (nd_claim_elapsed_ms (claim_tick e nd)) = unat (nd_claim_elapsed_ms nd) + unat e"
proof -
  have s: "unat (saturating_add (nd_claim_elapsed_ms nd) e) = min (unat (nd_claim_elapsed_ms nd) + unat e) 65535"
    by (simp add: unat_saturating_add)
  then have iff: "ADDRESS_CLAIM_WINDOW_MS \<le> saturating_add (nd_claim_elapsed_ms nd) e \<longleftrightarrow>
      250 \<le> unat (nd_claim_elapsed_ms nd) + unat e"
    by (simp add: ADDRESS_CLAIM_WINDOW_MS_def word_le_nat_alt)
  with assms(1) show "nd_claimer (claim_tick e nd) =
      (if 250 \<le> unat (nd_claim_elapsed_ms nd) + unat e then (nd_claimer nd)\<lparr>cl_state := Claimed\<rparr> else nd_claimer nd)"
    by (simp add: claim_tick_def nd_state_def Let_def contention_window_elapsed_def)
  assume "unat (nd_claim_elapsed_ms nd) + unat e < 250"
  with assms(1) iff s show "unat (nd_claim_elapsed_ms (claim_tick e nd)) = unat (nd_claim_elapsed_ms nd) + unat e"
    by (simp add: claim_tick_def nd_state_def Let_def)
qed

lemma claim_window:
  assumes "nd_state nd = Claiming" and "unat (nd_claim_elapsed_ms nd) < 250"
  shows "nd_claimer (node_ticks es nd) =
    (if 250 \<le> unat (nd_claim_elapsed_ms nd) + (\<Sum>e\<leftarrow>es. unat e)
     then (nd_claimer nd)\<lparr>cl_state := Claimed\<rparr> else nd_claimer nd)"
  using assms
proof (induction es arbitrary: nd)
  case Nil
  then show ?case by simp
next
  case (Cons e es)
  let ?nd = "snd (node_tick e nd)"
  note w = claim_tick_window [OF Cons.prems, of e]
  show ?case
  proof (cases "250 \<le> unat (nd_claim_elapsed_ms nd) + unat e")
    case True
    then have c: "nd_claimer ?nd = (nd_claimer nd)\<lparr>cl_state := Claimed\<rparr>" using w(1) by (simp add: tick_claimer)
    then have "nd_state ?nd \<noteq> Claiming" by (simp add: nd_state_def)
    with c True node_ticks_settled [of ?nd es] show ?thesis by simp
  next
    case False
    then have c: "nd_claimer ?nd = nd_claimer nd" and t: "unat (nd_claim_elapsed_ms ?nd) = unat (nd_claim_elapsed_ms nd) + unat e"
      using w by (simp_all add: tick_claimer)
    have "nd_state ?nd = Claiming" using c Cons.prems(1) by (simp add: nd_state_def)
    from Cons.IH [OF this] t False c show ?thesis by (simp add: add.assoc)
  qed
qed

lemma node_start_claims:
  assumes "Address_is_specific (nd_address nd)"
  shows "nd_state (snd (node_start nd)) = Claiming" and "nd_claim_elapsed_ms (snd (node_start nd)) = 0"
    and "nd_address (snd (node_start nd)) = nd_address nd"
  using assms by (simp_all add: node_start_def Claimer_claim_def Let_def nd_state_def nd_address_def)

end
