(* ===== verification/Node_Transfer.thy ===== *)
theory Node_Transfer
  imports Node
begin

text \<open>
  A message from one ECU to another, end to end in frames: the sender's \<^verbatim>\<open>Outgoing\<close> against the
  receiver's \<^verbatim>\<open>Node\<close> (\<^verbatim>\<open>core/src/node.rs\<close>). The frames are shown to carry the conversation of
  the transmitter and the reassembler, so the theorems on the transport protocol apply.
\<close>

section \<open>Frames in, frames out\<close>

definition dt_frame :: "address \<Rightarrow> address \<Rightarrow> tp_dt \<Rightarrow> can_frame" where
  "dt_frame source destination dt =
     Frame_from_payload (Can_Id (raw_of_parts Priority_LOWEST PGN_TP_DT destination source)) (TpDt_encode dt)"

lemma node_on_cm_frame:
  assumes "tp_cm_frame a d cm = Some f" and "TpCm_ok cm" and "d = Address_GLOBAL \<or> d = nd_address nd"
    and "is_rts cm \<longrightarrow> d \<noteq> Address_GLOBAL"
  shows "node_on_frame buf f nd =
    (let (out, r1) = rx_on_tp_cm buf a cm (nd_reassembler nd)
     in Some (lift out (nd_address nd) a, nd\<lparr>nd_reassembler := r1\<rparr>))"
proof -
  have f: "f = Frame_from_payload (Can_Id (raw_of_parts Priority_LOWEST PGN_TP_CM d a)) (TpCm_encode cm)"
    using assms(1) by (simp add: tp_cm_frame_eq)
  note i = tp_frame_id(3,4,6,7) [of PGN_TP_CM d a]
  have "Id_is_addressed_to (frame_id f) (nd_address nd)" using assms(3) i(4) by (auto simp: f)
  then show ?thesis
    using assms(2,4) i(1-3)
    by (auto simp: f node_on_frame_def on_tp_cm_frame_def Let_def TpCm_decode_encode split_beta)
qed

lemma node_on_dt_frame:
  assumes "TpDt_ok dt" and "d = Address_GLOBAL \<or> d = nd_address nd"
  shows "node_on_frame buf (dt_frame a d dt) nd =
    do { (out, r1) \<leftarrow> rx_on_tp_dt a dt (nd_reassembler nd);
         Some (lift out (nd_address nd) a, nd\<lparr>nd_reassembler := r1\<rparr>) }"
proof -
  note i = tp_frame_id(3,4,7) [of PGN_TP_DT d a]
  have "Id_is_addressed_to (frame_id (dt_frame a d dt)) (nd_address nd)"
    using assms(2) i(3) by (auto simp: dt_frame_def)
  then show ?thesis
    using assms(1) i(1,2)
    by (simp add: dt_frame_def node_on_frame_def on_tp_dt_frame_def Let_def TpDt_decode_encode)
qed

lemma node_run_packets:
  assumes "run_machine (rx_step buf) (map (RxDt a) ds) (nd_reassembler nd) = Some (outs, r1)"
    and "list_all TpDt_ok ds" and "d = Address_GLOBAL \<or> d = nd_address nd"
  shows "run_machine (node_step buf) (map (\<lambda>dt. NdFrame (dt_frame a d dt)) ds) nd =
    Some (map (\<lambda>out. OutEvent (lift (fst out) (nd_address nd) a)) outs, nd\<lparr>nd_reassembler := r1\<rparr>)"
  using assms
proof (induction ds arbitrary: nd outs)
  case Nil
  then show ?case by simp
next
  case (Cons dt ds)
  from Cons.prems(1) obtain out r2 outs2 where step: "rx_on_tp_dt a dt (nd_reassembler nd) = Some (out, r2)"
    and rest: "run_machine (rx_step buf) (map (RxDt a) ds) r2 = Some (outs2, r1)" "outs = (out, []) # outs2"
    by (auto split: Option.bind_splits)
  let ?nd = "nd\<lparr>nd_reassembler := r2\<rparr>"
  have addr: "nd_address ?nd = nd_address nd" by (simp add: nd_address_def)
  from Cons.IH [of ?nd outs2] rest Cons.prems(2,3) addr
  have "run_machine (node_step buf) (map (\<lambda>dt. NdFrame (dt_frame a d dt)) ds) ?nd =
      Some (map (\<lambda>out. OutEvent (lift (fst out) (nd_address nd) a)) outs2, nd\<lparr>nd_reassembler := r1\<rparr>)"
    by simp
  with node_on_dt_frame [of dt d nd buf a] step rest(2) Cons.prems(2,3) show ?case by simp
qed

text \<open>Pulling frames until there are none, as \<^verbatim>\<open>while let Some(frame) = out.next_frame()\<close> does.\<close>

fun out_drain :: "nat \<Rightarrow> outgoing \<Rightarrow> (can_frame list \<times> outgoing) option" where
  "out_drain 0 o1 = None"
| "out_drain (Suc fuel) o1 =
     do { (f, o2) \<leftarrow> out_next_frame o1;
          case f of
            None \<Rightarrow> Some ([], o2)
          | Some f \<Rightarrow> do { (fs, o3) \<leftarrow> out_drain fuel o2; Some (f # fs, o3) } }"

lemma out_drain_multi:
  assumes "out_state o1 = Multi tx True" and "tx_drain fuel tx = Some (ds, tx1)"
  shows "out_drain fuel o1 =
    Some (map (dt_frame (out_source o1) (out_destination o1)) ds, o1\<lparr>out_state := Multi tx1 True\<rparr>)"
  using assms
proof (induction fuel arbitrary: o1 tx ds)
  case 0
  then show ?case by simp
next
  case (Suc fuel)
  from Suc.prems(2) obtain p tx2 where step: "tx_next_packet tx = Some (p, tx2)"
    by (auto split: Option.bind_splits)
  show ?case
  proof (cases p)
    case None
    then show ?thesis using Suc.prems step by (simp add: out_next_frame_def)
  next
    case (Some dt)
    from Suc.prems(2) step Some obtain ds2 where rest: "tx_drain fuel tx2 = Some (ds2, tx1)" "ds = dt # ds2"
      by (auto split: Option.bind_splits)
    let ?o2 = "o1\<lparr>out_state := Multi tx2 True\<rparr>"
    have "out_next_frame o1 = Some (Some (dt_frame (out_source o1) (out_destination o1) dt), ?o2)"
      using Suc.prems(1) step Some tp_frame_id(1) [of PGN_TP_DT "out_destination o1" "out_source o1"]
      by (simp add: out_next_frame_def dt_frame_def)
    moreover have "out_drain fuel ?o2 =
        Some (map (dt_frame (out_source o1) (out_destination o1)) ds2, o1\<lparr>out_state := Multi tx1 True\<rparr>)"
      using Suc.IH [of ?o2 tx2 ds2] rest(1) by simp
    ultimately show ?thesis using rest(2) by simp
  qed
qed

lemma out_first_frame:
  assumes "out_state o1 = Multi tx False"
  shows "out_next_frame o1 = Some (tp_cm_frame (out_source o1) (out_destination o1) (tx_start tx),
    o1\<lparr>out_state := Multi tx True\<rparr>)"
  using assms tp_frame_id(1) [of PGN_TP_CM "out_destination o1" "out_source o1"]
  by (simp add: out_next_frame_def tp_cm_frame_eq)

lemma out_on_cm_frame:
  assumes "out_state o1 = Multi tx ann" and "tp_cm_frame (out_destination o1) d cm = Some f" and "TpCm_ok cm"
  shows "out_on_frame f o1 =
    do { (t, tx1) \<leftarrow> tx_on_tp_cm cm tx; Some (progress_of t, o1\<lparr>out_state := Multi tx1 ann\<rparr>) }"
  using assms(1) cm_frame_fields [OF assms(2)] TpCm_decode_encode [OF assms(3)]
  by (simp add: out_on_frame_def)

section \<open>The receiver's answers are well formed\<close>

fun rx_answer_ok :: "rx \<Rightarrow> bool" where
  "rx_answer_ok RxIdle = True"
| "rx_answer_ok (RxSend cm) = TpCm_ok cm"
| "rx_answer_ok (RxMessage p s d ack) = pred_option TpCm_ok ack"

lemma filler_reason_ok [simp]: "AbortReason_ok (OtherReason FILL)"
  by (simp add: AbortReason_ok_iff FILL_def)

lemma simple_reasons_ok [simp]:
  "AbortReason_ok ResourcesUnavailable" "AbortReason_ok AlreadyInSession" "AbortReason_ok Timeout"
  "AbortReason_ok DuplicateSequenceNumber" "AbortReason_ok BadSequenceNumber"
  by (simp_all add: AbortReason_ok_iff)

lemma rx_on_tp_cm_answer_ok: "TpCm_ok cm \<Longrightarrow> rx_answer_ok (fst (rx_on_tp_cm N a cm r))"
  by (cases cm)
    (auto simp: rx_on_bam_def rx_on_rts_def rx_on_abort_def TpCm_ok_def Let_def split: option.split)

lemma rx_take_packet_answer_ok:
  assumes "rx_take_packet i s dt r = Some (out, r1)" and "Pgn_ok (ses_pgn s)"
  shows "rx_answer_ok out"
  using assms
  by (auto simp: rx_take_packet_def Let_def TpCm_ok_def split: Option.bind_splits if_splits)

lemma rx_on_tp_dt_answer_ok:
  assumes r: "rx_ok N r" and h: "rx_on_tp_dt a dt r = Some (out, r1)"
  shows "rx_answer_ok out"
proof (cases "slot_of ses_source r a")
  case None
  with h show ?thesis by (auto simp: rx_on_tp_dt_def)
next
  case (Some i)
  obtain s b where s: "r ! i = \<lparr>slot_buffer = b, slot_session = Some s\<rparr>" "rx_session_ok N s"
    by (rule rx_slotE [OF r Some])
  then have p: "Pgn_ok (ses_pgn s)" by (simp add: rx_session_ok_def)
  show ?thesis
  proof (cases "dt_sequence dt = ses_next_sequence s")
    case True
    with h Some s(1) rx_take_packet_answer_ok p show ?thesis by (simp add: rx_on_tp_dt_def)
  next
    case False
    with h Some s(1) p show ?thesis by (auto simp: rx_on_tp_dt_def rx_out_of_order_def TpCm_ok_def)
  qed
qed

lemma rx_run_packets_ok:
  assumes "rx_ok N r" and "list_all TpDt_ok ds" and "run_machine (rx_step N) (map (RxDt a) ds) r = Some (outs, r1)"
  shows "rx_ok N r1 \<and> list_all (\<lambda>out. rx_answer_ok (fst out)) outs"
  using assms
proof (induction ds arbitrary: r outs)
  case Nil
  then show ?case by simp
next
  case (Cons dt ds)
  obtain out r2 where step: "rx_on_tp_dt a dt r = Some (out, r2)" "rx_ok N r2"
    by (rule rx_on_tp_dt_refines [OF Cons.prems(1), of dt a]) (use Cons.prems(2) in auto)
  with Cons.prems(3) obtain outs2 where rest: "run_machine (rx_step N) (map (RxDt a) ds) r2 = Some (outs2, r1)"
    "outs = (out, []) # outs2"
    by (auto split: Option.bind_splits)
  with Cons.IH [OF step(2) _ rest(1)] Cons.prems(2) rx_on_tp_dt_answer_ok [OF Cons.prems(1) step(1)]
  show ?case by simp
qed

section \<open>The conversation in frames\<close>

text \<open>
  The sender's frames go to the node; an answer goes back and the sender continues, until the node
  delivers. One round is the announcement or one window, so 258 rounds are enough.
\<close>

definition last_event :: "node_output list \<Rightarrow> event" where
  "last_event outs = (if outs = [] then EvtIdle else (case last outs of OutEvent ev \<Rightarrow> ev | _ \<Rightarrow> EvtIdle))"

fun talk :: "nat \<Rightarrow> nat \<Rightarrow> outgoing \<Rightarrow> node \<Rightarrow> ((pgn \<times> address \<times> bytes) \<times> outgoing \<times> node) option" where
  "talk 0 buf o1 nd = None"
| "talk (Suc fuel) buf o1 nd =
     do { (frames, o2) \<leftarrow> out_drain 257 o1;
          (outs, nd1) \<leftarrow> run_machine (node_step buf) (map NdFrame frames) nd;
          case last_event outs of
            EvtIdle \<Rightarrow> None
          | EvtTransmit f \<Rightarrow> do { (pr, o3) \<leftarrow> out_on_frame f o2; talk fuel buf o3 nd1 }
          | EvtMessage p s d None \<Rightarrow> Some ((p, s, d), o2, nd1)
          | EvtMessage p s d (Some f) \<Rightarrow> do { (pr, o3) \<leftarrow> out_on_frame f o2; Some ((p, s, d), o3, nd1) } }"

lemma tx_drain_Suc: "tx_drain fuel tx = Some x \<Longrightarrow> tx_drain (Suc fuel) tx = Some x"
proof (induction fuel arbitrary: tx x)
  case (Suc fuel)
  from Suc.prems obtain p tx1 where step: "tx_next_packet tx = Some (p, tx1)"
    by (auto split: Option.bind_splits)
  show ?case
  proof (cases p)
    case None
    with Suc.prems step show ?thesis by simp
  next
    case (Some d)
    with Suc.prems step obtain ds tx2 where "tx_drain fuel tx1 = Some (ds, tx2)" "x = (d # ds, tx2)"
      by (auto split: Option.bind_splits)
    with Suc.IH [of tx1 "(ds, tx2)"] step Some show ?thesis by (simp del: tx_drain.simps(2) add: tx_drain.simps(2) [of "Suc fuel"])
  qed
qed simp

lemma tx_next_packet_ok: "tx_next_packet tx = Some (Some d, tx1) \<Longrightarrow> TpDt_ok d"
  by (auto simp: tx_next_packet_def Let_def split: Option.bind_splits if_splits)

lemma tx_drain_ok: "tx_drain fuel tx = Some (ds, tx1) \<Longrightarrow> list_all TpDt_ok ds"
proof (induction fuel arbitrary: tx ds)
  case (Suc fuel)
  from Suc.prems obtain p t2 where step: "tx_next_packet tx = Some (p, t2)"
    by (auto split: Option.bind_splits)
  show ?case
  proof (cases p)
    case None
    with Suc.prems step show ?thesis by simp
  next
    case (Some d)
    with Suc.prems step obtain ds2 where "tx_drain fuel t2 = Some (ds2, tx1)" "ds = d # ds2"
      by (auto split: Option.bind_splits)
    with Suc.IH [of t2 ds2] tx_next_packet_ok [of tx d t2] step Some show ?thesis by simp
  qed
qed simp

lemma last_event_lift:
  "outs \<noteq> [] \<Longrightarrow> last_event (map (\<lambda>out. OutEvent (lift (fst out) d a)) outs) = lift (last_answer outs) d a"
  by (simp add: last_event_def last_answer_def last_map)

lemma converse_in_frames:
  assumes "converse fuel N a (RxSend cm) tx r = Some (res, tx1, r1)" and "rx_ok N r" and "TpCm_ok cm"
    and "out_state o1 = Multi tx True" and "out_source o1 = a" and "out_destination o1 = nd_address nd"
    and "nd_reassembler nd = r" and "tp_cm_frame (nd_address nd) a cm = Some f"
  shows "\<exists>pr o2. out_on_frame f o1 = Some (pr, o2) \<and>
    talk fuel N o2 nd = Some (res, o1\<lparr>out_state := Multi tx1 True\<rparr>, nd\<lparr>nd_reassembler := r1\<rparr>)"
  using assms
proof (induction fuel arbitrary: cm tx r o1 nd f)
  case 0
  then show ?case by simp
next
  case (Suc fuel)
  from Suc.prems(1) obtain t2 ds t3 outs r2 where tx: "tx_on_tp_cm cm tx = Some (TxSendData, t2)"
    "tx_drain 256 t2 = Some (ds, t3)" and run: "run_machine (rx_step N) (map (RxDt a) ds) r = Some (outs, r2)"
    and rest: "converse fuel N a (last_answer outs) t3 r2 = Some (res, tx1, r1)"
    by (auto split: Option.bind_splits if_splits)
  have ds: "list_all TpDt_ok ds" by (rule tx_drain_ok [OF tx(2)])
  let ?o2 = "o1\<lparr>out_state := Multi t2 True\<rparr>" and ?o3 = "o1\<lparr>out_state := Multi t3 True\<rparr>"
  let ?nd = "nd\<lparr>nd_reassembler := r2\<rparr>"
  have reply: "out_on_frame f o1 = Some (ProgressReady, ?o2)"
    using out_on_cm_frame [OF Suc.prems(4) _ Suc.prems(3), of a f] Suc.prems(6,8) tx(1)
    by (simp add: progress_of_def)
  have "tx_drain 257 t2 = Some (ds, t3)" using tx_drain_Suc [OF tx(2)] by simp
  from out_drain_multi [of ?o2, OF _ this] Suc.prems(5)
  have frames: "out_drain 257 ?o2 = Some (map (dt_frame a (nd_address nd)) ds, ?o3)"
    using Suc.prems(6) by simp
  have nrun: "run_machine (node_step N) (map NdFrame (map (dt_frame a (nd_address nd)) ds)) nd =
      Some (map (\<lambda>out. OutEvent (lift (fst out) (nd_address nd) a)) outs, ?nd)"
    using node_run_packets [of N a ds nd outs r2 "nd_address nd"] run ds Suc.prems(7) by (simp add: comp_def)
  have okr: "rx_ok N r2" and oka: "list_all (\<lambda>out. rx_answer_ok (fst out)) outs"
    using rx_run_packets_ok [OF Suc.prems(2) ds run] by blast+
  have ne: "outs \<noteq> []" using rest by (cases fuel) (auto simp: last_answer_def)
  have answer: "rx_answer_ok (last_answer outs)" using oka ne by (simp add: last_answer_def list_all_iff)
  note ev = last_event_lift [OF ne, of "nd_address nd" a]
  have addr: "nd_address ?nd = nd_address nd" by (simp add: nd_address_def)
  have "talk (Suc fuel) N ?o2 nd = Some (res, o1\<lparr>out_state := Multi tx1 True\<rparr>, nd\<lparr>nd_reassembler := r1\<rparr>)"
  proof (cases "last_answer outs")
    case RxIdle
    with rest show ?thesis by (cases fuel) auto
  next
    case (RxSend cm2)
    obtain f2 where f2: "tp_cm_frame (nd_address nd) a cm2 = Some f2" by (simp add: tp_cm_frame_eq)
    obtain pr o4 where "out_on_frame f2 ?o3 = Some (pr, o4)"
      "talk fuel N o4 ?nd = Some (res, o1\<lparr>out_state := Multi tx1 True\<rparr>, nd\<lparr>nd_reassembler := r1\<rparr>)"
      using Suc.IH [of cm2 t3 r2 ?o3 ?nd f2] rest RxSend okr answer Suc.prems(5,6) f2 addr by auto
    with frames nrun ev RxSend f2 show ?thesis by (simp add: lift_def)
  next
    case (RxMessage p s d ack)
    obtain fl where fl: "fuel = Suc fl" using rest by (cases fuel) auto
    with rest RxMessage obtain ak t where ak: "ack = Some ak" "tx_on_tp_cm ak t3 = Some (t, tx1)" "res = (p, s, d)" "r1 = r2"
      by (cases ack) (auto split: Option.bind_splits)
    obtain f2 where f2: "tp_cm_frame (nd_address nd) a ak = Some f2" by (simp add: tp_cm_frame_eq)
    have "out_on_frame f2 ?o3 = Some (progress_of t, o1\<lparr>out_state := Multi tx1 True\<rparr>)"
      using out_on_cm_frame [of ?o3 t3 True a ak f2] answer RxMessage ak f2 Suc.prems(6) by simp
    with frames nrun ev RxMessage f2 ak show ?thesis by (simp add: lift_def)
  qed
  with reply show ?case by blast
qed

lemma Outgoing_multi:
  assumes "Outgoing_new p a d data = Inr o1" and "8 < length data"
  obtains tx where "Transmitter_build p data (d = Address_GLOBAL) = Inr tx" and "out_state o1 = Multi tx False"
    and "out_source o1 = a" and "out_destination o1 = d"
  using assms
  by (auto simp: Outgoing_new_def MAX_PAYLOAD_def Let_def guard_simps Transmitter_broadcast_def
      Transmitter_addressed_def split: if_splits sum.splits)

lemma Outgoing_multi_defined:
  "9 \<le> length data \<Longrightarrow> length data \<le> 1785 \<Longrightarrow> \<exists>o1. Outgoing_new p a d data = Inr o1"
  using build_defined [of data p True] build_defined [of data p False]
  by (auto simp: Outgoing_new_def MAX_PAYLOAD_def Let_def Transmitter_broadcast_def Transmitter_addressed_def)

lemma rx_on_tp_cm_no_message: "fst (rx_on_tp_cm N a cm r) \<noteq> RxMessage p s data ack"
  by (cases cm) (auto simp: rx_on_bam_def rx_on_rts_def rx_on_abort_def Let_def split: option.split)

lemma addressed_in_frames:
  assumes ok: "node_ok buf nd" and p: "Pgn_ok p" and new: "Outgoing_new p a (nd_address nd) data = Inr o1"
    and len: "8 < length data" "length data \<le> buf" and ng: "nd_address nd \<noteq> Address_GLOBAL"
    and room: "slot_for ses_source (nd_reassembler nd) a \<noteq> None"
    and free: "\<not> rx_in_session a (\<lambda>s. \<not> ses_broadcast s) (nd_reassembler nd)"
  shows "\<exists>o2 nd2. talk 258 buf o1 nd = Some ((p, a, data), o2, nd2) \<and> out_is_complete o2 \<and> node_ok buf nd2 \<and>
    nd_claimer nd2 = nd_claimer nd \<and> receiver_of (nd_reassembler nd2) = (receiver_of (nd_reassembler nd))(a := None)"
proof -
  let ?r = "nd_reassembler nd"
  from ok have r: "rx_ok buf ?r" by (simp add: node_ok_def)
  obtain tx where tx: "Transmitter_build p data False = Inr tx" and st: "out_state o1 = Multi tx False"
    and src: "out_source o1 = a" "out_destination o1 = nd_address nd"
    by (rule Outgoing_multi [OF new len(1)]) (use ng in simp)
  note b = build_InrD [OF tx] and n = started [OF tx]
  have adr: "Transmitter_addressed p data = Inr tx" using tx by (simp add: Transmitter_addressed_def)
  have max: "with_max_packets_per_cts (tx_max_packets_per_cts tx) tx = tx"
    by (simp add: with_max_packets_per_cts_def)
  from addressed_delivered [OF r p adr len(2) room free, of "tx_max_packets_per_cts tx", unfolded max]
  obtain tx1 r1 where del: "send_addressed buf a tx ?r = Some ((p, a, data), tx1, r1)" "tx_complete tx1" "rx_ok buf r1"
    "receiver_of r1 = (receiver_of ?r)(a := None)" by blast
  have cmok: "TpCm_ok (tx_start tx)" using p b(2) by (simp add: tx_start_def TpCm_ok_def Let_def)
  obtain answer r0 where a0: "rx_on_tp_cm buf a (tx_start tx) ?r = (answer, r0)" by (cases "rx_on_tp_cm buf a (tx_start tx) ?r")
  have conv: "converse 257 buf a answer tx r0 = Some ((p, a, data), tx1, r1)"
    using del(1) a0 by (simp add: send_addressed_def)
  have ans: "rx_answer_ok answer" using rx_on_tp_cm_answer_ok [OF cmok, of buf a ?r] a0 by simp
  have r0: "rx_ok buf r0" using rx_on_tp_cm_refines(1) [OF r cmok, of a] a0 by simp
  obtain cm where cm: "answer = RxSend cm"
  proof (cases answer)
    case RxIdle
    with conv have False by (simp add: numeral_eq_Suc)
    then show thesis ..
  next
    case (RxMessage q s dd ack)
    with rx_on_tp_cm_no_message [of buf a "tx_start tx" ?r q s dd ack] a0 show thesis by simp
  qed (rule that)
  let ?o1 = "o1\<lparr>out_state := Multi tx True\<rparr>" and ?nd = "nd\<lparr>nd_reassembler := r0\<rparr>"
  obtain f0 where f0: "tp_cm_frame a (nd_address nd) (tx_start tx) = Some f0" by (simp add: tp_cm_frame_eq)
  obtain f where f: "tp_cm_frame (nd_address nd) a cm = Some f" by (simp add: tp_cm_frame_eq)
  have addr: "nd_address ?nd = nd_address nd" by (simp add: nd_address_def)
  have w0: "tx_drain 256 tx = Some ([], tx)" using b(8) tx_next_packet_None [of tx] by (simp add: numeral_eq_Suc)
  have drain: "out_drain 257 o1 = Some ([f0], ?o1)"
  proof -
    have "out_drain 256 ?o1 = Some ([], ?o1)" using out_drain_multi [of ?o1, OF _ w0] by simp
    moreover have "out_next_frame o1 = Some (Some f0, ?o1)" using out_first_frame [OF st] src f0 by simp
    moreover have "(257 :: nat) = Suc 256" by simp
    ultimately show ?thesis by (simp only: out_drain.simps bind.simps prod.case option.case)
  qed
  have first: "node_on_frame buf f0 nd = Some (EvtTransmit f, ?nd)"
    using node_on_cm_frame [OF f0 cmok, of nd buf] ng a0 cm f by (simp add: lift_def)
  have c1: "converse 257 buf a (RxSend cm) tx r0 = Some ((p, a, data), tx1, r1)" using conv cm by simp
  obtain pr o2 where back1: "out_on_frame f ?o1 = Some (pr, o2)"
    and rest: "talk 257 buf o2 ?nd = Some ((p, a, data), o1\<lparr>out_state := Multi tx1 True\<rparr>, nd\<lparr>nd_reassembler := r1\<rparr>)"
    using converse_in_frames [OF c1 r0, of ?o1 ?nd f] ans cm src addr f by auto
  have "talk (Suc 257) buf o1 nd = Some ((p, a, data), o1\<lparr>out_state := Multi tx1 True\<rparr>, nd\<lparr>nd_reassembler := r1\<rparr>)"
    unfolding talk.simps(2) using drain first back1 rest by (simp add: last_event_def)
  then have "talk 258 buf o1 nd = Some ((p, a, data), o1\<lparr>out_state := Multi tx1 True\<rparr>, nd\<lparr>nd_reassembler := r1\<rparr>)"
    by simp
  then show ?thesis
    using del(2-4) ok by (simp add: out_is_complete_def node_ok_def)
qed

lemma last_event_append: "last_event (outs @ [OutEvent ev]) = ev"
  by (simp add: last_event_def)

text \<open>A broadcast needs no answer: the node delivers it at the last frame.\<close>

text \<open>The frames of a broadcast: the announcement, then the packets.\<close>

lemma broadcast_frames:
  assumes p: "Pgn_ok p" and new: "Outgoing_new p a Address_GLOBAL data = Inr o1" and len: "8 < length data"
  obtains tx ds tx1 f0 o2 where "out_drain 257 o1 = Some (f0 # map (dt_frame a Address_GLOBAL) ds, o2)" and "out_is_complete o2"
    and "Transmitter_broadcast p data = Inr tx" and "tx_drain 256 tx = Some (ds, tx1)" and "list_all TpDt_ok ds"
    and "tp_cm_frame a Address_GLOBAL (tx_start tx) = Some f0" and "TpCm_ok (tx_start tx)" and "\<not> is_rts (tx_start tx)"
proof -
  obtain tx where tx: "Transmitter_build p data True = Inr tx" and st: "out_state o1 = Multi tx False"
    and src: "out_source o1 = a" "out_destination o1 = Address_GLOBAL"
    by (rule Outgoing_multi [OF new len]) simp
  note b = build_InrD [OF tx]
  have bc: "Transmitter_broadcast p data = Inr tx" using tx by (simp add: Transmitter_broadcast_def)
  obtain ds tx1 where dr: "tx_drain 256 tx = Some (ds, tx1)" "tx_complete tx1"
    by (rule broadcast_drains [OF bc]) simp
  obtain f0 where f0: "tp_cm_frame a Address_GLOBAL (tx_start tx) = Some f0" by (simp add: tp_cm_frame_eq)
  have cmok: "TpCm_ok (tx_start tx)" using p b(2) by (simp add: tx_start_def TpCm_ok_def Let_def)
  have bam: "\<not> is_rts (tx_start tx)" using b(4) by (simp add: tx_start_def is_rts_def)
  let ?o1 = "o1\<lparr>out_state := Multi tx True\<rparr>"
  have "out_drain 256 ?o1 = Some (map (dt_frame a Address_GLOBAL) ds, o1\<lparr>out_state := Multi tx1 True\<rparr>)"
    using out_drain_multi [of ?o1, OF _ dr(1)] src by simp
  moreover have "out_next_frame o1 = Some (Some f0, ?o1)" using out_first_frame [OF st] src f0 by simp
  moreover have "out_drain 257 o1 = out_drain (Suc 256) o1" by simp
  ultimately have "out_drain 257 o1 = Some (f0 # map (dt_frame a Address_GLOBAL) ds, o1\<lparr>out_state := Multi tx1 True\<rparr>)"
    by (simp only: out_drain.simps bind.simps prod.case option.case)
  from that [OF this _ bc dr(1) tx_drain_ok [OF dr(1)] f0 cmok bam] dr(2) show thesis by (simp add: out_is_complete_def)
qed

lemma broadcast_frames_ok:
  assumes "Pgn_ok p" and "Outgoing_new p a Address_GLOBAL data = Inr o1" and "8 < length data"
    and "out_drain 257 o1 = Some (frames, o2)"
  shows "list_all Frame_ok frames"
proof -
  obtain tx ds tx1 f0 o3 where h: "out_drain 257 o1 = Some (f0 # map (dt_frame a Address_GLOBAL) ds, o3)"
    "tp_cm_frame a Address_GLOBAL (tx_start tx) = Some f0"
    by (rule broadcast_frames [OF assms(1-3)]) blast
  have "Frame_ok (dt_frame a Address_GLOBAL dt)" for dt by (simp add: dt_frame_def from_payload_ok tp_frame_id(2))
  with h assms(4) cm_frame_fields(1) [OF h(2)] show ?thesis by (auto simp: list_all_iff)
qed

lemma broadcast_frames_run:
  assumes ok: "node_ok buf nd" and p: "Pgn_ok p" and new: "Outgoing_new p a Address_GLOBAL data = Inr o1"
    and len: "8 < length data" "length data \<le> buf" and room: "slot_for ses_source (nd_reassembler nd) a \<noteq> None"
  obtains frames o2 outs nd2 where "out_drain 257 o1 = Some (frames, o2)" and "out_is_complete o2"
    and "run_machine (node_step buf) (map NdFrame frames) nd = Some (outs, nd2)"
    and "last_event outs = EvtMessage p a data None" and "node_ok buf nd2" and "nd_claimer nd2 = nd_claimer nd"
proof -
  let ?r = "nd_reassembler nd"
  from ok have r: "rx_ok buf ?r" by (simp add: node_ok_def)
  obtain tx ds tx1 f0 o2 where drain: "out_drain 257 o1 = Some (f0 # map (dt_frame a Address_GLOBAL) ds, o2)" "out_is_complete o2"
    and bc: "Transmitter_broadcast p data = Inr tx" and dr: "tx_drain 256 tx = Some (ds, tx1)" and okds: "list_all TpDt_ok ds"
    and f0: "tp_cm_frame a Address_GLOBAL (tx_start tx) = Some f0" "TpCm_ok (tx_start tx)" "\<not> is_rts (tx_start tx)"
    by (rule broadcast_frames [OF p new len(1)])
  have "Transmitter_build p data True = Inr tx" using bc by (simp add: Transmitter_broadcast_def)
  note n = started [OF this]
  have adm: "list_all rx_admissible (map (RxDt a) ds)" using okds by (simp add: list_all_iff)
  obtain outs r1 where run: "run_machine (rx_step buf) (RxCm a (tx_start tx) # map (RxDt a) ds) ?r = Some (outs, r1)"
    and r1: "rx_ok buf r1" and answers: "answers_to a (RxCm a (tx_start tx) # map (RxDt a) ds) (map fst outs) =
      replicate (message_packets data) RxIdle @ [RxMessage p a data None]"
    using broadcast_delivered [OF r p bc len(2) room dr adm] by auto
  obtain out1 r2 outs2 where s1: "rx_on_tp_cm buf a (tx_start tx) ?r = (out1, r2)"
    and s2: "run_machine (rx_step buf) (map (RxDt a) ds) r2 = Some (outs2, r1)" "outs = (out1, []) # outs2"
    using run by (auto split: Option.bind_splits prod.splits)
  have lens: "length outs2 = length ds"
    using run_machine_length [OF s2(1)] by simp
  have all: "answers_to a (map (RxDt a) ds) (map fst outs2) = map fst outs2"
    using lens by (induction ds outs2 rule: list_induct2') simp_all
  have outs2: "out1 = RxIdle" "map fst outs2 = replicate (message_packets data - 1) RxIdle @ [RxMessage p a data None]"
  proof -
    obtain k where k: "message_packets data = Suc k" using n(4) by (cases "message_packets data") simp_all
    from answers s2(2) all k show "out1 = RxIdle"
      and "map fst outs2 = replicate (message_packets data - 1) RxIdle @ [RxMessage p a data None]" by simp_all
  qed
  let ?nd = "nd\<lparr>nd_reassembler := r2\<rparr>"
  have first: "node_on_frame buf f0 nd = Some (EvtIdle, ?nd)"
    using node_on_cm_frame [OF f0(1,2), of nd buf] f0(3) s1 outs2(1) by (simp add: lift_def)
  have nrun: "run_machine (node_step buf) (map NdFrame (map (dt_frame a Address_GLOBAL) ds)) ?nd =
      Some (map (\<lambda>out. OutEvent (lift (fst out) (nd_address nd) a)) outs2, nd\<lparr>nd_reassembler := r1\<rparr>)"
    using node_run_packets [of buf a ds ?nd outs2 r1 Address_GLOBAL] s2(1) okds by (simp add: comp_def nd_address_def)
  have ne: "outs2 \<noteq> []" using outs2(2) by auto
  have "last_answer outs2 = RxMessage p a data None" by (rule last_answerI [OF outs2(2)])
  with last_event_lift [OF ne, of "nd_address nd" a]
  have ev: "last_event (OutEvent EvtIdle # map (\<lambda>out. OutEvent (lift (fst out) (nd_address nd) a)) outs2) = EvtMessage p a data None"
    using ne by (simp add: last_event_def lift_def)
  have "run_machine (node_step buf) (map NdFrame (f0 # map (dt_frame a Address_GLOBAL) ds)) nd =
      Some (OutEvent EvtIdle # map (\<lambda>out. OutEvent (lift (fst out) (nd_address nd) a)) outs2, nd\<lparr>nd_reassembler := r1\<rparr>)"
    using first nrun by simp
  from that [OF drain this ev] show thesis using r1 ok by (simp add: node_ok_def)
qed

lemma broadcast_in_frames:
  assumes ok: "node_ok buf nd" and p: "Pgn_ok p" and new: "Outgoing_new p a Address_GLOBAL data = Inr o1"
    and len: "8 < length data" "length data \<le> buf" and room: "slot_for ses_source (nd_reassembler nd) a \<noteq> None"
  shows "\<exists>o2 nd2. talk 258 buf o1 nd = Some ((p, a, data), o2, nd2) \<and> out_is_complete o2 \<and> node_ok buf nd2 \<and>
    nd_claimer nd2 = nd_claimer nd"
proof -
  obtain frames o2 outs nd2 where "out_drain 257 o1 = Some (frames, o2)" "out_is_complete o2"
    "run_machine (node_step buf) (map NdFrame frames) nd = Some (outs, nd2)"
    "last_event outs = EvtMessage p a data None" "node_ok buf nd2" "nd_claimer nd2 = nd_claimer nd"
    by (rule broadcast_frames_run [OF assms])
  moreover from this have "talk (Suc 257) buf o1 nd = Some ((p, a, data), o2, nd2)" unfolding talk.simps(2) by simp
  ultimately show ?thesis by simp
qed

text \<open>A message of up to eight bytes is one frame, in any group the node leaves to the application.\<close>

definition application_group :: "pgn \<Rightarrow> bool" where
  "application_group p = (p \<notin> {PGN_ADDRESS_CLAIMED, PGN_REQUEST, PGN_TP_CM, PGN_TP_DT})"

lemma Outgoing_single:
  assumes "Outgoing_new p a d data = Inr o1" and "length data \<le> 8"
  obtains i f where "Id_from_parts Priority_DEFAULT p d a = Inr i" and "Frame_new i data = Inr f"
    and "o1 = \<lparr>out_pgn = p, out_priority = Priority_DEFAULT, out_source = a, out_destination = d, out_state = Single data False\<rparr>"
  using assms by (auto simp: Outgoing_new_def MAX_PAYLOAD_def Let_def split: sum.splits)

lemma single_frames_run:
  assumes new: "Outgoing_new p a d data = Inr o1" and len: "length data \<le> 8" and p: "Pgn_ok p"
    and app: "application_group p" and d: "d = Address_GLOBAL \<or> d = nd_address nd"
  obtains f o2 where "out_drain 257 o1 = Some ([f], o2)" and "out_is_complete o2"
    and "node_on_frame buf f nd = Some (EvtMessage p a data None, nd)"
proof -
  obtain i f where i: "Id_from_parts Priority_DEFAULT p d a = Inr i" and f: "Frame_new i data = Inr f"
    and o1: "o1 = \<lparr>out_pgn = p, out_priority = Priority_DEFAULT, out_source = a, out_destination = d, out_state = Single data False\<rparr>"
    by (rule Outgoing_single [OF new len])
  from from_parts_fields [OF _ p i]
  have id: "Id_pgn i = p" "Id_source_address i = a" "Id_destination_address i = (if Pgn_is_pdu1 p then Some d else None)"
    by simp_all
  then have addressed: "Id_is_addressed_to i (nd_address nd)"
    using d by (auto simp: is_addressed_to_iff Id_is_broadcast_def guard_simps)
  note ff = Frame_new_fields [OF f]
  have node: "node_on_frame buf f nd = Some (EvtMessage p a data None, nd)"
    using addressed app by (simp add: node_on_frame_def Let_def ff id application_group_def)
  let ?o2 = "o1\<lparr>out_state := Single data True\<rparr>"
  have "out_next_frame o1 = Some (Some f, ?o2)" "out_next_frame ?o2 = Some (None, ?o2)"
    using i f by (simp_all add: o1 out_next_frame_def)
  then have "out_drain 257 o1 = Some ([f], ?o2)" by (simp add: numeral_eq_Suc)
  then show thesis using that node by (simp add: out_is_complete_def o1)
qed

lemma single_in_frames:
  assumes "Outgoing_new p a d data = Inr o1" and "length data \<le> 8" and "Pgn_ok p"
    and "application_group p" and "d = Address_GLOBAL \<or> d = nd_address nd"
  shows "\<exists>o2. talk 258 buf o1 nd = Some ((p, a, data), o2, nd) \<and> out_is_complete o2"
proof -
  obtain f o2 where "out_drain 257 o1 = Some ([f], o2)" "out_is_complete o2"
    "node_on_frame buf f nd = Some (EvtMessage p a data None, nd)"
    by (rule single_frames_run [OF assms])
  moreover from this have "talk (Suc 257) buf o1 nd = Some ((p, a, data), o2, nd)"
    unfolding talk.simps(2) by (simp add: last_event_def)
  ultimately show ?thesis by simp
qed

end
