(* ===== verification/Diagnostics.thy ===== *)
theory Diagnostics
  imports Request_Ack
begin

text \<open>
  Diagnostic messages, \<^verbatim>\<open>core/src/diagnostics.rs\<close>: lamps, trouble codes, the lamp-and-code messages
  (DM1 and its kin), the clear requests DM3 and DM11, broadcast control DM13 and readiness DM5.
\<close>

section \<open>Groups and limits\<close>

definition DTC_LIST_GROUPS :: "pgn list" where
  "DTC_LIST_GROUPS = [PGN_DM1, PGN_DM2, PGN_DM6, PGN_DM12, PGN_DM23, PGN_DM27]"

definition is_dtc_list :: "pgn \<Rightarrow> bool" where
  "is_dtc_list p = (p \<in> set DTC_LIST_GROUPS)"

definition DTC_LEN :: nat where "DTC_LEN = 4"
definition LAMP_LEN :: nat where "LAMP_LEN = 2"
definition MAX_SPN :: u32 where "MAX_SPN = 0x7FFFF"
definition MAX_FMI :: u8 where "MAX_FMI = 0x1F"
definition MAX_OCCURRENCE_COUNT :: u8 where "MAX_OCCURRENCE_COUNT = 0x7F"

section \<open>Two-bit fields\<close>

definition set_field :: "u8 \<Rightarrow> nat \<Rightarrow> u8 \<Rightarrow> u8" where
  "set_field byte shift bits = (byte AND NOT (push_bit shift 3)) OR push_bit shift (bits AND 3)"

definition get_field :: "u8 \<Rightarrow> nat \<Rightarrow> u8" where
  "get_field byte shift = drop_bit shift byte AND 3"

lemma get_set_field:
  assumes "s \<in> {0, 2, 4, 6}" and "t \<in> {0, 2, 4, 6}"
  shows "get_field (set_field b s v) t = (if s = t then v AND 3 else get_field b t)"
  using assms by (auto simp: get_field_def set_field_def word_bits)

section \<open>Lamps\<close>

datatype lamp = MalfunctionIndicator | RedStop | AmberWarning | Protect

datatype lamp_status = LampOff | LampOn | LampReserved | LampNotAvailable

definition Lamp_ALL :: "lamp list" where
  "Lamp_ALL = [MalfunctionIndicator, RedStop, AmberWarning, Protect]"

primrec Lamp_shift :: "lamp \<Rightarrow> nat" where
  "Lamp_shift MalfunctionIndicator = 6"
| "Lamp_shift RedStop = 4"
| "Lamp_shift AmberWarning = 2"
| "Lamp_shift Protect = 0"

definition LampStatus_from_bits :: "u8 \<Rightarrow> lamp_status" where
  "LampStatus_from_bits bits =
     (let b = bits AND 3 in
      if b = 0 then LampOff else if b = 1 then LampOn else if b = 2 then LampReserved else LampNotAvailable)"

primrec LampStatus_to_bits :: "lamp_status \<Rightarrow> u8" where
  "LampStatus_to_bits LampOff = 0"
| "LampStatus_to_bits LampOn = 1"
| "LampStatus_to_bits LampReserved = 2"
| "LampStatus_to_bits LampNotAvailable = 3"

record lamps =
  lamps_status :: u8
  lamps_flash :: u8

definition Lamps_new :: lamps where
  "Lamps_new = \<lparr>lamps_status = 0, lamps_flash = 0\<rparr>"

definition Lamps_get_status :: "lamps \<Rightarrow> lamp \<Rightarrow> lamp_status" where
  "Lamps_get_status l x = LampStatus_from_bits (drop_bit (Lamp_shift x) (lamps_status l))"

definition Lamps_flash_status :: "lamps \<Rightarrow> lamp \<Rightarrow> lamp_status" where
  "Lamps_flash_status l x = LampStatus_from_bits (drop_bit (Lamp_shift x) (lamps_flash l))"

definition Lamps_with_status :: "lamps \<Rightarrow> lamp \<Rightarrow> lamp_status \<Rightarrow> lamps" where
  "Lamps_with_status l x s =
     \<lparr>lamps_status = set_field (lamps_status l) (Lamp_shift x) (LampStatus_to_bits s), lamps_flash = lamps_flash l\<rparr>"

definition Lamps_with_flash_status :: "lamps \<Rightarrow> lamp \<Rightarrow> lamp_status \<Rightarrow> lamps" where
  "Lamps_with_flash_status l x s =
     \<lparr>lamps_status = lamps_status l, lamps_flash = set_field (lamps_flash l) (Lamp_shift x) (LampStatus_to_bits s)\<rparr>"

definition Lamps_any_on :: "lamps \<Rightarrow> bool" where
  "Lamps_any_on l = list_ex (\<lambda>x. Lamps_get_status l x = LampOn) Lamp_ALL"

definition Lamps_encode :: "lamps \<Rightarrow> bytes" where
  "Lamps_encode l = [lamps_status l, lamps_flash l]"

definition Lamps_decode :: "bytes \<Rightarrow> lamps" where
  "Lamps_decode d = \<lparr>lamps_status = d ! 0, lamps_flash = d ! 1\<rparr>"

lemma LampStatus_bits [simp]: "LampStatus_from_bits (LampStatus_to_bits s) = s"
  by (cases s) (simp_all add: LampStatus_from_bits_def)

lemma LampStatus_bits_and [simp]: "LampStatus_to_bits s AND 3 = LampStatus_to_bits s"
  by (cases s) simp_all

lemma LampStatus_from_and: "LampStatus_from_bits x = LampStatus_from_bits (x AND 3)"
  by (simp add: LampStatus_from_bits_def Let_def)

lemma Lamp_shift_mem [simp]: "Lamp_shift x \<in> {0, 2, 4, 6}"
  by (cases x) simp_all

lemma Lamp_shift_inj [simp]: "Lamp_shift x = Lamp_shift y \<longleftrightarrow> x = y"
  by (cases x; cases y) simp_all

lemma Lamps_status_get: "Lamps_get_status l x = LampStatus_from_bits (get_field (lamps_status l) (Lamp_shift x))"
  unfolding Lamps_get_status_def get_field_def by (rule LampStatus_from_and)

lemma Lamps_flash_get: "Lamps_flash_status l x = LampStatus_from_bits (get_field (lamps_flash l) (Lamp_shift x))"
  unfolding Lamps_flash_status_def get_field_def by (rule LampStatus_from_and)

lemma Lamps_with_status_get:
  "Lamps_get_status (Lamps_with_status l x s) y = (if x = y then s else Lamps_get_status l y)"
  "Lamps_flash_status (Lamps_with_status l x s) y = Lamps_flash_status l y"
  by (simp_all add: Lamps_status_get Lamps_flash_get Lamps_with_status_def get_set_field del: insert_iff)

lemma Lamps_with_flash_get:
  "Lamps_flash_status (Lamps_with_flash_status l x s) y = (if x = y then s else Lamps_flash_status l y)"
  "Lamps_get_status (Lamps_with_flash_status l x s) y = Lamps_get_status l y"
  by (simp_all add: Lamps_status_get Lamps_flash_get Lamps_with_flash_status_def get_set_field del: insert_iff)

lemma Lamps_any_on_iff: "Lamps_any_on l \<longleftrightarrow> (\<exists>x. Lamps_get_status l x = LampOn)"
proof -
  have "(\<exists>x. P x) \<longleftrightarrow> P MalfunctionIndicator \<or> P RedStop \<or> P AmberWarning \<or> P Protect" for P
    by (metis lamp.exhaust)
  then show ?thesis by (simp add: Lamps_any_on_def Lamp_ALL_def)
qed

interpretation lamps_format: wire_format Lamps_encode "\<lambda>d. Inr (Lamps_decode d)" "\<lambda>_. True" 2
  by unfold_locales (simp_all add: Lamps_encode_def Lamps_decode_def)

section \<open>Trouble codes\<close>

record dtc =
  dtc_spn :: u32
  dtc_fmi :: u8
  dtc_count :: u8
  dtc_conversion :: bool

definition Dtc_new :: "u32 \<Rightarrow> u8 \<Rightarrow> u8 \<Rightarrow> dtc j1939_result" where
  "Dtc_new spn fmi occurrence_count =
     (if spn > MAX_SPN \<or> fmi > MAX_FMI \<or> occurrence_count > MAX_OCCURRENCE_COUNT then Inl InvalidDtc
      else Inr \<lparr>dtc_spn = spn, dtc_fmi = fmi, dtc_count = occurrence_count, dtc_conversion = True\<rparr>)"

definition Dtc_is_no_fault :: "dtc \<Rightarrow> bool" where
  "Dtc_is_no_fault d =
     ((dtc_spn d = 0 \<and> dtc_fmi d = 0) \<or> (dtc_spn d = MAX_SPN \<and> dtc_fmi d = MAX_FMI))"

definition Dtc_encode :: "dtc \<Rightarrow> bytes" where
  "Dtc_encode d =
     [ucast (dtc_spn d),
      ucast (drop_bit 8 (dtc_spn d)),
      (ucast (drop_bit 11 (dtc_spn d)) AND 0xE0) OR (dtc_fmi d AND MAX_FMI),
      push_bit 7 (of_bool (dtc_conversion d)) OR (dtc_count d AND MAX_OCCURRENCE_COUNT)]"

definition Dtc_decode :: "bytes \<Rightarrow> dtc" where
  "Dtc_decode d =
     \<lparr>dtc_spn = push_bit 11 (ucast (d ! 2 AND 0xE0)) OR push_bit 8 (ucast (d ! 1)) OR ucast (d ! 0),
      dtc_fmi = d ! 2 AND MAX_FMI,
      dtc_count = d ! 3 AND MAX_OCCURRENCE_COUNT,
      dtc_conversion = (drop_bit 7 (d ! 3) = 1)\<rparr>"

definition Dtc_ok :: "dtc \<Rightarrow> bool" where
  "Dtc_ok d \<longleftrightarrow> dtc_spn d \<le> MAX_SPN \<and> dtc_fmi d \<le> MAX_FMI \<and> dtc_count d \<le> MAX_OCCURRENCE_COUNT"

lemma Dtc_new_ok: "Dtc_new s f c = Inr d \<Longrightarrow> Dtc_ok d"
  by (auto simp: Dtc_new_def Dtc_ok_def split: if_splits)

lemma length_Dtc_encode [simp]: "length (Dtc_encode d) = 4"
  by (simp add: Dtc_encode_def)

lemma Dtc_ok_bits:
  assumes "Dtc_ok d"
  shows "19 \<le> n \<Longrightarrow> \<not> bit (dtc_spn d) n" and "5 \<le> n \<Longrightarrow> \<not> bit (dtc_fmi d) n" and "7 \<le> n \<Longrightarrow> \<not> bit (dtc_count d) n"
  using assms not_bit_of_less_pow [of "dtc_spn d" 19 n] not_bit_of_less_pow [of "dtc_fmi d" 5 n]
    not_bit_of_less_pow [of "dtc_count d" 7 n]
  by (simp_all add: Dtc_ok_def MAX_SPN_def MAX_FMI_def MAX_OCCURRENCE_COUNT_def unat_iffs)

lemma Dtc_decode_encode:
  assumes "Dtc_ok d"
  shows "Dtc_decode (Dtc_encode d) = d"
proof -
  have spn: "push_bit 11 (ucast (((ucast (drop_bit 11 x) AND 0xE0) OR (f AND 0x1F) :: u8) AND 0xE0))
      OR push_bit 8 (ucast (ucast (drop_bit 8 x) :: u8)) OR ucast (ucast x :: u8) = x"
    if "\<And>n. 19 \<le> n \<Longrightarrow> \<not> bit x n" for x :: u32 and f :: u8
    using that by (simp add: word_bits)
  have fmi: "((x AND 0xE0) OR (f AND 0x1F)) AND 0x1F = f" if "\<And>n. 5 \<le> n \<Longrightarrow> \<not> bit f n" for x f :: u8
    using that by (simp add: word_bits)
  have count: "(push_bit 7 (of_bool b) OR (c AND 0x7F)) AND 0x7F = c" if "\<And>n. 7 \<le> n \<Longrightarrow> \<not> bit c n" for b and c :: u8
    using that by (cases b) (simp_all add: word_bits)
  have conv: "drop_bit 7 (push_bit 7 (of_bool b) OR (c AND 0x7F)) = (1 :: u8) \<longleftrightarrow> b" for b and c :: u8
    by (cases b) (simp_all add: word_bits)
  show ?thesis
    using Dtc_ok_bits [OF assms]
    by (cases d) (simp add: Dtc_decode_def Dtc_encode_def MAX_FMI_def MAX_OCCURRENCE_COUNT_def spn fmi count conv)
qed

lemma Dtc_decode_ok [simp]: "Dtc_ok (Dtc_decode d)"
proof -
  have "unat (push_bit 11 (ucast (a AND 0xE0 :: u8)) OR push_bit 8 (ucast (b :: u8)) OR ucast (c :: u8) :: u32) < 2 ^ 19" for a b c
  proof -
    have "(push_bit 11 (ucast (a AND 0xE0 :: u8)) OR push_bit 8 (ucast b) OR ucast c :: u32)
        = take_bit 19 (push_bit 11 (ucast (a AND 0xE0 :: u8)) OR push_bit 8 (ucast b) OR ucast c)"
      by (simp add: word_bits)
    then show ?thesis by (metis unat_take_bit mod_less_divisor zero_less_numeral zero_less_power)
  qed
  then have "dtc_spn (Dtc_decode d) \<le> MAX_SPN"
    by (simp add: Dtc_decode_def MAX_SPN_def word_le_nat_alt less_Suc_eq_le [symmetric])
  then show ?thesis
    by (simp add: Dtc_ok_def) (simp add: Dtc_decode_def MAX_FMI_def MAX_OCCURRENCE_COUNT_def word_and_le1)
qed

lemma Dtc_encode_decode:
  assumes "length b = 4"
  shows "Dtc_encode (Dtc_decode b) = b"
proof -
  obtain w x y z where b: "b = [w, x, y, z]" using assms by (auto simp: numeral_eq_Suc length_Suc_conv)
  have 1: "(ucast (push_bit 11 (ucast (y AND 0xE0)) OR push_bit 8 (ucast x) OR ucast w :: u32) :: u8) = w"
    by (simp add: word_bits)
  have 2: "(ucast (drop_bit 8 (push_bit 11 (ucast (y AND 0xE0)) OR push_bit 8 (ucast x) OR ucast w :: u32)) :: u8) = x"
    by (simp add: word_bits)
  have 3: "((ucast (drop_bit 11 (push_bit 11 (ucast (y AND 0xE0)) OR push_bit 8 (ucast x) OR ucast w :: u32)) :: u8) AND 0xE0)
      OR (y AND 0x1F AND 0x1F) = y"
    by (simp add: word_bits)
  have 4: "push_bit 7 (of_bool (drop_bit 7 z = 1)) OR (z AND 0x7F AND 0x7F) = (z :: u8)"
  proof (cases "bit z 7")
    case True
    then have "drop_bit 7 z = 1" by (simp add: word_bits)
    with True show ?thesis by (simp add: word_bits)
  next
    case False
    then have "drop_bit 7 z = 0" by (simp add: word_bits)
    with False show ?thesis by (simp add: word_bits)
  qed
  show ?thesis
    unfolding b using 1 2 3 4 by (simp add: Dtc_encode_def Dtc_decode_def MAX_FMI_def MAX_OCCURRENCE_COUNT_def)
qed

interpretation dtc_format: wire_format Dtc_encode "\<lambda>b. Inr (Dtc_decode b)" Dtc_ok 4
  by unfold_locales (simp_all add: Dtc_decode_encode)

section \<open>Lamp-and-code messages\<close>

record dm_message =
  dm_lamps :: lamps
  dm_bytes :: bytes

definition Message_parse :: "bytes \<Rightarrow> dm_message j1939_result" where
  "Message_parse data =
     (if length data < LAMP_LEN then Inl (ShortPayload LAMP_LEN (length data))
      else Inr \<lparr>dm_lamps = Lamps_decode [data ! 0, data ! 1], dm_bytes = drop LAMP_LEN data\<rparr>)"

definition Message_dtc_count :: "dm_message \<Rightarrow> nat" where
  "Message_dtc_count m = length (dm_bytes m) div DTC_LEN"

text \<open>\<open>chunks_exact(4)\<close>: whole chunks only, the remainder is dropped.\<close>

function chunks_exact :: "nat \<Rightarrow> 'a list \<Rightarrow> 'a list list" where
  "chunks_exact n xs = (if n = 0 \<or> length xs < n then [] else take n xs # chunks_exact n (drop n xs))"
  by pat_completeness auto
termination by (relation "measure (length \<circ> snd)") auto

declare chunks_exact.simps [simp del]

definition Message_dtcs :: "dm_message \<Rightarrow> dtc list" where
  "Message_dtcs m = map Dtc_decode (chunks_exact DTC_LEN (dm_bytes m))"

definition Message_is_fault_free :: "dm_message \<Rightarrow> bool" where
  "Message_is_fault_free m =
     (case Message_dtcs m of [] \<Rightarrow> True | first # rest \<Rightarrow> Dtc_is_no_fault first \<and> rest = [])"

fun write_dtcs :: "nat \<Rightarrow> dtc list \<Rightarrow> bytes \<Rightarrow> bytes option" where
  "write_dtcs i [] out = Some out"
| "write_dtcs i (d # ds) out =
     do { let start = LAMP_LEN + i * DTC_LEN;
          out1 \<leftarrow> copy_from_slice start (start + DTC_LEN) (Dtc_encode d) out;
          write_dtcs (i + 1) ds out1 }"

text \<open>The written length or the error, with the buffer; \<open>None\<close> would be a slice out of range.\<close>

definition Message_encode :: "lamps \<Rightarrow> dtc list \<Rightarrow> bytes \<Rightarrow> (nat j1939_result \<times> bytes) option" where
  "Message_encode l dtcs out =
     (let body = LAMP_LEN + length dtcs * DTC_LEN;
          len = (if length dtcs \<le> 1 then max body 8 else body)
      in if length out < len then Some (Inl (ShortPayload len (length out)), out)
         else
           do { out1 \<leftarrow> copy_from_slice 0 LAMP_LEN (Lamps_encode l) out;
                out2 \<leftarrow> write_dtcs 0 dtcs out1;
                out3 \<leftarrow> copy_from_slice body len (replicate (len - body) 0xFF) out2;
                Some (Inr len, out3) })"

definition dm_len :: "dtc list \<Rightarrow> nat" where
  "dm_len ds = (if length ds \<le> 1 then 8 else 2 + 4 * length ds)"

definition dm_payload :: "lamps \<Rightarrow> dtc list \<Rightarrow> bytes" where
  "dm_payload l ds = Lamps_encode l @ concat (map Dtc_encode ds) @ replicate (dm_len ds - (2 + 4 * length ds)) 0xFF"

lemma length_concat_dtcs [simp]: "length (concat (map Dtc_encode ds)) = 4 * length ds"
  by (induction ds) simp_all

lemma dm_len_ge: "2 + 4 * length ds \<le> dm_len ds"
  by (simp add: dm_len_def)

lemma length_dm_payload [simp]: "length (dm_payload l ds) = dm_len ds"
  using dm_len_ge [of ds] by (simp add: dm_payload_def Lamps_encode_def)

lemma write_slice_0: "length xs \<le> length ys \<Longrightarrow> write_slice 0 xs ys = xs @ drop (length xs) ys"
  by (simp add: write_slice_def)

lemma write_dtcs_eq:
  assumes "length pre = 2 + i * 4" and "4 * length ds \<le> length suf"
  shows "write_dtcs i ds (pre @ suf) = Some (pre @ concat (map Dtc_encode ds) @ drop (4 * length ds) suf)"
  using assms
proof (induction ds arbitrary: i pre suf)
  case Nil
  then show ?case by simp
next
  case (Cons d ds)
  have "copy_from_slice (2 + i * 4) (2 + i * 4 + 4) (Dtc_encode d) (pre @ suf) = Some ((pre @ Dtc_encode d) @ drop 4 suf)"
    using Cons.prems by (simp add: copy_from_slice_def write_slice_def)
  moreover have "write_dtcs (i + 1) ds ((pre @ Dtc_encode d) @ drop 4 suf) =
      Some ((pre @ Dtc_encode d) @ concat (map Dtc_encode ds) @ drop (4 * length ds) (drop 4 suf))"
    using Cons.IH [of "pre @ Dtc_encode d" "i + 1" "drop 4 suf"] Cons.prems by simp
  ultimately show ?case by (simp add: LAMP_LEN_def DTC_LEN_def add.commute)
qed

lemma Message_encode_eq:
  "Message_encode l ds out =
     (if length out < dm_len ds then Some (Inl (ShortPayload (dm_len ds) (length out)), out)
      else Some (Inr (dm_len ds), dm_payload l ds @ drop (dm_len ds) out))"
proof -
  have len: "(if length ds \<le> 1 then max (LAMP_LEN + length ds * DTC_LEN) 8 else LAMP_LEN + length ds * DTC_LEN) = dm_len ds"
    by (auto simp: dm_len_def LAMP_LEN_def DTC_LEN_def)
  show ?thesis
  proof (cases "length out < dm_len ds")
    case True
    then show ?thesis unfolding Message_encode_def Let_def len by simp
  next
    case False
    then have fit: "dm_len ds \<le> length out" "2 + 4 * length ds \<le> length out" using dm_len_ge [of ds] by simp_all
    let ?body = "2 + 4 * length ds" and ?codes = "concat (map Dtc_encode ds)"
    have 1: "copy_from_slice 0 LAMP_LEN (Lamps_encode l) out = Some (Lamps_encode l @ drop 2 out)"
      using fit by (simp add: copy_from_slice_def LAMP_LEN_def Lamps_encode_def write_slice_def numeral_2_eq_2)
    have 2: "write_dtcs 0 ds (Lamps_encode l @ drop 2 out) = Some (Lamps_encode l @ ?codes @ drop (4 * length ds) (drop 2 out))"
      using fit by (intro write_dtcs_eq) (simp_all add: Lamps_encode_def)
    have 3: "copy_from_slice ?body (dm_len ds) (replicate (dm_len ds - ?body) 0xFF)
        (Lamps_encode l @ ?codes @ drop (4 * length ds) (drop 2 out)) = Some (dm_payload l ds @ drop (dm_len ds) out)"
    proof -
      define pre where "pre = Lamps_encode l @ ?codes"
      have pre: "length pre = ?body" by (simp add: pre_def Lamps_encode_def)
      obtain k where k: "dm_len ds = ?body + k" using dm_len_ge [of ds] le_Suc_ex by blast
      have "copy_from_slice ?body (?body + k) (replicate k 0xFF) (pre @ drop ?body out) =
          Some (pre @ replicate k 0xFF @ drop (?body + k) out)"
        using pre fit k by (simp add: copy_from_slice_def write_slice_def add.commute)
      then show ?thesis by (simp add: k dm_payload_def pre_def add.commute)
    qed
    have body: "LAMP_LEN + length ds * DTC_LEN = ?body" by (simp add: LAMP_LEN_def DTC_LEN_def)
    show ?thesis
      unfolding Message_encode_def Let_def len using False 1 2 3 body by simp
  qed
qed

lemma chunks_exact_dtcs:
  "length pad < 4 \<Longrightarrow> chunks_exact 4 (concat (map Dtc_encode ds) @ pad) = map Dtc_encode ds"
  by (induction ds) (simp_all add: chunks_exact.simps [of 4])

text \<open>What a reader finds in an encoded message: with no code, the filler reads as the no-fault code.\<close>

definition filler_dtc :: dtc where
  "filler_dtc = \<lparr>dtc_spn = 0x7FFFF, dtc_fmi = 0x1F, dtc_count = 0x7F, dtc_conversion = True\<rparr>"

lemma filler_decoded: "Dtc_decode [0xFF, 0xFF, 0xFF, 0xFF] = filler_dtc"
  by (simp add: Dtc_decode_def filler_dtc_def MAX_FMI_def MAX_OCCURRENCE_COUNT_def)

lemma filler_no_fault [simp]: "Dtc_is_no_fault filler_dtc"
  by (simp add: Dtc_is_no_fault_def filler_dtc_def MAX_SPN_def MAX_FMI_def)

lemma parse_payload:
  assumes "list_all Dtc_ok ds"
  shows "\<exists>m. Message_parse (dm_payload l ds) = Inr m \<and> dm_lamps m = l \<and>
    Message_dtcs m = (if ds = [] then [filler_dtc] else ds)"
proof -
  let ?pad = "replicate (dm_len ds - (2 + 4 * length ds)) (0xFF :: u8)"
  let ?m = "\<lparr>dm_lamps = l, dm_bytes = concat (map Dtc_encode ds) @ ?pad\<rparr>"
  have parse: "Message_parse (dm_payload l ds) = Inr ?m"
    by (simp add: Message_parse_def dm_payload_def Lamps_encode_def Lamps_decode_def LAMP_LEN_def)
  have "Message_dtcs ?m = (if ds = [] then [filler_dtc] else ds)"
  proof (cases "ds = []")
    case True
    have "chunks_exact 4 (replicate 6 (0xFF :: u8)) = [replicate 4 0xFF]"
      by (simp add: chunks_exact.simps [of 4])
    then show ?thesis using True filler_decoded
      by (simp add: Message_dtcs_def DTC_LEN_def dm_len_def numeral_eq_Suc)
  next
    case False
    then have "length ?pad < 4" by (cases ds) (auto simp: dm_len_def)
    then have "chunks_exact 4 (dm_bytes ?m) = map Dtc_encode ds" using chunks_exact_dtcs by simp
    moreover have "map (Dtc_decode \<circ> Dtc_encode) ds = ds"
      using assms by (induction ds) (simp_all add: Dtc_decode_encode)
    ultimately show ?thesis using False by (simp add: Message_dtcs_def DTC_LEN_def)
  qed
  with parse show ?thesis by auto
qed

section \<open>Clear requests\<close>

definition dm3_clear_request :: request where "dm3_clear_request = Request_new PGN_DM3"
definition dm3_is_clear_request :: "request \<Rightarrow> bool" where "dm3_is_clear_request r = (req_pgn r = PGN_DM3)"
definition dm3_acknowledge :: "address \<Rightarrow> acknowledgement" where
  "dm3_acknowledge responder = Acknowledgement_positive PGN_DM3 responder"
definition dm3_refuse :: "address \<Rightarrow> ack_control \<Rightarrow> acknowledgement" where
  "dm3_refuse responder reason =
     \<lparr>ack_control = reason, ack_group_function = 0xFF, ack_address = responder, ack_pgn = PGN_DM3\<rparr>"

definition dm11_clear_request :: request where "dm11_clear_request = Request_new PGN_DM11"
definition dm11_is_clear_request :: "request \<Rightarrow> bool" where "dm11_is_clear_request r = (req_pgn r = PGN_DM11)"
definition dm11_acknowledge :: "address \<Rightarrow> acknowledgement" where
  "dm11_acknowledge responder = Acknowledgement_positive PGN_DM11 responder"
definition dm11_refuse :: "address \<Rightarrow> ack_control \<Rightarrow> acknowledgement" where
  "dm11_refuse responder reason =
     \<lparr>ack_control = reason, ack_group_function = 0xFF, ack_address = responder, ack_pgn = PGN_DM11\<rparr>"

text \<open>A clear request of one kind, read from the wire, is never taken for the other.\<close>

lemma clear_requests_on_wire:
  "\<exists>r. Request_decode (Request_encode dm3_clear_request @ pad) = Inr r \<and> dm3_is_clear_request r \<and> \<not> dm11_is_clear_request r"
  "\<exists>r. Request_decode (Request_encode dm11_clear_request @ pad) = Inr r \<and> dm11_is_clear_request r \<and> \<not> dm3_is_clear_request r"
proof -
  have ne: "PGN_DM3 \<noteq> PGN_DM11" by (simp add: pgn_eval)
  have ok: "Request_ok dm3_clear_request" "Request_ok dm11_clear_request"
    by (simp_all add: Request_ok_def dm3_clear_request_def dm11_clear_request_def Request_new_def)
  show "\<exists>r. Request_decode (Request_encode dm3_clear_request @ pad) = Inr r \<and> dm3_is_clear_request r \<and> \<not> dm11_is_clear_request r"
    using Request_decode_padded [OF ok(1)] ne
    by (simp add: dm3_is_clear_request_def dm11_is_clear_request_def) (simp add: dm3_clear_request_def Request_new_def)
  show "\<exists>r. Request_decode (Request_encode dm11_clear_request @ pad) = Inr r \<and> dm11_is_clear_request r \<and> \<not> dm3_is_clear_request r"
    using Request_decode_padded [OF ok(2)] ne
    by (simp add: dm3_is_clear_request_def dm11_is_clear_request_def) (simp add: dm11_clear_request_def Request_new_def)
qed

section \<open>Broadcast control\<close>

record dm13 =
  dm13_networks :: u8
  dm13_hold :: u8

datatype dm_network = CurrentDataLink | VehicleNetwork | ImplementNetwork | ProprietaryNetwork

datatype broadcast_command = StopBroadcast | StartBroadcast | ReservedCommand | DoNotCare

primrec Network_shift :: "dm_network \<Rightarrow> nat" where
  "Network_shift CurrentDataLink = 0"
| "Network_shift VehicleNetwork = 2"
| "Network_shift ImplementNetwork = 4"
| "Network_shift ProprietaryNetwork = 6"

primrec BroadcastCommand_to_bits :: "broadcast_command \<Rightarrow> u8" where
  "BroadcastCommand_to_bits StopBroadcast = 0"
| "BroadcastCommand_to_bits StartBroadcast = 1"
| "BroadcastCommand_to_bits ReservedCommand = 2"
| "BroadcastCommand_to_bits DoNotCare = 3"

definition BroadcastCommand_from_bits :: "u8 \<Rightarrow> broadcast_command" where
  "BroadcastCommand_from_bits bits =
     (let b = bits AND 3 in
      if b = 0 then StopBroadcast else if b = 1 then StartBroadcast else if b = 2 then ReservedCommand else DoNotCare)"

definition Dm13_new :: dm13 where
  "Dm13_new = \<lparr>dm13_networks = 0xFF, dm13_hold = 0xFF\<rparr>"

text \<open>The derived \<open>Default\<close> zeroes both fields.\<close>

definition Dm13_default :: dm13 where
  "Dm13_default = \<lparr>dm13_networks = 0, dm13_hold = 0\<rparr>"

definition Dm13_command :: "dm13 \<Rightarrow> dm_network \<Rightarrow> broadcast_command" where
  "Dm13_command d n = BroadcastCommand_from_bits (drop_bit (Network_shift n) (dm13_networks d))"

definition Dm13_with_command :: "dm13 \<Rightarrow> dm_network \<Rightarrow> broadcast_command \<Rightarrow> dm13" where
  "Dm13_with_command d n c =
     (let shift = Network_shift n
      in d\<lparr>dm13_networks := (dm13_networks d AND NOT (push_bit shift 3)) OR push_bit shift (BroadcastCommand_to_bits c)\<rparr>)"

definition Dm13_with_hold_signal :: "dm13 \<Rightarrow> u8 \<Rightarrow> dm13" where
  "Dm13_with_hold_signal d h = d\<lparr>dm13_hold := h\<rparr>"

definition Dm13_encode :: "dm13 \<Rightarrow> bytes" where
  "Dm13_encode d = [dm13_networks d, dm13_hold d, 0xFF, 0xFF, 0xFF, 0xFF, 0xFF, 0xFF]"

definition Dm13_decode :: "bytes \<Rightarrow> dm13" where
  "Dm13_decode b = \<lparr>dm13_networks = b ! 0, dm13_hold = b ! 1\<rparr>"

lemma BroadcastCommand_bits [simp]:
  "BroadcastCommand_from_bits (BroadcastCommand_to_bits c) = c"
  "BroadcastCommand_to_bits c AND 3 = BroadcastCommand_to_bits c"
  by (cases c; simp add: BroadcastCommand_from_bits_def)+

lemma Dm13_with_command_field:
  "dm13_networks (Dm13_with_command d n c) = set_field (dm13_networks d) (Network_shift n) (BroadcastCommand_to_bits c)"
  by (simp add: Dm13_with_command_def set_field_def Let_def)

lemma Dm13_command_get: "Dm13_command d n = BroadcastCommand_from_bits (get_field (dm13_networks d) (Network_shift n))"
  by (simp add: Dm13_command_def get_field_def BroadcastCommand_from_bits_def Let_def)

lemma Network_shift_mem [simp]: "Network_shift n \<in> {0, 2, 4, 6}"
  by (cases n) simp_all

lemma Network_shift_inj [simp]: "Network_shift a = Network_shift b \<longleftrightarrow> a = b"
  by (cases a; cases b) simp_all

lemma Dm13_with_command_get:
  "Dm13_command (Dm13_with_command d n c) k = (if n = k then c else Dm13_command d k)"
  by (simp add: Dm13_command_get Dm13_with_command_field get_set_field del: insert_iff)

lemma Dm13_new_command: "Dm13_command Dm13_new n = DoNotCare"
  by (cases n) (simp_all add: Dm13_command_def Dm13_new_def BroadcastCommand_from_bits_def)

lemma Dm13_default_command: "Dm13_command Dm13_default n = StopBroadcast"
  by (simp add: Dm13_command_def Dm13_default_def BroadcastCommand_from_bits_def)

interpretation dm13_format: frame_format Dm13_encode "\<lambda>b. Inr (Dm13_decode b)" "\<lambda>_. True" 8
  by unfold_locales (simp_all add: Dm13_encode_def Dm13_decode_def)

section \<open>Readiness\<close>

datatype obd_compliance = ObdNotIntended | ObdNotAvailable | ObdOther u8

primrec ObdCompliance_as_u8 :: "obd_compliance \<Rightarrow> u8" where
  "ObdCompliance_as_u8 ObdNotIntended = 5"
| "ObdCompliance_as_u8 ObdNotAvailable = 0xFF"
| "ObdCompliance_as_u8 (ObdOther raw) = raw"

definition ObdCompliance_from_u8 :: "u8 \<Rightarrow> obd_compliance" where
  "ObdCompliance_from_u8 raw =
     (if raw = 5 then ObdNotIntended else if raw = 0xFF then ObdNotAvailable else ObdOther raw)"

record dm5 =
  dm5_active_faults :: u8
  dm5_previously_active_faults :: u8
  dm5_obd_compliance :: obd_compliance
  dm5_monitors :: bytes

definition Dm5_new :: "u8 \<Rightarrow> u8 \<Rightarrow> obd_compliance \<Rightarrow> dm5" where
  "Dm5_new active previous obd =
     \<lparr>dm5_active_faults = active, dm5_previously_active_faults = previous, dm5_obd_compliance = obd,
      dm5_monitors = replicate 5 0xFF\<rparr>"

definition Dm5_with_monitors :: "dm5 \<Rightarrow> bytes \<Rightarrow> dm5" where
  "Dm5_with_monitors d ms = d\<lparr>dm5_monitors := ms\<rparr>"

definition Dm5_has_active_faults :: "dm5 \<Rightarrow> bool" where
  "Dm5_has_active_faults d = (dm5_active_faults d > 0)"

definition Dm5_encode :: "dm5 \<Rightarrow> bytes" where
  "Dm5_encode d =
     [dm5_active_faults d, dm5_previously_active_faults d, ObdCompliance_as_u8 (dm5_obd_compliance d),
      dm5_monitors d ! 0, dm5_monitors d ! 1, dm5_monitors d ! 2, dm5_monitors d ! 3, dm5_monitors d ! 4]"

definition Dm5_decode :: "bytes \<Rightarrow> dm5" where
  "Dm5_decode b =
     \<lparr>dm5_active_faults = b ! 0, dm5_previously_active_faults = b ! 1,
      dm5_obd_compliance = ObdCompliance_from_u8 (b ! 2), dm5_monitors = [b ! 3, b ! 4, b ! 5, b ! 6, b ! 7]\<rparr>"

definition Dm5_ok :: "dm5 \<Rightarrow> bool" where
  "Dm5_ok d \<longleftrightarrow> length (dm5_monitors d) = 5 \<and>
     ObdCompliance_from_u8 (ObdCompliance_as_u8 (dm5_obd_compliance d)) = dm5_obd_compliance d"

lemma Dm5_decode_encode: "Dm5_ok d \<Longrightarrow> Dm5_decode (Dm5_encode d) = d"
  by (cases d) (auto simp: Dm5_ok_def Dm5_decode_def Dm5_encode_def numeral_eq_Suc length_Suc_conv)

interpretation dm5_format: frame_format Dm5_encode "\<lambda>b. Inr (Dm5_decode b)" Dm5_ok 8
  by unfold_locales (simp_all add: Dm5_decode_encode, simp add: Dm5_encode_def)

end
