(* ===== verification/Fault_Log.thy ===== *)
theory Fault_Log
  imports Diagnostics
begin

text \<open>
  The fault state of an ECU, \<^verbatim>\<open>core/src/fault_log.rs\<close>: fixed arrays of active and previously active
  codes with their lengths, the lamps, and the timer of the periodic report. Operations are steps in
  the option monad, where an index out of bounds would be \<open>None\<close>. The abstract log is a list of
  active codes with their lamps and a list of previous codes; every operation is shown to refine it.
\<close>

section \<open>State and operations\<close>

definition DM1_INTERVAL_MS :: u16 where "DM1_INTERVAL_MS = 1000"

definition UNUSED :: dtc where
  "UNUSED = \<lparr>dtc_spn = 0, dtc_fmi = 0, dtc_count = 0, dtc_conversion = True\<rparr>"

definition Dtc_default :: dtc where
  "Dtc_default = \<lparr>dtc_spn = 0, dtc_fmi = 0, dtc_count = 0, dtc_conversion = False\<rparr>"

record fault_log =
  fl_active :: "dtc list"
  fl_lamps :: "lamp list"
  fl_active_len :: nat
  fl_previous :: "dtc list"
  fl_previous_len :: nat
  fl_since_dm1_ms :: u32
  fl_owes_all_clear :: bool

definition FaultLog_new :: "nat \<Rightarrow> fault_log" where
  "FaultLog_new n =
     \<lparr>fl_active = replicate n UNUSED, fl_lamps = replicate n AmberWarning, fl_active_len = 0,
      fl_previous = replicate n UNUSED, fl_previous_len = 0,
      fl_since_dm1_ms = ucast DM1_INTERVAL_MS, fl_owes_all_clear = False\<rparr>"

definition fl_capacity :: "fault_log \<Rightarrow> nat" where
  "fl_capacity l = length (fl_active l)"

definition active_codes :: "fault_log \<Rightarrow> dtc list" where
  "active_codes l = take (fl_active_len l) (fl_active l)"

definition previous_codes :: "fault_log \<Rightarrow> dtc list" where
  "previous_codes l = take (fl_previous_len l) (fl_previous l)"

definition find_code :: "dtc list \<Rightarrow> u32 \<Rightarrow> u8 \<Rightarrow> nat option" where
  "find_code dtcs spn fmi = position (\<lambda>d. dtc_spn d = spn \<and> dtc_fmi d = fmi) dtcs"

definition fl_is_active :: "fault_log \<Rightarrow> u32 \<Rightarrow> u8 \<Rightarrow> bool" where
  "fl_is_active l spn fmi = (find_code (active_codes l) spn fmi \<noteq> None)"

definition fl_is_healthy :: "fault_log \<Rightarrow> bool" where
  "fl_is_healthy l = (fl_active_len l = 0)"

definition remove_active :: "nat \<Rightarrow> fault_log \<Rightarrow> fault_log option" where
  "remove_active index l =
     do { a \<leftarrow> copy_within (index + 1) (fl_active_len l) index (fl_active l);
          ls \<leftarrow> copy_within (index + 1) (fl_active_len l) index (fl_lamps l);
          n \<leftarrow> checked_usize_sub (fl_active_len l) 1;
          Some (l\<lparr>fl_active := a, fl_lamps := ls, fl_active_len := n\<rparr>) }"

definition remove_previous :: "nat \<Rightarrow> fault_log \<Rightarrow> fault_log option" where
  "remove_previous index l =
     do { ps \<leftarrow> copy_within (index + 1) (fl_previous_len l) index (fl_previous l);
          n \<leftarrow> checked_usize_sub (fl_previous_len l) 1;
          Some (l\<lparr>fl_previous := ps, fl_previous_len := n\<rparr>) }"

definition record_previous :: "dtc \<Rightarrow> fault_log \<Rightarrow> fault_log option" where
  "record_previous d l =
     (case find_code (previous_codes l) (dtc_spn d) (dtc_fmi d) of
        Some index \<Rightarrow> do { ps \<leftarrow> set_index index d (fl_previous l); Some (l\<lparr>fl_previous := ps\<rparr>) }
      | None \<Rightarrow>
          do { l1 \<leftarrow> (if fl_previous_len l = fl_capacity l then remove_previous 0 l else Some l);
               ps \<leftarrow> set_index (fl_previous_len l1) d (fl_previous l1);
               Some (l1\<lparr>fl_previous := ps, fl_previous_len := fl_previous_len l1 + 1\<rparr>) })"

definition next_occurrence :: "u8 \<Rightarrow> u8" where
  "next_occurrence seen = min (saturating_add seen 1) MAX_OCCURRENCE_COUNT"

definition FaultLog_set :: "u32 \<Rightarrow> u8 \<Rightarrow> lamp \<Rightarrow> fault_log \<Rightarrow> (unit j1939_result \<times> fault_log) option" where
  "FaultLog_set spn fmi lamp l =
     (case Dtc_new spn fmi 1 of
        Inl e \<Rightarrow> Some (Inl e, l)
      | Inr dtc \<Rightarrow>
          (case find_code (active_codes l) spn fmi of
             Some index \<Rightarrow> do { ls \<leftarrow> set_index index lamp (fl_lamps l); Some (Inr (), l\<lparr>fl_lamps := ls\<rparr>) }
           | None \<Rightarrow>
               if fl_active_len l = fl_capacity l then
                 Some (Inl (ValueOutOfRange ''active fault log capacity'' (word_of_nat (fl_capacity l))), l)
               else
                 do { (dtc1, l1) \<leftarrow>
                        (case find_code (previous_codes l) spn fmi of
                           Some index \<Rightarrow>
                             do { seen \<leftarrow> at_index (fl_previous l) index;
                                  l1 \<leftarrow> remove_previous index l;
                                  Some (dtc\<lparr>dtc_count := next_occurrence (dtc_count seen)\<rparr>, l1) }
                         | None \<Rightarrow> Some (dtc, l));
                      a \<leftarrow> set_index (fl_active_len l1) dtc1 (fl_active l1);
                      ls \<leftarrow> set_index (fl_active_len l1) lamp (fl_lamps l1);
                      Some (Inr (), l1\<lparr>fl_active := a, fl_lamps := ls, fl_active_len := fl_active_len l1 + 1,
                                       fl_owes_all_clear := False\<rparr>) }))"

definition FaultLog_clear :: "u32 \<Rightarrow> u8 \<Rightarrow> fault_log \<Rightarrow> (bool \<times> fault_log) option" where
  "FaultLog_clear spn fmi l =
     (case find_code (active_codes l) spn fmi of
        None \<Rightarrow> Some (False, l)
      | Some index \<Rightarrow>
          do { dtc \<leftarrow> at_index (fl_active l) index;
               l1 \<leftarrow> remove_active index l;
               l2 \<leftarrow> record_previous dtc l1;
               Some (True, if fl_active_len l2 = 0 then l2\<lparr>fl_owes_all_clear := True\<rparr> else l2) })"

definition clear_active :: "fault_log \<Rightarrow> fault_log" where
  "clear_active l =
     (let l1 = (if fl_active_len l > 0 then l\<lparr>fl_owes_all_clear := True\<rparr> else l) in l1\<lparr>fl_active_len := 0\<rparr>)"

definition clear_previously_active :: "fault_log \<Rightarrow> fault_log" where
  "clear_previously_active l = l\<lparr>fl_previous_len := 0\<rparr>"

definition fl_report_lamps :: "fault_log \<Rightarrow> lamps" where
  "fl_report_lamps l =
     foldl (\<lambda>ls lamp. Lamps_with_status ls lamp LampOn) Lamps_new (take (fl_active_len l) (fl_lamps l))"

definition FaultLog_dm1 :: "fault_log \<Rightarrow> bytes \<Rightarrow> (nat j1939_result \<times> bytes) option" where
  "FaultLog_dm1 l out =
     (if fl_active_len l = 0 then Message_encode (fl_report_lamps l) [Dtc_default] out
      else Message_encode (fl_report_lamps l) (active_codes l) out)"

definition FaultLog_dm2 :: "fault_log \<Rightarrow> bytes \<Rightarrow> (nat j1939_result \<times> bytes) option" where
  "FaultLog_dm2 l out =
     (if fl_previous_len l = 0 then Message_encode Lamps_new [Dtc_default] out
      else Message_encode Lamps_new (previous_codes l) out)"

definition payload_len :: "nat \<Rightarrow> nat" where
  "payload_len count =
     (let body = 2 + (if count = 0 then 1 else count) * 4 in if body < 8 then 8 else body)"

definition dm1_len :: "fault_log \<Rightarrow> nat" where "dm1_len l = payload_len (fl_active_len l)"
definition dm2_len :: "fault_log \<Rightarrow> nat" where "dm2_len l = payload_len (fl_previous_len l)"

definition FaultLog_tick :: "u16 \<Rightarrow> fault_log \<Rightarrow> bool \<times> fault_log" where
  "FaultLog_tick elapsed_ms l =
     (let since = saturating_add (fl_since_dm1_ms l) (ucast elapsed_ms); l1 = l\<lparr>fl_since_dm1_ms := since\<rparr>
      in if since < ucast DM1_INTERVAL_MS then (False, l1)
         else if fl_active_len l1 = 0 \<and> \<not> fl_owes_all_clear l1 then (False, l1)
         else (True, l1\<lparr>fl_since_dm1_ms := 0, fl_owes_all_clear := False\<rparr>))"

section \<open>The abstract log\<close>

definition dtc_key :: "dtc \<Rightarrow> u32 \<times> u8" where
  "dtc_key d = (dtc_spn d, dtc_fmi d)"

record fault_state =
  fs_active :: "(dtc \<times> lamp) list"
  fs_previous :: "dtc list"
  fs_since :: u32
  fs_owes :: bool

definition fault_state_of :: "fault_log \<Rightarrow> fault_state" where
  "fault_state_of l =
     \<lparr>fs_active = zip (active_codes l) (take (fl_active_len l) (fl_lamps l)), fs_previous = previous_codes l,
      fs_since = fl_since_dm1_ms l, fs_owes = fl_owes_all_clear l\<rparr>"

definition active_keys :: "fault_state \<Rightarrow> (u32 \<times> u8) list" where
  "active_keys st = map (dtc_key \<circ> fst) (fs_active st)"

definition previous_keys :: "fault_state \<Rightarrow> (u32 \<times> u8) list" where
  "previous_keys st = map dtc_key (fs_previous st)"

text \<open>A code is never listed twice, and never both active and previously active.\<close>

definition fault_state_ok :: "nat \<Rightarrow> fault_state \<Rightarrow> bool" where
  "fault_state_ok n st \<longleftrightarrow>
     length (fs_active st) \<le> n \<and> length (fs_previous st) \<le> n \<and>
     distinct (active_keys st @ previous_keys st) \<and>
     (\<forall>d \<in> fst ` set (fs_active st) \<union> set (fs_previous st). Dtc_ok d)"

definition fault_log_ok :: "nat \<Rightarrow> fault_log \<Rightarrow> bool" where
  "fault_log_ok n l \<longleftrightarrow>
     length (fl_active l) = n \<and> length (fl_lamps l) = n \<and> length (fl_previous l) = n \<and>
     fl_active_len l \<le> n \<and> fl_previous_len l \<le> n \<and> fault_state_ok n (fault_state_of l)"

definition spec_set :: "nat \<Rightarrow> u32 \<Rightarrow> u8 \<Rightarrow> lamp \<Rightarrow> fault_state \<Rightarrow> unit j1939_result \<times> fault_state" where
  "spec_set n spn fmi lamp st =
     (case Dtc_new spn fmi 1 of
        Inl e \<Rightarrow> (Inl e, st)
      | Inr dtc \<Rightarrow>
          if (spn, fmi) \<in> set (active_keys st) then
            (Inr (), st\<lparr>fs_active := map (\<lambda>(d, x). if dtc_key d = (spn, fmi) then (d, lamp) else (d, x)) (fs_active st)\<rparr>)
          else if length (fs_active st) = n then
            (Inl (ValueOutOfRange ''active fault log capacity'' (word_of_nat n)), st)
          else
            (let d = (case List.find (\<lambda>d. dtc_key d = (spn, fmi)) (fs_previous st) of
                        Some old \<Rightarrow> dtc\<lparr>dtc_count := next_occurrence (dtc_count old)\<rparr> | None \<Rightarrow> dtc)
             in (Inr (), st\<lparr>fs_active := fs_active st @ [(d, lamp)],
                            fs_previous := filter (\<lambda>d. dtc_key d \<noteq> (spn, fmi)) (fs_previous st),
                            fs_owes := False\<rparr>)))"

definition spec_clear :: "nat \<Rightarrow> u32 \<Rightarrow> u8 \<Rightarrow> fault_state \<Rightarrow> bool \<times> fault_state" where
  "spec_clear n spn fmi st =
     (case List.find (\<lambda>(d, x). dtc_key d = (spn, fmi)) (fs_active st) of
        None \<Rightarrow> (False, st)
      | Some (d, x) \<Rightarrow>
          (let rest = filter (\<lambda>(d, x). dtc_key d \<noteq> (spn, fmi)) (fs_active st)
           in (True, st\<lparr>fs_active := rest,
                        fs_previous := (if length (fs_previous st) = n then tl (fs_previous st) else fs_previous st) @ [d],
                        fs_owes := (rest = [] \<or> fs_owes st)\<rparr>)))"

definition spec_fault_tick :: "u16 \<Rightarrow> fault_state \<Rightarrow> bool \<times> fault_state" where
  "spec_fault_tick elapsed st =
     (let since = saturating_add (fs_since st) (ucast elapsed)
      in if 1000 \<le> since \<and> (fs_active st \<noteq> [] \<or> fs_owes st)
         then (True, st\<lparr>fs_since := 0, fs_owes := False\<rparr>) else (False, st\<lparr>fs_since := since\<rparr>))"

section \<open>Positions and keys\<close>

lemma find_code_key: "find_code ds spn fmi = position (\<lambda>d. dtc_key d = (spn, fmi)) ds"
  by (simp add: find_code_def dtc_key_def)

text \<open>The position of a code among the active ones is its position among the pairs.\<close>

lemma position_zip:
  "length xs = length ys \<Longrightarrow> position (\<lambda>p. P (fst p)) (zip xs ys) = position P xs"
  by (induction xs ys rule: list_induct2) auto

section \<open>Refinement\<close>

abbreviation pairs :: "fault_log \<Rightarrow> (dtc \<times> lamp) list" where
  "pairs l \<equiv> fs_active (fault_state_of l)"

lemma fault_state_sel [simp]:
  "fs_previous (fault_state_of l) = previous_codes l" "fs_since (fault_state_of l) = fl_since_dm1_ms l"
  "fs_owes (fault_state_of l) = fl_owes_all_clear l"
  by (simp_all add: fault_state_of_def)

lemma fault_log_lengths:
  assumes "fault_log_ok n l"
  shows "length (active_codes l) = fl_active_len l" and "length (pairs l) = fl_active_len l"
    and "length (previous_codes l) = fl_previous_len l" and "map fst (pairs l) = active_codes l"
    and "fl_capacity l = n" and "fl_active_len l \<le> n" and "fl_previous_len l \<le> n"
  using assms by (simp_all add: fault_log_ok_def active_codes_def previous_codes_def fault_state_of_def fl_capacity_def)

lemma active_keys_codes: "fault_log_ok n l \<Longrightarrow> active_keys (fault_state_of l) = map dtc_key (active_codes l)"
  using fault_log_lengths(4) [of n l] by (simp add: active_keys_def flip: map_map)

lemma find_active_pairs:
  assumes "fault_log_ok n l"
  shows "find_code (active_codes l) spn fmi = position (\<lambda>p. dtc_key (fst p) = (spn, fmi)) (pairs l)"
proof -
  have "length (active_codes l) = length (take (fl_active_len l) (fl_lamps l))"
    using assms by (simp add: fault_log_ok_def active_codes_def)
  from position_zip [OF this, of "\<lambda>d. dtc_key d = (spn, fmi)"] show ?thesis
    by (simp add: find_code_key fault_state_of_def)
qed

lemma remove_active_eq:
  assumes ok: "fault_log_ok n l" and i: "i < fl_active_len l"
  obtains l1 where "remove_active i l = Some l1" and "length (fl_active l1) = n" and "length (fl_lamps l1) = n"
    and "fl_active_len l1 = fl_active_len l - 1"
    and "pairs l1 = take i (pairs l) @ drop (Suc i) (pairs l)"
    and "fl_previous l1 = fl_previous l" and "fl_previous_len l1 = fl_previous_len l"
    and "fl_since_dm1_ms l1 = fl_since_dm1_ms l" and "fl_owes_all_clear l1 = fl_owes_all_clear l"
proof -
  let ?k = "fl_active_len l"
  from ok have la: "length (fl_active l) = n" "length (fl_lamps l) = n" and k: "?k \<le> n" by (simp_all add: fault_log_ok_def)
  obtain a where a: "copy_within (i + 1) ?k i (fl_active l) = Some a" "length a = n"
    "take (?k - 1) a = take i (fl_active l) @ drop (i + 1) (take ?k (fl_active l))"
    using copy_within_remove [OF i, of "fl_active l"] la k by auto
  obtain b where b: "copy_within (i + 1) ?k i (fl_lamps l) = Some b" "length b = n"
    "take (?k - 1) b = take i (fl_lamps l) @ drop (i + 1) (take ?k (fl_lamps l))"
    using copy_within_remove [OF i, of "fl_lamps l"] la k by auto
  let ?l1 = "l\<lparr>fl_active := a, fl_lamps := b, fl_active_len := ?k - 1\<rparr>"
  have "remove_active i l = Some ?l1" using a b i by (simp add: remove_active_def checked_usize_sub_def)
  moreover have "pairs ?l1 = take i (pairs l) @ drop (Suc i) (pairs l)"
  proof -
    have "take i (fl_active l) = take i (take ?k (fl_active l))" "take i (fl_lamps l) = take i (take ?k (fl_lamps l))"
      using i by simp_all
    then show ?thesis
      using a b la i k by (simp add: fault_state_of_def active_codes_def zip_append take_zip drop_zip)
  qed
  ultimately show thesis using that a(2) b(2) by simp
qed

lemma remove_previous_eq:
  assumes len: "length (fl_previous l) = n" "fl_previous_len l \<le> n" and i: "i < fl_previous_len l"
  obtains l1 where "remove_previous i l = Some l1" and "length (fl_previous l1) = n"
    and "fl_previous_len l1 = fl_previous_len l - 1"
    and "previous_codes l1 = take i (previous_codes l) @ drop (Suc i) (previous_codes l)"
    and "l1 = l\<lparr>fl_previous := fl_previous l1, fl_previous_len := fl_previous_len l1\<rparr>"
proof -
  let ?k = "fl_previous_len l"
  obtain a where a: "copy_within (i + 1) ?k i (fl_previous l) = Some a" "length a = n"
    "take (?k - 1) a = take i (fl_previous l) @ drop (i + 1) (take ?k (fl_previous l))"
    using copy_within_remove [OF i, of "fl_previous l"] len by auto
  let ?l1 = "l\<lparr>fl_previous := a, fl_previous_len := ?k - 1\<rparr>"
  have "remove_previous i l = Some ?l1" using a i by (simp add: remove_previous_def checked_usize_sub_def)
  moreover have "previous_codes ?l1 = take i (previous_codes l) @ drop (Suc i) (previous_codes l)"
    using a i by (simp add: previous_codes_def min_def)
  ultimately show thesis using that [of ?l1] a(2) by simp
qed

lemma next_occurrence_le: "next_occurrence c \<le> MAX_OCCURRENCE_COUNT"
  by (simp add: next_occurrence_def)

lemma Dtc_new_cases:
  obtains (bad) "Dtc_new spn fmi 1 = Inl InvalidDtc"
  | (good) "Dtc_new spn fmi 1 = Inr \<lparr>dtc_spn = spn, dtc_fmi = fmi, dtc_count = 1, dtc_conversion = True\<rparr>"
      "spn \<le> MAX_SPN" "fmi \<le> MAX_FMI"
  by (cases "Dtc_new spn fmi 1") (auto simp: Dtc_new_def split: if_splits)

lemma Dtc_new_good:
  assumes "spn \<le> MAX_SPN" and "fmi \<le> MAX_FMI"
  shows "Dtc_new spn fmi 1 = Inr \<lparr>dtc_spn = spn, dtc_fmi = fmi, dtc_count = 1, dtc_conversion = True\<rparr>"
  using assms unfolding linorder_not_less [symmetric] Dtc_new_def by (simp add: MAX_OCCURRENCE_COUNT_def)

definition new_code :: "u32 \<Rightarrow> u8 \<Rightarrow> fault_state \<Rightarrow> dtc" where
  "new_code spn fmi st =
     \<lparr>dtc_spn = spn, dtc_fmi = fmi,
      dtc_count = (case List.find (\<lambda>d. dtc_key d = (spn, fmi)) (fs_previous st) of
                     Some old \<Rightarrow> next_occurrence (dtc_count old) | None \<Rightarrow> 1),
      dtc_conversion = True\<rparr>"

lemma spec_set_cases:
  assumes "spec_set n spn fmi lamp st = (r, st1)"
  obtains
    (Refused) e where "r = Inl e" "st1 = st"
  | (Again) "r = Inr ()" "(spn, fmi) \<in> set (active_keys st)" "spn \<le> MAX_SPN" "fmi \<le> MAX_FMI"
      "st1 = st\<lparr>fs_active := map (\<lambda>(d, x). if dtc_key d = (spn, fmi) then (d, lamp) else (d, x)) (fs_active st)\<rparr>"
  | (New) "r = Inr ()" "(spn, fmi) \<notin> set (active_keys st)" "length (fs_active st) \<noteq> n" "spn \<le> MAX_SPN" "fmi \<le> MAX_FMI"
      "st1 = st\<lparr>fs_active := fs_active st @ [(new_code spn fmi st, lamp)],
               fs_previous := filter (\<lambda>d. dtc_key d \<noteq> (spn, fmi)) (fs_previous st), fs_owes := False\<rparr>"
proof (cases rule: Dtc_new_cases [of spn fmi])
  case bad
  with assms show thesis by (intro Refused [of InvalidDtc]) (simp_all add: spec_set_def)
next
  case good
  show thesis
  proof (cases "(spn, fmi) \<in> set (active_keys st)")
    case True
    with assms good show thesis by (intro Again) (simp_all add: spec_set_def)
  next
    case False
    show thesis
    proof (cases "length (fs_active st) = n")
      case True
      with False assms good show thesis
        by (intro Refused [of "ValueOutOfRange ''active fault log capacity'' (word_of_nat n)"]) (simp_all add: spec_set_def)
    next
      case full: False
      have "(case List.find (\<lambda>d. dtc_key d = (spn, fmi)) (fs_previous st) of
          Some old \<Rightarrow> \<lparr>dtc_spn = spn, dtc_fmi = fmi, dtc_count = 1, dtc_conversion = True\<rparr>\<lparr>dtc_count := next_occurrence (dtc_count old)\<rparr>
        | None \<Rightarrow> \<lparr>dtc_spn = spn, dtc_fmi = fmi, dtc_count = 1, dtc_conversion = True\<rparr>) = new_code spn fmi st"
        by (simp add: new_code_def split: option.split)
      with False full assms good show thesis by (intro New) (simp_all add: spec_set_def Let_def)
    qed
  qed
qed

lemma spec_set_new:
  assumes h: "spec_set n spn fmi lamp st = (r, st1)" and out: "(spn, fmi) \<notin> set (active_keys st)"
    and room: "length (fs_active st) \<noteq> n" and ok: "spn \<le> MAX_SPN" "fmi \<le> MAX_FMI"
  shows "r = Inr ()" and "st1 = st\<lparr>fs_active := fs_active st @ [(new_code spn fmi st, lamp)],
    fs_previous := filter (\<lambda>d. dtc_key d \<noteq> (spn, fmi)) (fs_previous st), fs_owes := False\<rparr>"
proof -
  have good: "Dtc_new spn fmi 1 = Inr \<lparr>dtc_spn = spn, dtc_fmi = fmi, dtc_count = 1, dtc_conversion = True\<rparr>"
    by (rule Dtc_new_good [OF ok])
  have no: "r \<noteq> Inl e" for e using h out room unfolding spec_set_def good by (auto simp: Let_def)
  have "r = Inr () \<and> st1 = st\<lparr>fs_active := fs_active st @ [(new_code spn fmi st, lamp)],
    fs_previous := filter (\<lambda>d. dtc_key d \<noteq> (spn, fmi)) (fs_previous st), fs_owes := False\<rparr>"
    using h
  proof (cases rule: spec_set_cases)
    case (Refused e)
    with no show ?thesis by blast
  next
    case Again
    with out show ?thesis by blast
  next
    case New
    then show ?thesis by blast
  qed
  then show "r = Inr ()" and "st1 = st\<lparr>fs_active := fs_active st @ [(new_code spn fmi st, lamp)],
    fs_previous := filter (\<lambda>d. dtc_key d \<noteq> (spn, fmi)) (fs_previous st), fs_owes := False\<rparr>" by simp_all
qed

lemma spec_set_again:
  assumes h: "spec_set n spn fmi lamp st = (r, st1)" and mem: "(spn, fmi) \<in> set (active_keys st)"
    and ok: "spn \<le> MAX_SPN" "fmi \<le> MAX_FMI"
  shows "r = Inr ()"
    and "st1 = st\<lparr>fs_active := map (\<lambda>p. if dtc_key (fst p) = (spn, fmi) then (fst p, lamp) else p) (fs_active st)\<rparr>"
proof -
  have good: "Dtc_new spn fmi 1 = Inr \<lparr>dtc_spn = spn, dtc_fmi = fmi, dtc_count = 1, dtc_conversion = True\<rparr>"
    by (rule Dtc_new_good [OF ok])
  have f: "(\<lambda>(d, x). if dtc_key d = (spn, fmi) then (d, lamp) else (d, x)) =
      (\<lambda>p. if dtc_key (fst p) = (spn, fmi) then (fst p, lamp) else p)"
    by (rule ext) (simp add: case_prod_unfold)
  from h mem show "r = Inr ()" unfolding spec_set_def good f by simp
  from h mem show "st1 = st\<lparr>fs_active := map (\<lambda>p. if dtc_key (fst p) = (spn, fmi) then (fst p, lamp) else p) (fs_active st)\<rparr>"
    unfolding spec_set_def good f by simp
qed

lemma new_code_ok: "spn \<le> MAX_SPN \<Longrightarrow> fmi \<le> MAX_FMI \<Longrightarrow> Dtc_ok (new_code spn fmi st)"
  by (simp add: Dtc_ok_def new_code_def next_occurrence_le split: option.split)
    (simp add: MAX_OCCURRENCE_COUNT_def)

lemma new_code_key [simp]: "dtc_key (new_code spn fmi st) = (spn, fmi)"
  by (simp add: dtc_key_def new_code_def)

lemma spec_set_ok:
  assumes ok: "fault_state_ok n st" and h: "spec_set n spn fmi lamp st = (r, st1)"
  shows "fault_state_ok n st1"
  using h
proof (cases rule: spec_set_cases)
  case Refused
  with ok show ?thesis by simp
next
  case Again
  let ?f = "\<lambda>(d, x). if dtc_key d = (spn, fmi) then (d, lamp) else (d, x)"
  have fst: "fst (?f p) = fst p" for p by (auto split: prod.split)
  have "active_keys st1 = active_keys st" "previous_keys st1 = previous_keys st"
    unfolding Again(5) by (simp_all add: active_keys_def previous_keys_def fst comp_def)
  moreover have "fst ` set (fs_active st1) = fst ` set (fs_active st)"
    unfolding Again(5) by (simp add: image_image fst)
  ultimately show ?thesis using ok Again(5) by (simp add: fault_state_ok_def)
next
  case New
  have keys: "active_keys st1 = active_keys st @ [(spn, fmi)]"
    "previous_keys st1 = filter (\<lambda>k. k \<noteq> (spn, fmi)) (previous_keys st)"
    unfolding New(6) by (simp_all add: active_keys_def previous_keys_def filter_map comp_def)
  have "distinct (active_keys st1 @ previous_keys st1)"
    using ok New(2) unfolding keys fault_state_ok_def by auto
  moreover have "length (fs_active st1) \<le> n" "length (fs_previous st1) \<le> n"
    using ok New(3) unfolding New(6) fault_state_ok_def by (auto intro: le_trans [OF length_filter_le])
  moreover have "\<forall>d \<in> fst ` set (fs_active st1) \<union> set (fs_previous st1). Dtc_ok d"
    using ok new_code_ok [OF New(4,5)] unfolding New(6) fault_state_ok_def by auto
  ultimately show ?thesis by (simp add: fault_state_ok_def)
qed

lemma spec_clear_cases:
  assumes "spec_clear n spn fmi st = (b, st1)"
  obtains
    (Absent) "b = False" "st1 = st" "(spn, fmi) \<notin> set (active_keys st)"
  | (Cleared) d x where "b = True" "(d, x) \<in> set (fs_active st)" "dtc_key d = (spn, fmi)"
      "List.find (\<lambda>(d, x). dtc_key d = (spn, fmi)) (fs_active st) = Some (d, x)"
      "st1 = (let rest = filter (\<lambda>(d, x). dtc_key d \<noteq> (spn, fmi)) (fs_active st)
        in st\<lparr>fs_active := rest,
              fs_previous := (if length (fs_previous st) = n then tl (fs_previous st) else fs_previous st) @ [d],
              fs_owes := (rest = [] \<or> fs_owes st)\<rparr>)"
proof (cases "List.find (\<lambda>(d, x). dtc_key d = (spn, fmi)) (fs_active st)")
  case None
  then have "(spn, fmi) \<notin> set (active_keys st)" by (auto simp: find_None_iff active_keys_def)
  with None assms show thesis by (intro Absent) (simp_all add: spec_clear_def)
next
  case (Some p)
  obtain d x where p: "p = (d, x)" by (cases p)
  with Some have "(d, x) \<in> set (fs_active st)" "dtc_key d = (spn, fmi)"
    by (auto simp: find_Some_iff) (metis nth_mem)
  with Some p assms show thesis by (intro Cleared [of d x]) (simp_all add: spec_clear_def Let_def)
qed

lemma distinct_move:
  assumes "distinct K" and "distinct Q" and "set Q \<subseteq> set R" and "set K \<inter> set R = {}" and "k \<in> set K"
  shows "distinct (filter (\<lambda>j. j \<noteq> k) K @ Q @ [k])"
  using assms by auto

lemma spec_clear_ok:
  assumes ok: "fault_state_ok n st" and h: "spec_clear n spn fmi st = (b, st1)"
  shows "fault_state_ok n st1"
  using h
proof (cases rule: spec_clear_cases)
  case Absent
  with ok show ?thesis by simp
next
  case (Cleared d x)
  let ?prev = "if length (fs_previous st) = n then tl (fs_previous st) else fs_previous st"
  have sub: "set ?prev \<subseteq> set (fs_previous st)" by (cases "fs_previous st") auto
  have st1: "fs_active st1 = filter (\<lambda>(d, x). dtc_key d \<noteq> (spn, fmi)) (fs_active st)" "fs_previous st1 = ?prev @ [d]"
    unfolding Cleared(5) by (simp_all add: Let_def)
  have keys: "active_keys st1 = filter (\<lambda>k. k \<noteq> (spn, fmi)) (active_keys st)"
    "previous_keys st1 = map dtc_key ?prev @ [(spn, fmi)]"
    unfolding active_keys_def previous_keys_def st1 using Cleared(3)
    by (simp_all add: filter_map comp_def case_prod_unfold)
  have k: "(spn, fmi) \<in> set (active_keys st)" using Cleared(2,3) by (force simp: active_keys_def)
  have dist: "distinct (active_keys st)" "distinct (previous_keys st)" "set (active_keys st) \<inter> set (previous_keys st) = {}"
    using ok by (auto simp: fault_state_ok_def)
  have dprev: "distinct (map dtc_key ?prev)" using dist(2) by (simp add: previous_keys_def map_tl distinct_tl)
  have prevkeys: "set (map dtc_key ?prev) \<subseteq> set (previous_keys st)" using sub by (auto simp: previous_keys_def)
  have "distinct (active_keys st1 @ previous_keys st1)"
    unfolding keys by (rule distinct_move [OF dist(1) dprev prevkeys dist(3) k])
  moreover have "0 < n" using Cleared(2) ok by (cases "fs_active st") (auto simp: fault_state_ok_def)
  then have "length ?prev < n" using ok by (auto simp: fault_state_ok_def)
  then have "length (fs_active st1) \<le> n" "length (fs_previous st1) \<le> n"
    using ok unfolding st1 fault_state_ok_def by (auto intro: le_trans [OF length_filter_le])
  moreover have "\<forall>d \<in> fst ` set (fs_active st1) \<union> set (fs_previous st1). Dtc_ok d"
    using ok Cleared(2) sub unfolding st1 fault_state_ok_def by (force simp: image_iff)
  ultimately show ?thesis by (simp add: fault_state_ok_def)
qed

text \<open>The array operations commute with the abstraction.\<close>

definition same_frame :: "nat \<Rightarrow> fault_log \<Rightarrow> bool" where
  "same_frame n l \<longleftrightarrow> length (fl_active l) = n \<and> length (fl_lamps l) = n \<and> length (fl_previous l) = n \<and>
     fl_active_len l \<le> n \<and> fl_previous_len l \<le> n"

lemma fault_log_ok_iff: "fault_log_ok n l \<longleftrightarrow> same_frame n l \<and> fault_state_ok n (fault_state_of l)"
  by (auto simp: fault_log_ok_def same_frame_def)

lemma push_active:
  assumes f: "same_frame n l" and room: "fl_active_len l < n"
  obtains l1 where "set_index (fl_active_len l) d (fl_active l) = Some (fl_active l1)"
    and "set_index (fl_active_len l) x (fl_lamps l) = Some (fl_lamps l1)"
    and "l1 = l\<lparr>fl_active := fl_active l1, fl_lamps := fl_lamps l1, fl_active_len := fl_active_len l + 1, fl_owes_all_clear := False\<rparr>"
    and "same_frame n l1" and "fault_state_of l1 = (fault_state_of l)\<lparr>fs_active := pairs l @ [(d, x)], fs_owes := False\<rparr>"
proof -
  let ?k = "fl_active_len l"
  let ?l1 = "l\<lparr>fl_active := (fl_active l)[?k := d], fl_lamps := (fl_lamps l)[?k := x], fl_active_len := ?k + 1, fl_owes_all_clear := False\<rparr>"
  have len: "length (fl_active l) = n" "length (fl_lamps l) = n" using f by (simp_all add: same_frame_def)
  have take: "take (Suc ?k) (ys[?k := v]) = take ?k ys @ [v]" if "length ys = n" for ys :: "'b list" and v
    using that room by (simp add: take_Suc_conv_app_nth)
  have "fault_state_of ?l1 = (fault_state_of l)\<lparr>fs_active := pairs l @ [(d, x)], fs_owes := False\<rparr>"
    using len room by (simp add: fault_state_of_def active_codes_def previous_codes_def take_Suc_conv_app_nth zip_append)
  then show thesis
    using that [of ?l1] f len room by (simp add: set_index_def same_frame_def)
qed

lemma record_previous_eq:
  assumes f: "same_frame n l" and absent: "dtc_key d \<notin> set (previous_keys (fault_state_of l))" and n: "0 < n"
  obtains l1 where "record_previous d l = Some l1" and "same_frame n l1" and "fl_active_len l1 = fl_active_len l"
    and "fault_state_of l1 = (fault_state_of l)\<lparr>fs_previous :=
      (if length (previous_codes l) = n then tl (previous_codes l) else previous_codes l) @ [d]\<rparr>"
proof -
  have none: "find_code (previous_codes l) (dtc_spn d) (dtc_fmi d) = None"
  proof -
    have "dtc_key c \<noteq> (dtc_spn d, dtc_fmi d)" if "c \<in> set (previous_codes l)" for c
    proof
      assume "dtc_key c = (dtc_spn d, dtc_fmi d)"
      then have "dtc_key c = dtc_key d" by (simp add: dtc_key_def)
      with that have "dtc_key d \<in> set (previous_keys (fault_state_of l))"
        by (metis fault_state_sel(1) image_eqI list.set_map previous_keys_def)
      with absent show False ..
    qed
    then show ?thesis unfolding find_code_key position_None by blast
  qed
  have cap: "fl_capacity l = n" using f by (simp add: same_frame_def fl_capacity_def)
  have plen: "length (previous_codes l) = fl_previous_len l" using f by (simp add: same_frame_def previous_codes_def)
  obtain l0 where l0: "(if fl_previous_len l = fl_capacity l then remove_previous 0 l else Some l) = Some l0"
    "length (fl_previous l0) = n" "fl_previous_len l0 < n"
    "previous_codes l0 = (if length (previous_codes l) = n then tl (previous_codes l) else previous_codes l)"
    "l0 = l\<lparr>fl_previous := fl_previous l0, fl_previous_len := fl_previous_len l0\<rparr>"
  proof (cases "fl_previous_len l = n")
    case True
    obtain l0 where r: "remove_previous 0 l = Some l0" "length (fl_previous l0) = n"
      "fl_previous_len l0 = fl_previous_len l - 1" "previous_codes l0 = take 0 (previous_codes l) @ drop (Suc 0) (previous_codes l)"
      "l0 = l\<lparr>fl_previous := fl_previous l0, fl_previous_len := fl_previous_len l0\<rparr>"
      by (rule remove_previous_eq [of l n 0]) (use f n True in \<open>simp_all add: same_frame_def\<close>)
    show thesis by (rule that [of l0]) (use r True cap plen n in \<open>simp_all add: drop_Suc\<close>)
  next
    case False
    show thesis by (rule that [of l]) (use False cap plen f in \<open>simp_all add: same_frame_def\<close>)
  qed
  let ?k = "fl_previous_len l0"
  let ?l1 = "l0\<lparr>fl_previous := (fl_previous l0)[?k := d], fl_previous_len := ?k + 1\<rparr>"
  have "record_previous d l = Some ?l1"
    using none l0(1-3) by (simp add: record_previous_def set_index_def)
  moreover have "previous_codes ?l1 = previous_codes l0 @ [d]"
    using l0(2,3) by (simp add: previous_codes_def take_Suc_conv_app_nth)
  moreover have "fl_active ?l1 = fl_active l" "fl_lamps ?l1 = fl_lamps l" "fl_active_len ?l1 = fl_active_len l"
    "fl_since_dm1_ms ?l1 = fl_since_dm1_ms l" "fl_owes_all_clear ?l1 = fl_owes_all_clear l"
    by (subst l0(5), simp)+
  ultimately show thesis
    using that [of ?l1] f l0(2-4) by (simp add: same_frame_def fault_state_of_def active_codes_def)
qed

lemma FaultLog_set_refines:
  assumes ok: "fault_log_ok n l"
  obtains r l1 where "FaultLog_set spn fmi lamp l = Some (r, l1)" and "fault_log_ok n l1"
    and "spec_set n spn fmi lamp (fault_state_of l) = (r, fault_state_of l1)"
proof -
  let ?st = "fault_state_of l"
  from ok have fr: "same_frame n l" and st: "fault_state_ok n ?st" by (simp_all add: fault_log_ok_iff)
  note lens = fault_log_lengths [OF ok]
  obtain r st1 where h: "spec_set n spn fmi lamp ?st = (r, st1)" by (cases "spec_set n spn fmi lamp ?st")
  have st1: "fault_state_ok n st1" by (rule spec_set_ok [OF st h])
  have dist: "distinct (map (dtc_key \<circ> fst) (pairs l))" "distinct (map dtc_key (previous_codes l))"
    using st by (simp_all add: fault_state_ok_def active_keys_def previous_keys_def)
  have find: "find_code (active_codes l) spn fmi = position (\<lambda>p. dtc_key (fst p) = (spn, fmi)) (pairs l)"
    by (rule find_active_pairs [OF ok])
  have mem: "find_code (active_codes l) spn fmi \<noteq> None \<longleftrightarrow> (spn, fmi) \<in> set (active_keys ?st)"
    unfolding find position_None by (force simp: active_keys_def)
  have "\<exists>l1. FaultLog_set spn fmi lamp l = Some (r, l1) \<and> same_frame n l1 \<and> fault_state_of l1 = st1"
  proof (cases rule: Dtc_new_cases [of spn fmi])
    case bad
    with h fr show ?thesis by (simp add: spec_set_def FaultLog_set_def)
  next
    case good
    show ?thesis
    proof (cases "find_code (active_codes l) spn fmi")
      case (Some i)
      have i: "i < fl_active_len l" "dtc_key (fst (pairs l ! i)) = (spn, fmi)"
        using position_Some [OF Some [unfolded find]] lens(2) by auto
      have lamps: "length (fl_lamps l) = n" using fr by (simp add: same_frame_def)
      let ?l1 = "l\<lparr>fl_lamps := (fl_lamps l)[i := lamp]\<rparr>"
      have "FaultLog_set spn fmi lamp l = Some (Inr (), ?l1)"
        using good Some i(1) lamps lens(6) by (simp add: FaultLog_set_def set_index_def)
      moreover have "pairs ?l1 = (pairs l)[i := (fst (pairs l ! i), lamp)]"
      proof -
        have "zip A (L[i := x]) = (zip A L)[i := (A ! i, x)]" if "i < length A" "length A = length L" for A :: "dtc list" and L x
          using that by (metis list_update_id zip_update)
        from this [of "active_codes l" "take (fl_active_len l) (fl_lamps l)" lamp] show ?thesis
          using i(1) lens(1,6) lamps by (simp add: fault_state_of_def active_codes_def take_update_swap)
      qed
      then have "pairs ?l1 = map (\<lambda>p. if dtc_key (fst p) = (spn, fmi) then (fst p, lamp) else p) (pairs l)"
        using distinct_key_update [OF dist(1), of i "\<lambda>p. (fst p, lamp)"] i lens(2) by (simp add: comp_def)
      then have "fault_state_of ?l1 = ?st\<lparr>fs_active := map (\<lambda>p. if dtc_key (fst p) = (spn, fmi) then (fst p, lamp) else p) (pairs l)\<rparr>"
        by (simp add: fault_state_of_def active_codes_def previous_codes_def)
      moreover have "same_frame n ?l1" using fr by (simp add: same_frame_def)
      moreover have "(spn, fmi) \<in> set (active_keys ?st)" using mem Some by simp
      note again = spec_set_again [OF h this good(2,3)]
      ultimately show ?thesis using again by metis
    next
      case None
      then have out: "(spn, fmi) \<notin> set (active_keys ?st)" using mem by blast
      show ?thesis
      proof (cases "fl_active_len l = n")
        case True
        with None out good h lens fr show ?thesis by (simp add: spec_set_def FaultLog_set_def)
      next
        case False
        with lens(6) have room: "fl_active_len l < n" by simp
        have st1: "r = Inr ()" "st1 = ?st\<lparr>fs_active := pairs l @ [(new_code spn fmi ?st, lamp)],
            fs_previous := filter (\<lambda>d. dtc_key d \<noteq> (spn, fmi)) (previous_codes l), fs_owes := False\<rparr>"
          using spec_set_new [OF h out] False lens(2) good by simp_all
        let ?d = "\<lparr>dtc_spn = spn, dtc_fmi = fmi, dtc_count = 1, dtc_conversion = True\<rparr>"
        obtain l0 where l0: "(case find_code (previous_codes l) spn fmi of
              Some index \<Rightarrow> do { seen \<leftarrow> at_index (fl_previous l) index; l1 \<leftarrow> remove_previous index l;
                Some (?d\<lparr>dtc_count := next_occurrence (dtc_count seen)\<rparr>, l1) }
            | None \<Rightarrow> Some (?d, l)) = Some (new_code spn fmi ?st, l0)"
          "same_frame n l0" "fl_active_len l0 = fl_active_len l"
          "fault_state_of l0 = ?st\<lparr>fs_previous := filter (\<lambda>d. dtc_key d \<noteq> (spn, fmi)) (previous_codes l)\<rparr>"
        proof (cases "find_code (previous_codes l) spn fmi")
          case none: None
          then have "List.find (\<lambda>d. dtc_key d = (spn, fmi)) (previous_codes l) = None"
            "filter (\<lambda>d. dtc_key d \<noteq> (spn, fmi)) (previous_codes l) = previous_codes l"
            unfolding find_code_key by (auto simp: position_None find_None_iff filter_id_conv)
          then show thesis
            by (intro that [of l]) (use none fr in \<open>simp_all add: new_code_def\<close>)
        next
          case (Some i)
          note pos = Some [unfolded find_code_key]
          have i: "i < fl_previous_len l" using position_Some [OF pos] lens(3) by auto
          have plen: "length (fl_previous l) = n" "fl_previous_len l \<le> n" using fr by (simp_all add: same_frame_def)
          have seen: "at_index (fl_previous l) i = Some (previous_codes l ! i)"
            using i plen by (simp add: at_index_def previous_codes_def)
          have fnd: "List.find (\<lambda>d. dtc_key d = (spn, fmi)) (previous_codes l) = Some (previous_codes l ! i)"
            and fil: "take i (previous_codes l) @ drop (Suc i) (previous_codes l) =
              filter (\<lambda>d. dtc_key d \<noteq> (spn, fmi)) (previous_codes l)"
            using position_distinct [OF dist(2) pos] by simp_all
          obtain l0 where r: "remove_previous i l = Some l0" "length (fl_previous l0) = n"
            "fl_previous_len l0 = fl_previous_len l - 1"
            "previous_codes l0 = take i (previous_codes l) @ drop (Suc i) (previous_codes l)"
            "l0 = l\<lparr>fl_previous := fl_previous l0, fl_previous_len := fl_previous_len l0\<rparr>"
            by (rule remove_previous_eq [OF plen i])
          have rest: "fl_active l0 = fl_active l" "fl_lamps l0 = fl_lamps l" "fl_active_len l0 = fl_active_len l"
            "fl_since_dm1_ms l0 = fl_since_dm1_ms l" "fl_owes_all_clear l0 = fl_owes_all_clear l"
            by (subst r(5), simp)+
          show thesis
          proof (rule that [of l0])
            show "same_frame n l0" using fr r(2,3) rest plen by (simp add: same_frame_def)
            show "fault_state_of l0 = ?st\<lparr>fs_previous := filter (\<lambda>d. dtc_key d \<noteq> (spn, fmi)) (previous_codes l)\<rparr>"
              using r(4) fil rest by (simp add: fault_state_of_def active_codes_def)
          qed (use Some seen r(1) fnd rest in \<open>simp_all add: new_code_def\<close>)
        qed
        obtain l1 where p: "set_index (fl_active_len l0) (new_code spn fmi ?st) (fl_active l0) = Some (fl_active l1)"
          "set_index (fl_active_len l0) lamp (fl_lamps l0) = Some (fl_lamps l1)"
          "l1 = l0\<lparr>fl_active := fl_active l1, fl_lamps := fl_lamps l1, fl_active_len := fl_active_len l0 + 1, fl_owes_all_clear := False\<rparr>"
          "same_frame n l1" "fault_state_of l1 = (fault_state_of l0)\<lparr>fs_active := pairs l0 @ [(new_code spn fmi ?st, lamp)], fs_owes := False\<rparr>"
          by (rule push_active [OF l0(2), of "new_code spn fmi ?st" lamp]) (use room l0(3) in simp_all)
        have "FaultLog_set spn fmi lamp l = Some (Inr (), l1)"
          using good None False lens(5) l0(1) p(1,2) p(3) [symmetric] by (simp add: FaultLog_set_def)
        moreover have "fault_state_of l1 = st1" unfolding p(5) l0(4) st1(2) by simp
        ultimately show ?thesis using p(4) st1(1) by blast
      qed
    qed
  qed
  then show thesis using that h st1 by (auto simp: fault_log_ok_iff)
qed

text \<open>Clearing a code moves it to the history.\<close>

lemma FaultLog_clear_refines:
  assumes ok: "fault_log_ok n l"
  obtains b l1 where "FaultLog_clear spn fmi l = Some (b, l1)" and "fault_log_ok n l1"
    and "spec_clear n spn fmi (fault_state_of l) = (b, fault_state_of l1)"
proof -
  let ?st = "fault_state_of l"
  from ok have fr: "same_frame n l" and st: "fault_state_ok n ?st" by (simp_all add: fault_log_ok_iff)
  note lens = fault_log_lengths [OF ok]
  have dist: "distinct (map (dtc_key \<circ> fst) (pairs l))"
    and apart: "set (active_keys ?st) \<inter> set (previous_keys ?st) = {}"
    using st by (auto simp: fault_state_ok_def active_keys_def)
  have find: "find_code (active_codes l) spn fmi = position (\<lambda>p. (dtc_key \<circ> fst) p = (spn, fmi)) (pairs l)"
    using find_active_pairs [OF ok] by (simp add: comp_def)
  have P: "(\<lambda>(d, x :: lamp). dtc_key d = (spn, fmi)) = (\<lambda>p. (dtc_key \<circ> fst) p = (spn, fmi))"
    "(\<lambda>(d, x :: lamp). dtc_key d \<noteq> (spn, fmi)) = (\<lambda>p. (dtc_key \<circ> fst) p \<noteq> (spn, fmi))"
    by (rule ext, simp add: case_prod_unfold)+
  show thesis
  proof (cases "find_code (active_codes l) spn fmi")
    case None
    then have "List.find (\<lambda>p. (dtc_key \<circ> fst) p = (spn, fmi)) (pairs l) = None"
      unfolding find by (simp only: position_None_find)
    then have "spec_clear n spn fmi ?st = (False, ?st)" unfolding spec_clear_def P by simp
    with None ok show thesis by (intro that [of False l]) (simp_all add: FaultLog_clear_def)
  next
    case (Some i)
    note pos = Some [unfolded find]
    have i: "i < fl_active_len l" using position_Some [OF pos] lens(2) by auto
    let ?d = "active_codes l ! i"
    have key: "dtc_key ?d = (spn, fmi)" and d: "fst (pairs l ! i) = ?d"
    proof -
      show "fst (pairs l ! i) = ?d" using i lens(2) by (simp flip: lens(4))
      with position_Some [OF pos] show "dtc_key ?d = (spn, fmi)" by simp
    qed
    have fnd: "List.find (\<lambda>p. (dtc_key \<circ> fst) p = (spn, fmi)) (pairs l) = Some (pairs l ! i)"
      and fil: "take i (pairs l) @ drop (Suc i) (pairs l) = filter (\<lambda>p. (dtc_key \<circ> fst) p \<noteq> (spn, fmi)) (pairs l)"
      using position_distinct [OF dist pos] by simp_all
    let ?rest = "filter (\<lambda>p. (dtc_key \<circ> fst) p \<noteq> (spn, fmi)) (pairs l)"
    have at: "at_index (fl_active l) i = Some ?d"
      using i fr by (simp add: at_index_def active_codes_def same_frame_def)
    obtain l1 where r: "remove_active i l = Some l1" "length (fl_active l1) = n" "length (fl_lamps l1) = n"
      "fl_active_len l1 = fl_active_len l - 1" "pairs l1 = ?rest"
      "fl_previous l1 = fl_previous l" "fl_previous_len l1 = fl_previous_len l"
      "fl_since_dm1_ms l1 = fl_since_dm1_ms l" "fl_owes_all_clear l1 = fl_owes_all_clear l"
      by (rule remove_active_eq [OF ok i]) (use fil in simp)
    have f1: "same_frame n l1" using fr r(2-4,6,7) by (auto simp: same_frame_def)
    have prev1: "previous_codes l1 = previous_codes l" using r by (simp add: previous_codes_def)
    have "(spn, fmi) \<in> set (active_keys ?st)"
      using key d i lens(2) unfolding active_keys_def by (metis (no_types, lifting) comp_apply length_map nth_map nth_mem)
    with apart have absent: "dtc_key ?d \<notin> set (previous_keys (fault_state_of l1))"
      unfolding key by (auto simp: previous_keys_def prev1)
    have n: "0 < n" using i lens(6) by simp
    obtain l2 where p: "record_previous ?d l1 = Some l2" "same_frame n l2" "fl_active_len l2 = fl_active_len l1"
      "fault_state_of l2 = (fault_state_of l1)\<lparr>fs_previous :=
        (if length (previous_codes l1) = n then tl (previous_codes l1) else previous_codes l1) @ [?d]\<rparr>"
      by (rule record_previous_eq [OF f1 absent n])
    let ?l3 = "if fl_active_len l2 = 0 then l2\<lparr>fl_owes_all_clear := True\<rparr> else l2"
    have out: "FaultLog_clear spn fmi l = Some (True, ?l3)"
      using Some at r(1) p(1) by (simp add: FaultLog_clear_def)
    have len: "length ?rest = fl_active_len l2"
      using arg_cong [OF r(5), of length] r(2-4) f1 p(3) by (simp add: fault_state_of_def active_codes_def same_frame_def)
    have rest: "?rest = [] \<longleftrightarrow> fl_active_len l2 = 0" using len by (metis length_0_conv)
    have owes: "fault_state_of (l2\<lparr>fl_owes_all_clear := b\<rparr>) = (fault_state_of l2)\<lparr>fs_owes := b\<rparr>" for b
      by (simp add: fault_state_of_def active_codes_def previous_codes_def)
    have st1: "fault_state_of l1 = ?st\<lparr>fs_active := ?rest\<rparr>"
      using r(5,8,9) prev1 by (cases "fault_state_of l1"; cases ?st) (simp add: fault_state_of_def)
    have spec: "spec_clear n spn fmi ?st = (True, fault_state_of ?l3)"
      using fnd d rest unfolding spec_clear_def P
      by (simp add: case_prod_unfold Let_def owes p(4) st1 prev1)
    have keep: "fault_log_ok n ?l3"
      unfolding fault_log_ok_iff using spec_clear_ok [OF st spec] p(2) by (simp add: same_frame_def)
    show thesis by (rule that [OF out keep spec])
  qed
qed

section \<open>The log as a machine\<close>

datatype fault_event = FlSet u32 u8 lamp | FlClear u32 u8 | FlClearActive | FlClearPrevious | FlTick u16
datatype fault_answer = AnsResult "unit j1939_result" | AnsBool bool | AnsUnit

fun fault_step :: "fault_event \<Rightarrow> fault_log \<Rightarrow> (fault_answer \<times> fault_log) option" where
  "fault_step (FlSet spn fmi lamp) l = do { (r, l1) \<leftarrow> FaultLog_set spn fmi lamp l; Some (AnsResult r, l1) }"
| "fault_step (FlClear spn fmi) l = do { (b, l1) \<leftarrow> FaultLog_clear spn fmi l; Some (AnsBool b, l1) }"
| "fault_step FlClearActive l = Some (AnsUnit, clear_active l)"
| "fault_step FlClearPrevious l = Some (AnsUnit, clear_previously_active l)"
| "fault_step (FlTick t) l = (let (b, l1) = FaultLog_tick t l in Some (AnsBool b, l1))"

definition spec_clear_active :: "fault_state \<Rightarrow> fault_state" where
  "spec_clear_active st = st\<lparr>fs_active := [], fs_owes := (fs_active st \<noteq> [] \<or> fs_owes st)\<rparr>"

fun spec_fault_step :: "nat \<Rightarrow> fault_event \<Rightarrow> fault_state \<Rightarrow> fault_answer \<times> fault_state" where
  "spec_fault_step n (FlSet spn fmi lamp) st = (let (r, st1) = spec_set n spn fmi lamp st in (AnsResult r, st1))"
| "spec_fault_step n (FlClear spn fmi) st = (let (b, st1) = spec_clear n spn fmi st in (AnsBool b, st1))"
| "spec_fault_step n FlClearActive st = (AnsUnit, spec_clear_active st)"
| "spec_fault_step n FlClearPrevious st = (AnsUnit, st\<lparr>fs_previous := []\<rparr>)"
| "spec_fault_step n (FlTick t) st = (let (b, st1) = spec_fault_tick t st in (AnsBool b, st1))"

lemma pairs_empty: "fault_log_ok n l \<Longrightarrow> pairs l = [] \<longleftrightarrow> fl_active_len l = 0"
  using fault_log_lengths(2) by (metis length_0_conv)

lemma clear_active_refines:
  assumes ok: "fault_log_ok n l"
  shows "fault_state_of (clear_active l) = spec_clear_active (fault_state_of l)" and "fault_log_ok n (clear_active l)"
proof -
  show eq: "fault_state_of (clear_active l) = spec_clear_active (fault_state_of l)"
    using pairs_empty [OF ok]
    by (simp add: clear_active_def spec_clear_active_def fault_state_of_def active_codes_def previous_codes_def Let_def)
  have "fault_state_ok n (spec_clear_active (fault_state_of l))"
    using ok by (auto simp: fault_log_ok_iff fault_state_ok_def spec_clear_active_def active_keys_def previous_keys_def)
  with ok show "fault_log_ok n (clear_active l)"
    unfolding fault_log_ok_iff eq by (simp add: same_frame_def clear_active_def Let_def)
qed

lemma clear_previous_refines:
  assumes ok: "fault_log_ok n l"
  shows "fault_state_of (clear_previously_active l) = (fault_state_of l)\<lparr>fs_previous := []\<rparr>"
    and "fault_log_ok n (clear_previously_active l)"
proof -
  show eq: "fault_state_of (clear_previously_active l) = (fault_state_of l)\<lparr>fs_previous := []\<rparr>"
    by (simp add: clear_previously_active_def fault_state_of_def active_codes_def previous_codes_def)
  have "fault_state_ok n ((fault_state_of l)\<lparr>fs_previous := []\<rparr>)"
    using ok by (auto simp: fault_log_ok_iff fault_state_ok_def active_keys_def previous_keys_def)
  with ok show "fault_log_ok n (clear_previously_active l)"
    unfolding fault_log_ok_iff eq by (simp add: same_frame_def clear_previously_active_def)
qed

lemma fault_tick_refines:
  assumes ok: "fault_log_ok n l"
  shows "spec_fault_tick t (fault_state_of l) = (fst (FaultLog_tick t l), fault_state_of (snd (FaultLog_tick t l)))"
    and "fault_log_ok n (snd (FaultLog_tick t l))"
proof -
  have upd: "fault_state_of (l\<lparr>fl_since_dm1_ms := w, fl_owes_all_clear := b\<rparr>) = (fault_state_of l)\<lparr>fs_since := w, fs_owes := b\<rparr>"
    "fault_state_of (l\<lparr>fl_since_dm1_ms := w\<rparr>) = (fault_state_of l)\<lparr>fs_since := w\<rparr>" for w b
    by (simp_all add: fault_state_of_def active_codes_def previous_codes_def)
  have ge: "1000 \<le> w \<longleftrightarrow> \<not> w < ucast DM1_INTERVAL_MS" for w :: u32
    by (simp add: DM1_INTERVAL_MS_def not_less)
  show "spec_fault_tick t (fault_state_of l) = (fst (FaultLog_tick t l), fault_state_of (snd (FaultLog_tick t l)))"
    using pairs_empty [OF ok] by (simp add: spec_fault_tick_def FaultLog_tick_def Let_def upd ge)
  have "fault_state_ok n (st\<lparr>fs_since := w, fs_owes := b\<rparr>) = fault_state_ok n st"
    "fault_state_ok n (st\<lparr>fs_since := w\<rparr>) = fault_state_ok n st" for st w b
    by (simp_all add: fault_state_ok_def active_keys_def previous_keys_def)
  with ok show "fault_log_ok n (snd (FaultLog_tick t l))"
    unfolding fault_log_ok_iff by (simp add: FaultLog_tick_def Let_def upd same_frame_def)
qed

lemma fault_step_refines:
  assumes ok: "fault_log_ok n l"
  obtains a l1 where "fault_step e l = Some (a, l1)" and "fault_log_ok n l1"
    and "spec_fault_step n e (fault_state_of l) = (a, fault_state_of l1)"
proof (cases e)
  case (FlSet spn fmi lamp)
  obtain r l1 where "FaultLog_set spn fmi lamp l = Some (r, l1)" "fault_log_ok n l1"
    "spec_set n spn fmi lamp (fault_state_of l) = (r, fault_state_of l1)"
    by (rule FaultLog_set_refines [OF ok])
  with FlSet that [of "AnsResult r" l1] show thesis by simp
next
  case (FlClear spn fmi)
  obtain b l1 where "FaultLog_clear spn fmi l = Some (b, l1)" "fault_log_ok n l1"
    "spec_clear n spn fmi (fault_state_of l) = (b, fault_state_of l1)"
    by (rule FaultLog_clear_refines [OF ok])
  with FlClear that [of "AnsBool b" l1] show thesis by simp
next
  case FlClearActive
  with clear_active_refines [OF ok] that [of AnsUnit "clear_active l"] show thesis by simp
next
  case FlClearPrevious
  with clear_previous_refines [OF ok] that [of AnsUnit "clear_previously_active l"] show thesis by simp
next
  case (FlTick t)
  with fault_tick_refines [OF ok, of t] that [of "AnsBool (fst (FaultLog_tick t l))" "snd (FaultLog_tick t l)"]
  show thesis by (simp add: split_beta Let_def)
qed

interpretation faults: refined_machine fault_step "fault_log_ok n" "\<lambda>_. True" fault_state_of "spec_fault_step n" for n
  by unfold_locales (metis fault_step_refines)

lemma FaultLog_new_ok: "fault_log_ok n (FaultLog_new n)"
  by (simp add: fault_log_ok_def FaultLog_new_def fault_state_ok_def fault_state_of_def active_codes_def
      previous_codes_def active_keys_def previous_keys_def)

section \<open>Reports\<close>

text \<open>A reader of the report finds the lamps and the codes of the log; a healthy log is one no-fault code.\<close>

lemma Dtc_default_facts [simp]: "Dtc_ok Dtc_default" "Dtc_is_no_fault Dtc_default"
  by (simp_all add: Dtc_ok_def Dtc_default_def Dtc_is_no_fault_def)

lemma fault_log_codes_ok:
  assumes "fault_log_ok n l"
  shows "list_all Dtc_ok (active_codes l)" and "list_all Dtc_ok (previous_codes l)"
proof -
  have "fst ` set (pairs l) = set (active_codes l)" using fault_log_lengths(4) [OF assms] by (metis list.set_map)
  then show "list_all Dtc_ok (active_codes l)" "list_all Dtc_ok (previous_codes l)"
    using assms by (auto simp: fault_log_ok_iff fault_state_ok_def list_all_iff)
qed

lemma payload_len_eq: "payload_len (length ds) = dm_len (if ds = [] then [Dtc_default] else ds)"
  by (cases ds) (auto simp: payload_len_def dm_len_def Let_def)

lemma report_lamps_get:
  "Lamps_get_status (foldl (\<lambda>ls lamp. Lamps_with_status ls lamp LampOn) l0 xs) x =
     (if x \<in> set xs then LampOn else Lamps_get_status l0 x)"
  by (induction xs arbitrary: l0) (auto simp: Lamps_with_status_get)

lemma Lamps_new_off [simp]: "Lamps_get_status Lamps_new x = LampOff"
  by (simp add: Lamps_get_status_def Lamps_new_def LampStatus_from_bits_def)

lemma report_lamps:
  assumes "fault_log_ok n l"
  shows "Lamps_get_status (fl_report_lamps l) x = (if \<exists>d. (d, x) \<in> set (pairs l) then LampOn else LampOff)"
proof -
  have "map snd (pairs l) = take (fl_active_len l) (fl_lamps l)"
    using assms by (simp add: fault_state_of_def active_codes_def fault_log_ok_def)
  then have "set (take (fl_active_len l) (fl_lamps l)) = snd ` set (pairs l)" by (metis list.set_map)
  then show ?thesis unfolding fl_report_lamps_def report_lamps_get by force
qed

lemma dm1_report:
  assumes ok: "fault_log_ok n l" and fits: "dm1_len l \<le> length out"
  obtains m where "FaultLog_dm1 l out = Some (Inr (dm1_len l), dm_payload (fl_report_lamps l)
        (if active_codes l = [] then [Dtc_default] else active_codes l) @ drop (dm1_len l) out)"
    and "Message_parse (dm_payload (fl_report_lamps l) (if active_codes l = [] then [Dtc_default] else active_codes l)) = Inr m"
    and "dm_lamps m = fl_report_lamps l"
    and "Message_dtcs m = (if active_codes l = [] then [Dtc_default] else active_codes l)"
proof -
  let ?ds = "if active_codes l = [] then [Dtc_default] else active_codes l"
  have none: "active_codes l = [] \<longleftrightarrow> fl_active_len l = 0" using fault_log_lengths(1) [OF ok] by (metis length_0_conv)
  have len: "dm1_len l = dm_len ?ds"
    using payload_len_eq [of "active_codes l"] fault_log_lengths(1) [OF ok] by (simp add: dm1_len_def)
  have enc: "FaultLog_dm1 l out = Message_encode (fl_report_lamps l) ?ds out"
    using none by (simp add: FaultLog_dm1_def)
  have ok': "list_all Dtc_ok ?ds" using fault_log_codes_ok(1) [OF ok] by simp
  obtain m where "Message_parse (dm_payload (fl_report_lamps l) ?ds) = Inr m" "dm_lamps m = fl_report_lamps l"
    "Message_dtcs m = (if ?ds = [] then [filler_dtc] else ?ds)"
    using parse_payload [OF ok', of "fl_report_lamps l"] by blast
  moreover have "?ds \<noteq> []" by simp
  ultimately show thesis using that [of m] fits unfolding enc Message_encode_eq len by simp
qed

lemma dm2_report:
  assumes ok: "fault_log_ok n l" and fits: "dm2_len l \<le> length out"
  obtains m where "FaultLog_dm2 l out = Some (Inr (dm2_len l), dm_payload Lamps_new
        (if previous_codes l = [] then [Dtc_default] else previous_codes l) @ drop (dm2_len l) out)"
    and "Message_parse (dm_payload Lamps_new (if previous_codes l = [] then [Dtc_default] else previous_codes l)) = Inr m"
    and "dm_lamps m = Lamps_new"
    and "Message_dtcs m = (if previous_codes l = [] then [Dtc_default] else previous_codes l)"
proof -
  let ?ds = "if previous_codes l = [] then [Dtc_default] else previous_codes l"
  have none: "previous_codes l = [] \<longleftrightarrow> fl_previous_len l = 0" using fault_log_lengths(3) [OF ok] by (metis length_0_conv)
  have len: "dm2_len l = dm_len ?ds"
    using payload_len_eq [of "previous_codes l"] fault_log_lengths(3) [OF ok] by (simp add: dm2_len_def)
  have enc: "FaultLog_dm2 l out = Message_encode Lamps_new ?ds out"
    using none by (simp add: FaultLog_dm2_def)
  have ok': "list_all Dtc_ok ?ds" using fault_log_codes_ok(2) [OF ok] by simp
  obtain m where "Message_parse (dm_payload Lamps_new ?ds) = Inr m" "dm_lamps m = Lamps_new"
    "Message_dtcs m = (if ?ds = [] then [filler_dtc] else ?ds)"
    using parse_payload [OF ok', of Lamps_new] by blast
  moreover have "?ds \<noteq> []" by simp
  ultimately show thesis using that [of m] fits unfolding enc Message_encode_eq len by simp
qed

section \<open>The rhythm of the reports\<close>

fun fault_ticks :: "u16 list \<Rightarrow> fault_log \<Rightarrow> bool list \<times> fault_log" where
  "fault_ticks [] l = ([], l)"
| "fault_ticks (t # ts) l =
     (let (b, l1) = FaultLog_tick t l; (bs, l2) = fault_ticks ts l1 in (b # bs, l2))"

lemma tick_due:
  "fst (FaultLog_tick t l) \<longleftrightarrow> 1000 \<le> unat (fl_since_dm1_ms l) + unat t \<and> (0 < fl_active_len l \<or> fl_owes_all_clear l)"
proof -
  have "unat (saturating_add (fl_since_dm1_ms l) (ucast t)) = min (unat (fl_since_dm1_ms l) + unat t) (2 ^ 32 - 1)"
    by (simp add: unat_saturating_add unat_ucast_widen)
  then have "saturating_add (fl_since_dm1_ms l) (ucast t) < ucast DM1_INTERVAL_MS \<longleftrightarrow>
      \<not> 1000 \<le> unat (fl_since_dm1_ms l) + unat t"
    by (simp add: DM1_INTERVAL_MS_def word_less_nat_alt) linarith
  then show ?thesis by (simp add: FaultLog_tick_def Let_def)
qed

lemma tick_state:
  "fl_active_len (snd (FaultLog_tick t l)) = fl_active_len l"
  "fl_owes_all_clear (snd (FaultLog_tick t l)) = (fl_owes_all_clear l \<and> \<not> fst (FaultLog_tick t l))"
  "fst (FaultLog_tick t l) \<Longrightarrow> fl_since_dm1_ms (snd (FaultLog_tick t l)) = 0"
  "\<not> fst (FaultLog_tick t l) \<Longrightarrow>
    unat (fl_since_dm1_ms (snd (FaultLog_tick t l))) = min (unat (fl_since_dm1_ms l) + unat t) (2 ^ 32 - 1)"
  by (simp_all add: FaultLog_tick_def Let_def unat_saturating_add unat_ucast_widen split: if_splits) auto

text \<open>With no active code, the report that the last one cleared is sent once, and then nothing.\<close>

lemma all_clear_once:
  assumes "fl_active_len l = 0"
  shows "length (filter (\<lambda>b. b) (fst (fault_ticks ts l))) =
    (if fl_owes_all_clear l \<and> 1000 \<le> unat (fl_since_dm1_ms l) + (\<Sum>t\<leftarrow>ts. unat t) \<and> ts \<noteq> [] then 1 else 0)"
  using assms
proof (induction ts arbitrary: l)
  case Nil
  then show ?case by simp
next
  case (Cons t ts)
  let ?l1 = "snd (FaultLog_tick t l)"
  have IH: "length (filter (\<lambda>b. b) (fst (fault_ticks ts ?l1))) =
      (if fl_owes_all_clear ?l1 \<and> 1000 \<le> unat (fl_since_dm1_ms ?l1) + (\<Sum>t\<leftarrow>ts. unat t) \<and> ts \<noteq> [] then 1 else 0)"
    by (rule Cons.IH) (simp add: tick_state Cons.prems)
  have unf: "fst (fault_ticks (t # ts) l) = fst (FaultLog_tick t l) # fst (fault_ticks ts ?l1)"
    by (simp add: split_beta Let_def)
  show ?case
  proof (cases "fst (FaultLog_tick t l)")
    case True
    then show ?thesis unfolding unf using IH Cons.prems tick_due [of t l] by (simp add: tick_state)
  next
    case False
    from tick_due [of t l] False Cons.prems
    have "fl_owes_all_clear l \<Longrightarrow> unat (fl_since_dm1_ms l) + unat t < 1000" by auto
    with False IH tick_state(4) [OF False] show ?thesis unfolding unf by (cases ts) (auto simp: tick_state)
  qed
qed

text \<open>Two reports are never closer than a second, whatever happens in between.\<close>

definition reports :: "fault_event \<times> fault_answer \<Rightarrow> bool" where
  "reports p = (case p of (FlTick _, AnsBool b) \<Rightarrow> b | _ \<Rightarrow> False)"

fun event_ms :: "fault_event \<Rightarrow> nat" where
  "event_ms (FlTick t) = unat t"
| "event_ms _ = 0"

lemma step_keeps_timer:
  assumes "fault_log_ok n l" and "fault_step e l = Some (a, l1)" and "\<And>t. e \<noteq> FlTick t"
  shows "fl_since_dm1_ms l1 = fl_since_dm1_ms l"
proof -
  have spec: "spec_fault_step n e (fault_state_of l) = (a, fault_state_of l1)"
    using fault_step_refines [OF assms(1), of e] assms(2) by force
  have "fs_since (snd (spec_fault_step n e st)) = fs_since st" for st
  proof (cases e)
    case (FlSet spn fmi lamp)
    obtain r st1 where h: "spec_set n spn fmi lamp st = (r, st1)" by (cases "spec_set n spn fmi lamp st")
    then have "fs_since st1 = fs_since st" by (cases rule: spec_set_cases) simp_all
    with FlSet h show ?thesis by simp
  next
    case (FlClear spn fmi)
    obtain b st1 where h: "spec_clear n spn fmi st = (b, st1)" by (cases "spec_clear n spn fmi st")
    then have "fs_since st1 = fs_since st" by (cases rule: spec_clear_cases) (simp_all add: Let_def)
    with FlClear h show ?thesis by simp
  next
    case (FlTick t)
    with assms(3) show ?thesis by blast
  qed (simp_all add: spec_clear_active_def)
  from this [of "fault_state_of l"] spec show ?thesis by simp
qed

lemma no_report_before:
  assumes "fault_log_ok n l" and "run_machine fault_step es l = Some (as, l1)"
    and "unat (fl_since_dm1_ms l) + (\<Sum>e\<leftarrow>es. event_ms e) < 1000"
  shows "list_all (\<lambda>p. \<not> reports p) (zip es as)"
  using assms
proof (induction es arbitrary: l as)
  case Nil
  then show ?case by simp
next
  case (Cons e es)
  obtain a l2 where s: "fault_step e l = Some (a, l2)" "fault_log_ok n l2"
    by (rule fault_step_refines [OF Cons.prems(1), of e])
  from Cons.prems(2) s(1) obtain as2 where t: "run_machine fault_step es l2 = Some (as2, l1)" "as = a # as2"
    by (auto split: Option.bind_splits)
  have timer: "unat (fl_since_dm1_ms l2) \<le> unat (fl_since_dm1_ms l) + event_ms e \<and> \<not> reports (e, a)"
  proof (cases "\<exists>t. e = FlTick t")
    case True
    then obtain t where e: "e = FlTick t" ..
    with Cons.prems(3) have "unat (fl_since_dm1_ms l) + unat t < 1000" by simp
    then have quiet: "\<not> fst (FaultLog_tick t l)" by (simp add: tick_due)
    have "a = AnsBool (fst (FaultLog_tick t l))" "l2 = snd (FaultLog_tick t l)"
      using s(1) e by (simp_all add: split_beta Let_def)
    with quiet e tick_state(4) [OF quiet] show ?thesis by (simp add: reports_def)
  next
    case False
    then have "fl_since_dm1_ms l2 = fl_since_dm1_ms l" using step_keeps_timer [OF Cons.prems(1) s(1)] by blast
    with False show ?thesis by (simp add: reports_def split: fault_event.split)
  qed
  with Cons.IH [OF s(2) t(1)] Cons.prems(3) show ?case unfolding t(2) by simp
qed

end
