(* ===== verification/Broadcast_Schedule.thy ===== *)
theory Broadcast_Schedule
  imports Pgn
begin

text \<open>
  Periodic transmission, \<^verbatim>\<open>core/src/schedule.rs\<close>: a fixed array of entries, of which the first
  \<open>len\<close> are in use, each with its period and the time since it was last due. The operations are in
  the option monad (\<open>None\<close> is an index or slice out of range, or a remainder by zero). The lemmas
  show the entries distinct and their clocks below their periods, every operation total, the exact
  phase of every entry over any ticks, the order in which due messages are taken, and silence while
  suspended.
\<close>

section \<open>State and operations\<close>

definition DEFAULT_SUSPEND_MS :: u16 where "DEFAULT_SUSPEND_MS = 5000"

record due_message =
  due_pgn :: pgn
  due_destination :: address

record schedule_entry =
  en_pgn :: pgn
  en_destination :: address
  en_period_ms :: u16
  en_elapsed_ms :: u16
  en_due :: bool

definition UNUSED_ENTRY :: schedule_entry where
  "UNUSED_ENTRY = \<lparr>en_pgn = Pgn_new_masked 0, en_destination = Address_GLOBAL, en_period_ms = 1,
     en_elapsed_ms = 0, en_due = False\<rparr>"

record schedule =
  sc_entries :: "schedule_entry list"
  sc_len :: nat
  sc_suspended_ms :: u16

definition Schedule_new :: "nat \<Rightarrow> schedule" where
  "Schedule_new n = \<lparr>sc_entries = replicate n UNUSED_ENTRY, sc_len = 0, sc_suspended_ms = 0\<rparr>"

definition sc_capacity :: "schedule \<Rightarrow> nat" where "sc_capacity s = length (sc_entries s)"
definition sc_is_empty :: "schedule \<Rightarrow> bool" where "sc_is_empty s = (sc_len s = 0)"

text \<open>The entries in use, \<open>entries[..len]\<close>.\<close>

definition live :: "schedule \<Rightarrow> schedule_entry list" where
  "live s = take (sc_len s) (sc_entries s)"

definition sc_position :: "pgn \<Rightarrow> address \<Rightarrow> schedule \<Rightarrow> nat option" where
  "sc_position p d s = position (\<lambda>e. en_pgn e = p \<and> en_destination e = d) (live s)"

definition send_every :: "pgn \<Rightarrow> address \<Rightarrow> u16 \<Rightarrow> schedule \<Rightarrow> (unit j1939_result \<times> schedule) option" where
  "send_every p d period s =
     (if period = 0 then Some (Inl (ValueOutOfRange ''transmission period'' 0), s)
      else (case sc_position p d s of
        Some i \<Rightarrow>
          do { e \<leftarrow> at_index (sc_entries s) i;
               most \<leftarrow> checked_sub period 1;
               es \<leftarrow> set_index i (e\<lparr>en_period_ms := period, en_elapsed_ms := min (en_elapsed_ms e) most\<rparr>) (sc_entries s);
               Some (Inr (), s\<lparr>sc_entries := es\<rparr>) }
      | None \<Rightarrow>
          if sc_len s = sc_capacity s then
            Some (Inl (ValueOutOfRange ''schedule capacity'' (word_of_nat (sc_capacity s))), s)
          else
            do { es \<leftarrow> set_index (sc_len s) \<lparr>en_pgn = p, en_destination = d, en_period_ms = period,
                   en_elapsed_ms = 0, en_due = False\<rparr> (sc_entries s);
                 Some (Inr (), s\<lparr>sc_entries := es, sc_len := sc_len s + 1\<rparr>) }))"

definition broadcast_every :: "pgn \<Rightarrow> u16 \<Rightarrow> schedule \<Rightarrow> (unit j1939_result \<times> schedule) option" where
  "broadcast_every p period s = send_every p Address_GLOBAL period s"

definition sc_remove :: "pgn \<Rightarrow> address \<Rightarrow> schedule \<Rightarrow> (bool \<times> schedule) option" where
  "sc_remove p d s =
     (case sc_position p d s of
        None \<Rightarrow> Some (False, s)
      | Some i \<Rightarrow>
          do { es \<leftarrow> copy_within (i + 1) (sc_len s) i (sc_entries s);
               n \<leftarrow> checked_usize_sub (sc_len s) 1;
               Some (True, s\<lparr>sc_entries := es, sc_len := n\<rparr>) })"

definition sc_clear :: "schedule \<Rightarrow> schedule" where "sc_clear s = s\<lparr>sc_len := 0\<rparr>"

definition sc_contains :: "pgn \<Rightarrow> address \<Rightarrow> schedule \<Rightarrow> bool" where
  "sc_contains p d s = (sc_position p d s \<noteq> None)"

definition sc_period :: "pgn \<Rightarrow> address \<Rightarrow> schedule \<Rightarrow> u16 option" where
  "sc_period p d s = map_option (\<lambda>i. en_period_ms (sc_entries s ! i)) (sc_position p d s)"

definition due_of :: "schedule_entry \<Rightarrow> due_message" where
  "due_of e = \<lparr>due_pgn = en_pgn e, due_destination = en_destination e\<rparr>"

definition sc_listing :: "schedule \<Rightarrow> (due_message \<times> u16) list" where
  "sc_listing s = map (\<lambda>e. (due_of e, en_period_ms e)) (live s)"

definition sc_pending :: "schedule \<Rightarrow> nat" where
  "sc_pending s = length (filter en_due (live s))"

text \<open>Rust checks the divisor of \<open>%\<close>: a period of zero would panic.\<close>

definition entry_tick :: "u16 \<Rightarrow> schedule_entry \<Rightarrow> schedule_entry option" where
  "entry_tick elapsed e =
     (let since = saturating_add (en_elapsed_ms e) elapsed
      in if since \<ge> en_period_ms e then
           (if en_period_ms e = 0 then None
            else Some (e\<lparr>en_elapsed_ms := since mod en_period_ms e, en_due := True\<rparr>))
         else Some (e\<lparr>en_elapsed_ms := since\<rparr>))"

fun tick_entries :: "u16 \<Rightarrow> schedule_entry list \<Rightarrow> schedule_entry list option" where
  "tick_entries elapsed [] = Some []"
| "tick_entries elapsed (e # es) =
     do { e1 \<leftarrow> entry_tick elapsed e; es1 \<leftarrow> tick_entries elapsed es; Some (e1 # es1) }"

definition sc_tick :: "u16 \<Rightarrow> schedule \<Rightarrow> (nat \<times> schedule) option" where
  "sc_tick elapsed s =
     (if sc_suspended_ms s > 0 then
        Some (0, s\<lparr>sc_suspended_ms := saturating_sub (sc_suspended_ms s) elapsed\<rparr>)
      else
        do { es \<leftarrow> tick_entries elapsed (live s);
             let s1 = s\<lparr>sc_entries := es @ drop (sc_len s) (sc_entries s)\<rparr>;
             Some (sc_pending s1, s1) })"

definition next_due :: "schedule \<Rightarrow> (due_message option \<times> schedule) option" where
  "next_due s =
     (case position en_due (live s) of
        None \<Rightarrow> Some (None, s)
      | Some i \<Rightarrow>
          do { e \<leftarrow> at_index (sc_entries s) i;
               es \<leftarrow> set_index i (e\<lparr>en_due := False\<rparr>) (sc_entries s);
               Some (Some (due_of e), s\<lparr>sc_entries := es\<rparr>) })"

definition sc_suspend :: "u16 \<Rightarrow> schedule \<Rightarrow> schedule" where
  "sc_suspend timeout s =
     s\<lparr>sc_suspended_ms := timeout,
       sc_entries := map (\<lambda>e. e\<lparr>en_due := False\<rparr>) (live s) @ drop (sc_len s) (sc_entries s)\<rparr>"

definition sc_resume :: "schedule \<Rightarrow> schedule" where "sc_resume s = s\<lparr>sc_suspended_ms := 0\<rparr>"
definition is_suspended :: "schedule \<Rightarrow> bool" where "is_suspended s = (sc_suspended_ms s > 0)"
definition resumes_in_ms :: "schedule \<Rightarrow> u16 option" where
  "resumes_in_ms s = (if sc_suspended_ms s > 0 then Some (sc_suspended_ms s) else None)"

section \<open>Invariant\<close>

definition entry_key :: "schedule_entry \<Rightarrow> pgn \<times> address" where
  "entry_key e = (en_pgn e, en_destination e)"

definition schedule_ok :: "nat \<Rightarrow> schedule \<Rightarrow> bool" where
  "schedule_ok n s \<longleftrightarrow> length (sc_entries s) = n \<and> sc_len s \<le> n \<and> distinct (map entry_key (live s)) \<and>
     (\<forall>e \<in> set (live s). en_elapsed_ms e < en_period_ms e)"

lemma Schedule_new_ok: "schedule_ok n (Schedule_new n)"
  by (simp add: schedule_ok_def Schedule_new_def live_def)

lemma length_live [simp]: "schedule_ok n s \<Longrightarrow> length (live s) = sc_len s"
  by (simp add: schedule_ok_def live_def)

lemma live_nth: "i < length (live s) \<Longrightarrow> live s ! i = sc_entries s ! i"
  by (simp add: live_def)

lemma sc_position_key: "sc_position p d s = position (\<lambda>e. entry_key e = (p, d)) (live s)"
  by (simp add: sc_position_def entry_key_def)

lemma sc_position_facts:
  assumes "schedule_ok n s" and "sc_position p d s = Some i"
  shows "i < sc_len s" and "i < length (sc_entries s)" and "entry_key (live s ! i) = (p, d)"
  using position_Some [OF assms(2) [unfolded sc_position_key]] assms(1)
  by (auto simp: schedule_ok_def live_def)

lemma contains_iff: "sc_contains p d s \<longleftrightarrow> (p, d) \<in> entry_key ` set (live s)"
  unfolding sc_contains_def sc_position_key position_None by force

text \<open>Rewriting the entries in use keeps the rest of the array.\<close>

lemma live_replace:
  "length es = sc_len s \<Longrightarrow> live (s\<lparr>sc_entries := es @ rest\<rparr>) = es"
  by (simp add: live_def)

lemma live_update:
  "i < sc_len s \<Longrightarrow> live (s\<lparr>sc_entries := (sc_entries s)[i := e]\<rparr>) = (live s)[i := e]"
  by (simp add: live_def take_update_swap)

lemma live_push:
  assumes "schedule_ok n s" and "sc_len s < n"
  shows "live (s\<lparr>sc_entries := (sc_entries s)[sc_len s := e], sc_len := sc_len s + 1\<rparr>) = live s @ [e]"
  using assms by (simp add: live_def schedule_ok_def take_Suc_conv_app_nth)

lemma schedule_okI:
  assumes "length (sc_entries s) = n" and "sc_len s \<le> n" and "live s = es" and "distinct (map entry_key es)"
    and "\<forall>e \<in> set es. en_elapsed_ms e < en_period_ms e"
  shows "schedule_ok n s"
  using assms by (simp add: schedule_ok_def)

section \<open>The abstract plan\<close>

text \<open>What the schedule promises: an ordered list of entries and the quiet time left.\<close>

record plan =
  pl_entries :: "schedule_entry list"
  pl_quiet_ms :: u16

definition plan_of :: "schedule \<Rightarrow> plan" where
  "plan_of s = \<lparr>pl_entries = live s, pl_quiet_ms = sc_suspended_ms s\<rparr>"

definition retimed :: "u16 \<Rightarrow> schedule_entry \<Rightarrow> schedule_entry" where
  "retimed period e = e\<lparr>en_period_ms := period, en_elapsed_ms := min (en_elapsed_ms e) (period - 1)\<rparr>"

definition fresh_entry :: "pgn \<Rightarrow> address \<Rightarrow> u16 \<Rightarrow> schedule_entry" where
  "fresh_entry p d period = \<lparr>en_pgn = p, en_destination = d, en_period_ms = period, en_elapsed_ms = 0, en_due = False\<rparr>"

definition spec_send_every :: "nat \<Rightarrow> pgn \<Rightarrow> address \<Rightarrow> u16 \<Rightarrow> plan \<Rightarrow> unit j1939_result \<times> plan" where
  "spec_send_every n p d period pl =
     (if period = 0 then (Inl (ValueOutOfRange ''transmission period'' 0), pl)
      else if (p, d) \<in> entry_key ` set (pl_entries pl) then
        (Inr (), pl\<lparr>pl_entries := map (\<lambda>e. if entry_key e = (p, d) then retimed period e else e) (pl_entries pl)\<rparr>)
      else if length (pl_entries pl) = n then
        (Inl (ValueOutOfRange ''schedule capacity'' (word_of_nat n)), pl)
      else (Inr (), pl\<lparr>pl_entries := pl_entries pl @ [fresh_entry p d period]\<rparr>))"

definition spec_remove :: "pgn \<Rightarrow> address \<Rightarrow> plan \<Rightarrow> bool \<times> plan" where
  "spec_remove p d pl =
     ((p, d) \<in> entry_key ` set (pl_entries pl),
      pl\<lparr>pl_entries := filter (\<lambda>e. entry_key e \<noteq> (p, d)) (pl_entries pl)\<rparr>)"

definition aged :: "u16 \<Rightarrow> schedule_entry \<Rightarrow> schedule_entry" where
  "aged t e =
     (let since = saturating_add (en_elapsed_ms e) t
      in if en_period_ms e \<le> since then e\<lparr>en_elapsed_ms := since mod en_period_ms e, en_due := True\<rparr>
         else e\<lparr>en_elapsed_ms := since\<rparr>)"

definition spec_schedule_tick :: "u16 \<Rightarrow> plan \<Rightarrow> nat \<times> plan" where
  "spec_schedule_tick t pl =
     (if 0 < pl_quiet_ms pl then (0, pl\<lparr>pl_quiet_ms := saturating_sub (pl_quiet_ms pl) t\<rparr>)
      else (let es = map (aged t) (pl_entries pl) in (length (filter en_due es), pl\<lparr>pl_entries := es\<rparr>)))"

fun take_due :: "schedule_entry list \<Rightarrow> due_message option \<times> schedule_entry list" where
  "take_due [] = (None, [])"
| "take_due (e # es) =
     (if en_due e then (Some (due_of e), e\<lparr>en_due := False\<rparr> # es)
      else (let (d, es1) = take_due es in (d, e # es1)))"

definition spec_next_due :: "plan \<Rightarrow> due_message option \<times> plan" where
  "spec_next_due pl = (let (d, es) = take_due (pl_entries pl) in (d, pl\<lparr>pl_entries := es\<rparr>))"

section \<open>Every operation implements its specification\<close>

lemma send_every_refines:
  assumes ok: "schedule_ok n s"
  obtains r s1 where "send_every p d period s = Some (r, s1)" and "schedule_ok n s1"
    and "spec_send_every n p d period (plan_of s) = (r, plan_of s1)"
proof (cases "period = 0")
  case True
  with ok that show thesis by (simp add: send_every_def spec_send_every_def plan_of_def)
next
  case pos: False
  have dist: "distinct (map entry_key (live s))" using ok by (simp add: schedule_ok_def)
  show thesis
  proof (cases "sc_position p d s")
    case (Some i)
    note i = sc_position_facts [OF ok Some]
    let ?e = "live s ! i" and ?f = "\<lambda>e. if entry_key e = (p, d) then retimed period e else e"
    have e: "sc_entries s ! i = ?e" using i(1) ok by (simp add: live_nth)
    let ?s1 = "s\<lparr>sc_entries := (sc_entries s)[i := retimed period ?e]\<rparr>"
    have out: "send_every p d period s = Some (Inr (), ?s1)"
      using pos Some i(2) by (simp add: send_every_def at_index_def set_index_def checked_sub_def e retimed_def
          word_le_nat_alt unat_gt_0 Suc_le_eq)
    have live1: "live ?s1 = map ?f (live s)"
      using live_update [OF i(1), of "retimed period ?e"]
        distinct_key_update [OF dist, of i "retimed period"] i ok by simp
    have key: "entry_key (?f e) = entry_key e" for e by (simp add: entry_key_def retimed_def)
    have "schedule_ok n ?s1"
    proof (rule schedule_okI)
      show "live ?s1 = map ?f (live s)" by (rule live1)
      have keys: "map entry_key (map ?f (live s)) = map entry_key (live s)" by (simp only: list.map_comp comp_def key)
      show "distinct (map entry_key (map ?f (live s)))" unfolding keys by (rule dist)
      have "period - 1 < period" using pos by (simp add: word_less_nat_alt unat_minus_one unat_gt_0)
      then have "min a (period - 1) < period" for a by (simp add: min_less_iff_disj)
      then show "\<forall>e \<in> set (map ?f (live s)). en_elapsed_ms e < en_period_ms e"
        using ok by (auto simp: schedule_ok_def retimed_def)
    qed (use ok in \<open>simp_all add: schedule_ok_def\<close>)
    moreover have "(p, d) \<in> entry_key ` set (live s)" using Some by (simp flip: contains_iff add: sc_contains_def)
    then have "spec_send_every n p d period (plan_of s) = (Inr (), plan_of ?s1)"
      using pos live1 by (simp add: spec_send_every_def plan_of_def)
    ultimately show thesis using out that by blast
  next
    case None
    then have out: "(p, d) \<notin> entry_key ` set (live s)" by (simp flip: contains_iff add: sc_contains_def)
    have cap: "sc_capacity s = n" using ok by (simp add: sc_capacity_def schedule_ok_def)
    show thesis
    proof (cases "sc_len s = n")
      case True
      with None pos cap ok out show thesis
        by (intro that) (simp_all add: send_every_def spec_send_every_def plan_of_def)
    next
      case False
      with ok have room: "sc_len s < n" by (simp add: schedule_ok_def)
      let ?s1 = "s\<lparr>sc_entries := (sc_entries s)[sc_len s := fresh_entry p d period], sc_len := sc_len s + 1\<rparr>"
      have live1: "live ?s1 = live s @ [fresh_entry p d period]" by (rule live_push [OF ok room])
      have "send_every p d period s = Some (Inr (), ?s1)"
        using pos None False cap room ok by (simp add: send_every_def set_index_def schedule_ok_def fresh_entry_def)
      moreover have "schedule_ok n ?s1"
      proof (rule schedule_okI)
        show "live ?s1 = live s @ [fresh_entry p d period]" by (rule live1)
        show "distinct (map entry_key (live s @ [fresh_entry p d period]))"
          using dist out by (auto simp: entry_key_def fresh_entry_def)
        show "\<forall>e \<in> set (live s @ [fresh_entry p d period]). en_elapsed_ms e < en_period_ms e"
          using ok pos by (auto simp: schedule_ok_def fresh_entry_def word_gt_0)
      qed (use ok room in \<open>simp_all add: schedule_ok_def\<close>)
      moreover have "spec_send_every n p d period (plan_of s) = (Inr (), plan_of ?s1)"
        using pos out False live1 ok by (simp add: spec_send_every_def plan_of_def)
      ultimately show thesis by (rule that)
    qed
  qed
qed

lemma sc_remove_refines:
  assumes ok: "schedule_ok n s"
  obtains b s1 where "sc_remove p d s = Some (b, s1)" and "schedule_ok n s1"
    and "spec_remove p d (plan_of s) = (b, plan_of s1)"
proof (cases "sc_position p d s")
  case None
  then have out: "(p, d) \<notin> entry_key ` set (live s)" by (simp flip: contains_iff add: sc_contains_def)
  then have "filter (\<lambda>e. entry_key e \<noteq> (p, d)) (live s) = live s" by (force simp: filter_id_conv)
  with None out ok show thesis by (intro that [of False s]) (simp_all add: sc_remove_def spec_remove_def plan_of_def)
next
  case (Some i)
  note i = sc_position_facts [OF ok Some]
  have len: "sc_len s \<le> length (sc_entries s)" and dist: "distinct (map entry_key (live s))"
    using ok by (simp_all add: schedule_ok_def)
  obtain es where es: "copy_within (i + 1) (sc_len s) i (sc_entries s) = Some es" "length es = length (sc_entries s)"
    "take (sc_len s - 1) es = take i (sc_entries s) @ drop (i + 1) (take (sc_len s) (sc_entries s))"
    using copy_within_remove [OF i(1) len] by blast
  let ?s1 = "s\<lparr>sc_entries := es, sc_len := sc_len s - 1\<rparr>"
  have "take i (sc_entries s) = take i (live s)" using i(1) by (simp add: live_def)
  then have live1: "live ?s1 = filter (\<lambda>e. entry_key e \<noteq> (p, d)) (live s)"
    using position_distinct(1) [OF dist Some [unfolded sc_position_key]] es(3) by (simp add: live_def)
  have "sc_remove p d s = Some (True, ?s1)"
    using Some es(1) i(1) by (simp add: sc_remove_def checked_usize_sub_def)
  moreover have "schedule_ok n ?s1"
  proof (rule schedule_okI)
    show "live ?s1 = filter (\<lambda>e. entry_key e \<noteq> (p, d)) (live s)" by (rule live1)
    show "distinct (map entry_key (filter (\<lambda>e. entry_key e \<noteq> (p, d)) (live s)))" using dist by (rule distinct_map_filter)
  qed (use ok es(2) in \<open>auto simp: schedule_ok_def\<close>)
  moreover have "(p, d) \<in> entry_key ` set (live s)" using Some by (simp flip: contains_iff add: sc_contains_def)
  then have "spec_remove p d (plan_of s) = (True, plan_of ?s1)" using live1 by (simp add: spec_remove_def plan_of_def)
  ultimately show thesis by (rule that)
qed

lemma tick_entries_eq:
  "\<forall>e \<in> set es. en_elapsed_ms e < en_period_ms e \<Longrightarrow> tick_entries t es = Some (map (aged t) es)"
  by (induction es) (auto simp: entry_tick_def aged_def Let_def)

lemma aged_facts [simp]:
  "entry_key (aged t e) = entry_key e" "en_period_ms (aged t e) = en_period_ms e"
  by (simp_all add: aged_def entry_key_def Let_def)

lemma aged_clock: "en_elapsed_ms e < en_period_ms e \<Longrightarrow> en_elapsed_ms (aged t e) < en_period_ms e"
  by (auto simp: aged_def Let_def word_gt_0 word_less_nat_alt unat_mod not_le)

lemma sc_tick_refines:
  assumes ok: "schedule_ok n s"
  obtains k s1 where "sc_tick t s = Some (k, s1)" and "schedule_ok n s1"
    and "spec_schedule_tick t (plan_of s) = (k, plan_of s1)"
proof (cases "sc_suspended_ms s > 0")
  case True
  let ?s1 = "s\<lparr>sc_suspended_ms := saturating_sub (sc_suspended_ms s) t\<rparr>"
  have "schedule_ok n ?s1" using ok by (simp add: schedule_ok_def live_def)
  with True that [of 0 ?s1] show thesis by (simp add: sc_tick_def spec_schedule_tick_def plan_of_def live_def)
next
  case False
  let ?es = "map (aged t) (live s)"
  let ?s1 = "s\<lparr>sc_entries := ?es @ drop (sc_len s) (sc_entries s)\<rparr>"
  have live1: "live ?s1 = ?es" by (rule live_replace) (use ok in simp)
  have "tick_entries t (live s) = Some ?es" by (rule tick_entries_eq) (use ok in \<open>simp add: schedule_ok_def\<close>)
  with False have "sc_tick t s = Some (length (filter en_due ?es), ?s1)"
    by (simp add: sc_tick_def sc_pending_def live1)
  moreover have "schedule_ok n ?s1"
  proof (rule schedule_okI)
    show "live ?s1 = ?es" by (rule live1)
    show "distinct (map entry_key ?es)" using ok by (simp add: schedule_ok_def comp_def)
    show "\<forall>e \<in> set ?es. en_elapsed_ms e < en_period_ms e" using ok by (auto simp: schedule_ok_def aged_clock)
  qed (use ok in \<open>auto simp: schedule_ok_def live_def\<close>)
  moreover have "spec_schedule_tick t (plan_of s) = (length (filter en_due ?es), plan_of ?s1)"
    using False live1 by (simp add: spec_schedule_tick_def plan_of_def Let_def)
  ultimately show thesis by (rule that)
qed

lemma take_due_position:
  "take_due es = (case position en_due es of None \<Rightarrow> (None, es)
     | Some i \<Rightarrow> (Some (due_of (es ! i)), es[i := (es ! i)\<lparr>en_due := False\<rparr>]))"
  by (induction es) (auto split: option.splits)

lemma next_due_refines:
  assumes ok: "schedule_ok n s"
  obtains d s1 where "next_due s = Some (d, s1)" and "schedule_ok n s1"
    and "spec_next_due (plan_of s) = (d, plan_of s1)"
proof (cases "position en_due (live s)")
  case None
  with ok show thesis
    by (intro that [of None s]) (simp_all add: next_due_def spec_next_due_def plan_of_def take_due_position)
next
  case (Some i)
  have i: "i < sc_len s" using position_Some [OF Some] ok by simp
  then have bound: "i < length (sc_entries s)" and e: "sc_entries s ! i = live s ! i"
    using ok by (simp_all add: schedule_ok_def live_def)
  let ?e = "(live s ! i)\<lparr>en_due := False\<rparr>"
  let ?s1 = "s\<lparr>sc_entries := (sc_entries s)[i := ?e]\<rparr>"
  have live1: "live ?s1 = (live s)[i := ?e]" by (rule live_update [OF i])
  have "next_due s = Some (Some (due_of (live s ! i)), ?s1)"
    using Some bound e by (simp add: next_due_def at_index_def set_index_def)
  moreover have "schedule_ok n ?s1"
  proof (rule schedule_okI)
    show "live ?s1 = (live s)[i := ?e]" by (rule live1)
    have "map entry_key ((live s)[i := ?e]) = map entry_key (live s)"
      using i ok by (intro nth_equalityI) (auto simp: nth_list_update entry_key_def)
    with ok show "distinct (map entry_key ((live s)[i := ?e]))" by (simp add: schedule_ok_def)
    have "live s ! i \<in> set (live s)" using i ok by simp
    then show "\<forall>e \<in> set ((live s)[i := ?e]). en_elapsed_ms e < en_period_ms e"
      using ok set_update_subset_insert [of "live s" i ?e] by (auto simp: schedule_ok_def)
  qed (use ok in \<open>simp_all add: schedule_ok_def\<close>)
  moreover have "spec_next_due (plan_of s) = (Some (due_of (live s ! i)), plan_of ?s1)"
    using Some live1 by (simp add: spec_next_due_def plan_of_def take_due_position)
  ultimately show thesis by (rule that)
qed

section \<open>The schedule as a machine\<close>

datatype schedule_event =
  ScSend pgn address u16 | ScRemove pgn address | ScClear | ScTick u16 | ScNext | ScSuspend u16 | ScResume

datatype schedule_answer = ScResult "unit j1939_result" | ScBool bool | ScCount nat | ScDue "due_message option" | ScUnit

fun schedule_step :: "schedule_event \<Rightarrow> schedule \<Rightarrow> (schedule_answer \<times> schedule) option" where
  "schedule_step (ScSend p d period) s = do { (r, s1) \<leftarrow> send_every p d period s; Some (ScResult r, s1) }"
| "schedule_step (ScRemove p d) s = do { (b, s1) \<leftarrow> sc_remove p d s; Some (ScBool b, s1) }"
| "schedule_step ScClear s = Some (ScUnit, sc_clear s)"
| "schedule_step (ScTick t) s = do { (k, s1) \<leftarrow> sc_tick t s; Some (ScCount k, s1) }"
| "schedule_step ScNext s = do { (d, s1) \<leftarrow> next_due s; Some (ScDue d, s1) }"
| "schedule_step (ScSuspend t) s = Some (ScUnit, sc_suspend t s)"
| "schedule_step ScResume s = Some (ScUnit, sc_resume s)"

fun spec_schedule_step :: "nat \<Rightarrow> schedule_event \<Rightarrow> plan \<Rightarrow> schedule_answer \<times> plan" where
  "spec_schedule_step n (ScSend p d period) pl = map_prod ScResult id (spec_send_every n p d period pl)"
| "spec_schedule_step n (ScRemove p d) pl = map_prod ScBool id (spec_remove p d pl)"
| "spec_schedule_step n ScClear pl = (ScUnit, pl\<lparr>pl_entries := []\<rparr>)"
| "spec_schedule_step n (ScTick t) pl = map_prod ScCount id (spec_schedule_tick t pl)"
| "spec_schedule_step n ScNext pl = map_prod ScDue id (spec_next_due pl)"
| "spec_schedule_step n (ScSuspend t) pl =
     (ScUnit, \<lparr>pl_entries = map (\<lambda>e. e\<lparr>en_due := False\<rparr>) (pl_entries pl), pl_quiet_ms = t\<rparr>)"
| "spec_schedule_step n ScResume pl = (ScUnit, pl\<lparr>pl_quiet_ms := 0\<rparr>)"

lemma sc_clear_refines:
  "schedule_ok n s \<Longrightarrow> schedule_ok n (sc_clear s)"
  "plan_of (sc_clear s) = (plan_of s)\<lparr>pl_entries := []\<rparr>"
  by (simp_all add: schedule_ok_def sc_clear_def live_def plan_of_def)

lemma sc_resume_refines:
  "schedule_ok n s \<Longrightarrow> schedule_ok n (sc_resume s)"
  "plan_of (sc_resume s) = (plan_of s)\<lparr>pl_quiet_ms := 0\<rparr>"
  by (simp_all add: schedule_ok_def sc_resume_def live_def plan_of_def)

lemma sc_suspend_refines:
  assumes ok: "schedule_ok n s"
  shows "schedule_ok n (sc_suspend t s)"
    and "plan_of (sc_suspend t s) = \<lparr>pl_entries = map (\<lambda>e. e\<lparr>en_due := False\<rparr>) (live s), pl_quiet_ms = t\<rparr>"
proof -
  let ?es = "map (\<lambda>e. e\<lparr>en_due := False\<rparr>) (live s)"
  have live1: "live (sc_suspend t s) = ?es"
    using ok by (simp add: sc_suspend_def live_def schedule_ok_def)
  show "plan_of (sc_suspend t s) = \<lparr>pl_entries = ?es, pl_quiet_ms = t\<rparr>"
    by (simp add: plan_of_def live1) (simp add: sc_suspend_def)
  show "schedule_ok n (sc_suspend t s)"
  proof (rule schedule_okI)
    show "live (sc_suspend t s) = ?es" by (rule live1)
    have "entry_key (e\<lparr>en_due := False\<rparr>) = entry_key e" for e by (simp add: entry_key_def)
    with ok show "distinct (map entry_key ?es)" by (simp add: schedule_ok_def comp_def)
  qed (use ok in \<open>auto simp: schedule_ok_def sc_suspend_def live_def\<close>)
qed

lemma schedule_step_refines:
  assumes ok: "schedule_ok n s"
  shows "\<exists>out s1. schedule_step e s = Some (out, s1) \<and> schedule_ok n s1 \<and>
    spec_schedule_step n e (plan_of s) = (out, plan_of s1)"
proof (cases e)
  case (ScSend p d period)
  obtain r s1 where "send_every p d period s = Some (r, s1)" "schedule_ok n s1"
    "spec_send_every n p d period (plan_of s) = (r, plan_of s1)" by (rule send_every_refines [OF ok])
  with ScSend show ?thesis by simp
next
  case (ScRemove p d)
  obtain r s1 where "sc_remove p d s = Some (r, s1)" "schedule_ok n s1"
    "spec_remove p d (plan_of s) = (r, plan_of s1)" by (rule sc_remove_refines [OF ok])
  with ScRemove show ?thesis by simp
next
  case (ScTick t)
  obtain r s1 where "sc_tick t s = Some (r, s1)" "schedule_ok n s1"
    "spec_schedule_tick t (plan_of s) = (r, plan_of s1)" by (rule sc_tick_refines [OF ok])
  with ScTick show ?thesis by simp
next
  case ScNext
  obtain r s1 where "next_due s = Some (r, s1)" "schedule_ok n s1"
    "spec_next_due (plan_of s) = (r, plan_of s1)" by (rule next_due_refines [OF ok])
  with ScNext show ?thesis by simp
next
  case (ScSuspend t)
  with sc_suspend_refines [OF ok, of t] show ?thesis by (simp add: plan_of_def)
qed (use sc_clear_refines sc_resume_refines ok in simp_all)

interpretation scheduling: refined_machine schedule_step "schedule_ok n" "\<lambda>_. True" plan_of "spec_schedule_step n" for n
  by unfold_locales (rule schedule_step_refines)

section \<open>Phase\<close>

text \<open>
  Over ticks that do not saturate a clock, an entry's clock is the time since it was registered
  modulo its period, and it is due as soon as one period boundary was crossed, however the time was
  cut into ticks.
\<close>

definition fine_tick :: "schedule_entry \<Rightarrow> u16 \<Rightarrow> bool" where
  "fine_tick e t \<longleftrightarrow> unat (en_period_ms e) + unat t \<le> 65536"

lemma aged_fine:
  assumes "en_elapsed_ms e < en_period_ms e" and "fine_tick e t"
  shows "unat (en_elapsed_ms (aged t e)) = (unat (en_elapsed_ms e) + unat t) mod unat (en_period_ms e)"
    and "en_due (aged t e) \<longleftrightarrow> en_due e \<or> unat (en_period_ms e) \<le> unat (en_elapsed_ms e) + unat t"
proof -
  have lt: "unat (en_elapsed_ms e) < unat (en_period_ms e)" using assms(1) by (simp add: word_less_nat_alt)
  with assms(2) have since: "unat (saturating_add (en_elapsed_ms e) t) = unat (en_elapsed_ms e) + unat t"
    by (simp add: unat_saturating_add fine_tick_def)
  then show "unat (en_elapsed_ms (aged t e)) = (unat (en_elapsed_ms e) + unat t) mod unat (en_period_ms e)"
    and "en_due (aged t e) \<longleftrightarrow> en_due e \<or> unat (en_period_ms e) \<le> unat (en_elapsed_ms e) + unat t"
    by (simp_all add: aged_def Let_def word_le_nat_alt unat_mod)
qed

lemma aged_run:
  assumes "en_elapsed_ms e < en_period_ms e" and "list_all (fine_tick e) ts"
  shows "unat (en_elapsed_ms (fold aged ts e)) = (unat (en_elapsed_ms e) + (\<Sum>t\<leftarrow>ts. unat t)) mod unat (en_period_ms e)"
    and "en_due (fold aged ts e) \<longleftrightarrow> en_due e \<or> unat (en_period_ms e) \<le> unat (en_elapsed_ms e) + (\<Sum>t\<leftarrow>ts. unat t)"
proof -
  have "unat (en_elapsed_ms (fold aged ts e)) = (unat (en_elapsed_ms e) + (\<Sum>t\<leftarrow>ts. unat t)) mod unat (en_period_ms e) \<and>
    (en_due (fold aged ts e) \<longleftrightarrow> en_due e \<or> unat (en_period_ms e) \<le> unat (en_elapsed_ms e) + (\<Sum>t\<leftarrow>ts. unat t))"
    using assms
  proof (induction ts arbitrary: e)
    case Nil
    then show ?case by (simp add: word_less_nat_alt not_le)
  next
    case (Cons t ts)
    have "fine_tick (aged t e) = fine_tick e" by (rule ext) (simp add: fine_tick_def)
    with Cons.prems have fine: "fine_tick e t" "list_all (fine_tick (aged t e)) ts" by simp_all
    have clock: "en_elapsed_ms (aged t e) < en_period_ms (aged t e)" using aged_clock Cons.prems(1) by simp
    let ?p = "unat (en_period_ms e)" and ?a = "unat (en_elapsed_ms e)" and ?s = "\<Sum>t\<leftarrow>ts. unat t"
    note one = aged_fine [OF Cons.prems(1) fine(1)] and IH = Cons.IH [OF clock fine(2)]
    have p: "?a < ?p" using Cons.prems(1) by (simp add: word_less_nat_alt)
    have "((?a + unat t) mod ?p + ?s) mod ?p = (?a + (unat t + ?s)) mod ?p" by (simp add: mod_add_left_eq add.assoc)
    moreover have "?p \<le> ?a + unat t \<or> ?p \<le> (?a + unat t) mod ?p + ?s \<longleftrightarrow> ?p \<le> ?a + (unat t + ?s)"
      by (cases "?p \<le> ?a + unat t") auto
    ultimately show ?case using one IH by auto
  qed
  then show "unat (en_elapsed_ms (fold aged ts e)) = (unat (en_elapsed_ms e) + (\<Sum>t\<leftarrow>ts. unat t)) mod unat (en_period_ms e)"
    and "en_due (fold aged ts e) \<longleftrightarrow> en_due e \<or> unat (en_period_ms e) \<le> unat (en_elapsed_ms e) + (\<Sum>t\<leftarrow>ts. unat t)"
    by simp_all
qed

fun sc_ticks :: "u16 list \<Rightarrow> schedule \<Rightarrow> schedule option" where
  "sc_ticks [] s = Some s"
| "sc_ticks (t # ts) s = do { (_, s1) \<leftarrow> sc_tick t s; sc_ticks ts s1 }"

lemma sc_ticks_awake:
  assumes "schedule_ok n s" and "sc_suspended_ms s = 0"
  obtains s1 where "sc_ticks ts s = Some s1" and "schedule_ok n s1" and "live s1 = map (fold aged ts) (live s)"
    and "sc_suspended_ms s1 = 0"
  using assms
proof (induction ts arbitrary: s thesis)
  case Nil
  then show ?case by simp
next
  case (Cons t ts)
  obtain k s1 where s1: "sc_tick t s = Some (k, s1)" "schedule_ok n s1" "spec_schedule_tick t (plan_of s) = (k, plan_of s1)"
    by (rule sc_tick_refines [OF Cons.prems(2)])
  from s1(3) Cons.prems(3) have v: "live s1 = map (aged t) (live s)" "sc_suspended_ms s1 = 0"
    by (simp_all add: spec_schedule_tick_def plan_of_def Let_def)
  obtain s2 where "sc_ticks ts s1 = Some s2" "schedule_ok n s2" "live s2 = map (fold aged ts) (live s1)" "sc_suspended_ms s2 = 0"
    by (rule Cons.IH [OF _ s1(2) v(2)])
  with Cons.prems(1) [of s2] s1(1) v(1) show ?case by (simp add: comp_def)
qed

section \<open>Draining\<close>

text \<open>The loop that takes messages until none is due, with as much fuel as there are entries.\<close>

fun drain_due :: "nat \<Rightarrow> schedule \<Rightarrow> (due_message list \<times> schedule) option" where
  "drain_due 0 s = None"
| "drain_due (Suc k) s =
     do { (d, s1) \<leftarrow> next_due s;
          (case d of None \<Rightarrow> Some ([], s1)
           | Some m \<Rightarrow> do { (ms, s2) \<leftarrow> drain_due k s1; Some (m # ms, s2) }) }"

lemma take_due_cases:
  obtains "take_due es = (None, es)" "filter en_due es = []"
  | e where "fst (take_due es) = Some (due_of e)" "filter en_due es = e # filter en_due (snd (take_due es))"
    "map (\<lambda>e. e\<lparr>en_due := False\<rparr>) (snd (take_due es)) = map (\<lambda>e. e\<lparr>en_due := False\<rparr>) es"
proof -
  have "take_due es = (None, es) \<and> filter en_due es = [] \<or>
    (\<exists>e. fst (take_due es) = Some (due_of e) \<and> filter en_due es = e # filter en_due (snd (take_due es)) \<and>
      map (\<lambda>e. e\<lparr>en_due := False\<rparr>) (snd (take_due es)) = map (\<lambda>e. e\<lparr>en_due := False\<rparr>) es)"
  proof (induction es)
    case (Cons e es)
    show ?case
    proof (cases "en_due e")
      case True
      then show ?thesis by simp
    next
      case False
      with Cons.IH show ?thesis by (cases "take_due es") auto
    qed
  qed simp
  then show thesis using that by blast
qed

lemma drain_all:
  assumes "schedule_ok n s" and "length (filter en_due (live s)) < k"
  obtains s1 where "drain_due k s = Some (map due_of (filter en_due (live s)), s1)" and "schedule_ok n s1"
    and "live s1 = map (\<lambda>e. e\<lparr>en_due := False\<rparr>) (live s)" and "sc_suspended_ms s1 = sc_suspended_ms s"
  using assms
proof (induction k arbitrary: s thesis)
  case 0
  then show ?case by simp
next
  case (Suc k)
  obtain d s1 where s1: "next_due s = Some (d, s1)" "schedule_ok n s1" "spec_next_due (plan_of s) = (d, plan_of s1)"
    by (rule next_due_refines [OF Suc.prems(2)])
  from s1(3) have d: "d = fst (take_due (live s))" "live s1 = snd (take_due (live s))" "sc_suspended_ms s1 = sc_suspended_ms s"
    by (simp_all add: spec_next_due_def plan_of_def split_beta Let_def)
  show ?case
  proof (cases rule: take_due_cases [of "live s"])
    case 1
    then have "map (\<lambda>e. e\<lparr>en_due := False\<rparr>) (live s) = live s"
      by (auto simp: filter_empty_conv intro!: map_idI)
    with 1 d s1 Suc.prems(1) [of s1] show ?thesis by simp
  next
    case (2 e)
    have "length (filter en_due (live s1)) < k" using 2(2) Suc.prems(3) d(2) by simp
    from Suc.IH [OF _ s1(2) this] obtain s2 where
      "drain_due k s1 = Some (map due_of (filter en_due (live s1)), s2)" "schedule_ok n s2"
      "live s2 = map (\<lambda>e. e\<lparr>en_due := False\<rparr>) (live s1)" "sc_suspended_ms s2 = sc_suspended_ms s1"
      by blast
    with 2 d s1(1) Suc.prems(1) [of s2] show ?thesis by (simp add: fst_def split: prod.splits)
  qed
qed

section \<open>Silence\<close>

text \<open>While suspended nothing becomes due, and the quiet time runs out by itself.\<close>

lemma sc_ticks_quiet:
  assumes "schedule_ok n s" and "(\<Sum>t\<leftarrow>ts. unat t) < unat (sc_suspended_ms s)"
  obtains s1 where "sc_ticks ts s = Some s1" and "live s1 = live s"
    and "unat (sc_suspended_ms s1) = unat (sc_suspended_ms s) - (\<Sum>t\<leftarrow>ts. unat t)" and "schedule_ok n s1"
  using assms
proof (induction ts arbitrary: s thesis)
  case Nil
  then show ?case by simp
next
  case (Cons t ts)
  let ?s1 = "s\<lparr>sc_suspended_ms := saturating_sub (sc_suspended_ms s) t\<rparr>"
  have pos: "sc_suspended_ms s > 0" using Cons.prems(3) by (simp add: word_less_nat_alt)
  have left: "unat (sc_suspended_ms ?s1) = unat (sc_suspended_ms s) - unat t" by (simp add: unat_saturating_sub)
  have ok: "schedule_ok n ?s1" and live1: "live ?s1 = live s" using Cons.prems(2) by (simp_all add: schedule_ok_def live_def)
  have "(\<Sum>t\<leftarrow>ts. unat t) < unat (sc_suspended_ms ?s1)" using left Cons.prems(3) by simp
  from Cons.IH [OF _ ok this] obtain s2 where "sc_ticks ts ?s1 = Some s2" "live s2 = live ?s1"
    "unat (sc_suspended_ms s2) = unat (sc_suspended_ms ?s1) - (\<Sum>t\<leftarrow>ts. unat t)" "schedule_ok n s2" by blast
  with Cons.prems(1) [of s2] pos left live1 show ?case by (simp add: sc_tick_def)
qed

end
