(* ===== verification/Etp_Codec.thy ===== *)
theory Etp_Codec
  imports Tp_Codec
begin

text \<open>
  The messages of the extended transport protocol, first third of \<^verbatim>\<open>core/src/etp.rs\<close>: connection
  management (ETP.CM), data transfer (ETP.DT), their eight bytes, and the number of packets of a
  message. Sizes and packet numbers are 32-bit words of which the wire carries 24 bits of a packet
  number.
\<close>

section \<open>Sizes\<close>

definition ETP_MIN_MESSAGE_SIZE :: u32 where "ETP_MIN_MESSAGE_SIZE = 1786"
definition ETP_MAX_MESSAGE_SIZE :: u32 where "ETP_MAX_MESSAGE_SIZE = 0x00FFFFFF * 7"
definition MAX_PACKETS_PER_BLOCK :: u8 where "MAX_PACKETS_PER_BLOCK = 255"

definition etp_packet_count :: "u32 \<Rightarrow> u32" where
  "etp_packet_count sz =
     (if sz > ETP_MAX_MESSAGE_SIZE then 0x00FFFFFF
      else word_of_nat (div_ceil (unat sz) BYTES_PER_PACKET))"

definition block_size :: "u32 \<Rightarrow> u32 \<Rightarrow> u8" where
  "block_size remaining from_packet =
     (if remaining > ucast MAX_PACKETS_PER_BLOCK then MAX_PACKETS_PER_BLOCK else ucast remaining)"

lemma ETP_MAX_eq: "ETP_MAX_MESSAGE_SIZE = 117440505"
  by (simp add: ETP_MAX_MESSAGE_SIZE_def)

lemma unat_etp_packet_count:
  "unat sz \<le> 117440505 \<Longrightarrow> unat (etp_packet_count sz) = (unat sz + 6) div 7"
  by (auto simp: etp_packet_count_def div_ceil_def BYTES_PER_PACKET_def ETP_MAX_eq unat_iffs unat_word_of_nat)

lemma unat_block_size: "unat (block_size n f) = min 255 (unat n)"
proof (cases "unat n \<le> 255")
  case True
  then have "unat (ucast n :: u8) = unat n" by (simp add: unsigned_ucast_eq take_bit_nat_eq_self)
  with True show ?thesis by (simp add: block_size_def MAX_PACKETS_PER_BLOCK_def unat_iffs)
next
  case False
  then show ?thesis by (simp add: block_size_def MAX_PACKETS_PER_BLOCK_def unat_iffs)
qed

section \<open>Connection management\<close>

definition ECB_RTS :: u8 where "ECB_RTS = 20"
definition ECB_CTS :: u8 where "ECB_CTS = 21"
definition ECB_DPO :: u8 where "ECB_DPO = 22"
definition ECB_EOMA :: u8 where "ECB_EOMA = 23"
definition ECB_ABORT :: u8 where "ECB_ABORT = 255"

lemmas ECB_defs = ECB_RTS_def ECB_CTS_def ECB_DPO_def ECB_EOMA_def ECB_ABORT_def

text \<open>The fields in the order of the source: size; packets and next packet; packets and offset; size; reason.\<close>

datatype etp_cm =
    ERts u32 pgn
  | ECts u8 u32 pgn
  | EDpo u8 u32 pgn
  | EEoma u32 pgn
  | EAbort abort_reason pgn

definition EtpCm_rts :: "u32 \<Rightarrow> pgn \<Rightarrow> etp_cm j1939_result" where
  "EtpCm_rts sz p =
     (if sz < ETP_MIN_MESSAGE_SIZE \<or> sz > ETP_MAX_MESSAGE_SIZE
      then Inl (InvalidMessageSize (if sz > 0xFFFF then 0xFFFF else ucast sz))
      else Inr (ERts sz p))"

primrec EtpCm_pgn :: "etp_cm \<Rightarrow> pgn" where
  "EtpCm_pgn (ERts _ p) = p"
| "EtpCm_pgn (ECts _ _ p) = p"
| "EtpCm_pgn (EDpo _ _ p) = p"
| "EtpCm_pgn (EEoma _ p) = p"
| "EtpCm_pgn (EAbort _ p) = p"

primrec EtpCm_control_byte :: "etp_cm \<Rightarrow> u8" where
  "EtpCm_control_byte (ERts _ _) = ECB_RTS"
| "EtpCm_control_byte (ECts _ _ _) = ECB_CTS"
| "EtpCm_control_byte (EDpo _ _ _) = ECB_DPO"
| "EtpCm_control_byte (EEoma _ _) = ECB_EOMA"
| "EtpCm_control_byte (EAbort _ _) = ECB_ABORT"

definition EtpCm_encode :: "etp_cm \<Rightarrow> bytes" where
  "EtpCm_encode cm =
     (let p = Pgn_as_u32 (EtpCm_pgn cm);
          body =
            (case cm of
               ERts sz _ \<Rightarrow> [byte_at 0 sz, byte_at 1 sz, byte_at 2 sz, byte_at 3 sz]
             | EEoma sz _ \<Rightarrow> [byte_at 0 sz, byte_at 1 sz, byte_at 2 sz, byte_at 3 sz]
             | ECts packets next_packet _ \<Rightarrow>
                 [packets, byte_at 0 next_packet, byte_at 1 next_packet, byte_at 2 next_packet]
             | EDpo packets offset _ \<Rightarrow> [packets, byte_at 0 offset, byte_at 1 offset, byte_at 2 offset]
             | EAbort reason _ \<Rightarrow> [AbortReason_as_u8 reason, FILL, FILL, FILL])
      in [EtpCm_control_byte cm, body ! 0, body ! 1, body ! 2, body ! 3, byte_at 0 p, byte_at 1 p, byte_at 2 p])"

definition EtpCm_decode :: "bytes \<Rightarrow> etp_cm j1939_result" where
  "EtpCm_decode data =
     (let p = Pgn_of_bytes (data ! 5) (data ! 6) (data ! 7);
          four = u32_of4 (data ! 1) (data ! 2) (data ! 3) (data ! 4);
          three = u32_of3 (data ! 2) (data ! 3) (data ! 4)
      in if data ! 0 = ECB_RTS then Inr (ERts four p)
         else if data ! 0 = ECB_CTS then Inr (ECts (data ! 1) three p)
         else if data ! 0 = ECB_DPO then Inr (EDpo (data ! 1) three p)
         else if data ! 0 = ECB_EOMA then Inr (EEoma four p)
         else if data ! 0 = ECB_ABORT then Inr (EAbort (AbortReason_from_u8 (data ! 1)) p)
         else Inl (UnknownControlByte (data ! 0)))"

text \<open>What fits on the wire: packet numbers of 24 bits.\<close>

definition EtpCm_ok :: "etp_cm \<Rightarrow> bool" where
  "EtpCm_ok cm \<longleftrightarrow> Pgn_ok (EtpCm_pgn cm) \<and>
     (case cm of ECts _ n _ \<Rightarrow> unat n < 2 ^ 24 | EDpo _ n _ \<Rightarrow> unat n < 2 ^ 24
      | EAbort reason _ \<Rightarrow> AbortReason_ok reason | _ \<Rightarrow> True)"

lemma length_EtpCm_encode [simp]: "length (EtpCm_encode cm) = 8"
  by (simp add: EtpCm_encode_def Let_def)

lemma EtpCm_decode_encode:
  assumes "EtpCm_ok cm"
  shows "EtpCm_decode (EtpCm_encode cm) = Inr cm"
proof -
  from assms have "Pgn_ok (EtpCm_pgn cm)" by (simp add: EtpCm_ok_def)
  note p = Pgn_of_bytes_roundtrip [OF this]
  show ?thesis
    using p assms
    by (cases cm)
      (simp_all add: EtpCm_encode_def EtpCm_decode_def Let_def ECB_defs EtpCm_ok_def AbortReason_ok_def
        u32_of3_bytes mask24_id)
qed

interpretation etp_cm_format: frame_format EtpCm_encode EtpCm_decode EtpCm_ok 8
  by unfold_locales (simp_all add: EtpCm_decode_encode)

lemma u32_of3_lt: "unat (u32_of3 a b c) < 2 ^ 24"
proof -
  have "u32_of3 a b c = take_bit 24 (u32_of3 a b c)" by (simp add: u32_of3_def word_bits)
  then show ?thesis by (metis unat_take_bit mod_less_divisor zero_less_numeral zero_less_power)
qed

lemma EtpCm_decode_ok: "EtpCm_decode d = Inr cm \<Longrightarrow> EtpCm_ok cm"
  using u32_of3_lt [of "d ! 2" "d ! 3" "d ! 4"]
  by (auto simp: EtpCm_decode_def EtpCm_ok_def Let_def AbortReason_ok_def split: if_splits)

section \<open>Data transfer\<close>

text \<open>The packet of the extended protocol has the fields of a TP.DT and the same layout.\<close>

type_synonym etp_dt = tp_dt

definition EtpDt_new :: "u8 \<Rightarrow> bytes \<Rightarrow> etp_dt" where
  "EtpDt_new s data =
     (let n = min (length data) BYTES_PER_PACKET
      in \<lparr>dt_sequence = s, dt_data = write_slice 0 (take n data) (replicate BYTES_PER_PACKET FILL)\<rparr>)"

definition EtpDt_encode :: "etp_dt \<Rightarrow> bytes" where
  "EtpDt_encode dt =
     [dt_sequence dt, dt_data dt ! 0, dt_data dt ! 1, dt_data dt ! 2, dt_data dt ! 3, dt_data dt ! 4,
      dt_data dt ! 5, dt_data dt ! 6]"

definition EtpDt_decode :: "bytes \<Rightarrow> etp_dt" where
  "EtpDt_decode data =
     \<lparr>dt_sequence = data ! 0,
      dt_data = [data ! 1, data ! 2, data ! 3, data ! 4, data ! 5, data ! 6, data ! 7]\<rparr>"

lemma EtpDt_as_TpDt: "EtpDt_new = TpDt_new" "EtpDt_encode = TpDt_encode" "EtpDt_decode = TpDt_decode"
  by (simp_all add: fun_eq_iff EtpDt_new_def TpDt_new_def EtpDt_encode_def TpDt_encode_def EtpDt_decode_def TpDt_decode_def)

interpretation etp_dt_format: frame_format EtpDt_encode "\<lambda>d. Inr (EtpDt_decode d)" TpDt_ok 8
  by unfold_locales (simp_all add: EtpDt_as_TpDt TpDt_decode_encode)

end
