(* ===== verification/Etp_Receive.thy ===== *)
theory Etp_Receive
  imports Etp_Codec Session_Table
begin

text \<open>
  The receive side of the extended transport protocol: \<^verbatim>\<open>Session\<close>, \<^verbatim>\<open>Rx\<close> and \<^verbatim>\<open>Reassembler\<close> of
  \<^verbatim>\<open>core/src/etp.rs\<close>, over the session table of \<^verbatim>\<open>Session_Table\<close>. The buffer size of the const
  generic is the argument \<open>N\<close>. Steps are in the option monad: an index or slice out of range, or an
  overflowing 32-bit or 8-bit operation, is \<open>None\<close>. The second half states the promise, a finite map
  from senders to the received prefix of their message, and shows that every call refines it.
\<close>

section \<open>State and operations\<close>

record etp_session =
  es_source :: address
  es_pgn :: pgn
  es_size :: u32
  es_packets :: u32
  es_block_start :: u32
  es_block_packets :: u8
  es_offset :: "u32 option"
  es_next_sequence :: u8
  es_idle_ms :: u16

type_synonym etp_reassembler = "etp_session table"

datatype etp_rx =
    ErIdle
  | ErSend etp_cm
  | ErMessage pgn address bytes etp_cm

text \<open>\<open>progress\<close>: bytes received in complete blocks, and the size announced.\<close>

definition etp_progress :: "address \<Rightarrow> etp_reassembler \<Rightarrow> (u32 \<times> u32) option option" where
  "etp_progress source r =
     (case slot_of es_source r source of
        None \<Rightarrow> Some None
      | Some index \<Rightarrow>
          (case slot_session (r ! index) of
             None \<Rightarrow> Some None
           | Some s \<Rightarrow>
               do { received \<leftarrow> checked_mul (saturating_sub (es_block_start s) 1) (word_of_nat BYTES_PER_PACKET);
                    Some (Some (min received (es_size s), es_size s)) }))"

definition etp_on_rts :: "nat \<Rightarrow> address \<Rightarrow> u32 \<Rightarrow> pgn \<Rightarrow> etp_reassembler \<Rightarrow> etp_rx \<times> etp_reassembler" where
  "etp_on_rts N source sz p r =
     (if \<not> (ETP_MIN_MESSAGE_SIZE \<le> sz \<and> sz \<le> ETP_MAX_MESSAGE_SIZE) then (ErSend (EAbort (OtherReason FILL) p), r)
      else if unat sz > N then (ErSend (EAbort ResourcesUnavailable p), r)
      else if slot_of es_source r source \<noteq> None then (ErSend (EAbort AlreadyInSession p), r)
      else (case free_slot r of
        None \<Rightarrow> (ErSend (EAbort ResourcesUnavailable p), r)
      | Some index \<Rightarrow>
          (let packets = etp_packet_count sz; block = block_size packets 1
           in (ErSend (ECts block 1 p),
               set_session index
                 (Some \<lparr>es_source = source, es_pgn = p, es_size = sz, es_packets = packets, es_block_start = 1,
                        es_block_packets = block, es_offset = None, es_next_sequence = 1, es_idle_ms = 0\<rparr>) r))))"

definition etp_on_dpo :: "address \<Rightarrow> u8 \<Rightarrow> u32 \<Rightarrow> etp_reassembler \<Rightarrow> (etp_rx \<times> etp_reassembler) option" where
  "etp_on_dpo source packets offset r =
     (case slot_of es_source r source of
        None \<Rightarrow> Some (ErIdle, r)
      | Some index \<Rightarrow>
          (case slot_session (r ! index) of
             None \<Rightarrow> Some (ErIdle, r)
           | Some s \<Rightarrow>
               do { start \<leftarrow> checked_add offset 1;
                    if start \<noteq> es_block_start s \<or> packets \<noteq> es_block_packets s then
                      Some (ErSend (EAbort UnexpectedDataPacket (es_pgn s)), set_session index None r)
                    else
                      Some (ErIdle, set_session index
                        (Some (s\<lparr>es_offset := Some offset, es_next_sequence := 1, es_idle_ms := 0\<rparr>)) r) }))"

definition etp_on_abort :: "address \<Rightarrow> pgn \<Rightarrow> etp_reassembler \<Rightarrow> etp_rx \<times> etp_reassembler" where
  "etp_on_abort source p r =
     (ErIdle,
      case slot_of es_source r source of
        Some index \<Rightarrow>
          (case slot_session (r ! index) of
             Some s \<Rightarrow> if es_pgn s = p then set_session index None r else r
           | None \<Rightarrow> r)
      | None \<Rightarrow> r)"

fun etp_on_cm :: "nat \<Rightarrow> address \<Rightarrow> etp_cm \<Rightarrow> etp_reassembler \<Rightarrow> (etp_rx \<times> etp_reassembler) option" where
  "etp_on_cm N source (ERts sz p) r = Some (etp_on_rts N source sz p r)"
| "etp_on_cm N source (EDpo packets offset p) r = etp_on_dpo source packets offset r"
| "etp_on_cm N source (EAbort reason p) r = Some (etp_on_abort source p r)"
| "etp_on_cm N source (ECts _ _ _) r = Some (ErIdle, r)"
| "etp_on_cm N source (EEoma _ _) r = Some (ErIdle, r)"

text \<open>A packet in order, once its block has an offset.\<close>

definition etp_take_packet ::
  "nat \<Rightarrow> etp_session \<Rightarrow> u32 \<Rightarrow> etp_dt \<Rightarrow> etp_reassembler \<Rightarrow> (etp_rx \<times> etp_reassembler) option" where
  "etp_take_packet index s offset dt r =
     do { absolute \<leftarrow> checked_add offset (ucast (dt_sequence dt));
          before \<leftarrow> checked_usize_sub (unat absolute) 1;
          let start = before * BYTES_PER_PACKET;
          let stop = min (start + BYTES_PER_PACKET) (unat (es_size s));
          if start \<ge> stop then
            Some (ErSend (EAbort BadSequenceNumber (es_pgn s)), set_session index None r)
          else
            do { payload \<leftarrow> slice 0 (stop - start) (dt_data dt);
                 buf \<leftarrow> copy_from_slice start stop payload (slot_buffer (r ! index));
                 let s1 = s\<lparr>es_idle_ms := 0\<rparr>;
                 if absolute \<ge> es_packets s1 then
                   do { message \<leftarrow> slice 0 (unat (es_size s1)) buf;
                        Some (ErMessage (es_pgn s1) (es_source s1) message (EEoma (es_size s1) (es_pgn s1)),
                              set_slot index buf None r) }
                 else if dt_sequence dt \<ge> es_block_packets s1 then
                   do { next_start \<leftarrow> checked_add (es_block_start s1) (ucast (es_block_packets s1));
                        ahead \<leftarrow> checked_sub (es_packets s1) next_start;
                        remaining \<leftarrow> checked_add ahead 1;
                        let block = block_size remaining next_start;
                        Some (ErSend (ECts block next_start (es_pgn s1)),
                              set_slot index buf
                                (Some (s1\<lparr>es_block_start := next_start, es_block_packets := block,
                                          es_offset := None, es_next_sequence := 1\<rparr>)) r) }
                 else
                   do { following \<leftarrow> checked_add (es_next_sequence s1) 1;
                        Some (ErIdle, set_slot index buf (Some (s1\<lparr>es_next_sequence := following\<rparr>)) r) } } }"

definition etp_on_dt :: "address \<Rightarrow> etp_dt \<Rightarrow> etp_reassembler \<Rightarrow> (etp_rx \<times> etp_reassembler) option" where
  "etp_on_dt source dt r =
     (case slot_of es_source r source of
        None \<Rightarrow> Some (ErIdle, r)
      | Some index \<Rightarrow>
          (case slot_session (r ! index) of
             None \<Rightarrow> Some (ErIdle, r)
           | Some s \<Rightarrow>
               (case es_offset s of
                  None \<Rightarrow> Some (ErSend (EAbort UnexpectedDataPacket (es_pgn s)), set_session index None r)
                | Some offset \<Rightarrow>
                    if dt_sequence dt \<noteq> es_next_sequence s then
                      Some (ErSend (EAbort (if dt_sequence dt < es_next_sequence s then DuplicateSequenceNumber
                                            else BadSequenceNumber) (es_pgn s)), set_session index None r)
                    else etp_take_packet index s offset dt r)))"

text \<open>The timer; the calls of the closure \<open>on_timeout\<close> are the list, in their order.\<close>

fun etp_tick :: "u16 \<Rightarrow> u16 \<Rightarrow> etp_reassembler \<Rightarrow> (address \<times> etp_cm) list \<times> etp_reassembler" where
  "etp_tick elapsed_ms timeout_ms [] = ([], [])"
| "etp_tick elapsed_ms timeout_ms (sl # r) =
     (let (calls, r1) = etp_tick elapsed_ms timeout_ms r
      in case slot_session sl of
           None \<Rightarrow> (calls, sl # r1)
         | Some s \<Rightarrow>
             (let idle = saturating_add (es_idle_ms s) elapsed_ms
              in if idle \<le> timeout_ms
                 then (calls, sl\<lparr>slot_session := Some (s\<lparr>es_idle_ms := idle\<rparr>)\<rparr> # r1)
                 else ((es_source s, EAbort Timeout (es_pgn s)) # calls, sl\<lparr>slot_session := None\<rparr> # r1)))"

section \<open>Invariant\<close>

text \<open>
  Every session announces a message of the protocol that fits the buffer; its block lies in the
  message and is as long as it can be; the offset, once sent, is the one of the block; and the
  packet expected is one of the block.
\<close>

definition etp_session_ok :: "nat \<Rightarrow> etp_session \<Rightarrow> bool" where
  "etp_session_ok N s \<longleftrightarrow>
     1786 \<le> unat (es_size s) \<and> unat (es_size s) \<le> 117440505 \<and> unat (es_size s) \<le> N \<and>
     unat (es_packets s) = (unat (es_size s) + 6) div 7 \<and>
     1 \<le> unat (es_block_start s) \<and> unat (es_block_start s) \<le> unat (es_packets s) \<and>
     unat (es_block_packets s) = min 255 (unat (es_packets s) - unat (es_block_start s) + 1) \<and>
     (case es_offset s of None \<Rightarrow> es_next_sequence s = 1 | Some o1 \<Rightarrow> unat o1 + 1 = unat (es_block_start s)) \<and>
     1 \<le> unat (es_next_sequence s) \<and> unat (es_next_sequence s) \<le> unat (es_block_packets s) \<and>
     Pgn_ok (es_pgn s)"

definition etp_ok :: "nat \<Rightarrow> etp_reassembler \<Rightarrow> bool" where
  "etp_ok N r = table_ok es_source N (etp_session_ok N) r"

lemma etp_ok_new: "etp_ok N (new_table N k)"
  by (simp add: etp_ok_def)

section \<open>What the reassembler promises\<close>

text \<open>
  A transfer as the peer sees it: the announced size, the bytes received so far, the first packet of
  the open block and whether its offset was announced.
\<close>

record etp_transfer =
  ex_pgn :: pgn
  ex_size :: nat
  ex_data :: bytes
  ex_block :: nat
  ex_opened :: bool
  ex_idle :: u16

type_synonym etp_receiver = "address \<rightharpoonup> etp_transfer"

definition ex_packets :: "etp_transfer \<Rightarrow> nat" where "ex_packets t = (ex_size t + 6) div 7"

text \<open>Packets of the open block, and the sequence number expected in it.\<close>

definition ex_block_len :: "etp_transfer \<Rightarrow> nat" where
  "ex_block_len t = min 255 (ex_packets t - ex_block t + 1)"

definition ex_expected :: "etp_transfer \<Rightarrow> nat" where
  "ex_expected t = length (ex_data t) div 7 + 2 - ex_block t"

definition etp_transfer_of :: "etp_session \<times> bytes \<Rightarrow> etp_transfer" where
  "etp_transfer_of e =
     (case e of (s, b) \<Rightarrow>
       \<lparr>ex_pgn = es_pgn s, ex_size = unat (es_size s),
        ex_data = take ((unat (es_block_start s) + unat (es_next_sequence s) - 2) * 7) b,
        ex_block = unat (es_block_start s), ex_opened = (es_offset s \<noteq> None), ex_idle = es_idle_ms s\<rparr>)"

lemma etp_transfer_of_sel [simp]:
  "ex_pgn (etp_transfer_of (s, b)) = es_pgn s" "ex_size (etp_transfer_of (s, b)) = unat (es_size s)"
  "ex_data (etp_transfer_of (s, b)) = take ((unat (es_block_start s) + unat (es_next_sequence s) - 2) * 7) b"
  "ex_block (etp_transfer_of (s, b)) = unat (es_block_start s)"
  "ex_opened (etp_transfer_of (s, b)) = (es_offset s \<noteq> None)" "ex_idle (etp_transfer_of (s, b)) = es_idle_ms s"
  by (simp_all add: etp_transfer_of_def)

definition etp_receiver_of :: "etp_reassembler \<Rightarrow> etp_receiver" where
  "etp_receiver_of r = (\<lambda>a. map_option etp_transfer_of (entry_of es_source r a))"

definition spec_etp_new :: "pgn \<Rightarrow> u32 \<Rightarrow> etp_transfer" where
  "spec_etp_new p sz = \<lparr>ex_pgn = p, ex_size = unat sz, ex_data = [], ex_block = 1, ex_opened = False, ex_idle = 0\<rparr>"

definition cts_of :: "etp_transfer \<Rightarrow> etp_cm" where
  "cts_of t = ECts (word_of_nat (ex_block_len t)) (word_of_nat (ex_block t)) (ex_pgn t)"

fun spec_etp_cm :: "nat \<Rightarrow> nat \<Rightarrow> address \<Rightarrow> etp_cm \<Rightarrow> etp_receiver \<Rightarrow> etp_rx \<times> etp_receiver" where
  "spec_etp_cm N K a (ERts sz p) m =
     (if \<not> (1786 \<le> unat sz \<and> unat sz \<le> 117440505) then (ErSend (EAbort (OtherReason FILL) p), m)
      else if unat sz > N then (ErSend (EAbort ResourcesUnavailable p), m)
      else if m a \<noteq> None then (ErSend (EAbort AlreadyInSession p), m)
      else if card (dom m) = K then (ErSend (EAbort ResourcesUnavailable p), m)
      else (ErSend (cts_of (spec_etp_new p sz)), m(a \<mapsto> spec_etp_new p sz)))"
| "spec_etp_cm N K a (EDpo packets offset p) m =
     (case m a of
        None \<Rightarrow> (ErIdle, m)
      | Some t \<Rightarrow>
          if unat offset + 1 = ex_block t \<and> unat packets = ex_block_len t
          then (ErIdle, m(a \<mapsto> t\<lparr>ex_data := take ((ex_block t - 1) * 7) (ex_data t), ex_opened := True, ex_idle := 0\<rparr>))
          else (ErSend (EAbort UnexpectedDataPacket (ex_pgn t)), m(a := None)))"
| "spec_etp_cm N K a (EAbort reason p) m =
     (ErIdle, case m a of Some t \<Rightarrow> if ex_pgn t = p then m(a := None) else m | None \<Rightarrow> m)"
| "spec_etp_cm N K a _ m = (ErIdle, m)"

definition spec_etp_dt :: "address \<Rightarrow> etp_dt \<Rightarrow> etp_receiver \<Rightarrow> etp_rx \<times> etp_receiver" where
  "spec_etp_dt a dt m =
     (case m a of
        None \<Rightarrow> (ErIdle, m)
      | Some t \<Rightarrow>
          if \<not> ex_opened t then (ErSend (EAbort UnexpectedDataPacket (ex_pgn t)), m(a := None))
          else if unat (dt_sequence dt) \<noteq> ex_expected t then
            (ErSend (EAbort (if unat (dt_sequence dt) < ex_expected t then DuplicateSequenceNumber
                             else BadSequenceNumber) (ex_pgn t)), m(a := None))
          else
            (let data = take (ex_size t) (ex_data t @ dt_data dt); t1 = t\<lparr>ex_data := data, ex_idle := 0\<rparr>
             in if length data = ex_size t then
                  (ErMessage (ex_pgn t) a data (EEoma (word_of_nat (ex_size t)) (ex_pgn t)), m(a := None))
                else if ex_expected t = ex_block_len t then
                  (let t2 = t1\<lparr>ex_block := ex_block t + ex_block_len t, ex_opened := False\<rparr>
                   in (ErSend (cts_of t2), m(a \<mapsto> t2)))
                else (ErIdle, m(a \<mapsto> t1))))"

definition spec_etp_tick :: "u16 \<Rightarrow> u16 \<Rightarrow> etp_receiver \<Rightarrow> etp_receiver" where
  "spec_etp_tick elapsed timeout m =
     (\<lambda>a. Option.bind (m a) (\<lambda>t. let idle = saturating_add (ex_idle t) elapsed
        in if idle \<le> timeout then Some (t\<lparr>ex_idle := idle\<rparr>) else None))"

text \<open>The aborts the timer asks for: one per overdue transfer.\<close>

definition spec_etp_overdue :: "u16 \<Rightarrow> u16 \<Rightarrow> etp_receiver \<Rightarrow> (address \<times> etp_cm) set" where
  "spec_etp_overdue elapsed timeout m =
     {(a, EAbort Timeout (ex_pgn t)) | a t. m a = Some t \<and> timeout < saturating_add (ex_idle t) elapsed}"

section \<open>Refinement\<close>

lemma etp_slotE:
  assumes "etp_ok N r" and "slot_of es_source r a = Some i"
  obtains s b where "i < length r" and "r ! i = \<lparr>slot_buffer = b, slot_session = Some s\<rparr>"
    and "es_source s = a" and "length b = N" and "etp_session_ok N s"
    and "etp_receiver_of r a = Some (etp_transfer_of (s, b))"
  using table_ok_slot_of [OF assms(1) [unfolded etp_ok_def] assms(2)]
  by (metis etp_receiver_of_def option.simps(9))

lemma etp_receiver_None: "etp_receiver_of r a = None \<longleftrightarrow> slot_of es_source r a = None"
  by (simp add: etp_receiver_of_def entry_of_None_iff)

lemma etp_receiver_new [simp]: "etp_receiver_of (new_table N k) = Map.empty"
  by (rule ext) (simp add: etp_receiver_of_def)

lemma etp_dom: "dom (etp_receiver_of r) = dom (entry_of es_source r)"
  by (auto simp: etp_receiver_of_def)

lemma etp_full: "etp_ok N r \<Longrightarrow> free_slot r = None \<longleftrightarrow> card (dom (etp_receiver_of r)) = length r"
  unfolding etp_dom free_slot_None by (simp add: etp_ok_def card_dom_entry table_ok_one)

lemma etp_set_slot:
  assumes "etp_ok N r" and "slot_for es_source r a = Some i" and "length b = N"
    and "\<And>t. s = Some t \<Longrightarrow> es_source t = a \<and> etp_session_ok N t"
  shows "etp_ok N (set_slot i b s r)"
    and "etp_receiver_of (set_slot i b s r) = (etp_receiver_of r)(a := map_option (\<lambda>t. etp_transfer_of (t, b)) s)"
  using table_ok_set_slot [OF assms(1) [unfolded etp_ok_def] assms(2-4)]
  by (auto simp: etp_ok_def etp_receiver_of_def fun_eq_iff option.map_comp comp_def)

lemma etp_set_session:
  assumes r: "etp_ok N r" and i: "slot_for es_source r a = Some i" and b: "slot_buffer (r ! i) = b"
    and s: "\<And>t. s = Some t \<Longrightarrow> es_source t = a \<and> etp_session_ok N t"
  shows "etp_ok N (set_session i s r)"
    and "etp_receiver_of (set_session i s r) = (etp_receiver_of r)(a := map_option (\<lambda>t. etp_transfer_of (t, b)) s)"
proof -
  have len: "length b = N"
    using table_ok_buffer slot_for_lt [OF i] r b unfolding etp_ok_def by blast
  show "etp_ok N (set_session i s r)"
    and "etp_receiver_of (set_session i s r) = (etp_receiver_of r)(a := map_option (\<lambda>t. etp_transfer_of (t, b)) s)"
    unfolding set_session_eq b using etp_set_slot [OF r i len s] by blast+
qed

lemma etp_drop:
  assumes "etp_ok N r" and "slot_of es_source r a = Some i"
  shows "etp_ok N (set_session i None r)" and "etp_receiver_of (set_session i None r) = (etp_receiver_of r)(a := None)"
  using etp_set_session [OF assms(1) slot_for_of_slot [OF assms(2)] refl, of None] by simp_all

text \<open>The facts about a session that its packets need.\<close>

lemma etp_session_facts:
  assumes ok: "etp_session_ok N s" and b: "length b = N"
  defines "k \<equiv> unat (es_block_start s) + unat (es_next_sequence s) - 2"
  shows "k + 1 \<le> unat (es_packets s)" and "k * 7 < unat (es_size s)"
    and "k + 2 = unat (es_block_start s) + unat (es_next_sequence s)"
    and "length (ex_data (etp_transfer_of (s, b))) = k * 7"
    and "ex_packets (etp_transfer_of (s, b)) = unat (es_packets s)"
    and "ex_block_len (etp_transfer_of (s, b)) = unat (es_block_packets s)"
    and "ex_expected (etp_transfer_of (s, b)) = unat (es_next_sequence s)"
    and "unat (es_packets s) \<le> 16777215"
proof -
  from ok have size: "1786 \<le> unat (es_size s)" "unat (es_size s) \<le> 117440505" "unat (es_size s) \<le> N"
    and packets: "unat (es_packets s) = (unat (es_size s) + 6) div 7"
    and start: "1 \<le> unat (es_block_start s)" "unat (es_block_start s) \<le> unat (es_packets s)"
    and block: "unat (es_block_packets s) = min 255 (unat (es_packets s) - unat (es_block_start s) + 1)"
    and sequence: "1 \<le> unat (es_next_sequence s)" "unat (es_next_sequence s) \<le> unat (es_block_packets s)"
    unfolding etp_session_ok_def by blast+
  show k2: "k + 2 = unat (es_block_start s) + unat (es_next_sequence s)" using start(1) sequence(1) by (simp add: k_def)
  have "unat (es_next_sequence s) \<le> unat (es_packets s) - unat (es_block_start s) + 1" using sequence(2) block by simp
  then show k1: "k + 1 \<le> unat (es_packets s)" using k2 start(2) by linarith
  then show lt: "k * 7 < unat (es_size s)" using packets by linarith
  then show len: "length (ex_data (etp_transfer_of (s, b))) = k * 7" using size(3) b by (simp add: k_def)
  show p: "ex_packets (etp_transfer_of (s, b)) = unat (es_packets s)" by (simp add: ex_packets_def packets)
  show "ex_block_len (etp_transfer_of (s, b)) = unat (es_block_packets s)" by (simp add: ex_block_len_def p block)
  show "ex_expected (etp_transfer_of (s, b)) = unat (es_next_sequence s)"
    unfolding ex_expected_def len using k2 by simp
  show "unat (es_packets s) \<le> 16777215" using packets size(2) by linarith
qed

lemma etp_on_rts_refines:
  assumes r: "etp_ok N r" and p: "Pgn_ok p"
  shows "etp_ok N (snd (etp_on_rts N a sz p r)) \<and>
    spec_etp_cm N (length r) a (ERts sz p) (etp_receiver_of r) = map_prod id etp_receiver_of (etp_on_rts N a sz p r)"
proof -
  have range: "ETP_MIN_MESSAGE_SIZE \<le> sz \<and> sz \<le> ETP_MAX_MESSAGE_SIZE \<longleftrightarrow> 1786 \<le> unat sz \<and> unat sz \<le> 117440505"
    by (simp add: ETP_MIN_MESSAGE_SIZE_def ETP_MAX_eq word_le_nat_alt)
  show ?thesis
  proof (cases "(1786 \<le> unat sz \<and> unat sz \<le> 117440505) \<and> unat sz \<le> N \<and> slot_of es_source r a = None")
    case False
    then consider "\<not> (1786 \<le> unat sz \<and> unat sz \<le> 117440505)"
      | "1786 \<le> unat sz \<and> unat sz \<le> 117440505" "N < unat sz"
      | "1786 \<le> unat sz \<and> unat sz \<le> 117440505" "\<not> N < unat sz" "slot_of es_source r a \<noteq> None"
      by linarith
    then show ?thesis
      using r by cases (simp_all add: etp_on_rts_def range etp_receiver_None)
  next
    case True
    then have c: "1786 \<le> unat sz" "unat sz \<le> 117440505" "unat sz \<le> N" "slot_of es_source r a = None" by simp_all
    show ?thesis
    proof (cases "free_slot r")
      case None
      then show ?thesis using c r etp_full [OF r] by (simp add: etp_on_rts_def range etp_receiver_None)
    next
      case (Some i)
      have i: "slot_for es_source r a = Some i" using c(4) Some by (simp add: slot_for_def)
      let ?t = "spec_etp_new p sz"
      let ?s = "\<lparr>es_source = a, es_pgn = p, es_size = sz, es_packets = etp_packet_count sz, es_block_start = 1,
        es_block_packets = block_size (etp_packet_count sz) 1, es_offset = None, es_next_sequence = 1, es_idle_ms = 0\<rparr>"
      have n: "unat (etp_packet_count sz) = (unat sz + 6) div 7" by (rule unat_etp_packet_count [OF c(2)])
      have n1: "255 \<le> (unat sz + 6) div 7" using c(1) by linarith
      have ok: "etp_session_ok N ?s"
        using c n n1 p by (simp add: etp_session_ok_def unat_block_size)
      have xf: "etp_transfer_of (?s, b) = ?t" for b by (simp add: etp_transfer_of_def spec_etp_new_def)
      have "ex_block_len ?t = unat (block_size (etp_packet_count sz) 1)"
        using n n1 by (simp add: ex_block_len_def ex_packets_def spec_etp_new_def unat_block_size)
      then have cts: "cts_of ?t = ECts (block_size (etp_packet_count sz) 1) 1 p"
        by (simp add: cts_of_def) (simp add: spec_etp_new_def)
      have out: "etp_on_rts N a sz p r = (ErSend (cts_of ?t), set_session i (Some ?s) r)"
        using c Some by (simp add: etp_on_rts_def range Let_def cts)
      have room: "card (dom (etp_receiver_of r)) \<noteq> length r" using etp_full [OF r] Some by simp
      have "etp_ok N (set_session i (Some ?s) r)"
        "etp_receiver_of (set_session i (Some ?s) r) = (etp_receiver_of r)(a \<mapsto> ?t)"
        using etp_set_session [OF r i refl, of "Some ?s"] ok by (auto simp: xf)
      then show ?thesis unfolding out using c room by (simp add: etp_receiver_None)
    qed
  qed
qed

lemma etp_on_abort_refines:
  assumes r: "etp_ok N r"
  shows "etp_ok N (snd (etp_on_abort a p r)) \<and>
    spec_etp_cm N (length r) a (EAbort reason p) (etp_receiver_of r) = map_prod id etp_receiver_of (etp_on_abort a p r)"
proof (cases "slot_of es_source r a")
  case None
  moreover from None have "etp_receiver_of r a = None" by (simp add: etp_receiver_None)
  ultimately show ?thesis using r by (simp add: etp_on_abort_def)
next
  case (Some i)
  obtain s b where s: "r ! i = \<lparr>slot_buffer = b, slot_session = Some s\<rparr>" "etp_receiver_of r a = Some (etp_transfer_of (s, b))"
    by (rule etp_slotE [OF r Some])
  have "ex_pgn (etp_transfer_of (s, b)) = es_pgn s" by simp
  with s Some r etp_drop [OF r Some] show ?thesis by (simp add: etp_on_abort_def)
qed

lemma etp_on_dpo_refines:
  assumes r: "etp_ok N r" and o1: "unat offset < 2 ^ 24"
  obtains out r1 where "etp_on_dpo a packets offset r = Some (out, r1)" and "etp_ok N r1" and "length r1 = length r"
    and "spec_etp_cm N (length r) a (EDpo packets offset p) (etp_receiver_of r) = (out, etp_receiver_of r1)"
proof (cases "slot_of es_source r a")
  case None
  moreover from None have "etp_receiver_of r a = None" by (simp add: etp_receiver_None)
  ultimately show thesis using r by (intro that [of ErIdle r]) (simp_all add: etp_on_dpo_def)
next
  case (Some i)
  obtain s b where s: "r ! i = \<lparr>slot_buffer = b, slot_session = Some s\<rparr>" "es_source s = a" "length b = N"
      "etp_session_ok N s" "etp_receiver_of r a = Some (etp_transfer_of (s, b))"
    by (rule etp_slotE [OF r Some])
  note f = etp_session_facts [OF s(4,3)]
  have add: "checked_add offset 1 = Some (offset + 1)" "unat (offset + 1) = unat offset + 1"
    using o1 unat_add_no_wrap [of offset 1] by (simp_all add: checked_add_def)
  have len: "ex_block_len (etp_transfer_of (s, b)) = unat (es_block_packets s)" by (rule f(6))
  have iff: "offset + 1 \<noteq> es_block_start s \<or> packets \<noteq> es_block_packets s \<longleftrightarrow>
      \<not> (unat offset + 1 = unat (es_block_start s) \<and> unat packets = unat (es_block_packets s))"
    using add(2) by (auto simp: word_unat_eq_iff)
  show thesis
  proof (cases "unat offset + 1 = unat (es_block_start s) \<and> unat packets = unat (es_block_packets s)")
    case False
    then have bad: "offset + 1 \<noteq> es_block_start s \<or> packets \<noteq> es_block_packets s" unfolding iff .
    have "etp_on_dpo a packets offset r = Some (ErSend (EAbort UnexpectedDataPacket (es_pgn s)), set_session i None r)"
      using Some s(1) add(1) bad by (simp add: etp_on_dpo_def)
    with False etp_drop [OF r Some] s(5) show thesis
      by (intro that [of "ErSend (EAbort UnexpectedDataPacket (es_pgn s))" "set_session i None r"]) (simp_all add: len)
  next
    case True
    then have good: "\<not> (offset + 1 \<noteq> es_block_start s \<or> packets \<noteq> es_block_packets s)" unfolding iff by blast
    let ?s = "s\<lparr>es_offset := Some offset, es_next_sequence := 1, es_idle_ms := 0\<rparr>"
    have out: "etp_on_dpo a packets offset r = Some (ErIdle, set_session i (Some ?s) r)"
      using Some s(1) add(1) good by (simp add: etp_on_dpo_def)
    have ok: "etp_session_ok N ?s" using s(4) True by (auto simp: etp_session_ok_def)
    have buf: "slot_buffer (r ! i) = b" using s(1) by simp
    note set = etp_set_session [OF r slot_for_of_slot [OF Some] buf, of "Some ?s"]
    have "(unat (es_block_start s) - 1) * 7 \<le> (unat (es_block_start s) + unat (es_next_sequence s) - 2) * 7"
    proof (rule mult_le_mono1)
      have "1 \<le> unat (es_next_sequence s)" using s(4) unfolding etp_session_ok_def by blast
      then show "unat (es_block_start s) - 1 \<le> unat (es_block_start s) + unat (es_next_sequence s) - 2" by arith
    qed
    then have xf: "etp_transfer_of (?s, b) = (etp_transfer_of (s, b))
        \<lparr>ex_data := take ((unat (es_block_start s) - 1) * 7) (ex_data (etp_transfer_of (s, b))), ex_opened := True, ex_idle := 0\<rparr>"
      by (simp add: etp_transfer_of_def min_def)
    show thesis
    proof (rule that [OF out])
      show "etp_ok N (set_session i (Some ?s) r)" using set(1) ok s(2) by simp
      have "etp_receiver_of (set_session i (Some ?s) r) = (etp_receiver_of r)(a \<mapsto> etp_transfer_of (?s, b))"
        using set(2) ok s(2) by simp
      then show "spec_etp_cm N (length r) a (EDpo packets offset p) (etp_receiver_of r) =
          (ErIdle, etp_receiver_of (set_session i (Some ?s) r))"
        using True s(5) by (simp add: len xf del: etp_transfer_of_sel(3))
    qed simp
  qed
qed

lemma length_etp_on_rts [simp]: "length (snd (etp_on_rts N a sz p r)) = length r"
  by (simp add: etp_on_rts_def Let_def split: option.split)

lemma length_etp_on_abort [simp]: "length (snd (etp_on_abort a p r)) = length r"
  by (simp add: etp_on_abort_def split: option.split)

lemma etp_on_cm_refines:
  assumes r: "etp_ok N r" and cm: "EtpCm_ok cm"
  obtains out r1 where "etp_on_cm N a cm r = Some (out, r1)" and "etp_ok N r1" and "length r1 = length r"
    and "spec_etp_cm N (length r) a cm (etp_receiver_of r) = (out, etp_receiver_of r1)"
proof (cases cm)
  case (ERts sz p)
  with cm have "Pgn_ok p" by (simp add: EtpCm_ok_def)
  from etp_on_rts_refines [OF r this, of a sz] ERts show thesis
    by (intro that [of "fst (etp_on_rts N a sz p r)" "snd (etp_on_rts N a sz p r)"])
      (simp_all add: map_prod_def split_beta del: spec_etp_cm.simps)
next
  case (EAbort reason p)
  from etp_on_abort_refines [OF r, of a p reason] EAbort show thesis
    by (intro that [of "fst (etp_on_abort a p r)" "snd (etp_on_abort a p r)"])
      (simp_all add: map_prod_def split_beta del: spec_etp_cm.simps)
next
  case (EDpo packets offset p)
  with cm have o1: "unat offset < 2 ^ 24" by (simp add: EtpCm_ok_def)
  obtain out r1 where "etp_on_dpo a packets offset r = Some (out, r1)" "etp_ok N r1" "length r1 = length r"
    "spec_etp_cm N (length r) a (EDpo packets offset p) (etp_receiver_of r) = (out, etp_receiver_of r1)"
    by (rule etp_on_dpo_refines [OF r o1])
  with EDpo that [of out r1] show thesis by simp
qed (use r that in simp_all)

text \<open>The arithmetic of opening the next block.\<close>

lemma next_block:
  assumes ok: "etp_session_ok N s" and more: "unat (es_block_start s) + unat (es_next_sequence s) - 2 + 1 \<noteq> unat (es_packets s)"
    and full: "unat (es_next_sequence s) = unat (es_block_packets s)"
  defines "m \<equiv> es_block_start s + ucast (es_block_packets s)"
  shows "checked_add (es_block_start s) (ucast (es_block_packets s)) = Some m"
    and "unat m = unat (es_block_start s) + unat (es_block_packets s)"
    and "checked_sub (es_packets s) m = Some (es_packets s - m)"
    and "checked_add (es_packets s - m) 1 = Some (es_packets s - m + 1)"
    and "unat (es_packets s - m + 1) = unat (es_packets s) - unat m + 1" and "unat m \<le> unat (es_packets s)"
    and "unat (es_block_packets s) = 255"
proof -
  have start: "1 \<le> unat (es_block_start s)" "unat (es_block_start s) \<le> unat (es_packets s)"
    and block: "unat (es_block_packets s) = min 255 (unat (es_packets s) - unat (es_block_start s) + 1)"
    and seq: "1 \<le> unat (es_next_sequence s)"
    using ok unfolding etp_session_ok_def by blast+
  have n: "unat (es_packets s) \<le> 16777215"
    using etp_session_facts(8) [OF ok, of "replicate N 0"] by simp
  have not_all: "unat (es_block_packets s) \<noteq> unat (es_packets s) - unat (es_block_start s) + 1"
    using more full start seq by linarith
  with block show b255: "unat (es_block_packets s) = 255" by linarith
  have u: "unat (ucast (es_block_packets s) :: u32) = unat (es_block_packets s)" by (simp add: unat_ucast_widen)
  have le: "unat (es_block_start s) + unat (es_block_packets s) \<le> unat (es_packets s)"
    using block not_all start(2) by linarith
  with n u show "checked_add (es_block_start s) (ucast (es_block_packets s)) = Some m"
    by (simp add: checked_add_def m_def)
  show um: "unat m = unat (es_block_start s) + unat (es_block_packets s)"
    unfolding m_def using unat_add_no_wrap [of "es_block_start s" "ucast (es_block_packets s)"] u le n by simp
  with le show mle: "unat m \<le> unat (es_packets s)" by simp
  then have wle: "m \<le> es_packets s" by (simp add: word_le_nat_alt)
  then show "checked_sub (es_packets s) m = Some (es_packets s - m)" by (rule checked_sub_defined)
  have d: "unat (es_packets s - m) = unat (es_packets s) - unat m" by (rule unat_sub_no_wrap [OF wle])
  with n show "checked_add (es_packets s - m) 1 = Some (es_packets s - m + 1)"
    by (intro checked_add_defined) simp
  show "unat (es_packets s - m + 1) = unat (es_packets s) - unat m + 1"
    using unat_add_no_wrap [of "es_packets s - m" 1] d n by simp
qed

text \<open>A packet in order, stated once for the three ways it can end.\<close>

lemma etp_take_step:
  assumes ok: "etp_session_ok N s" and b: "length b = N" and dt: "TpDt_ok dt"
    and slot: "r ! i = \<lparr>slot_buffer = b, slot_session = Some s\<rparr>"
    and off: "es_offset s = Some offset" and q: "dt_sequence dt = es_next_sequence s"
  defines "k \<equiv> unat (es_block_start s) + unat (es_next_sequence s) - 2"
  defines "stop \<equiv> min (k * 7 + 7) (unat (es_size s))"
  defines "buf \<equiv> write_slice (k * 7) (take (stop - k * 7) (dt_data dt)) b"
  shows "length buf = N" and "take stop buf = take (unat (es_size s)) (take (k * 7) b @ dt_data dt)"
    and "etp_take_packet i s offset dt r =
      (if k + 1 = unat (es_packets s) then
         Some (ErMessage (es_pgn s) (es_source s) (take (unat (es_size s)) buf) (EEoma (es_size s) (es_pgn s)), set_slot i buf None r)
       else if unat (es_next_sequence s) = unat (es_block_packets s) then
         (let next_start = es_block_start s + ucast (es_block_packets s);
              block = block_size (es_packets s - next_start + 1) next_start
          in Some (ErSend (ECts block next_start (es_pgn s)),
             set_slot i buf (Some (s\<lparr>es_idle_ms := 0, es_block_start := next_start, es_block_packets := block,
                                      es_offset := None, es_next_sequence := 1\<rparr>)) r))
       else Some (ErIdle, set_slot i buf (Some (s\<lparr>es_idle_ms := 0, es_next_sequence := es_next_sequence s + 1\<rparr>)) r))"
proof -
  note f = etp_session_facts [OF ok b, folded k_def]
  have d: "length (dt_data dt) = 7" using dt by (simp add: TpDt_ok_def BYTES_PER_PACKET_def)
  have sizeN: "unat (es_size s) \<le> length b" and start: "1 \<le> unat (es_block_start s)"
    and block: "unat (es_block_packets s) = min 255 (unat (es_packets s) - unat (es_block_start s) + 1)"
    and seq: "1 \<le> unat (es_next_sequence s)" "unat (es_next_sequence s) \<le> unat (es_block_packets s)"
    and offset: "unat offset + 1 = unat (es_block_start s)"
    using ok off b unfolding etp_session_ok_def by auto
  note bytes = take_packet_bytes [OF f(2) sizeN d, folded stop_def, folded buf_def]
  show "length buf = N" and "take stop buf = take (unat (es_size s)) (take (k * 7) b @ dt_data dt)"
    using bytes(3,4) b by simp_all
  have sum: "unat offset + unat (ucast (es_next_sequence s) :: u32) = k + 1"
    using f(3) offset by (simp add: unat_ucast_widen)
  have abs: "checked_add offset (ucast (es_next_sequence s)) = Some (offset + ucast (es_next_sequence s))"
    "unat (offset + ucast (es_next_sequence s)) = k + 1"
    using unat_add_no_wrap [of offset "ucast (es_next_sequence s)"] sum f(1,8) by (simp_all add: checked_add_def)
  have lt: "k * 7 < stop" using f(2) by (simp add: stop_def)
  have last: "offset + ucast (es_next_sequence s) \<ge> es_packets s \<longleftrightarrow> k + 1 = unat (es_packets s)"
    using f(1) abs(2) by (auto simp: word_le_nat_alt)
  have full: "es_next_sequence s \<ge> es_block_packets s \<longleftrightarrow> unat (es_next_sequence s) = unat (es_block_packets s)"
    using seq(2) by (auto simp: word_le_nat_alt)
  have head: "etp_take_packet i s offset dt r =
      (if k + 1 = unat (es_packets s) then
         Some (ErMessage (es_pgn s) (es_source s) (take (unat (es_size s)) buf) (EEoma (es_size s) (es_pgn s)), set_slot i buf None r)
       else if unat (es_next_sequence s) = unat (es_block_packets s) then
         do { next_start \<leftarrow> checked_add (es_block_start s) (ucast (es_block_packets s));
              ahead \<leftarrow> checked_sub (es_packets s) next_start;
              remaining \<leftarrow> checked_add ahead 1;
              let block = block_size remaining next_start;
              Some (ErSend (ECts block next_start (es_pgn s)),
                set_slot i buf (Some (s\<lparr>es_idle_ms := 0, es_block_start := next_start, es_block_packets := block,
                                         es_offset := None, es_next_sequence := 1\<rparr>)) r) }
       else
         do { following \<leftarrow> checked_add (es_next_sequence s) 1;
              Some (ErIdle, set_slot i buf (Some (s\<lparr>es_idle_ms := 0, es_next_sequence := following\<rparr>)) r) })"
  proof -
    have stop': "min (7 + k * 7) (unat (es_size s)) = stop" by (simp add: stop_def add.commute)
    have sl: "slice 0 (unat (es_size s)) buf = Some (take (unat (es_size s)) buf)"
      using bytes(3) sizeN by (simp add: slice_def)
    show ?thesis
      unfolding etp_take_packet_def q
      using abs lt bytes(1,2) slot sl
      by (simp add: checked_usize_sub_def BYTES_PER_PACKET_def Let_def last full add.commute stop')
  qed
  show "etp_take_packet i s offset dt r =
      (if k + 1 = unat (es_packets s) then
         Some (ErMessage (es_pgn s) (es_source s) (take (unat (es_size s)) buf) (EEoma (es_size s) (es_pgn s)), set_slot i buf None r)
       else if unat (es_next_sequence s) = unat (es_block_packets s) then
         (let next_start = es_block_start s + ucast (es_block_packets s);
              block = block_size (es_packets s - next_start + 1) next_start
          in Some (ErSend (ECts block next_start (es_pgn s)),
             set_slot i buf (Some (s\<lparr>es_idle_ms := 0, es_block_start := next_start, es_block_packets := block,
                                      es_offset := None, es_next_sequence := 1\<rparr>)) r))
       else Some (ErIdle, set_slot i buf (Some (s\<lparr>es_idle_ms := 0, es_next_sequence := es_next_sequence s + 1\<rparr>)) r))"
  proof (cases "k + 1 = unat (es_packets s)")
    case True
    then show ?thesis unfolding head by simp
  next
    case more: False
    show ?thesis
    proof (cases "unat (es_next_sequence s) = unat (es_block_packets s)")
      case True
      note n = next_block [OF ok more [unfolded k_def] True]
      show ?thesis unfolding head using more True n(1,3,4) by (simp add: Let_def)
    next
      case False
      have "unat (es_block_packets s) \<le> 255" using block by simp
      with False seq(2) have "checked_add (es_next_sequence s) 1 = Some (es_next_sequence s + 1)"
        by (intro checked_add_defined) simp
      then show ?thesis unfolding head using more False by simp
    qed
  qed
qed

lemma etp_take_refines:
  assumes r: "etp_ok N r" and i: "slot_of es_source r a = Some i" and dt: "TpDt_ok dt"
    and slot: "r ! i = \<lparr>slot_buffer = b, slot_session = Some s\<rparr>" and src: "es_source s = a" and b: "length b = N"
    and ok: "etp_session_ok N s" and xf: "etp_receiver_of r a = Some (etp_transfer_of (s, b))"
    and off: "es_offset s = Some offset" and q: "dt_sequence dt = es_next_sequence s"
  obtains out r1 where "etp_take_packet i s offset dt r = Some (out, r1)" and "etp_ok N r1" and "length r1 = length r"
    and "spec_etp_dt a dt (etp_receiver_of r) = (out, etp_receiver_of r1)"
proof -
  let ?t = "etp_transfer_of (s, b)" and ?k = "unat (es_block_start s) + unat (es_next_sequence s) - 2"
  let ?z = "unat (es_size s)"
  let ?buf = "write_slice (?k * 7) (take (min (?k * 7 + 7) ?z - ?k * 7) (dt_data dt)) b"
  let ?data = "take ?z (take (?k * 7) b @ dt_data dt)"
  note f = etp_session_facts [OF ok b] and step = etp_take_step [where r = r and i = i, OF ok b dt slot off q]
  have set: "slot_for es_source r a = Some i" by (rule slot_for_of_slot [OF i])
  have d: "length (dt_data dt) = 7" using dt by (simp add: TpDt_ok_def BYTES_PER_PACKET_def)
  have zN: "?z \<le> N" and packets: "unat (es_packets s) = (?z + 6) div 7" and p: "Pgn_ok (es_pgn s)"
    and start: "1 \<le> unat (es_block_start s)" and seq: "1 \<le> unat (es_next_sequence s)" "unat (es_next_sequence s) \<le> unat (es_block_packets s)"
    and block: "unat (es_block_packets s) = min 255 (unat (es_packets s) - unat (es_block_start s) + 1)"
    using ok unfolding etp_session_ok_def by blast+
  have kN: "?k * 7 \<le> N" using f(2) zN by simp
  have len: "length ?data = min ?z (?k * 7 + 7)" using d b kN by simp
  have last: "length ?data = ?z \<longleftrightarrow> ?k + 1 = unat (es_packets s)"
    unfolding len using f(1,2) packets by (simp add: min_def) linarith
  have spec: "spec_etp_dt a dt (etp_receiver_of r) =
      (if ?k + 1 = unat (es_packets s) then
         (ErMessage (es_pgn s) a ?data (EEoma (es_size s) (es_pgn s)), (etp_receiver_of r)(a := None))
       else if unat (es_next_sequence s) = unat (es_block_packets s) then
         (let t2 = ?t\<lparr>ex_data := ?data, ex_idle := 0, ex_block := unat (es_block_start s) + unat (es_block_packets s), ex_opened := False\<rparr>
          in (ErSend (cts_of t2), (etp_receiver_of r)(a \<mapsto> t2)))
       else (ErIdle, (etp_receiver_of r)(a \<mapsto> ?t\<lparr>ex_data := ?data, ex_idle := 0\<rparr>)))"
    using xf f(6,7) off q last by (simp add: spec_etp_dt_def Let_def del: length_take)
  show thesis
  proof (cases "?k + 1 = unat (es_packets s)")
    case True
    with f(2) packets have "min (?k * 7 + 7) ?z = ?z" by linarith
    with step(2) have msg: "take ?z ?buf = ?data" by simp
    show thesis
    proof (rule that)
      show "etp_take_packet i s offset dt r =
          Some (ErMessage (es_pgn s) a ?data (EEoma (es_size s) (es_pgn s)), set_slot i ?buf None r)"
        unfolding step(3) using True msg src by simp
      show "etp_ok N (set_slot i ?buf None r)" using etp_set_slot(1) [OF r set step(1), of None] by simp
      show "spec_etp_dt a dt (etp_receiver_of r) =
          (ErMessage (es_pgn s) a ?data (EEoma (es_size s) (es_pgn s)), etp_receiver_of (set_slot i ?buf None r))"
        unfolding spec using True etp_set_slot(2) [OF r set step(1), of None] by simp
    qed simp
  next
    case more: False
    then have short: "min (?k * 7 + 7) ?z = ?k * 7 + 7" using f(1) packets by linarith
    have data: "take ((?k + 1) * 7) ?buf = ?data" using step(2) unfolding short by (simp add: add.commute)
    show thesis
    proof (cases "unat (es_next_sequence s) = unat (es_block_packets s)")
      case full: True
      note n = next_block [OF ok more full]
      let ?m = "es_block_start s + ucast (es_block_packets s)"
      let ?s1 = "s\<lparr>es_idle_ms := 0, es_block_start := ?m, es_block_packets := block_size (es_packets s - ?m + 1) ?m,
        es_offset := None, es_next_sequence := 1\<rparr>"
      let ?t2 = "?t\<lparr>ex_data := ?data, ex_idle := 0, ex_block := unat (es_block_start s) + unat (es_block_packets s), ex_opened := False\<rparr>"
      have bl: "unat (block_size (es_packets s - ?m + 1) ?m) = min 255 (unat (es_packets s) - unat ?m + 1)"
        unfolding unat_block_size n(5) ..
      have ok1: "etp_session_ok N ?s1"
        using ok n(2,6) bl start unfolding etp_session_ok_def by simp
      have k1: "unat ?m + unat (1 :: u8) - 2 = ?k + 1" using n(2) full start seq(1) by simp
      have xf1: "etp_transfer_of (?s1, ?buf) = ?t2"
        using data n(2) k1 by (simp add: etp_transfer_of_def add.commute)
      have "ex_block_len ?t2 = unat (block_size (es_packets s - ?m + 1) ?m)"
        unfolding bl n(2) by (simp add: ex_block_len_def ex_packets_def packets)
      moreover have "word_of_nat (ex_block ?t2) = ?m" unfolding n(2) [symmetric] ucast_word_of_unat by simp
      ultimately have cts: "cts_of ?t2 = ECts (block_size (es_packets s - ?m + 1) ?m) ?m (es_pgn s)"
        by (simp add: cts_of_def)
      show thesis
      proof (rule that)
        show "etp_take_packet i s offset dt r = Some (ErSend (cts_of ?t2), set_slot i ?buf (Some ?s1) r)"
          unfolding step(3) cts using more full by (simp add: Let_def)
        show "etp_ok N (set_slot i ?buf (Some ?s1) r)"
          using etp_set_slot(1) [OF r set step(1), of "Some ?s1"] ok1 src by simp
        have "etp_receiver_of (set_slot i ?buf (Some ?s1) r) = (etp_receiver_of r)(a \<mapsto> etp_transfer_of (?s1, ?buf))"
          using etp_set_slot(2) [OF r set step(1), of "Some ?s1"] ok1 src by simp
        then show "spec_etp_dt a dt (etp_receiver_of r) = (ErSend (cts_of ?t2), etp_receiver_of (set_slot i ?buf (Some ?s1) r))"
          unfolding spec xf1 using more full by (simp add: Let_def)
      qed simp
    next
      case open_block: False
      let ?s1 = "s\<lparr>es_idle_ms := 0, es_next_sequence := es_next_sequence s + 1\<rparr>"
      have lt: "unat (es_next_sequence s) < unat (es_block_packets s)" and "unat (es_block_packets s) \<le> 255"
        using open_block seq(2) block by simp_all
      then have nx: "unat (es_next_sequence s + 1) = unat (es_next_sequence s) + 1"
        using unat_add_no_wrap [of "es_next_sequence s" 1] by simp
      have ok1: "etp_session_ok N ?s1"
        using ok nx lt off unfolding etp_session_ok_def by (simp add: less_Suc_eq_le)
      have k1: "unat (es_block_start s) + unat (es_next_sequence s + 1) - 2 = ?k + 1" using nx start seq(1) by simp
      have xf1: "etp_transfer_of (?s1, ?buf) = ?t\<lparr>ex_data := ?data, ex_idle := 0\<rparr>"
        using data k1 by (simp add: etp_transfer_of_def add.commute)
      show thesis
      proof (rule that)
        show "etp_take_packet i s offset dt r = Some (ErIdle, set_slot i ?buf (Some ?s1) r)"
          unfolding step(3) using more open_block by simp
        show "etp_ok N (set_slot i ?buf (Some ?s1) r)"
          using etp_set_slot(1) [OF r set step(1), of "Some ?s1"] ok1 src by simp
        have "etp_receiver_of (set_slot i ?buf (Some ?s1) r) = (etp_receiver_of r)(a \<mapsto> etp_transfer_of (?s1, ?buf))"
          using etp_set_slot(2) [OF r set step(1), of "Some ?s1"] ok1 src by simp
        then show "spec_etp_dt a dt (etp_receiver_of r) = (ErIdle, etp_receiver_of (set_slot i ?buf (Some ?s1) r))"
          unfolding spec xf1 using more open_block by simp
      qed simp
    qed
  qed
qed

lemma etp_on_dt_refines:
  assumes r: "etp_ok N r" and dt: "TpDt_ok dt"
  obtains out r1 where "etp_on_dt a dt r = Some (out, r1)" and "etp_ok N r1" and "length r1 = length r"
    and "spec_etp_dt a dt (etp_receiver_of r) = (out, etp_receiver_of r1)"
proof (cases "slot_of es_source r a")
  case None
  moreover from None have "etp_receiver_of r a = None" by (simp add: etp_receiver_None)
  ultimately show thesis using r by (intro that [of ErIdle r]) (simp_all add: etp_on_dt_def spec_etp_dt_def)
next
  case (Some i)
  obtain s b where s: "r ! i = \<lparr>slot_buffer = b, slot_session = Some s\<rparr>" "es_source s = a" "length b = N"
      "etp_session_ok N s" "etp_receiver_of r a = Some (etp_transfer_of (s, b))"
    by (rule etp_slotE [OF r Some])
  note f = etp_session_facts [OF s(4,3)] and drop = etp_drop [OF r Some]
  show thesis
  proof (cases "es_offset s")
    case None
    with s Some drop show thesis
      by (intro that [of "ErSend (EAbort UnexpectedDataPacket (es_pgn s))" "set_session i None r"])
        (simp_all add: etp_on_dt_def spec_etp_dt_def)
  next
    case off: (Some offset)
    show thesis
    proof (cases "dt_sequence dt = es_next_sequence s")
      case True
      obtain out r1 where "etp_take_packet i s offset dt r = Some (out, r1)" "etp_ok N r1" "length r1 = length r"
        "spec_etp_dt a dt (etp_receiver_of r) = (out, etp_receiver_of r1)"
        by (rule etp_take_refines [OF r Some dt s(1-4) s(5) off True])
      with True off Some s(1) that [of out r1] show thesis by (simp add: etp_on_dt_def)
    next
      case False
      let ?out = "ErSend (EAbort (if dt_sequence dt < es_next_sequence s then DuplicateSequenceNumber
          else BadSequenceNumber) (es_pgn s))"
      have ne: "unat (dt_sequence dt) \<noteq> unat (es_next_sequence s)" using False by (simp add: word_unat_eq_iff)
      have "etp_on_dt a dt r = Some (?out, set_session i None r)"
        using False off Some s(1) by (simp add: etp_on_dt_def)
      moreover have "spec_etp_dt a dt (etp_receiver_of r) = (?out, etp_receiver_of (set_session i None r))"
        using ne off s(5) drop(2) f(7) by (simp add: spec_etp_dt_def word_less_nat_alt)
      ultimately show thesis using drop(1) by (intro that) simp_all
    qed
  qed
qed

section \<open>The timer\<close>

definition etp_aged :: "u16 \<Rightarrow> u16 \<Rightarrow> etp_session \<Rightarrow> etp_session option" where
  "etp_aged elapsed timeout s =
     (let idle = saturating_add (es_idle_ms s) elapsed
      in if idle \<le> timeout then Some (s\<lparr>es_idle_ms := idle\<rparr>) else None)"

lemma etp_aged_SomeD:
  "etp_aged elapsed timeout s = Some t \<Longrightarrow> es_source t = es_source s \<and> (etp_session_ok N s \<longrightarrow> etp_session_ok N t)"
  by (cases "es_offset s") (auto simp: etp_aged_def Let_def etp_session_ok_def split: if_splits)

lemma etp_aged_None: "etp_aged elapsed timeout s = None \<longleftrightarrow> timeout < saturating_add (es_idle_ms s) elapsed"
  by (auto simp: etp_aged_def Let_def)

lemma etp_tick_state: "snd (etp_tick elapsed timeout r) = update_sessions (etp_aged elapsed timeout) r"
  by (induction r) (auto simp: update_sessions_def etp_aged_def Let_def split_beta split: option.split)

lemma etp_tick_calls:
  "set (fst (etp_tick elapsed timeout r)) =
     {(es_source s, EAbort Timeout (es_pgn s)) | s sl. sl \<in> set r \<and> slot_session sl = Some s \<and> etp_aged elapsed timeout s = None}"
proof (induction r)
  case Nil
  then show ?case by simp
next
  case (Cons sl r)
  then show ?case by (cases "slot_session sl") (auto simp: etp_aged_def Let_def split_beta)
qed

lemma etp_tick_refines:
  assumes r: "etp_ok N r"
  shows "etp_ok N (snd (etp_tick elapsed timeout r))"
    and "etp_receiver_of (snd (etp_tick elapsed timeout r)) = spec_etp_tick elapsed timeout (etp_receiver_of r)"
    and "set (fst (etp_tick elapsed timeout r)) = spec_etp_overdue elapsed timeout (etp_receiver_of r)"
proof -
  have ok: "table_ok es_source N (etp_session_ok N) r" using r by (simp add: etp_ok_def)
  have src: "es_source t = es_source s" if "etp_aged elapsed timeout s = Some t" for s t
    using etp_aged_SomeD [OF that] by simp
  have "table_ok es_source N (etp_session_ok N) (update_sessions (etp_aged elapsed timeout) r)"
    by (rule table_ok_update_sessions [OF ok _ src]) (use etp_aged_SomeD in blast)
  then show "etp_ok N (snd (etp_tick elapsed timeout r))" by (simp add: etp_ok_def etp_tick_state)
  show "etp_receiver_of (snd (etp_tick elapsed timeout r)) = spec_etp_tick elapsed timeout (etp_receiver_of r)"
  proof
    fix a
    have "map_option etp_transfer_of (Option.bind e (\<lambda>(s, b). map_option (\<lambda>t. (t, b)) (etp_aged elapsed timeout s)))
        = Option.bind (map_option etp_transfer_of e) (\<lambda>t. let idle = saturating_add (ex_idle t) elapsed
             in if idle \<le> timeout then Some (t\<lparr>ex_idle := idle\<rparr>) else None)" for e
      by (cases e) (auto simp: etp_aged_def Let_def etp_transfer_of_def split: prod.splits)
    then show "etp_receiver_of (snd (etp_tick elapsed timeout r)) a = spec_etp_tick elapsed timeout (etp_receiver_of r) a"
      unfolding etp_tick_state etp_receiver_of_def spec_etp_tick_def
        entry_of_update_sessions [where key = es_source and g = "etp_aged elapsed timeout", OF table_ok_one [OF ok] src, simplified] .
  qed
  have named: "(es_source s, EAbort Timeout (es_pgn s)) = (a, EAbort Timeout (ex_pgn (etp_transfer_of (s, b))))"
    if "entry_of es_source r a = Some (s, b)" for s b a
    using table_ok_entry [OF ok that] by simp
  have "{(es_source s, EAbort Timeout (es_pgn s)) | s b a. entry_of es_source r a = Some (s, b) \<and> etp_aged elapsed timeout s = None}
      = {(a, EAbort Timeout (ex_pgn (etp_transfer_of (s, b)))) | s b a.
           entry_of es_source r a = Some (s, b) \<and> timeout < saturating_add (ex_idle (etp_transfer_of (s, b))) elapsed}"
    unfolding etp_aged_None etp_transfer_of_sel(6) by (intro Collect_cong ex_cong1) (metis named)
  also have "\<dots> = spec_etp_overdue elapsed timeout (etp_receiver_of r)"
  proof -
    have view: "etp_receiver_of r a = Some t \<longleftrightarrow> (\<exists>s b. entry_of es_source r a = Some (s, b) \<and> t = etp_transfer_of (s, b))" for a t
      by (cases "entry_of es_source r a") (auto simp: etp_receiver_of_def)
    show ?thesis unfolding spec_etp_overdue_def
    proof (intro Collect_cong iffI)
      fix x assume "\<exists>s b a. x = (a, EAbort Timeout (ex_pgn (etp_transfer_of (s, b)))) \<and>
        entry_of es_source r a = Some (s, b) \<and> timeout < saturating_add (ex_idle (etp_transfer_of (s, b))) elapsed"
      then obtain s b a where x: "x = (a, EAbort Timeout (ex_pgn (etp_transfer_of (s, b))))"
        "entry_of es_source r a = Some (s, b)" "timeout < saturating_add (ex_idle (etp_transfer_of (s, b))) elapsed"
        by blast
      from x(2) have "etp_receiver_of r a = Some (etp_transfer_of (s, b))" by (simp add: etp_receiver_of_def)
      with x(1,3) show "\<exists>a t. x = (a, EAbort Timeout (ex_pgn t)) \<and> etp_receiver_of r a = Some t \<and>
        timeout < saturating_add (ex_idle t) elapsed" by blast
    next
      fix x assume "\<exists>a t. x = (a, EAbort Timeout (ex_pgn t)) \<and> etp_receiver_of r a = Some t \<and>
        timeout < saturating_add (ex_idle t) elapsed"
      then obtain a t where x: "x = (a, EAbort Timeout (ex_pgn t))" "etp_receiver_of r a = Some t"
        "timeout < saturating_add (ex_idle t) elapsed" by blast
      from x(2) obtain s b where "entry_of es_source r a = Some (s, b)" "t = etp_transfer_of (s, b)" unfolding view by blast
      with x(1,3) show "\<exists>s b a. x = (a, EAbort Timeout (ex_pgn (etp_transfer_of (s, b)))) \<and>
        entry_of es_source r a = Some (s, b) \<and> timeout < saturating_add (ex_idle (etp_transfer_of (s, b))) elapsed" by blast
    qed
  qed
  finally show "set (fst (etp_tick elapsed timeout r)) = spec_etp_overdue elapsed timeout (etp_receiver_of r)"
    unfolding etp_tick_calls dropped_sessions [OF ok] .
qed

section \<open>The reassembler as a machine\<close>

datatype etp_event =
    EtpCmIn address etp_cm
  | EtpDtIn address etp_dt
  | EtpTick u16 u16
  | EtpAbandon address
  | EtpReset

text \<open>The answer, and the aborts the closure of \<open>tick\<close> is called with.\<close>

type_synonym etp_output = "etp_rx \<times> (address \<times> etp_cm) set"

fun etp_step :: "nat \<Rightarrow> etp_event \<Rightarrow> etp_reassembler \<Rightarrow> (etp_output \<times> etp_reassembler) option" where
  "etp_step N (EtpCmIn a cm) r = do { (out, r1) \<leftarrow> etp_on_cm N a cm r; Some ((out, {}), r1) }"
| "etp_step N (EtpDtIn a dt) r = do { (out, r1) \<leftarrow> etp_on_dt a dt r; Some ((out, {}), r1) }"
| "etp_step N (EtpTick elapsed timeout) r =
     (let (calls, r1) = etp_tick elapsed timeout r in Some ((ErIdle, set calls), r1))"
| "etp_step N (EtpAbandon a) r = Some ((ErIdle, {}), snd (abandon es_source a r))"
| "etp_step N EtpReset r = Some ((ErIdle, {}), reset r)"

text \<open>
  The offset of a DPO is a \<^verbatim>\<open>u32\<close> to which one is added: the largest one panics. None of 24 bits, as every
  decoded DPO has, does.
\<close>

lemma etp_dpo_overflow:
  assumes "slot_of es_source r a = Some i" and "slot_session (r ! i) = Some s"
  shows "etp_on_cm N a (EDpo n 0xFFFFFFFF p) r = None"
  using assms by (simp add: etp_on_dpo_def checked_add_def)


primrec etp_admissible :: "etp_event \<Rightarrow> bool" where
  "etp_admissible (EtpCmIn a cm) = EtpCm_ok cm"
| "etp_admissible (EtpDtIn a dt) = TpDt_ok dt"
| "etp_admissible (EtpTick e t) = True"
| "etp_admissible (EtpAbandon a) = True"
| "etp_admissible EtpReset = True"

primrec etp_concerns :: "etp_event \<Rightarrow> address \<Rightarrow> bool" where
  "etp_concerns (EtpCmIn a cm) p = (a = p)"
| "etp_concerns (EtpDtIn a dt) p = (a = p)"
| "etp_concerns (EtpTick e t) p = True"
| "etp_concerns (EtpAbandon a) p = (a = p)"
| "etp_concerns EtpReset p = True"

fun spec_etp_step :: "nat \<Rightarrow> nat \<Rightarrow> etp_event \<Rightarrow> etp_receiver \<Rightarrow> etp_output \<times> etp_receiver" where
  "spec_etp_step N K (EtpCmIn a cm) m = (let (out, m1) = spec_etp_cm N K a cm m in ((out, {}), m1))"
| "spec_etp_step N K (EtpDtIn a dt) m = (let (out, m1) = spec_etp_dt a dt m in ((out, {}), m1))"
| "spec_etp_step N K (EtpTick elapsed timeout) m =
     ((ErIdle, spec_etp_overdue elapsed timeout m), spec_etp_tick elapsed timeout m)"
| "spec_etp_step N K (EtpAbandon a) m = ((ErIdle, {}), m(a := None))"
| "spec_etp_step N K EtpReset m = ((ErIdle, {}), Map.empty)"

definition etp_table_ok :: "nat \<Rightarrow> nat \<Rightarrow> etp_reassembler \<Rightarrow> bool" where
  "etp_table_ok N K r \<longleftrightarrow> etp_ok N r \<and> length r = K"

lemma etp_table_new: "etp_table_ok N K (new_table N K)"
  by (simp add: etp_table_ok_def etp_ok_new) (simp add: new_table_def)

lemma etp_step_refines:
  assumes "etp_table_ok N K r" and adm: "etp_admissible e"
  shows "\<exists>out r1. etp_step N e r = Some (out, r1) \<and> etp_table_ok N K r1 \<and>
    spec_etp_step N K e (etp_receiver_of r) = (out, etp_receiver_of r1)"
proof -
  from assms(1) have r: "etp_ok N r" and K: "length r = K" by (simp_all add: etp_table_ok_def)
  show ?thesis
  proof (cases e)
    case (EtpCmIn a cm)
    with adm have cm: "EtpCm_ok cm" by simp
    obtain out r1 where "etp_on_cm N a cm r = Some (out, r1)" "etp_ok N r1" "length r1 = length r"
      "spec_etp_cm N (length r) a cm (etp_receiver_of r) = (out, etp_receiver_of r1)"
      by (rule etp_on_cm_refines [OF r cm])
    with EtpCmIn K show ?thesis by (simp add: etp_table_ok_def)
  next
    case (EtpDtIn a dt)
    with adm have dt: "TpDt_ok dt" by simp
    obtain out r1 where "etp_on_dt a dt r = Some (out, r1)" "etp_ok N r1" "length r1 = length r"
      "spec_etp_dt a dt (etp_receiver_of r) = (out, etp_receiver_of r1)"
      by (rule etp_on_dt_refines [OF r dt])
    with EtpDtIn K show ?thesis by (simp add: etp_table_ok_def)
  next
    case (EtpTick elapsed timeout)
    have "length (snd (etp_tick elapsed timeout r)) = K" using K by (simp add: etp_tick_state)
    with EtpTick etp_tick_refines [OF r, of elapsed timeout] show ?thesis
      by (simp add: etp_table_ok_def split_beta)
  next
    case (EtpAbandon a)
    have "etp_ok N (snd (abandon es_source a r))"
      using r by (simp add: etp_ok_def table_ok_abandon)
    moreover have "etp_receiver_of (snd (abandon es_source a r)) = (etp_receiver_of r)(a := None)"
      using abandon_eq(2) [OF table_ok_one, of es_source N "etp_session_ok N" r a] r
      by (auto simp: etp_ok_def etp_receiver_of_def fun_eq_iff)
    ultimately show ?thesis using EtpAbandon K by (simp add: etp_table_ok_def)
  next
    case EtpReset
    have "etp_ok N (reset r)" using r by (simp add: etp_ok_def table_ok_reset)
    moreover have "etp_receiver_of (reset r) = Map.empty"
      using entry_of_reset [OF r [unfolded etp_ok_def]] by (simp add: etp_receiver_of_def)
    moreover have "length (reset r) = length r" by (simp add: reset_def)
    ultimately show ?thesis using EtpReset K by (simp add: etp_table_ok_def)
  qed
qed

lemma spec_etp_isolated: "\<not> etp_concerns e p \<Longrightarrow> snd (spec_etp_step N K e m) p = m p"
proof (cases e)
  case (EtpCmIn a cm)
  then show "\<not> etp_concerns e p \<Longrightarrow> ?thesis" by (cases cm) (auto split: option.split)
next
  case (EtpDtIn a dt)
  then show "\<not> etp_concerns e p \<Longrightarrow> ?thesis" by (auto simp: spec_etp_dt_def Let_def split: option.split)
qed simp_all

interpretation etp_receiving: refined_machine "etp_step N" "etp_table_ok N K" etp_admissible etp_receiver_of "spec_etp_step N K"
  for N K
  by unfold_locales (rule etp_step_refines)

interpretation etp_peers: peer_machine "etp_step N" "etp_table_ok N K" etp_admissible etp_receiver_of etp_concerns for N K
proof
  show "etp_receiver_of s' p = etp_receiver_of s p"
    if "etp_table_ok N K s" "etp_admissible e" "etp_step N e s = Some (out, s')" "\<not> etp_concerns e p" for s e out s' p
    using that spec_etp_isolated [OF that(4), of N K "etp_receiver_of s"]
    by (metis etp_step_refines option.inject prod.inject snd_conv)
qed

end
