(* ===== verification/Etp_Send.thy ===== *)
theory Etp_Send
  imports Etp_Codec Tp_Send
begin

text \<open>
  The send side of the extended transport protocol: \<^verbatim>\<open>Tx\<close> and \<^verbatim>\<open>Transmitter\<close> of
  \<^verbatim>\<open>core/src/etp.rs\<close>. The lemmas give the block a CTS opens, the offset message that goes first, and
  the packets that follow it.
\<close>

section \<open>State and operations\<close>

text \<open>The outcomes of a control message are the ones of the ordinary transmitter, \<^verbatim>\<open>Tx\<close>.\<close>

type_synonym etp_tx = tx

record etp_transmitter =
  et_pgn :: pgn
  et_data :: bytes
  et_packets :: u32
  et_block_start :: u32
  et_block_packets :: u8
  et_offset_sent :: bool
  et_next_sequence :: u16
  et_complete :: bool

definition EtpTransmitter_new :: "pgn \<Rightarrow> bytes \<Rightarrow> etp_transmitter j1939_result" where
  "EtpTransmitter_new p data =
     (let sz = length data
      in if sz < unat ETP_MIN_MESSAGE_SIZE \<or> sz > unat ETP_MAX_MESSAGE_SIZE
         then Inl (InvalidMessageSize (if sz > 0xFFFF then 0xFFFF else word_of_nat sz))
         else Inr \<lparr>et_pgn = p, et_data = data, et_packets = etp_packet_count (word_of_nat sz), et_block_start = 1,
                   et_block_packets = 0, et_offset_sent = False, et_next_sequence = 1, et_complete = False\<rparr>)"

definition et_start :: "etp_transmitter \<Rightarrow> etp_cm" where
  "et_start tx = ERts (word_of_nat (length (et_data tx))) (et_pgn tx)"

definition et_offset :: "etp_transmitter \<Rightarrow> (etp_cm option \<times> etp_transmitter) option" where
  "et_offset tx =
     (if et_offset_sent tx \<or> et_block_packets tx = 0 then Some (None, tx)
      else
        do { offset \<leftarrow> checked_sub (et_block_start tx) 1;
             Some (Some (EDpo (et_block_packets tx) offset (et_pgn tx)), tx\<lparr>et_offset_sent := True\<rparr>) })"

definition et_on_cm :: "etp_cm \<Rightarrow> etp_transmitter \<Rightarrow> (etp_tx \<times> etp_transmitter) option" where
  "et_on_cm cm tx =
     (if EtpCm_pgn cm \<noteq> et_pgn tx then Some (TxIdle, tx)
      else
        (case cm of
           ECts packets next_packet _ \<Rightarrow>
             if packets = 0 \<or> next_packet = 0 \<or> next_packet > et_packets tx then Some (TxIdle, tx)
             else
               do { ahead \<leftarrow> checked_sub (et_packets tx) next_packet;
                    remaining \<leftarrow> checked_add ahead 1;
                    Some (TxSendData,
                          tx\<lparr>et_block_start := next_packet,
                             et_block_packets := min (block_size remaining next_packet) packets,
                             et_offset_sent := False, et_next_sequence := 1\<rparr>) }
         | EEoma _ _ \<Rightarrow> Some (TxComplete, tx\<lparr>et_complete := True\<rparr>)
         | EAbort reason _ \<Rightarrow> Some (TxAborted reason, tx)
         | ERts _ _ \<Rightarrow> Some (TxIdle, tx)
         | EDpo _ _ _ \<Rightarrow> Some (TxIdle, tx)))"

definition et_next_packet :: "etp_transmitter \<Rightarrow> (etp_dt option \<times> etp_transmitter) option" where
  "et_next_packet tx =
     (if et_block_packets tx = 0 \<or> et_next_sequence tx > ucast (et_block_packets tx) then Some (None, tx)
      else
        do { beyond \<leftarrow> checked_add (et_block_start tx) (ucast (et_next_sequence tx));
             absolute \<leftarrow> checked_sub beyond 1;
             if absolute > et_packets tx then Some (None, tx)
             else
               do { before \<leftarrow> checked_usize_sub (unat absolute) 1;
                    let start = before * BYTES_PER_PACKET;
                    let stop = min (start + BYTES_PER_PACKET) (length (et_data tx));
                    payload \<leftarrow> slice start stop (et_data tx);
                    let packet = EtpDt_new (ucast (et_next_sequence tx)) payload;
                    following \<leftarrow> checked_add (et_next_sequence tx) 1;
                    Some (Some packet, tx\<lparr>et_next_sequence := following\<rparr>) } })"

section \<open>Invariant\<close>

definition et_ok :: "etp_transmitter \<Rightarrow> bool" where
  "et_ok tx \<longleftrightarrow>
     1786 \<le> length (et_data tx) \<and> length (et_data tx) \<le> 117440505 \<and>
     unat (et_packets tx) = (length (et_data tx) + 6) div 7 \<and>
     1 \<le> unat (et_block_start tx) \<and>
     unat (et_block_start tx) + unat (et_block_packets tx) \<le> unat (et_packets tx) + 1 \<and>
     1 \<le> unat (et_next_sequence tx) \<and> unat (et_next_sequence tx) \<le> unat (et_block_packets tx) + 1"

lemma et_new_cases:
  obtains (bad) e where "length data < 1786 \<or> 117440505 < length data" "EtpTransmitter_new p data = Inl e"
  | (good) tx where "1786 \<le> length data" "length data \<le> 117440505" "EtpTransmitter_new p data = Inr tx"
      "et_ok tx" "et_pgn tx = p" "et_data tx = data" "\<not> et_complete tx"
      "unat (et_packets tx) = (length data + 6) div 7"
proof (cases "length data < 1786 \<or> 117440505 < length data")
  case True
  then show thesis
    by (intro bad [of "InvalidMessageSize (if length data > 0xFFFF then 0xFFFF else word_of_nat (length data))"])
      (simp_all add: EtpTransmitter_new_def ETP_MIN_MESSAGE_SIZE_def ETP_MAX_eq Let_def)
next
  case False
  then have l: "1786 \<le> length data" "length data \<le> 117440505" by simp_all
  have u: "unat (word_of_nat (length data) :: u32) = length data" using l by (simp add: unat_word_of_nat)
  have n: "unat (etp_packet_count (word_of_nat (length data))) = (length data + 6) div 7"
    using unat_etp_packet_count [of "word_of_nat (length data)"] u l(2) by simp
  let ?tx = "\<lparr>et_pgn = p, et_data = data, et_packets = etp_packet_count (word_of_nat (length data)), et_block_start = 1,
    et_block_packets = 0, et_offset_sent = False, et_next_sequence = 1, et_complete = False\<rparr>"
  have "EtpTransmitter_new p data = Inr ?tx"
    using l by (simp add: EtpTransmitter_new_def ETP_MIN_MESSAGE_SIZE_def ETP_MAX_eq Let_def)
  moreover have "et_ok ?tx" using l n by (simp add: et_ok_def)
  ultimately show thesis using good [of ?tx] l n by simp
qed

lemma et_ok_block:
  assumes "et_ok tx" and "1 \<le> unat k" and "unat k + unat w \<le> unat (et_packets tx) + 1"
  shows "et_ok (tx\<lparr>et_block_start := k, et_block_packets := w, et_offset_sent := False, et_next_sequence := 1\<rparr>)"
  using assms by (simp add: et_ok_def)

text \<open>A CTS of the message opens a block that ends within the message.\<close>

lemma et_on_cts:
  assumes ok: "et_ok tx" and w: "w \<noteq> 0" and k: "1 \<le> unat k" "unat k \<le> unat (et_packets tx)"
  obtains tx1 where "et_on_cm (ECts w k (et_pgn tx)) tx = Some (TxSendData, tx1)" and "et_ok tx1"
    and "tx1 = tx\<lparr>et_block_start := k, et_block_packets := et_block_packets tx1, et_offset_sent := False, et_next_sequence := 1\<rparr>"
    and "unat (et_block_packets tx1) = min (min 255 (unat (et_packets tx) - unat k + 1)) (unat w)"
proof -
  have le: "k \<le> et_packets tx" using k(2) by (simp add: word_le_nat_alt)
  have n: "unat (et_packets tx) \<le> 16777215" using ok unfolding et_ok_def by linarith
  have d: "unat (et_packets tx - k) = unat (et_packets tx) - unat k" by (rule unat_sub_no_wrap [OF le])
  have add: "checked_add (et_packets tx - k) 1 = Some (et_packets tx - k + 1)"
    "unat (et_packets tx - k + 1) = unat (et_packets tx) - unat k + 1"
    using d n unat_add_no_wrap [of "et_packets tx - k" 1] by (simp_all add: checked_add_def)
  let ?b = "min (block_size (et_packets tx - k + 1) k) w"
  let ?tx1 = "tx\<lparr>et_block_start := k, et_block_packets := ?b, et_offset_sent := False, et_next_sequence := 1\<rparr>"
  have b: "unat ?b = min (min 255 (unat (et_packets tx) - unat k + 1)) (unat w)"
    using unat_block_size [of "et_packets tx - k + 1" k] add(2) by (simp add: min_def word_le_nat_alt)
  have "et_on_cm (ECts w k (et_pgn tx)) tx = Some (TxSendData, ?tx1)"
    using w k le add(1) by (auto simp: et_on_cm_def checked_sub_def word_unat_eq_iff)
  moreover have "et_ok ?tx1"
  proof -
    have "unat ?b \<le> unat (et_packets tx) - unat k + 1" unfolding b by simp
    then have "unat k + unat ?b \<le> unat (et_packets tx) + 1" using k(2) by linarith
    then show ?thesis by (rule et_ok_block [OF ok k(1)])
  qed
  ultimately show thesis using that [of ?tx1] b by simp
qed

lemma et_offset_first:
  assumes ok: "et_ok tx" and b: "et_block_packets tx \<noteq> 0" and sent: "\<not> et_offset_sent tx"
  shows "et_offset tx =
    Some (Some (EDpo (et_block_packets tx) (et_block_start tx - 1) (et_pgn tx)), tx\<lparr>et_offset_sent := True\<rparr>)"
    and "unat (et_block_start tx - 1) + 1 = unat (et_block_start tx)"
proof -
  have s: "1 \<le> unat (et_block_start tx)" using ok by (simp add: et_ok_def)
  then have le: "1 \<le> et_block_start tx" by (simp add: word_le_nat_alt)
  then show "et_offset tx =
    Some (Some (EDpo (et_block_packets tx) (et_block_start tx - 1) (et_pgn tx)), tx\<lparr>et_offset_sent := True\<rparr>)"
    using b sent by (simp add: et_offset_def checked_sub_def)
  show "unat (et_block_start tx - 1) + 1 = unat (et_block_start tx)" using unat_sub_no_wrap [OF le] s by simp
qed

section \<open>The packets of a block\<close>

text \<open>Packet \<open>j\<close> of the block that starts at packet \<open>b\<close> of the message, both from 1.\<close>

definition block_packet :: "bytes \<Rightarrow> nat \<Rightarrow> nat \<Rightarrow> etp_dt" where
  "block_packet data b j = EtpDt_new (word_of_nat j) (take 7 (drop ((b + j - 2) * 7) data))"

lemma block_packet_ok [simp]: "TpDt_ok (block_packet data b j)"
  by (simp add: block_packet_def EtpDt_as_TpDt)

lemma block_packet_sequence: "dt_sequence (block_packet data b j) = word_of_nat j"
  by (simp add: block_packet_def EtpDt_new_def Let_def)

lemma block_packet_data:
  assumes "1 \<le> b" and "1 \<le> j"
  shows "take (length data) (take ((b + j - 2) * 7) data @ dt_data (block_packet data b j)) = take ((b + j - 1) * 7) data"
proof -
  have "dt_data (block_packet data b j) = dt_data (packet_of data (b + j - 1))"
    by (simp add: block_packet_def packet_of_def EtpDt_as_TpDt TpDt_new_def Let_def numeral_2_eq_2)
  moreover have "b + j - 1 - 1 = b + j - 2" by simp
  ultimately show ?thesis using packet_of_data [of "b + j - 1" data] assms by simp
qed

lemma et_next_packet_Some:
  assumes ok: "et_ok tx" and more: "unat (et_next_sequence tx) \<le> unat (et_block_packets tx)"
  shows "et_next_packet tx =
      Some (Some (block_packet (et_data tx) (unat (et_block_start tx)) (unat (et_next_sequence tx))),
            tx\<lparr>et_next_sequence := et_next_sequence tx + 1\<rparr>)"
    and "et_ok (tx\<lparr>et_next_sequence := et_next_sequence tx + 1\<rparr>)"
    and "unat (et_next_sequence tx + 1) = unat (et_next_sequence tx) + 1"
proof -
  let ?b = "unat (et_block_start tx)" and ?j = "unat (et_next_sequence tx)" and ?d = "et_data tx"
  let ?k = "?b + ?j - 2"
  from ok have b: "1 \<le> ?b" and j: "1 \<le> ?j" and fits: "?b + unat (et_block_packets tx) \<le> unat (et_packets tx) + 1"
    and n: "unat (et_packets tx) = (length ?d + 6) div 7" and l: "length ?d \<le> 117440505"
    unfolding et_ok_def by blast+
  have bp: "unat (et_block_packets tx) < 256" by (rule unat_u8_lt)
  have k2: "?k + 2 = ?b + ?j" using b j by simp
  have k1: "?k + 1 \<le> unat (et_packets tx)" using k2 more fits by linarith
  have off: "?k * 7 < length ?d" using k1 n by linarith
  have small: "unat (et_packets tx) \<le> 16777215" using n l by linarith
  have u: "unat (ucast (et_next_sequence tx) :: u32) = ?j" by (simp add: unat_ucast_widen)
  have sum: "?b + ?j < 2 ^ 32" using k2 k1 small by simp
  have beyond: "unat (et_block_start tx + ucast (et_next_sequence tx)) = ?b + ?j"
    using unat_add_no_wrap [of "et_block_start tx" "ucast (et_next_sequence tx)"] u sum by simp
  have add: "checked_add (et_block_start tx) (ucast (et_next_sequence tx)) = Some (et_block_start tx + ucast (et_next_sequence tx))"
    using u sum by (simp add: checked_add_def)
  let ?abs = "et_block_start tx + ucast (et_next_sequence tx) - 1"
  have le1: "1 \<le> et_block_start tx + ucast (et_next_sequence tx)"
    unfolding word_le_nat_alt beyond using b by simp
  have abs: "unat ?abs = ?k + 1" using unat_sub_no_wrap [OF le1] beyond k2 by simp
  have sub: "checked_sub (et_block_start tx + ucast (et_next_sequence tx)) 1 = Some ?abs"
    using le1 by (rule checked_sub_defined)
  have inside: "\<not> ?abs > et_packets tx" using abs k1 by (simp add: word_less_nat_alt)
  have open_block: "\<not> (et_block_packets tx = 0 \<or> et_next_sequence tx > ucast (et_block_packets tx))"
    using more j by (auto simp: word_less_nat_alt unat_ucast_widen word_unat_eq_iff)
  have sl: "slice (?k * 7) (min (?k * 7 + 7) (length ?d)) ?d = Some (take 7 (drop (?k * 7) ?d))"
    using off by (auto simp: slice_def min_def)
  have nx: "checked_add (et_next_sequence tx) 1 = Some (et_next_sequence tx + 1)"
    using more bp by (intro checked_add_defined) simp
  show "unat (et_next_sequence tx + 1) = ?j + 1"
    using unat_add_no_wrap [of "et_next_sequence tx" 1] more bp by simp
  then show "et_ok (tx\<lparr>et_next_sequence := et_next_sequence tx + 1\<rparr>)"
    using ok more unfolding et_ok_def by simp
  have seq: "(ucast (et_next_sequence tx) :: u8) = word_of_nat ?j" by (rule ucast_word_of_unat)
  show "et_next_packet tx = Some (Some (block_packet ?d ?b ?j), tx\<lparr>et_next_sequence := et_next_sequence tx + 1\<rparr>)"
    unfolding et_next_packet_def if_not_P [OF open_block] block_packet_def seq [symmetric]
    using add sub inside abs sl nx by (simp add: checked_usize_sub_def BYTES_PER_PACKET_def Let_def add.commute)
qed

lemma et_next_packet_None:
  assumes "et_ok tx" and "unat (et_block_packets tx) < unat (et_next_sequence tx)"
  shows "et_next_packet tx = Some (None, tx)"
  using assms(2) by (simp add: et_next_packet_def word_less_nat_alt unat_ucast_widen)

fun et_drain :: "nat \<Rightarrow> etp_transmitter \<Rightarrow> (etp_dt list \<times> etp_transmitter) option" where
  "et_drain 0 tx = None"
| "et_drain (Suc fuel) tx =
     do { (p, tx1) \<leftarrow> et_next_packet tx;
          case p of
            None \<Rightarrow> Some ([], tx1)
          | Some d \<Rightarrow> do { (ds, tx2) \<leftarrow> et_drain fuel tx1; Some (d # ds, tx2) } }"

lemma et_drain_block:
  assumes "et_ok tx" and "unat (et_block_packets tx) + 1 < fuel + unat (et_next_sequence tx)"
  obtains tx1 where "et_drain fuel tx =
      Some (map (block_packet (et_data tx) (unat (et_block_start tx))) [unat (et_next_sequence tx) ..< unat (et_block_packets tx) + 1], tx1)"
    and "et_ok tx1" and "tx1 = tx\<lparr>et_next_sequence := et_next_sequence tx1\<rparr>"
  using assms
proof (induction fuel arbitrary: tx thesis)
  case 0
  then show ?case by (simp add: et_ok_def)
next
  case (Suc fuel)
  show ?case
  proof (cases "unat (et_next_sequence tx) \<le> unat (et_block_packets tx)")
    case False
    then have "et_next_packet tx = Some (None, tx)" using et_next_packet_None [OF Suc.prems(2)] by simp
    moreover have "[unat (et_next_sequence tx) ..< unat (et_block_packets tx) + 1] = []" using False by simp
    ultimately show ?thesis using Suc.prems(1) [of tx] Suc.prems(2) by simp
  next
    case True
    let ?tx = "tx\<lparr>et_next_sequence := et_next_sequence tx + 1\<rparr>"
    note step = et_next_packet_Some [OF Suc.prems(2) True]
    have fuel: "unat (et_block_packets ?tx) + 1 < fuel + unat (et_next_sequence ?tx)" using Suc.prems(3) step(3) by simp
    obtain tx1 where r: "et_drain fuel ?tx =
        Some (map (block_packet (et_data ?tx) (unat (et_block_start ?tx))) [unat (et_next_sequence ?tx) ..< unat (et_block_packets ?tx) + 1], tx1)"
      "et_ok tx1" "tx1 = ?tx\<lparr>et_next_sequence := et_next_sequence tx1\<rparr>"
      by (rule Suc.IH [OF _ step(2) fuel])
    have up: "[unat (et_next_sequence tx) ..< unat (et_block_packets tx) + 1] =
        unat (et_next_sequence tx) # [unat (et_next_sequence tx) + 1 ..< unat (et_block_packets tx) + 1]"
      using True by (simp add: upt_conv_Cons del: upt_Suc)
    have "et_drain (Suc fuel) tx =
        Some (map (block_packet (et_data tx) (unat (et_block_start tx))) [unat (et_next_sequence tx) ..< unat (et_block_packets tx) + 1], tx1)"
      unfolding up using step(1) r(1) by (simp add: step(3) del: upt_Suc)
    then show ?thesis by (rule Suc.prems(1)) (use r(2,3) in simp_all)
  qed
qed

end
