(* ===== verification/Etp_Transfer.thy ===== *)
theory Etp_Transfer
  imports Etp_Receive Etp_Send Tp_Transfer
begin

text \<open>
  Whole transfers of the extended transport protocol: the transmitter of \<^verbatim>\<open>core/src/etp.rs\<close> against
  its reassembler. Every block is a CTS of the receiver, the offset message of the transmitter, and
  the packets; the last packet brings the message and its acknowledgement.
\<close>

section \<open>One packet\<close>

text \<open>The transfer of \<open>data\<close> when packet \<open>j\<close> of the block from packet \<open>b\<close> is expected, both from 1.\<close>

definition etp_transfer_at :: "bytes \<Rightarrow> pgn \<Rightarrow> nat \<Rightarrow> nat \<Rightarrow> bool \<Rightarrow> u16 \<Rightarrow> etp_transfer" where
  "etp_transfer_at data p b j opened i =
     \<lparr>ex_pgn = p, ex_size = length data, ex_data = take ((b + j - 2) * 7) data, ex_block = b,
      ex_opened = opened, ex_idle = i\<rparr>"

definition block_len :: "bytes \<Rightarrow> nat \<Rightarrow> nat" where
  "block_len data b = min 255 (message_packets data - b + 1)"

lemma etp_transfer_at_sel [simp]:
  "ex_pgn (etp_transfer_at data p b j opened i) = p" "ex_size (etp_transfer_at data p b j opened i) = length data"
  "ex_block (etp_transfer_at data p b j opened i) = b" "ex_opened (etp_transfer_at data p b j opened i) = opened"
  "ex_data (etp_transfer_at data p b j opened i) = take ((b + j - 2) * 7) data"
  "ex_block_len (etp_transfer_at data p b j opened i) = block_len data b"
  by (simp_all add: etp_transfer_at_def ex_block_len_def ex_packets_def block_len_def message_packets_def)

lemma etp_transfer_at_expected:
  assumes "1 \<le> b" and "1 \<le> j" and "b + j \<le> message_packets data + 1"
  shows "ex_expected (etp_transfer_at data p b j opened i) = j"
proof -
  have "(b + j - 2) * 7 \<le> length data" using assms unfolding message_packets_def by linarith
  then have "length (take ((b + j - 2) * 7) data) div 7 = b + j - 2" by (simp add: min_def)
  then show ?thesis using assms(1,2) by (simp add: etp_transfer_at_def ex_expected_def del: length_take)
qed

lemma cts_of_transfer_at:
  "cts_of (etp_transfer_at data p b j opened i) = ECts (word_of_nat (block_len data b)) (word_of_nat b) p"
  by (simp add: cts_of_def)

lemma etp_transfer_at_updates:
  "(etp_transfer_at data p b (Suc j) opened i)\<lparr>ex_block := b + j, ex_opened := False\<rparr>
      = etp_transfer_at data p (b + j) (Suc 0) False i"
  "(etp_transfer_at data p b j opened i)\<lparr>ex_data := take ((b + j - Suc 0) * 7) data, ex_idle := 0\<rparr>
      = etp_transfer_at data p b (Suc j) opened 0"
  by (simp_all add: etp_transfer_at_def)

text \<open>The offset of the block opens it; a packet in order is taken, and the last of its block asks for the next.\<close>

lemma spec_on_offset:
  assumes m: "m a = Some (etp_transfer_at data p b 1 False i)" and b: "1 \<le> b"
    and w: "unat w = block_len data b" "unat offset + 1 = b"
  shows "spec_etp_step N K (EtpCmIn a (EDpo w offset p)) m = ((ErIdle, {}), m(a \<mapsto> etp_transfer_at data p b 1 True 0))"
proof -
  have "take ((b - 1) * 7) (take ((b + 1 - 2) * 7) data) = take ((b + 1 - 2) * 7) data" using b by simp
  then have "(etp_transfer_at data p b 1 False i)\<lparr>ex_data := take ((b - 1) * 7) (take ((b + 1 - 2) * 7) data),
      ex_opened := True, ex_idle := 0\<rparr> = etp_transfer_at data p b 1 True 0"
    by (simp only: etp_transfer_at_def etp_transfer.update_convs)
  then show ?thesis using m w by simp
qed

lemma spec_on_block_packet:
  assumes m: "m a = Some (etp_transfer_at data p b j True i)"
    and b: "1 \<le> b" "1 \<le> j" "j \<le> block_len data b" "b \<le> message_packets data"
  shows "b + j = message_packets data + 1 \<Longrightarrow> spec_etp_step N K (EtpDtIn a (block_packet data b j)) m =
      ((ErMessage p a data (EEoma (word_of_nat (length data)) p), {}), m(a := None))"
    and "b + j \<noteq> message_packets data + 1 \<Longrightarrow> j = block_len data b \<Longrightarrow>
      spec_etp_step N K (EtpDtIn a (block_packet data b j)) m =
      ((ErSend (ECts (word_of_nat (block_len data (b + j))) (word_of_nat (b + j)) p), {}),
       m(a \<mapsto> etp_transfer_at data p (b + j) 1 False 0))"
    and "b + j \<noteq> message_packets data + 1 \<Longrightarrow> j \<noteq> block_len data b \<Longrightarrow>
      spec_etp_step N K (EtpDtIn a (block_packet data b j)) m =
      ((ErIdle, {}), m(a \<mapsto> etp_transfer_at data p b (j + 1) True 0))"
proof -
  let ?t = "etp_transfer_at data p b j True i"
  have within: "b + j \<le> message_packets data + 1" using b unfolding block_len_def by linarith
  have j256: "j < 256" using b(3) unfolding block_len_def by linarith
  have q: "unat (dt_sequence (block_packet data b j)) = ex_expected ?t"
    using j256 by (simp add: block_packet_sequence etp_transfer_at_expected [OF b(1,2) within] unat_word_of_nat)
  note expected = etp_transfer_at_expected [OF b(1,2) within, of p True i]
  have last: "length (take ((b + j - 1) * 7) data) = length data \<longleftrightarrow> b + j = message_packets data + 1"
    using last_packet_iff [of "b + j - 1" data] within b(1) by (simp del: length_take) linarith
  note data = block_packet_data [OF b(1,2), of data]
  have core: "spec_etp_step N K (EtpDtIn a (block_packet data b j)) m =
      (if length (take ((b + j - 1) * 7) data) = length data
       then ((ErMessage p a (take ((b + j - 1) * 7) data) (EEoma (word_of_nat (length data)) p), {}), m(a := None))
       else if j = block_len data b then
         ((ErSend (cts_of (etp_transfer_at data p (b + j) 1 False 0)), {}), m(a \<mapsto> etp_transfer_at data p (b + j) 1 False 0))
       else ((ErIdle, {}), m(a \<mapsto> etp_transfer_at data p b (j + 1) True 0)))"
    using m q by (simp add: spec_etp_dt_def expected data Let_def etp_transfer_at_updates del: length_take take_append)
  have step: "spec_etp_step N K (EtpDtIn a (block_packet data b j)) m =
      (if b + j = message_packets data + 1 then ((ErMessage p a data (EEoma (word_of_nat (length data)) p), {}), m(a := None))
       else if j = block_len data b then
         ((ErSend (cts_of (etp_transfer_at data p (b + j) 1 False 0)), {}), m(a \<mapsto> etp_transfer_at data p (b + j) 1 False 0))
       else ((ErIdle, {}), m(a \<mapsto> etp_transfer_at data p b (j + 1) True 0)))"
  proof (cases "b + j = message_packets data + 1")
    case True
    with last have all: "take ((b + j - 1) * 7) data = data" by simp
    show ?thesis unfolding core all using True by simp
  next
    case False
    with last have more: "length (take ((b + j - 1) * 7) data) \<noteq> length data" by blast
    show ?thesis unfolding core using False more by (simp del: length_take)
  qed
  show "b + j = message_packets data + 1 \<Longrightarrow> spec_etp_step N K (EtpDtIn a (block_packet data b j)) m =
      ((ErMessage p a data (EEoma (word_of_nat (length data)) p), {}), m(a := None))"
    using step by simp
  show "b + j \<noteq> message_packets data + 1 \<Longrightarrow> j = block_len data b \<Longrightarrow>
      spec_etp_step N K (EtpDtIn a (block_packet data b j)) m =
      ((ErSend (ECts (word_of_nat (block_len data (b + j))) (word_of_nat (b + j)) p), {}),
       m(a \<mapsto> etp_transfer_at data p (b + j) 1 False 0))"
    using step by (simp add: cts_of_transfer_at)
  show "b + j \<noteq> message_packets data + 1 \<Longrightarrow> j \<noteq> block_len data b \<Longrightarrow>
      spec_etp_step N K (EtpDtIn a (block_packet data b j)) m =
      ((ErIdle, {}), m(a \<mapsto> etp_transfer_at data p b (j + 1) True 0))"
    using step by simp
qed

section \<open>A block\<close>

text \<open>The packets of a block: all idle but the last, which brings the CTS of the next block or the message.\<close>

lemma block_run:
  assumes "m a = Some (etp_transfer_at data p b j True i)" and "1 \<le> b" and "b \<le> message_packets data"
    and "1 \<le> j" and "j \<le> block_len data b"
  shows "run_spec (spec_etp_step N K) (map (\<lambda>j. EtpDtIn a (block_packet data b j)) [j ..< block_len data b + 1]) m =
    (if b + block_len data b = message_packets data + 1
     then (replicate (block_len data b - j) (ErIdle, {}) @ [(ErMessage p a data (EEoma (word_of_nat (length data)) p), {})],
           m(a := None))
     else (replicate (block_len data b - j) (ErIdle, {}) @
             [(ErSend (ECts (word_of_nat (block_len data (b + block_len data b))) (word_of_nat (b + block_len data b)) p), {})],
           m(a \<mapsto> etp_transfer_at data p (b + block_len data b) 1 False 0)))"
  using assms
proof (induction "block_len data b - j" arbitrary: m j i)
  case 0
  then have j: "j = block_len data b" by simp
  have one: "[block_len data b ..< block_len data b + 1] = [block_len data b]" by simp
  note step = spec_on_block_packet [where m = m, OF 0(2,3,5,6,4)]
  show ?case
    unfolding j one list.map run_spec.simps
    by (cases "b + block_len data b = message_packets data + 1") (use step(1,2) j in simp_all)
next
  case (Suc d)
  from Suc(2) have lt: "j < block_len data b" by simp
  then have more: "b + j \<noteq> message_packets data + 1"
    using Suc(5) unfolding block_len_def by (intro notI) linarith
  have up: "[j ..< block_len data b + 1] = j # [j + 1 ..< block_len data b + 1]"
    using lt by (simp add: upt_conv_Cons del: upt_Suc)
  let ?m1 = "m(a \<mapsto> etp_transfer_at data p b (j + 1) True 0)"
  have st: "spec_etp_step N K (EtpDtIn a (block_packet data b j)) m = ((ErIdle, {}), ?m1)"
    by (rule spec_on_block_packet(3) [where m = m, OF Suc(3,4,6,7,5) more]) (use lt in simp)
  have d: "d = block_len data b - (j + 1)" using Suc(2) by simp
  have rep: "replicate (block_len data b - j) x = x # replicate (block_len data b - (j + 1)) x" for x :: etp_output
    using Suc(2) d by (metis replicate_Suc)
  have at: "?m1 a = Some (etp_transfer_at data p b (j + 1) True 0)" by simp
  have bounds: "1 \<le> j + 1" "j + 1 \<le> block_len data b" using lt by simp_all
  show ?case
    unfolding up list.map run_spec.simps st Let_def prod.case Suc.hyps(1) [where m = ?m1, OF d at Suc(4,5) bounds] rep fun_upd_upd
    by simp
qed

section \<open>The conversation\<close>

text \<open>
  The receiver's CTS goes to the transmitter, its offset message and packets go to the receiver, and
  so on until the message is out. A round moves at least one packet.
\<close>

definition etp_last_answer :: "etp_output list \<Rightarrow> etp_rx" where
  "etp_last_answer outs = (if outs = [] then ErIdle else fst (last outs))"

fun etp_converse :: "nat \<Rightarrow> nat \<Rightarrow> address \<Rightarrow> etp_rx \<Rightarrow> etp_transmitter \<Rightarrow> etp_reassembler \<Rightarrow>
  ((pgn \<times> address \<times> bytes) \<times> etp_transmitter \<times> etp_reassembler) option" where
  "etp_converse 0 N a answer tx r = None"
| "etp_converse (Suc fuel) N a (ErSend cm) tx r =
     do { (t, tx1) \<leftarrow> et_on_cm cm tx;
          if t = TxSendData then
            do { (dpo, tx2) \<leftarrow> et_offset tx1;
                 (packets, tx3) \<leftarrow> et_drain 256 tx2;
                 (outs, r1) \<leftarrow> run_machine (etp_step N)
                   ((case dpo of None \<Rightarrow> [] | Some c \<Rightarrow> [EtpCmIn a c]) @ map (EtpDtIn a) packets) r;
                 etp_converse fuel N a (etp_last_answer outs) tx3 r1 }
          else None }"
| "etp_converse (Suc fuel) N a (ErMessage p s d ack) tx r =
     do { (t, tx1) \<leftarrow> et_on_cm ack tx; Some ((p, s, d), tx1, r) }"
| "etp_converse (Suc fuel) N a ErIdle tx r = None"

definition etp_send :: "nat \<Rightarrow> address \<Rightarrow> etp_transmitter \<Rightarrow> etp_reassembler \<Rightarrow>
  ((pgn \<times> address \<times> bytes) \<times> etp_transmitter \<times> etp_reassembler) option" where
  "etp_send N a tx r =
     do { (answer, r1) \<leftarrow> etp_on_cm N a (et_start tx) r;
          etp_converse (message_packets (et_data tx) + 2) N a answer tx r1 }"

lemma etp_last_answerI: "outs = xs @ [(out, calls)] \<Longrightarrow> etp_last_answer outs = out"
  by (simp add: etp_last_answer_def)

text \<open>One round: the CTS of a block is answered by its offset and its packets.\<close>

lemma etp_round:
  assumes ok: "et_ok tx" and n: "unat (et_packets tx) = message_packets (et_data tx)"
    and b: "1 \<le> b" "b \<le> message_packets (et_data tx)"
  obtains tx1 tx2 tx3 dpo where
    "et_on_cm (ECts (word_of_nat (block_len (et_data tx) b)) (word_of_nat b) (et_pgn tx)) tx = Some (TxSendData, tx1)"
    and "et_offset tx1 = Some (Some dpo, tx2)"
    and "et_drain 256 tx2 = Some (map (block_packet (et_data tx) b) [1 ..< block_len (et_data tx) b + 1], tx3)"
    and "et_ok tx3" and "et_data tx3 = et_data tx" and "et_pgn tx3 = et_pgn tx" and "et_packets tx3 = et_packets tx"
    and "\<exists>w offset. dpo = EDpo w offset (et_pgn tx) \<and> unat w = block_len (et_data tx) b \<and> unat offset + 1 = b"
proof -
  let ?B = "block_len (et_data tx) b" and ?w = "word_of_nat (block_len (et_data tx) b) :: u8" and ?k = "word_of_nat b :: u32"
  have B: "1 \<le> ?B" "?B \<le> 255" by (simp_all add: block_len_def)
  have small: "message_packets (et_data tx) \<le> 16777215" using ok n unfolding et_ok_def by linarith
  have uw: "unat ?w = ?B" using B by (simp add: unat_word_of_nat)
  have uk: "unat ?k = b" using b(2) small by (simp add: unat_word_of_nat)
  have w0: "?w \<noteq> 0" using uw B(1) by auto
  obtain tx1 where t1: "et_on_cm (ECts ?w ?k (et_pgn tx)) tx = Some (TxSendData, tx1)" "et_ok tx1"
    and e1: "tx1 = tx\<lparr>et_block_start := ?k, et_block_packets := et_block_packets tx1, et_offset_sent := False, et_next_sequence := 1\<rparr>"
    and n1: "unat (et_block_packets tx1) = min (min 255 (unat (et_packets tx) - unat ?k + 1)) (unat ?w)"
    by (rule et_on_cts [OF ok w0, of ?k]) (use uk n b in simp_all)
  have "min 255 (message_packets (et_data tx) - b + 1) = ?B" by (simp only: block_len_def)
  with n1 have bp: "unat (et_block_packets tx1) = ?B" unfolding uk uw n by simp
  then have nz: "et_block_packets tx1 \<noteq> 0" using B(1) by auto
  have sent: "\<not> et_offset_sent tx1" by (subst e1, simp)
  have f: "et_data tx1 = et_data tx" "et_pgn tx1 = et_pgn tx" "et_packets tx1 = et_packets tx" "et_block_start tx1 = ?k"
    "et_next_sequence tx1 = 1"
    by (subst e1, simp)+
  note first = et_offset_first [OF t1(2) nz sent]
  let ?tx2 = "tx1\<lparr>et_offset_sent := True\<rparr>"
  have ok2: "et_ok ?tx2" using t1(2) by (simp add: et_ok_def)
  have fuel: "unat (et_block_packets ?tx2) + 1 < 256 + unat (et_next_sequence ?tx2)" using bp B(2) f(5) by simp
  obtain tx3 where t3: "et_drain 256 ?tx2 = Some (map (block_packet (et_data ?tx2) (unat (et_block_start ?tx2)))
      [unat (et_next_sequence ?tx2) ..< unat (et_block_packets ?tx2) + 1], tx3)" "et_ok tx3"
    and e3: "tx3 = ?tx2\<lparr>et_next_sequence := et_next_sequence tx3\<rparr>"
    by (rule et_drain_block [OF ok2 fuel])
  have d3: "et_drain 256 ?tx2 = Some (map (block_packet (et_data tx) b) [1 ..< ?B + 1], tx3)"
    using t3(1) f bp uk by (simp del: upt_Suc)
  have f3: "et_data tx3 = et_data tx" "et_pgn tx3 = et_pgn tx" "et_packets tx3 = et_packets tx"
    using f by (subst e3, simp)+
  show thesis
    by (rule that [OF t1(1) first(1) d3 t3(2) f3]) (use first(2) bp uk f in auto)
qed

lemma etp_converse_completes:
  assumes "etp_table_ok N K r" and "et_ok tx" and "et_pgn tx = p" and "et_data tx = data" and "Pgn_ok p"
    and "unat (et_packets tx) = message_packets data"
    and "etp_receiver_of r a = Some (etp_transfer_at data p b 1 False 0)"
    and "1 \<le> b" and "b \<le> message_packets data" and "message_packets data + 2 < b + fuel"
  shows "\<exists>tx1 r1. etp_converse fuel N a (ErSend (ECts (word_of_nat (block_len data b)) (word_of_nat b) p)) tx r =
      Some ((p, a, data), tx1, r1) \<and>
    et_complete tx1 \<and> etp_table_ok N K r1 \<and> etp_receiver_of r1 = (etp_receiver_of r)(a := None)"
  using assms
proof (induction fuel arbitrary: tx r b)
  case 0
  then show ?case by simp
next
  case (Suc fuel)
  note p = Suc.prems(3) and data = Suc.prems(4)
  let ?B = "block_len data b" and ?m = "etp_receiver_of r"
  obtain tx1 tx2 tx3 dpo where t: "et_on_cm (ECts (word_of_nat ?B) (word_of_nat b) p) tx = Some (TxSendData, tx1)"
      "et_offset tx1 = Some (Some dpo, tx2)" "et_drain 256 tx2 = Some (map (block_packet data b) [1 ..< ?B + 1], tx3)"
    and t3: "et_ok tx3" "et_data tx3 = data" "et_pgn tx3 = p" "et_packets tx3 = et_packets tx"
    and dpo: "\<exists>w offset. dpo = EDpo w offset p \<and> unat w = ?B \<and> unat offset + 1 = b"
    using etp_round [OF Suc.prems(2) _ Suc.prems(8)] Suc.prems(6,9) p data by metis
  obtain w offset where d: "dpo = EDpo w offset p" "unat w = ?B" "unat offset + 1 = b" using dpo by blast
  have small: "message_packets data \<le> 16777215" using Suc.prems(2,6) data unfolding et_ok_def by linarith
  let ?es = "EtpCmIn a dpo # map (EtpDtIn a) (map (block_packet data b) [1 ..< ?B + 1])"
  have adm: "list_all etp_admissible ?es"
    using d(3) Suc.prems(5,9) small by (simp add: d(1) EtpCm_ok_def list_all_iff)
  obtain outs r1 where run: "run_machine (etp_step N) ?es r = Some (outs, r1)" and r1: "etp_table_ok N K r1"
    and spec: "run_spec (spec_etp_step N K) ?es ?m = (outs, etp_receiver_of r1)"
    using etp_receiving.run_refines [OF Suc.prems(1) adm] by blast
  have B: "1 \<le> ?B" by (simp add: block_len_def)
  let ?m1 = "?m(a \<mapsto> etp_transfer_at data p b 1 True 0)"
  have opened: "spec_etp_step N K (EtpCmIn a dpo) ?m = ((ErIdle, {}), ?m1)"
    unfolding d(1) by (rule spec_on_offset [where m = ?m, OF Suc.prems(7,8) d(2,3)])
  have events: "map (EtpDtIn a) (map (block_packet data b) xs) = map (\<lambda>j. EtpDtIn a (block_packet data b j)) xs" for xs
    by simp
  have at: "?m1 a = Some (etp_transfer_at data p b 1 True 0)" by simp
  note block = block_run [where m = ?m1 and N = N and K = K, OF at Suc.prems(8,9) le_refl B]
  have step: "etp_converse (Suc fuel) N a (ErSend (ECts (word_of_nat ?B) (word_of_nat b) p)) tx r =
      etp_converse fuel N a (etp_last_answer outs) tx3 r1"
    using t run by (simp del: upt_Suc map_map run_machine.simps)
  show ?case
  proof (cases "b + ?B = message_packets data + 1")
    case True
    from spec block True have outs: "outs = ((ErIdle, {}) # replicate (?B - 1) (ErIdle, {})) @
        [(ErMessage p a data (EEoma (word_of_nat (length data)) p), {})]"
      and m1: "etp_receiver_of r1 = ?m(a := None)"
      by (simp_all add: opened events del: upt_Suc map_map spec_etp_step.simps)
    obtain f where f: "fuel = Suc f" using Suc.prems(10) Suc.prems(9) by (cases fuel) simp_all
    have "et_on_cm (EEoma (word_of_nat (length data)) p) tx3 = Some (TxComplete, tx3\<lparr>et_complete := True\<rparr>)"
      by (simp add: et_on_cm_def t3)
    then show ?thesis unfolding step unfolding etp_last_answerI [OF outs] f m1 [symmetric] using r1 by simp
  next
    case False
    have within: "b + ?B \<le> message_packets data"
      using False Suc.prems(9) unfolding block_len_def by linarith
    from spec block False have outs: "outs = ((ErIdle, {}) # replicate (?B - 1) (ErIdle, {})) @
        [(ErSend (ECts (word_of_nat (block_len data (b + ?B))) (word_of_nat (b + ?B)) p), {})]"
      and m1: "etp_receiver_of r1 = ?m(a \<mapsto> etp_transfer_at data p (b + ?B) 1 False 0)"
      by (simp_all add: opened events del: upt_Suc map_map spec_etp_step.simps)
    have at1: "etp_receiver_of r1 a = Some (etp_transfer_at data p (b + ?B) 1 False 0)" by (simp add: m1)
    have "\<exists>tx1 r2. etp_converse fuel N a (ErSend (ECts (word_of_nat (block_len data (b + ?B))) (word_of_nat (b + ?B)) p)) tx3 r1 =
        Some ((p, a, data), tx1, r2) \<and>
      et_complete tx1 \<and> etp_table_ok N K r2 \<and> etp_receiver_of r2 = (etp_receiver_of r1)(a := None)"
      by (rule Suc.IH [OF r1 t3(1,3,2) Suc.prems(5) _ at1 _ within])
        (use Suc.prems(6,8,10) t3(4) B in simp_all)
    then show ?thesis unfolding step etp_last_answerI [OF outs] m1 fun_upd_upd .
  qed
qed

text \<open>A message of the protocol that fits the receiver's buffer arrives whole, and its sender is told so.\<close>

lemma etp_delivered:
  assumes r: "etp_table_ok N K r" and p: "Pgn_ok p" and tx: "EtpTransmitter_new p data = Inr tx"
    and N: "length data \<le> N" and new: "etp_receiver_of r a = None" and room: "free_slot r \<noteq> None"
  shows "\<exists>tx1 r1. etp_send N a tx r = Some ((p, a, data), tx1, r1) \<and> et_complete tx1 \<and>
    etp_table_ok N K r1 \<and> etp_receiver_of r1 = etp_receiver_of r"
proof -
  have ok: "etp_ok N r" and K: "length r = K" using r by (simp_all add: etp_table_ok_def)
  have t: "1786 \<le> length data" "length data \<le> 117440505" "et_ok tx" "et_pgn tx = p" "et_data tx = data"
    "unat (et_packets tx) = message_packets data"
    by (rule et_new_cases [of data p]; use tx in \<open>simp add: message_packets_def\<close>)+
  let ?sz = "word_of_nat (length data) :: u32"
  have u: "unat ?sz = length data" using t(2) by (simp add: unat_word_of_nat)
  have full: "card (dom (etp_receiver_of r)) \<noteq> K" using etp_full [OF ok] room K by simp
  have new_at: "spec_etp_new p ?sz = etp_transfer_at data p 1 1 False 0"
    by (simp add: spec_etp_new_def etp_transfer_at_def u)
  have cm: "et_start tx = ERts ?sz p" using t by (simp add: et_start_def)
  have adm: "etp_admissible (EtpCmIn a (ERts ?sz p))" using p by (simp add: EtpCm_ok_def)
  obtain out r1 where step: "etp_step N (EtpCmIn a (ERts ?sz p)) r = Some (out, r1)" and r1: "etp_table_ok N K r1"
    and spec: "spec_etp_step N K (EtpCmIn a (ERts ?sz p)) (etp_receiver_of r) = (out, etp_receiver_of r1)"
    using etp_step_refines [OF r adm] by blast
  have out: "out = (ErSend (ECts (word_of_nat (block_len data 1)) (word_of_nat 1) p), {})"
    and m1: "etp_receiver_of r1 = (etp_receiver_of r)(a \<mapsto> etp_transfer_at data p 1 1 False 0)"
    using spec t(1,2) N new full by (simp_all add: u new_at cts_of_transfer_at)
  have "\<exists>tx1 r2. etp_converse (message_packets data + 2) N a
      (ErSend (ECts (word_of_nat (block_len data 1)) (word_of_nat 1) p)) tx r1 = Some ((p, a, data), tx1, r2) \<and>
    et_complete tx1 \<and> etp_table_ok N K r2 \<and> etp_receiver_of r2 = (etp_receiver_of r1)(a := None)"
  proof (rule etp_converse_completes [OF r1 t(3,4,5) p t(6)])
    show "etp_receiver_of r1 a = Some (etp_transfer_at data p 1 1 False 0)" by (simp add: m1)
    show "1 \<le> message_packets data" using t(1) unfolding message_packets_def by linarith
  qed simp_all
  moreover have "etp_on_cm N a (ERts ?sz p) r = Some (ErSend (ECts (word_of_nat (block_len data 1)) (word_of_nat 1) p), r1)"
    using step out by (auto split: Option.bind_splits prod.splits)
  moreover have "(etp_receiver_of r)(a := None) = etp_receiver_of r" using new by (simp add: fun_upd_idem)
  ultimately show ?thesis using t(5) m1 by (simp add: etp_send_def cm)
qed

end
