(* ===== verification/Memory_Access.thy ===== *)
theory Memory_Access
  imports Can_Frame
begin

text \<open>
  Memory access, \<^verbatim>\<open>core/src/memory_access.rs\<close>: the DM14 request, the DM15 response and the DM16
  data transfer. DM14 and DM15 share a byte that packs the top of an 11-bit count with two small
  fields; DM16 is a counted block padded to a frame.
\<close>

section \<open>Fields\<close>

definition MAX_BYTE_COUNT :: u16 where "MAX_BYTE_COUNT = 0x07FF"
definition MAX_POINTER :: u32 where "MAX_POINTER = 0x00FFFFFF"
definition MAX_EDC_PARAMETER :: u32 where "MAX_EDC_PARAMETER = 0x00FFFFFF"

datatype memory_command =
    MemErase | MemRead | MemWrite | MemStatusRequest
  | MemOperationCompleted | MemOperationFailed | MemBootLoad | MemEdcpGeneration

primrec MemoryCommand_as_u8 :: "memory_command \<Rightarrow> u8" where
  "MemoryCommand_as_u8 MemErase = 0"
| "MemoryCommand_as_u8 MemRead = 1"
| "MemoryCommand_as_u8 MemWrite = 2"
| "MemoryCommand_as_u8 MemStatusRequest = 3"
| "MemoryCommand_as_u8 MemOperationCompleted = 4"
| "MemoryCommand_as_u8 MemOperationFailed = 5"
| "MemoryCommand_as_u8 MemBootLoad = 6"
| "MemoryCommand_as_u8 MemEdcpGeneration = 7"

definition MemoryCommand_from_u8 :: "u8 \<Rightarrow> memory_command" where
  "MemoryCommand_from_u8 raw =
     (let r = raw AND 7 in
      if r = 0 then MemErase else if r = 1 then MemRead else if r = 2 then MemWrite
      else if r = 3 then MemStatusRequest else if r = 4 then MemOperationCompleted
      else if r = 5 then MemOperationFailed else if r = 6 then MemBootLoad else MemEdcpGeneration)"

datatype pointer_type = JoinWithExtension | ExtensionIsCommand

primrec PointerType_as_bit :: "pointer_type \<Rightarrow> u8" where
  "PointerType_as_bit JoinWithExtension = 0"
| "PointerType_as_bit ExtensionIsCommand = 1"

definition PointerType_from_bit :: "u8 \<Rightarrow> pointer_type" where
  "PointerType_from_bit b = (if b AND 1 = 1 then ExtensionIsCommand else JoinWithExtension)"

definition KEY_NONE :: u16 where "KEY_NONE = 0xFFFF"
definition SEED_NO_KEY_USED :: u16 where "SEED_NO_KEY_USED = 0xFFFF"

datatype memory_status = MemProceed | MemBusy | MemCompleted | MemFailed | MemOther u8

primrec MemoryStatus_as_u8 :: "memory_status \<Rightarrow> u8" where
  "MemoryStatus_as_u8 MemProceed = 0"
| "MemoryStatus_as_u8 MemBusy = 1"
| "MemoryStatus_as_u8 MemCompleted = 4"
| "MemoryStatus_as_u8 MemFailed = 5"
| "MemoryStatus_as_u8 (MemOther raw) = raw AND 7"

definition MemoryStatus_from_u8 :: "u8 \<Rightarrow> memory_status" where
  "MemoryStatus_from_u8 raw =
     (let r = raw AND 7 in
      if r = 0 then MemProceed else if r = 1 then MemBusy else if r = 4 then MemCompleted
      else if r = 5 then MemFailed else MemOther r)"

definition pack_count_and_command :: "u16 \<Rightarrow> u8 \<Rightarrow> u8 \<Rightarrow> u8" where
  "pack_count_and_command count type_bit command =
     (ucast (drop_bit 3 count) AND 0xE0) OR push_bit 4 (type_bit AND 1) OR push_bit 1 (command AND 7) OR 1"

definition unpack_count :: "u8 \<Rightarrow> u8 \<Rightarrow> u16" where
  "unpack_count low packed = push_bit 3 (ucast (packed AND 0xE0)) OR ucast low"

text \<open>The three fields of the packed byte, each read back alone.\<close>

lemma unpack_count_pack:
  assumes "unat c < 2 ^ 11"
  shows "unpack_count (ucast c) (pack_count_and_command c t k) = c"
proof -
  have "\<forall>n. 11 \<le> n \<longrightarrow> \<not> bit c n" using not_bit_of_less_pow [OF assms] by blast
  then show ?thesis by (simp add: unpack_count_def pack_count_and_command_def word_bits)
qed

lemma command_of_pack: "drop_bit 1 (pack_count_and_command c t k) AND 7 = k AND 7"
  by (simp add: pack_count_and_command_def word_bits del: push_bit_Suc)

lemma type_bit_of_pack: "drop_bit 4 (pack_count_and_command c t k) AND 1 = t AND 1"
  by (simp add: pack_count_and_command_def word_bits del: push_bit_Suc)

lemma pack_of_fields:
  "pack_count_and_command (unpack_count low b) (drop_bit 4 b) (drop_bit 1 b) = b OR 1"
  by (simp add: unpack_count_def pack_count_and_command_def word_bits numeral_2_eq_2 [symmetric] del: push_bit_Suc)

lemma pack_masks:
  "pack_count_and_command c (t AND 1) k = pack_count_and_command c t k"
  "pack_count_and_command c t (k AND 7) = pack_count_and_command c t k"
  by (simp_all add: pack_count_and_command_def word_bits del: push_bit_Suc)

lemma unpack_count_low: "ucast (unpack_count low b) = low"
  by (simp add: unpack_count_def word_bits)

lemma unpack_count_bound: "unat (unpack_count low b) < 2 ^ 11"
proof -
  have "take_bit 11 (unpack_count low b) = unpack_count low b" by (simp add: unpack_count_def word_bits)
  then have "unat (unpack_count low b) = unat (unpack_count low b) mod 2 ^ 11" by (metis unat_take_bit)
  then show ?thesis by (metis mod_less_divisor zero_less_numeral zero_less_power)
qed

lemma MemoryCommand_from_masked: "MemoryCommand_from_u8 (x AND 7) = MemoryCommand_from_u8 x"
  by (simp add: MemoryCommand_from_u8_def)

lemma MemoryCommand_from_as [simp]: "MemoryCommand_from_u8 (MemoryCommand_as_u8 c) = c"
  by (cases c) (simp_all add: MemoryCommand_from_u8_def)

lemma word_and_7_cases:
  fixes x :: u8
  obtains "x AND 7 = 0" | "x AND 7 = 1" | "x AND 7 = 2" | "x AND 7 = 3"
    | "x AND 7 = 4" | "x AND 7 = 5" | "x AND 7 = 6" | "x AND 7 = 7"
proof -
  have m: "x AND 7 = take_bit 3 x" by (simp add: word_bits)
  have "unat (x AND 7) < 8" unfolding m by (simp add: unat_take_bit)
  then have "unat (x AND 7) \<in> {0,1,2,3,4,5,6,7}" by auto
  then show thesis using that by (auto simp: word_unat_eq_iff)
qed

lemma MemoryCommand_as_from [simp]: "MemoryCommand_as_u8 (MemoryCommand_from_u8 x) = x AND 7"
  by (rule word_and_7_cases [of x]) (simp_all add: MemoryCommand_from_u8_def)

interpretation memory_command: packed_code MemoryCommand_as_u8 MemoryCommand_from_u8 7
  by unfold_locales (simp_all add: MemoryCommand_from_masked)

lemma PointerType_bits [simp]:
  "PointerType_from_bit (PointerType_as_bit t) = t" "PointerType_as_bit (PointerType_from_bit b) = b AND 1"
  "PointerType_from_bit (b AND 1) = PointerType_from_bit b"
proof -
  show "PointerType_from_bit (PointerType_as_bit t) = t" by (cases t) (simp_all add: PointerType_from_bit_def)
  have "b AND 1 = 0 \<or> b AND 1 = 1" by (metis and_one_eq mod2_eq_if)
  then show "PointerType_as_bit (PointerType_from_bit b) = b AND 1" by (auto simp: PointerType_from_bit_def)
  show "PointerType_from_bit (b AND 1) = PointerType_from_bit b" by (simp add: PointerType_from_bit_def)
qed

text \<open>A status as the decoder builds it.\<close>

definition MemoryStatus_ok :: "memory_status \<Rightarrow> bool" where
  "MemoryStatus_ok s = (MemoryStatus_from_u8 (MemoryStatus_as_u8 s) = s)"

lemma MemoryStatus_as_from [simp]: "MemoryStatus_as_u8 (MemoryStatus_from_u8 x) = x AND 7"
  by (rule word_and_7_cases [of x]) (simp_all add: MemoryStatus_from_u8_def)

lemma MemoryStatus_from_masked: "MemoryStatus_from_u8 (x AND 7) = MemoryStatus_from_u8 x"
  by (simp add: MemoryStatus_from_u8_def)

interpretation memory_status: packed_code MemoryStatus_as_u8 MemoryStatus_from_u8 7
  by unfold_locales (simp_all add: MemoryStatus_from_masked)

section \<open>DM14: the request\<close>

record dm14 =
  dm14_requested_bytes :: u16
  dm14_command :: memory_command
  dm14_pointer_type :: pointer_type
  dm14_pointer :: u32
  dm14_pointer_extension :: u8
  dm14_key :: u16

definition Dm14_new :: "u16 \<Rightarrow> memory_command \<Rightarrow> u32 \<Rightarrow> dm14 j1939_result" where
  "Dm14_new requested_bytes command pointer =
     (if requested_bytes > MAX_BYTE_COUNT then Inl (ValueOutOfRange ''requested_bytes'' (ucast requested_bytes))
      else if pointer > MAX_POINTER then Inl (ValueOutOfRange ''pointer'' pointer)
      else Inr \<lparr>dm14_requested_bytes = requested_bytes, dm14_command = command, dm14_pointer_type = JoinWithExtension,
                dm14_pointer = pointer, dm14_pointer_extension = 0, dm14_key = KEY_NONE\<rparr>)"

definition Dm14_with_pointer_extension :: "dm14 \<Rightarrow> u8 \<Rightarrow> dm14" where
  "Dm14_with_pointer_extension d extension =
     d\<lparr>dm14_pointer_extension := extension, dm14_pointer_type := ExtensionIsCommand\<rparr>"

definition Dm14_with_key :: "dm14 \<Rightarrow> u16 \<Rightarrow> dm14" where
  "Dm14_with_key d key = d\<lparr>dm14_key := key\<rparr>"

definition Dm14_encode :: "dm14 \<Rightarrow> bytes" where
  "Dm14_encode d =
     [ucast (dm14_requested_bytes d),
      pack_count_and_command (dm14_requested_bytes d) (PointerType_as_bit (dm14_pointer_type d))
        (MemoryCommand_as_u8 (dm14_command d)),
      byte_at 0 (dm14_pointer d), byte_at 1 (dm14_pointer d), byte_at 2 (dm14_pointer d),
      dm14_pointer_extension d, byte_at 0 (dm14_key d), byte_at 1 (dm14_key d)]"

definition Dm14_decode :: "bytes \<Rightarrow> dm14" where
  "Dm14_decode data =
     \<lparr>dm14_requested_bytes = unpack_count (data ! 0) (data ! 1),
      dm14_command = MemoryCommand_from_u8 (drop_bit 1 (data ! 1)),
      dm14_pointer_type = PointerType_from_bit (drop_bit 4 (data ! 1)),
      dm14_pointer = u32_of3 (data ! 2) (data ! 3) (data ! 4),
      dm14_pointer_extension = data ! 5, dm14_key = u16_of (data ! 6) (data ! 7)\<rparr>"

definition Dm14_ok :: "dm14 \<Rightarrow> bool" where
  "Dm14_ok d \<longleftrightarrow> unat (dm14_requested_bytes d) < 2 ^ 11 \<and> unat (dm14_pointer d) < 2 ^ 24"

lemma Dm14_new_ok: "Dm14_new n c p = Inr d \<Longrightarrow> Dm14_ok d"
  by (auto simp: Dm14_new_def Dm14_ok_def MAX_BYTE_COUNT_def MAX_POINTER_def unat_iffs split: if_splits)

lemma Dm14_new_Inl:
  "(\<exists>e. Dm14_new n c p = Inl e) \<longleftrightarrow> 2 ^ 11 \<le> unat n \<or> 2 ^ 24 \<le> unat p"
  by (auto simp: Dm14_new_def MAX_BYTE_COUNT_def MAX_POINTER_def unat_iffs)

lemma Dm14_with_ok [simp]:
  "Dm14_ok (Dm14_with_pointer_extension d x) = Dm14_ok d" "Dm14_ok (Dm14_with_key d k) = Dm14_ok d"
  by (simp_all add: Dm14_ok_def Dm14_with_pointer_extension_def Dm14_with_key_def)

lemma Dm14_decode_encode:
  assumes "Dm14_ok d"
  shows "Dm14_decode (Dm14_encode d) = d"
proof -
  from assms have b: "unat (dm14_requested_bytes d) < 2 ^ 11" and p: "unat (dm14_pointer d) < 2 ^ 24"
    by (simp_all add: Dm14_ok_def)
  let ?p = "pack_count_and_command (dm14_requested_bytes d) (PointerType_as_bit (dm14_pointer_type d))
        (MemoryCommand_as_u8 (dm14_command d))"
  have "MemoryCommand_from_u8 (drop_bit 1 ?p) = dm14_command d"
    by (rule memory_command.written_bits [OF command_of_pack MemoryCommand_from_as])
  moreover have "PointerType_from_bit (drop_bit 4 ?p) = dm14_pointer_type d"
    by (metis PointerType_bits(1,3) type_bit_of_pack)
  ultimately show ?thesis
    using unpack_count_pack [OF b] mask24_id [OF p]
    by (simp add: Dm14_decode_def Dm14_encode_def u32_of3_bytes)
qed

interpretation dm14_format: frame_format Dm14_encode "\<lambda>d. Inr (Dm14_decode d)" Dm14_ok 8
  by unfold_locales (simp_all add: Dm14_decode_encode, simp add: Dm14_encode_def)

lemma u32_of3_bound: "unat (u32_of3 a b c) < 2 ^ 24"
proof -
  have "take_bit 24 (u32_of3 a b c) = u32_of3 a b c" by (simp add: u32_of3_def word_bits)
  then have "unat (u32_of3 a b c) = unat (u32_of3 a b c) mod 2 ^ 24" by (metis unat_take_bit)
  then show ?thesis by (metis mod_less_divisor zero_less_numeral zero_less_power)
qed

text \<open>Decoding loses only the reserved bit, which is set in what is sent.\<close>

lemma Dm14_encode_decode:
  assumes "length data = 8"
  shows "Dm14_encode (Dm14_decode data) = data[1 := data ! 1 OR 1]" and "Dm14_ok (Dm14_decode data)"
proof -
  obtain a b c d e f g h where data: "data = [a, b, c, d, e, f, g, h]" by (rule length_8_cases [OF assms])
  have "pack_count_and_command (unpack_count a b) (drop_bit 4 b AND 1) (drop_bit 1 b AND 7) = b OR 1"
    unfolding pack_masks by (rule pack_of_fields)
  then show "Dm14_encode (Dm14_decode data) = data[1 := data ! 1 OR 1]"
    by (simp add: data Dm14_encode_def Dm14_decode_def unpack_count_low)
  show "Dm14_ok (Dm14_decode data)"
    using unpack_count_bound u32_of3_bound by (simp add: Dm14_ok_def Dm14_decode_def)
qed

section \<open>DM15: the response\<close>

record dm15 =
  dm15_allowed_bytes :: u16
  dm15_status :: memory_status
  dm15_edc_parameter :: u32
  dm15_edcp_extension :: u8
  dm15_seed :: u16

definition Dm15_new :: "u16 \<Rightarrow> memory_status \<Rightarrow> dm15 j1939_result" where
  "Dm15_new allowed_bytes status =
     (if allowed_bytes > MAX_BYTE_COUNT then Inl (ValueOutOfRange ''allowed_bytes'' (ucast allowed_bytes))
      else Inr \<lparr>dm15_allowed_bytes = allowed_bytes, dm15_status = status, dm15_edc_parameter = 0,
                dm15_edcp_extension = 0xFF, dm15_seed = SEED_NO_KEY_USED\<rparr>)"

definition Dm15_encode :: "dm15 \<Rightarrow> bytes" where
  "Dm15_encode d =
     [ucast (dm15_allowed_bytes d),
      pack_count_and_command (dm15_allowed_bytes d) 1 (MemoryStatus_as_u8 (dm15_status d)),
      byte_at 0 (dm15_edc_parameter d), byte_at 1 (dm15_edc_parameter d), byte_at 2 (dm15_edc_parameter d),
      dm15_edcp_extension d, byte_at 0 (dm15_seed d), byte_at 1 (dm15_seed d)]"

definition Dm15_decode :: "bytes \<Rightarrow> dm15" where
  "Dm15_decode data =
     \<lparr>dm15_allowed_bytes = unpack_count (data ! 0) (data ! 1),
      dm15_status = MemoryStatus_from_u8 (drop_bit 1 (data ! 1)),
      dm15_edc_parameter = u32_of3 (data ! 2) (data ! 3) (data ! 4),
      dm15_edcp_extension = data ! 5, dm15_seed = u16_of (data ! 6) (data ! 7)\<rparr>"

definition Dm15_ok :: "dm15 \<Rightarrow> bool" where
  "Dm15_ok d \<longleftrightarrow> unat (dm15_allowed_bytes d) < 2 ^ 11 \<and> unat (dm15_edc_parameter d) < 2 ^ 24 \<and>
     MemoryStatus_ok (dm15_status d)"

lemma Dm15_new_ok: "Dm15_new n s = Inr d \<Longrightarrow> MemoryStatus_ok s \<Longrightarrow> Dm15_ok d"
  by (auto simp: Dm15_new_def Dm15_ok_def MAX_BYTE_COUNT_def unat_iffs split: if_splits)

lemma Dm15_decode_encode:
  assumes "Dm15_ok d"
  shows "Dm15_decode (Dm15_encode d) = d"
proof -
  from assms have b: "unat (dm15_allowed_bytes d) < 2 ^ 11" and p: "unat (dm15_edc_parameter d) < 2 ^ 24"
    and s: "MemoryStatus_ok (dm15_status d)"
    by (simp_all add: Dm15_ok_def)
  let ?p = "pack_count_and_command (dm15_allowed_bytes d) 1 (MemoryStatus_as_u8 (dm15_status d))"
  have "MemoryStatus_from_u8 (drop_bit 1 ?p) = dm15_status d"
    by (rule memory_status.written_bits [OF command_of_pack]) (use s in \<open>simp add: MemoryStatus_ok_def\<close>)
  then show ?thesis
    using unpack_count_pack [OF b] mask24_id [OF p]
    by (simp add: Dm15_decode_def Dm15_encode_def u32_of3_bytes)
qed

interpretation dm15_format: frame_format Dm15_encode "\<lambda>d. Inr (Dm15_decode d)" Dm15_ok 8
  by unfold_locales (simp_all add: Dm15_decode_encode, simp add: Dm15_encode_def)

section \<open>DM16: the data\<close>

record dm16 =
  dm16_data :: bytes

definition MAX_DATA :: nat where "MAX_DATA = 255"

definition Dm16_new :: "bytes \<Rightarrow> dm16 j1939_result" where
  "Dm16_new data =
     (if length data > MAX_DATA then Inl (ValueOutOfRange ''dm16 data length'' (word_of_nat (length data)))
      else Inr \<lparr>dm16_data = data\<rparr>)"

definition Dm16_encoded_len :: "dm16 \<Rightarrow> nat" where
  "Dm16_encoded_len d = max (1 + length (dm16_data d)) 8"

definition Dm16_parse :: "bytes \<Rightarrow> dm16 j1939_result" where
  "Dm16_parse payload =
     (case payload of
        [] \<Rightarrow> Inl (ShortPayload 1 0)
      | count # rest \<Rightarrow>
          if length rest < unat count then Inl (ShortPayload (unat count + 1) (length payload))
          else Inr \<lparr>dm16_data = take (unat count) rest\<rparr>)"

text \<open>The result, and the buffer \<open>out\<close> afterwards.\<close>

definition Dm16_encode_into :: "dm16 \<Rightarrow> bytes \<Rightarrow> (nat j1939_result \<times> bytes) option" where
  "Dm16_encode_into d out =
     (let len = Dm16_encoded_len d; n = length (dm16_data d) in
      if length out < len then Some (Inl (ShortPayload len (length out)), out)
      else
        do { out1 \<leftarrow> set_index 0 (word_of_nat n) out;
             out2 \<leftarrow> copy_from_slice 1 (1 + n) (dm16_data d) out1;
             out3 \<leftarrow> copy_from_slice (1 + n) len (replicate (len - (1 + n)) 0xFF) out2;
             Some (Inr len, out3) })"

definition Dm16_ok :: "dm16 \<Rightarrow> bool" where
  "Dm16_ok d \<longleftrightarrow> length (dm16_data d) \<le> 255"

lemma Dm16_new_ok: "Dm16_new data = Inr d \<Longrightarrow> Dm16_ok d \<and> dm16_data d = data"
  by (auto simp: Dm16_new_def Dm16_ok_def MAX_DATA_def split: if_splits)

lemma Dm16_parse_ok: "Dm16_parse payload = Inr d \<Longrightarrow> Dm16_ok d"
proof -
  assume "Dm16_parse payload = Inr d"
  then obtain c rest where "payload = c # rest" "dm16_data d = take (unat c) rest"
    by (auto simp: Dm16_parse_def split: list.splits if_splits)
  then show ?thesis using unat_u8_lt [of c] by (simp add: Dm16_ok_def)
qed

definition dm16_payload :: "dm16 \<Rightarrow> bytes" where
  "dm16_payload d = word_of_nat (length (dm16_data d)) # dm16_data d @ replicate (7 - length (dm16_data d)) 0xFF"

lemma length_dm16_payload [simp]: "length (dm16_payload d) = Dm16_encoded_len d"
  by (simp add: dm16_payload_def Dm16_encoded_len_def)

text \<open>Encoding never panics: it writes the payload at the front of the buffer, or refuses and writes nothing.\<close>

lemma Dm16_encode_eq:
  "Dm16_encode_into d out =
     (if length out < Dm16_encoded_len d then Some (Inl (ShortPayload (Dm16_encoded_len d) (length out)), out)
      else Some (Inr (Dm16_encoded_len d), dm16_payload d @ drop (Dm16_encoded_len d) out))"
proof (cases "length out < Dm16_encoded_len d")
  case True
  then show ?thesis by (simp add: Dm16_encode_into_def Let_def)
next
  case False
  let ?n = "length (dm16_data d)" and ?len = "Dm16_encoded_len d"
  let ?c = "word_of_nat (length (dm16_data d)) :: u8"
  have len: "1 + ?n \<le> ?len" "8 \<le> ?len" "?len - (1 + ?n) = 7 - ?n" by (auto simp: Dm16_encoded_len_def)
  from False len obtain x rest where out: "out = x # rest" and rest: "?len \<le> Suc (length rest)"
    by (cases out) auto
  have s1: "set_index 0 ?c out = Some (?c # rest)" by (simp add: out set_index_def)
  have s2: "copy_from_slice 1 (1 + ?n) (dm16_data d) (?c # rest) = Some (?c # dm16_data d @ drop ?n rest)"
    using len rest by (simp add: copy_from_slice_def write_slice_def)
  have s3: "copy_from_slice (1 + ?n) ?len (replicate (?len - (1 + ?n)) 0xFF) (?c # dm16_data d @ drop ?n rest)
      = Some (dm16_payload d @ drop ?len out)"
  proof -
    have l: "7 - ?n + ?n = ?len - Suc 0" by (auto simp: Dm16_encoded_len_def)
    show ?thesis using len rest by (simp add: copy_from_slice_def write_slice_def dm16_payload_def out drop_Cons' l)
  qed
  show ?thesis using False s1 s2 s3 by (simp add: Dm16_encode_into_def Let_def)
qed

lemma Dm16_parse_payload:
  assumes "Dm16_ok d"
  shows "Dm16_parse (dm16_payload d @ rest) = Inr d"
proof -
  have "unat (word_of_nat (length (dm16_data d)) :: u8) = length (dm16_data d)"
    using assms by (intro unat_u8_of_nat) (simp add: Dm16_ok_def)
  then show ?thesis by (simp add: Dm16_parse_def dm16_payload_def)
qed

lemma Dm16_parse_encoded:
  assumes "Dm16_ok d" and "Dm16_encode_into d out = Some (Inr n, out1)"
  shows "Dm16_parse (take n out1) = Inr d" and "drop n out1 = drop n out" and "length out1 = length out"
  using assms Dm16_parse_payload [OF assms(1), of "[]"] by (auto simp: Dm16_encode_eq split: if_splits)

lemma Dm16_parse_cases:
  "Dm16_parse payload = (if payload = [] then Inl (ShortPayload 1 0)
     else if length payload < unat (hd payload) + 1 then Inl (ShortPayload (unat (hd payload) + 1) (length payload))
     else Inr \<lparr>dm16_data = take (unat (hd payload)) (tl payload)\<rparr>)"
  by (auto simp: Dm16_parse_def split: list.split)

end
