(* ===== verification/Identification.thy ===== *)
theory Identification
  imports J1939_Types
begin

text \<open>
  Identification messages, \<^verbatim>\<open>core/src/identification.rs\<close>: fields terminated by an asterisk, the
  iterator that splits them, the writer, and the three messages made of them. \<open>None\<close> of the outer
  option is a panic.
\<close>

section \<open>Splitting\<close>

definition DELIMITER :: u8 where "DELIMITER = 0x2A"

text \<open>One call of the iterator: the item, and what is left.\<close>

definition fields_next :: "bytes \<Rightarrow> bytes option \<times> bytes" where
  "fields_next rest =
     (if rest = [] then (None, rest)
      else (case position (\<lambda>byte. byte = DELIMITER) rest of
              Some index \<Rightarrow> (Some (take index rest), drop (index + 1) rest)
            | None \<Rightarrow> (Some rest, [])))"

lemma fields_next_shorter: "fields_next rest = (Some f, more) \<Longrightarrow> length more < length rest"
  by (auto simp: fields_next_def split: if_splits option.splits)

function split_fields :: "bytes \<Rightarrow> bytes list" where
  "split_fields data = (case fields_next data of (None, _) \<Rightarrow> [] | (Some f, rest) \<Rightarrow> f # split_fields rest)"
  by pat_completeness auto
termination
  by (relation "measure length") (auto dest: fields_next_shorter [OF sym])

declare split_fields.simps [simp del]

definition id_field :: "bytes \<Rightarrow> nat \<Rightarrow> bytes option" where
  "id_field data index = at_index (split_fields data) index"

text \<open>
  \<^verbatim>\<open>core::str::from_utf8\<close>: the byte sequences of Unicode scalar values, without overlong forms and
  surrogates.
\<close>

definition continuation :: "u8 \<Rightarrow> bool" where
  "continuation b \<longleftrightarrow> 0x80 \<le> b \<and> b \<le> 0xBF"

fun utf8 :: "bytes \<Rightarrow> bool" where
  "utf8 [] = True"
| "utf8 (a # s) =
     (if a < 0x80 then utf8 s
      else if 0xC2 \<le> a \<and> a \<le> 0xDF then
        (case s of b # s1 \<Rightarrow> continuation b \<and> utf8 s1 | _ \<Rightarrow> False)
      else if 0xE0 \<le> a \<and> a \<le> 0xEF then
        (case s of b # c # s1 \<Rightarrow> continuation b \<and> continuation c \<and> (a = 0xE0 \<longrightarrow> 0xA0 \<le> b) \<and>
            (a = 0xED \<longrightarrow> b \<le> 0x9F) \<and> utf8 s1 | _ \<Rightarrow> False)
      else if 0xF0 \<le> a \<and> a \<le> 0xF4 then
        (case s of b # c # d # s1 \<Rightarrow> continuation b \<and> continuation c \<and> continuation d \<and>
            (a = 0xF0 \<longrightarrow> 0x90 \<le> b) \<and> (a = 0xF4 \<longrightarrow> b \<le> 0x8F) \<and> utf8 s1 | _ \<Rightarrow> False)
      else False)"

definition id_field_str :: "bytes \<Rightarrow> nat \<Rightarrow> bytes option" where
  "id_field_str data index =
     do { f \<leftarrow> id_field data index; if utf8 f then Some f else None }"

lemma utf8_ascii: "\<forall>b \<in> set s. b < 0x80 \<Longrightarrow> utf8 s"
  by (induction s) simp_all

section \<open>Writing\<close>

text \<open>The loop over the values: what is written so far and the buffer.\<close>

fun write_fields :: "bytes list \<Rightarrow> nat \<Rightarrow> bytes \<Rightarrow> (nat \<times> bytes) option" where
  "write_fields [] written out = Some (written, out)"
| "write_fields (value # values) written out =
     do { out1 \<leftarrow> copy_from_slice written (written + length value) value out;
          out2 \<leftarrow> set_index (written + length value) DELIMITER out1;
          write_fields values (written + length value + 1) out2 }"

definition id_encode :: "bytes list \<Rightarrow> bytes \<Rightarrow> (nat j1939_result \<times> bytes) option" where
  "id_encode values out =
     (let needed = sum_list (map (\<lambda>value. length value + 1) values) in
      if length out < needed then Some (Inl (ShortPayload needed (length out)), out)
      else do { (written, out1) \<leftarrow> write_fields values 0 out; Some (Inr written, out1) })"

text \<open>The bytes of a list of fields.\<close>

definition joined :: "bytes list \<Rightarrow> bytes" where
  "joined values = concat (map (\<lambda>v. v @ [DELIMITER]) values)"

lemma joined_simps [simp]: "joined [] = []" "joined (v # vs) = v @ DELIMITER # joined vs"
  by (simp_all add: joined_def)

lemma length_joined: "length (joined vs) = sum_list (map (\<lambda>v. length v + 1) vs)"
  by (induction vs) simp_all

lemma write_fields_eq:
  assumes "w + length (joined vs) \<le> length out"
  shows "write_fields vs w out = Some (w + length (joined vs), write_slice w (joined vs) out)"
  using assms
proof (induction vs arbitrary: w out)
  case Nil
  then show ?case by (simp add: write_slice_def)
next
  case (Cons v vs)
  let ?o1 = "write_slice w v out"
  let ?o2 = "?o1[w + length v := DELIMITER]"
  have l1: "length ?o1 = length out" using Cons.prems by simp
  have w1: "w + length v < length ?o1" using l1 Cons.prems by simp
  have drop1: "drop (w + length v) ?o1 = drop (w + length v) out"
    using Cons.prems by (simp add: write_slice_def)
  have take1: "take (w + length v) ?o1 = take w out @ v"
    using Cons.prems by (intro take_write_slice) simp
  have take2: "take (w + length v + 1) ?o2 = take w out @ v @ [DELIMITER]"
    using w1 take1 by (simp add: take_Suc_conv_app_nth)
  have drop2: "drop (w + length v + 1 + n) ?o2 = drop (w + length v + 1 + n) out" for n
  proof -
    have "drop (w + length v + 1 + n) ?o2 = drop (w + length v + 1 + n) ?o1" by simp
    also have "\<dots> = drop (1 + n) (drop (w + length v) ?o1)" by (simp add: add.commute add.left_commute)
    also have "\<dots> = drop (w + length v + 1 + n) out" unfolding drop1 by (simp add: add.commute add.left_commute)
    finally show ?thesis .
  qed
  have "write_fields vs (w + length v + 1) ?o2 =
      Some (w + length v + 1 + length (joined vs), write_slice (w + length v + 1) (joined vs) ?o2)"
    by (rule Cons.IH) (use Cons.prems l1 in simp)
  moreover have "write_slice (w + length v + 1) (joined vs) ?o2 = write_slice w (joined (v # vs)) out"
    unfolding write_slice_def [of "w + length v + 1"] take2 drop2 by (simp add: write_slice_def add.assoc add.commute add.left_commute)
  moreover have "copy_from_slice w (w + length v) v out = Some ?o1"
    using Cons.prems by (simp add: copy_from_slice_def)
  moreover have "set_index (w + length v) DELIMITER ?o1 = Some ?o2"
    using w1 by (simp add: set_index_def)
  ultimately show ?case by (simp add: add.assoc)
qed

text \<open>Encoding never panics: the fields at the front of the buffer, or a refusal that writes nothing.\<close>

lemma id_encode_eq:
  "id_encode vs out =
     (if length out < length (joined vs) then Some (Inl (ShortPayload (length (joined vs)) (length out)), out)
      else Some (Inr (length (joined vs)), joined vs @ drop (length (joined vs)) out))"
  unfolding id_encode_def Let_def length_joined [symmetric]
  using write_fields_eq [of 0 vs out] by (simp add: write_slice_def)

section \<open>Round trips\<close>

lemma position_delimiter:
  "DELIMITER \<notin> set v \<Longrightarrow> position (\<lambda>byte. byte = DELIMITER) (v @ DELIMITER # rest) = Some (length v)"
  by (induction v) auto

lemma fields_Nil [simp]: "split_fields [] = []"
  by (subst split_fields.simps) (simp add: fields_next_def)

lemma fields_terminated: "DELIMITER \<notin> set v \<Longrightarrow> split_fields (v @ DELIMITER # rest) = v # split_fields rest"
  by (subst split_fields.simps) (simp add: fields_next_def position_delimiter)

lemma fields_last: "DELIMITER \<notin> set v \<Longrightarrow> v \<noteq> [] \<Longrightarrow> split_fields v = [v]"
proof -
  assume v: "DELIMITER \<notin> set v" "v \<noteq> []"
  then have "position (\<lambda>byte. byte = DELIMITER) v = None" by (auto simp: position_None)
  with v show ?thesis by (subst split_fields.simps) (simp add: fields_next_def)
qed

text \<open>Every message is its first field and the rest.\<close>

lemma fields_cases:
  obtains (Empty) "data = []"
  | (Last) "data \<noteq> []" "DELIMITER \<notin> set data"
  | (Field) v rest where "data = v @ DELIMITER # rest" "DELIMITER \<notin> set v"
  by (metis split_list_first)

text \<open>What was written is read back, field by field; an unterminated tail is a field of its own.\<close>

lemma fields_joined:
  assumes "\<forall>v \<in> set vs. DELIMITER \<notin> set v"
  shows "split_fields (joined vs @ tail) = vs @ split_fields tail"
  using assms by (induction vs) (simp_all add: fields_terminated)

lemma joined_fields: "joined (split_fields (data @ [DELIMITER])) = data @ [DELIMITER]"
proof (induction "length data" arbitrary: data rule: less_induct)
  case less
  show ?case
  proof (cases data rule: fields_cases)
    case Empty
    then show ?thesis using fields_terminated [of "[]" "[]"] by simp
  next
    case Last
    then show ?thesis using fields_terminated [of data "[]"] by simp
  next
    case (Field v rest)
    then have "joined (split_fields (rest @ [DELIMITER])) = rest @ [DELIMITER]" by (intro less) simp
    with Field fields_terminated [of v "rest @ [DELIMITER]"] show ?thesis by simp
  qed
qed

lemma fields_free: "v \<in> set (split_fields data) \<Longrightarrow> DELIMITER \<notin> set v"
proof (induction "length data" arbitrary: data rule: less_induct)
  case less
  show ?case
  proof (cases data rule: fields_cases)
    case (Field w rest)
    with less.prems fields_terminated [of w rest] less.hyps [of rest] show ?thesis by auto
  qed (use less.prems fields_last in auto)
qed

lemma length_fields: "length (split_fields data) \<le> length data"
proof (induction "length data" arbitrary: data rule: less_induct)
  case less
  show ?case
  proof (cases data rule: fields_cases)
    case (Field w rest)
    with fields_terminated [of w rest] less.hyps [of rest] show ?thesis by simp
  qed (use fields_last [of data] in \<open>auto simp: Suc_le_eq\<close>)
qed

lemma id_encode_fields:
  assumes "\<forall>v \<in> set vs. DELIMITER \<notin> set v" and "id_encode vs out = Some (Inr n, out1)"
  shows "split_fields (take n out1) = vs" and "n = length (joined vs)" and "drop n out1 = drop n out"
  using assms fields_joined [OF assms(1), of "[]"] by (auto simp: id_encode_eq split: if_splits)

section \<open>ECU and component identification\<close>

record identification =
  idn_data :: bytes

definition Identification_new :: "bytes \<Rightarrow> identification" where
  "Identification_new data = \<lparr>idn_data = data\<rparr>"

definition Identification_fields :: "identification \<Rightarrow> bytes list" where
  "Identification_fields d = split_fields (idn_data d)"

definition Identification_field_count :: "identification \<Rightarrow> nat" where
  "Identification_field_count d = length (Identification_fields d)"

text \<open>The accessors of the macro: the field of an index, as bytes and as text.\<close>

definition idn_accessor :: "nat \<Rightarrow> identification \<Rightarrow> bytes option" where
  "idn_accessor index d = id_field (idn_data d) index"

definition idn_accessor_str :: "nat \<Rightarrow> identification \<Rightarrow> bytes option" where
  "idn_accessor_str index d = id_field_str (idn_data d) index"

datatype ecu_field = EcuPartNumber | EcuSerialNumber | EcuLocation | EcuType | EcuManufacturerName

primrec EcuIdentification_index :: "ecu_field \<Rightarrow> nat" where
  "EcuIdentification_index EcuPartNumber = 0"
| "EcuIdentification_index EcuSerialNumber = 1"
| "EcuIdentification_index EcuLocation = 2"
| "EcuIdentification_index EcuType = 3"
| "EcuIdentification_index EcuManufacturerName = 4"

datatype component_field = ComponentMake | ComponentModel | ComponentSerialNumber | ComponentUnitNumber

primrec ComponentIdentification_index :: "component_field \<Rightarrow> nat" where
  "ComponentIdentification_index ComponentMake = 0"
| "ComponentIdentification_index ComponentModel = 1"
| "ComponentIdentification_index ComponentSerialNumber = 2"
| "ComponentIdentification_index ComponentUnitNumber = 3"

lemma accessor_some:
  "idn_accessor i d = Some v \<longleftrightarrow> i < Identification_field_count d \<and> v = Identification_fields d ! i"
  by (auto simp: idn_accessor_def id_field_def at_index_def Identification_field_count_def Identification_fields_def)

section \<open>Software identification\<close>

record software_identification =
  swi_declared :: u8
  swi_data :: bytes

definition SoftwareIdentification_parse :: "bytes \<Rightarrow> software_identification j1939_result" where
  "SoftwareIdentification_parse payload =
     (case payload of
        [] \<Rightarrow> Inl (ShortPayload 1 0)
      | declared # rest \<Rightarrow> Inr \<lparr>swi_declared = declared, swi_data = rest\<rparr>)"

definition SoftwareIdentification_fields :: "software_identification \<Rightarrow> bytes list" where
  "SoftwareIdentification_fields d = split_fields (swi_data d)"

definition SoftwareIdentification_field_count :: "software_identification \<Rightarrow> nat" where
  "SoftwareIdentification_field_count d = length (SoftwareIdentification_fields d)"

definition count_is_consistent :: "software_identification \<Rightarrow> bool" where
  "count_is_consistent d \<longleftrightarrow> SoftwareIdentification_field_count d = unat (swi_declared d)"

definition SoftwareIdentification_field :: "software_identification \<Rightarrow> nat \<Rightarrow> bytes option" where
  "SoftwareIdentification_field d index = id_field (swi_data d) index"

definition SoftwareIdentification_field_str :: "software_identification \<Rightarrow> nat \<Rightarrow> bytes option" where
  "SoftwareIdentification_field_str d index = id_field_str (swi_data d) index"

text \<open>The count byte is written before the fields are checked, so a refusal may leave it in the buffer.\<close>

definition SoftwareIdentification_encode :: "bytes list \<Rightarrow> bytes \<Rightarrow> (nat j1939_result \<times> bytes) option" where
  "SoftwareIdentification_encode values out =
     (if length values > 255 then
        Some (Inl (ValueOutOfRange ''software identification field count'' (word_of_nat (length values))), out)
      else if out = [] then Some (Inl (ShortPayload 1 0), out)
      else
        do { out1 \<leftarrow> set_index 0 (word_of_nat (length values)) out;
             (r, rest) \<leftarrow> id_encode values (drop 1 out1);
             Some (map_sum id (\<lambda>n. 1 + n) r, take 1 out1 @ rest) })"

lemma SoftwareIdentification_encode_eq:
  assumes "length vs \<le> 255" and "out \<noteq> []"
  shows "SoftwareIdentification_encode vs out =
    (if length out < 1 + length (joined vs)
     then Some (Inl (ShortPayload (length (joined vs)) (length out - 1)), word_of_nat (length vs) # tl out)
     else Some (Inr (1 + length (joined vs)),
       word_of_nat (length vs) # joined vs @ drop (1 + length (joined vs)) out))"
proof -
  from assms(2) obtain b rest where "out = b # rest" by (cases out) auto
  with assms(1) show ?thesis
    by (auto simp: SoftwareIdentification_encode_def set_index_def id_encode_eq)
qed

lemma SoftwareIdentification_encodes:
  "(\<exists>k out1. SoftwareIdentification_encode vs out = Some (Inr k, out1)) \<longleftrightarrow>
     length vs \<le> 255 \<and> 1 + length (joined vs) \<le> length out"
proof (cases "length vs \<le> 255 \<and> out \<noteq> []")
  case True
  then show ?thesis by (auto simp: SoftwareIdentification_encode_eq)
next
  case False
  then show ?thesis by (auto simp: SoftwareIdentification_encode_def)
qed

lemma SoftwareIdentification_roundtrip:
  assumes vs: "\<forall>v \<in> set vs. DELIMITER \<notin> set v"
    and enc: "SoftwareIdentification_encode vs out = Some (Inr n, out1)"
  shows "\<exists>d. SoftwareIdentification_parse (take n out1) = Inr d \<and> SoftwareIdentification_fields d = vs \<and>
    count_is_consistent d"
proof -
  have l: "length vs \<le> 255" and ne: "out \<noteq> []"
    using enc by (auto simp: SoftwareIdentification_encode_def split: if_splits)
  have "take n out1 = word_of_nat (length vs) # joined vs"
    using enc SoftwareIdentification_encode_eq [OF l ne] by (auto split: if_splits)
  moreover have "unat (word_of_nat (length vs) :: u8) = length vs" using l by (intro unat_u8_of_nat) simp
  moreover have "split_fields (joined vs) = vs" using fields_joined [OF vs, of "[]"] by simp
  ultimately show ?thesis
    by (simp add: SoftwareIdentification_parse_def SoftwareIdentification_fields_def count_is_consistent_def
        SoftwareIdentification_field_count_def)
qed

end
