(* ===== verification/Signals.thy ===== *)
theory Signals
  imports Pgn Complex_Main
begin

text \<open>
  Signals, \<^verbatim>\<open>core/src/spn.rs\<close>: the position of a parameter in a payload, its extraction bit by bit,
  the classification of raw values into data and status codes, and the catalogue of parameters per
  group. The scaling \<^verbatim>\<open>raw as f32 * resolution + offset\<close> is 32-bit floating point; it is the argument
  \<open>scale\<close>, and the literals of the catalogue are the exact rationals written in the source. An
  overflow or an index out of range is \<open>None\<close>.
\<close>

section \<open>Parameters\<close>

definition MAX_BIT_LENGTH :: u16 where "MAX_BIT_LENGTH = 32"

definition bit_position :: "u16 \<Rightarrow> u16 \<Rightarrow> u16 option" where
  "bit_position byte b =
     do { byte0 \<leftarrow> checked_sub byte 1; base \<leftarrow> checked_mul byte0 8; bit0 \<leftarrow> checked_sub b 1; checked_add base bit0 }"

datatype 'f spn_value = SpnValid 'f | SpnError | SpnNotAvailable | SpnReserved

definition SpnValue_value :: "'f spn_value \<Rightarrow> 'f option" where
  "SpnValue_value v = (case v of SpnValid x \<Rightarrow> Some x | _ \<Rightarrow> None)"

definition SpnValue_is_valid :: "'f spn_value \<Rightarrow> bool" where
  "SpnValue_is_valid v = (case v of SpnValid _ \<Rightarrow> True | _ \<Rightarrow> False)"

datatype raw_value = RawValid u32 | RawError | RawNotAvailable | RawReserved

record 'f spn =
  sp_number :: u32
  sp_name :: string
  sp_start_bit :: u16
  sp_bit_length :: u16
  sp_resolution :: 'f
  sp_offset :: 'f
  sp_unit :: string

definition Spn_new :: "u32 \<Rightarrow> string \<Rightarrow> u16 \<Rightarrow> u16 \<Rightarrow> 'f \<Rightarrow> 'f \<Rightarrow> string \<Rightarrow> 'f spn" where
  "Spn_new number name start_bit bit_length resolution offset unit =
     \<lparr>sp_number = number, sp_name = name, sp_start_bit = start_bit, sp_bit_length = bit_length,
      sp_resolution = resolution, sp_offset = offset, sp_unit = unit\<rparr>"

definition required_len :: "'f spn \<Rightarrow> nat" where
  "required_len s = div_ceil (unat (sp_start_bit s) + unat (sp_bit_length s)) 8"

section \<open>Classification\<close>

definition classify_byte :: "u32 \<Rightarrow> u32 \<Rightarrow> raw_value" where
  "classify_byte msb raw =
     (if msb \<le> 0xFA then RawValid raw else if msb \<le> 0xFD then RawReserved
      else if msb = 0xFE then RawError else RawNotAvailable)"

definition classify :: "u32 \<Rightarrow> u16 \<Rightarrow> raw_value option" where
  "classify raw bit_length =
     (if bit_length = 1 then Some (RawValid raw)
      else if bit_length = 2 then
        Some (if raw = 0 \<or> raw = 1 then RawValid raw else if raw = 2 then RawError else RawNotAvailable)
      else if bit_length = 4 then
        Some (if raw \<le> 0xA then RawValid raw else if raw \<le> 0xD then RawReserved
              else if raw = 0xE then RawError else RawNotAvailable)
      else if bit_length = 8 then Some (classify_byte raw raw)
      else if bit_length = 3 \<or> 5 \<le> bit_length \<and> bit_length \<le> 7 then
        (let highest = push_bit (unat bit_length) 1 - 1
         in Some (if raw = highest then RawNotAvailable else if raw = highest - 1 then RawError else RawValid raw))
      else
        do { shift \<leftarrow> checked_sub bit_length 8;
             if unat shift < 32 then Some (classify_byte (drop_bit (unat shift) raw) raw) else None })"

lemma classify_defined:
  assumes "1 \<le> unat n" and "unat n \<le> 32"
  shows "\<exists>v. classify raw n = Some v"
proof (cases "unat n \<le> 8")
  case True
  with assms(1) have "unat n \<in> {1,2,3,4,5,6,7,8}" by auto
  then have "n = 1 \<or> n = 2 \<or> n = 3 \<or> n = 4 \<or> n = 5 \<or> n = 6 \<or> n = 7 \<or> n = 8" by (auto simp: word_unat_eq_iff)
  then show ?thesis by (elim disjE) (simp_all add: classify_def Let_def)
next
  case False
  then have "checked_sub n 8 = Some (n - 8)" "unat (n - 8) < 32"
    using assms(2) unat_sub_no_wrap [of 8 n] by (simp_all add: checked_sub_def word_le_nat_alt)
  then show ?thesis by (simp add: classify_def Let_def)
qed

lemma classify_valid: "classify raw n = Some (RawValid x) \<Longrightarrow> x = raw"
  by (auto simp: classify_def classify_byte_def Let_def split: if_splits Option.bind_splits)

text \<open>From eight bits on the most significant byte decides: data up to 0xFA, then reserved, error, not available.\<close>

lemma classify_wide:
  assumes n: "8 \<le> unat n" "unat n \<le> 32"
  shows "classify raw n = Some
    (if unat raw div 2 ^ (unat n - 8) \<le> 0xFA then RawValid raw
     else if unat raw div 2 ^ (unat n - 8) \<le> 0xFD then RawReserved
     else if unat raw div 2 ^ (unat n - 8) = 0xFE then RawError else RawNotAvailable)"
proof (cases "n = 8")
  case True
  then show ?thesis by (simp add: classify_def classify_byte_def unat_iffs)
next
  case False
  have sub: "checked_sub n 8 = Some (n - 8)" "unat (n - 8) = unat n - 8" "unat (n - 8) < 32"
    using n unat_sub_no_wrap [of 8 n] by (simp_all add: checked_sub_def word_le_nat_alt)
  have ne: "n \<noteq> 1" "n \<noteq> 2" "n \<noteq> 3" "n \<noteq> 4" "\<not> n \<le> 7" using n False by (auto simp: word_le_nat_alt)
  have "classify raw n = Some (classify_byte (drop_bit (unat n - 8) raw) raw)"
    using sub ne False by (simp add: classify_def)
  then show ?thesis by (simp add: classify_byte_def unat_iffs unat_drop_bit)
qed

section \<open>Extraction\<close>

text \<open>The loop over the bits of the field.\<close>

fun read_bits :: "u16 \<Rightarrow> bytes \<Rightarrow> nat list \<Rightarrow> u32 \<Rightarrow> u32 option" where
  "read_bits start data [] raw = Some raw"
| "read_bits start data (i # is) raw =
     do { index \<leftarrow> checked_add start (word_of_nat i);
          byte \<leftarrow> at_index data (unat index div 8);
          let b = drop_bit (unat index mod 8) byte AND 1;
          read_bits start data is (raw OR push_bit i (ucast b)) }"

definition Spn_extract :: "'f spn \<Rightarrow> bytes \<Rightarrow> raw_value j1939_result option" where
  "Spn_extract s data =
     (if sp_bit_length s = 0 \<or> sp_bit_length s > MAX_BIT_LENGTH then
        Some (Inl (ValueOutOfRange ''spn bit_length'' (ucast (sp_bit_length s))))
      else if length data < required_len s then Some (Inl (ShortPayload (required_len s) (length data)))
      else
        do { raw \<leftarrow> read_bits (sp_start_bit s) data [0 ..< unat (sp_bit_length s)] 0;
             v \<leftarrow> classify raw (sp_bit_length s);
             Some (Inr v) })"

definition Spn_decode :: "(u32 \<Rightarrow> 'f \<Rightarrow> 'f \<Rightarrow> 'f) \<Rightarrow> 'f spn \<Rightarrow> bytes \<Rightarrow> 'f spn_value j1939_result option" where
  "Spn_decode scale s data =
     do { r \<leftarrow> Spn_extract s data;
          Some (map_sum id (\<lambda>v. case v of
              RawValid raw \<Rightarrow> SpnValid (scale raw (sp_resolution s) (sp_offset s))
            | RawError \<Rightarrow> SpnError | RawNotAvailable \<Rightarrow> SpnNotAvailable | RawReserved \<Rightarrow> SpnReserved) r) }"

text \<open>The payload as one number, first byte lowest, and a field of it.\<close>

fun le_value :: "bytes \<Rightarrow> nat" where
  "le_value [] = 0"
| "le_value (b # bs) = unat b + 256 * le_value bs"

definition field_value :: "nat \<Rightarrow> nat \<Rightarrow> bytes \<Rightarrow> nat" where
  "field_value start n data = le_value data div 2 ^ start mod 2 ^ n"

lemma bit_le_value: "bit (le_value data) k \<longleftrightarrow> k div 8 < length data \<and> bit (data ! (k div 8)) (k mod 8)"
proof (induction data arbitrary: k)
  case Nil
  then show ?case by simp
next
  case (Cons b bs)
  have e: "le_value (b # bs) = unat b + 2 ^ 8 * le_value bs" by simp
  have lo: "take_bit 8 (le_value (b # bs)) = unat b"
    using unat_u8_lt [of b] by (simp add: take_bit_eq_mod)
  have hi: "drop_bit 8 (le_value (b # bs)) = le_value bs"
    using unat_u8_lt [of b] by (simp add: drop_bit_eq_div)
  show ?case
  proof (cases "k < 8")
    case True
    have "bit (le_value (b # bs)) k = bit (take_bit 8 (le_value (b # bs))) k" using True by (simp add: bit_take_bit_iff)
    also have "\<dots> = bit b k" unfolding lo by (simp add: bit_unsigned_iff)
    finally show ?thesis using True by simp
  next
    case False
    have "bit (le_value (b # bs)) k = bit (drop_bit 8 (le_value (b # bs))) (k - 8)"
      using False by (simp add: bit_drop_bit_eq)
    also have "\<dots> \<longleftrightarrow> (k - 8) div 8 < length bs \<and> bit (bs ! ((k - 8) div 8)) ((k - 8) mod 8)"
      unfolding hi by (rule Cons.IH)
    moreover obtain i where "k = 8 + i" using False by (metis le_Suc_ex not_less)
    ultimately show ?thesis by simp
  qed
qed

lemma bit_field_value: "bit (field_value start n data) j \<longleftrightarrow> j < n \<and> bit (le_value data) (start + j)"
  by (simp add: field_value_def flip: take_bit_eq_mod drop_bit_eq_div) (simp add: bit_take_bit_iff bit_drop_bit_eq)

lemma field_value_less: "field_value start n data < 2 ^ n"
  by (simp add: field_value_def)

lemma read_bits_append:
  "read_bits start data (xs @ ys) raw = do { r \<leftarrow> read_bits start data xs raw; read_bits start data ys r }"
  by (induction xs arbitrary: raw) (simp_all add: Let_def bind_assoc)

lemma bit_of_byte: "bit (drop_bit m (b :: u8) AND 1) i \<longleftrightarrow> i = 0 \<and> bit b m"
  unfolding bit_and_iff bit_drop_bit_eq bit_1_iff comp_def by (cases i) simp_all

lemma bit_placed:
  assumes "\<And>i. bit (c :: u8) i \<longleftrightarrow> i = 0 \<and> B" and "n < 32"
  shows "bit (push_bit n (ucast c) :: u32) j \<longleftrightarrow> j = n \<and> B"
  unfolding bit_push_bit_iff bit_ucast_iff assms(1) using assms(2) by auto

lemma read_bits_run:
  assumes "n \<le> 32" and "unat start + n \<le> 8 * length data" and "unat start + n \<le> 65536"
  shows "\<exists>raw. read_bits start data [0 ..< n] 0 = Some raw \<and>
    (\<forall>j. bit raw j \<longleftrightarrow> j < n \<and> bit (data ! ((unat start + j) div 8)) ((unat start + j) mod 8))"
  using assms
proof (induction n)
  case 0
  then show ?case by simp
next
  case (Suc n)
  then obtain raw where r: "read_bits start data [0 ..< n] 0 = Some raw"
    "\<And>j. bit raw j \<longleftrightarrow> j < n \<and> bit (data ! ((unat start + j) div 8)) ((unat start + j) mod 8)" by auto
  have un: "unat (word_of_nat n :: u16) = n" using Suc.prems(1) by (simp add: unat_word_of_nat)
  have at: "checked_add start (word_of_nat n) = Some (start + word_of_nat n)" "unat (start + word_of_nat n) = unat start + n"
    using Suc.prems(3) un unat_add_no_wrap [of start "word_of_nat n"] by (simp_all add: checked_add_def)
  let ?k = "unat start + n"
  have inside: "?k div 8 < length data" using Suc.prems(2) by simp
  let ?b = "drop_bit (?k mod 8) (data ! (?k div 8)) AND 1 :: u8"
  have "read_bits start data [n] raw = Some (raw OR push_bit n (ucast ?b))"
    using at inside by (simp add: at_index_def Let_def)
  then have "read_bits start data [0 ..< Suc n] 0 = Some (raw OR push_bit n (ucast ?b))"
    using r(1) by (simp add: read_bits_append)
  moreover have "bit (raw OR push_bit n (ucast ?b)) j \<longleftrightarrow>
      j < Suc n \<and> bit (data ! ((unat start + j) div 8)) ((unat start + j) mod 8)" for j
  proof -
    have "bit ?b i \<longleftrightarrow> i = 0 \<and> bit (data ! (?k div 8)) (?k mod 8)" for i by (rule bit_of_byte)
    then have "bit (push_bit n (ucast ?b) :: u32) j \<longleftrightarrow> j = n \<and> bit (data ! (?k div 8)) (?k mod 8)"
      using Suc.prems(1) by (intro bit_placed) simp_all
    then show ?thesis using r(2) [of j] by (simp only: bit_or_iff less_Suc_eq) blast
  qed
  ultimately show ?case by blast
qed

lemma read_bits_value:
  assumes "n \<le> 32" and "unat start + n \<le> 8 * length data" and "unat start + n \<le> 65536"
  shows "read_bits start data [0 ..< n] 0 = Some (word_of_nat (field_value (unat start) n data))"
proof -
  obtain raw where r: "read_bits start data [0 ..< n] 0 = Some raw"
    "\<And>j. bit raw j \<longleftrightarrow> j < n \<and> bit (data ! ((unat start + j) div 8)) ((unat start + j) mod 8)"
    using read_bits_run [OF assms] by auto
  let ?v = "field_value (unat start) n data"
  have "?v < 2 ^ 32" using field_value_less [of "unat start" n data] power_increasing [OF assms(1), of "2 :: nat"] by simp
  then have u: "unat (word_of_nat ?v :: u32) = ?v" by (intro unat_word_of_nat) simp
  have "raw = word_of_nat ?v"
  proof (rule bit_word_eqI)
    fix j
    have "bit (word_of_nat ?v :: u32) j \<longleftrightarrow> bit (unat (word_of_nat ?v :: u32)) j"
      by (simp only: bit_unsigned_iff) simp
    also have "\<dots> \<longleftrightarrow> j < n \<and> bit (le_value data) (unat start + j)" unfolding u by (rule bit_field_value)
    also have "\<dots> \<longleftrightarrow> bit raw j" using r(2) [of j] assms(2) by (auto simp: bit_le_value less_mult_imp_div_less)
    finally show "bit raw j \<longleftrightarrow> bit (word_of_nat ?v :: u32) j" by simp
  qed
  with r(1) show ?thesis by simp
qed

lemma required_len_le: "required_len s \<le> m \<longleftrightarrow> unat (sp_start_bit s) + unat (sp_bit_length s) \<le> 8 * m"
  by (simp add: required_len_def div_ceil_def) linarith

text \<open>Extraction reads the field of the payload's number, whatever bytes it spans.\<close>

lemma extract_value:
  assumes n: "1 \<le> unat (sp_bit_length s)" "unat (sp_bit_length s) \<le> 32" and l: "required_len s \<le> length data"
    and reach: "unat (sp_start_bit s) + unat (sp_bit_length s) \<le> 65536"
  shows "\<exists>v. Spn_extract s data = Some (Inr v) \<and>
    classify (word_of_nat (field_value (unat (sp_start_bit s)) (unat (sp_bit_length s)) data)) (sp_bit_length s) = Some v"
proof -
  have "sp_bit_length s \<noteq> 0" "\<not> sp_bit_length s > MAX_BIT_LENGTH"
    using n by (auto simp: MAX_BIT_LENGTH_def unat_iffs)
  moreover have "unat (sp_start_bit s) + unat (sp_bit_length s) \<le> 8 * length data"
    using l by (simp add: required_len_le)
  ultimately show ?thesis
    using read_bits_value [OF n(2) _ reach] classify_defined [OF n] l by (force simp: Spn_extract_def)
qed

text \<open>
  The bit index is a \<^verbatim>\<open>u16\<close>: a signal that crosses bit 65536 passes the length check of a payload that
  long and overflows the index, and it is the only one for which extraction panics.
\<close>

lemma read_bits_overflow:
  assumes "i \<in> set is" and "i < 65536" and "65536 \<le> unat start + i"
  shows "read_bits start data is raw = None"
  using assms
proof (induction "is" arbitrary: raw)
  case (Cons j js)
  show ?case
  proof (cases "j = i")
    case True
    have "unat (word_of_nat i :: u16) = i" using assms(2) by (simp add: unat_word_of_nat)
    then have "checked_add start (word_of_nat i) = None" using assms(3) by (simp add: checked_add_def)
    then show ?thesis using True by simp
  next
    case False
    then show ?thesis using Cons by (simp add: Let_def bind_eq_None_conv)
  qed
qed simp

lemma read_bits_crossing:
  assumes "n \<le> 32" and "65536 < unat start + n"
  shows "read_bits start data [0 ..< n] 0 = None"
proof (rule read_bits_overflow [of "n - 1"])
  have "unat start < 65536" using unsigned_less [of start, where ?'a = nat] by simp
  then show "n - 1 \<in> set [0 ..< n]" using assms by simp
qed (use assms in auto)

lemma extract_overflow:
  assumes n: "1 \<le> unat (sp_bit_length s)" "unat (sp_bit_length s) \<le> 32" and l: "required_len s \<le> length data"
    and crossing: "65536 < unat (sp_start_bit s) + unat (sp_bit_length s)"
  shows "Spn_extract s data = None"
proof -
  have "sp_bit_length s \<noteq> 0" "\<not> sp_bit_length s > MAX_BIT_LENGTH"
    using n by (auto simp: MAX_BIT_LENGTH_def unat_iffs)
  then show ?thesis using l read_bits_crossing [OF n(2) crossing] by (simp add: Spn_extract_def)
qed

lemma extract_refused:
  assumes "sp_bit_length s = 0 \<or> 32 < unat (sp_bit_length s) \<or> length data < required_len s"
  shows "\<exists>e. Spn_extract s data = Some (Inl e)"
  using assms by (auto simp: Spn_extract_def MAX_BIT_LENGTH_def word_less_nat_alt)

section \<open>The catalogue\<close>

definition degrees_celsius :: string where "degrees_celsius = [CHR 0xC2, CHR 0xB0, CHR ''C'']"

definition signal :: "u32 \<Rightarrow> string \<Rightarrow> u16 option \<Rightarrow> u16 \<Rightarrow> rat \<Rightarrow> rat \<Rightarrow> string \<Rightarrow> rat spn" where
  "signal number name start = Spn_new number name (the start)"

definition ENGINE_SPEED :: "rat spn" where
  "ENGINE_SPEED = signal 190 ''Engine Speed'' (bit_position 4 1) 16 0.125 0 ''rpm''"
definition ACTUAL_ENGINE_PERCENT_TORQUE :: "rat spn" where
  "ACTUAL_ENGINE_PERCENT_TORQUE = signal 513 ''Actual Engine Percent Torque'' (bit_position 3 1) 8 1 (- 125) ''%''"
definition DRIVERS_DEMAND_ENGINE_PERCENT_TORQUE :: "rat spn" where
  "DRIVERS_DEMAND_ENGINE_PERCENT_TORQUE =
     signal 512 ''Driver's Demand Engine Percent Torque'' (bit_position 2 1) 8 1 (- 125) ''%''"
definition ACCELERATOR_PEDAL_POSITION :: "rat spn" where
  "ACCELERATOR_PEDAL_POSITION = signal 91 ''Accelerator Pedal Position 1'' (bit_position 2 1) 8 0.4 0 ''%''"
definition ENGINE_PERCENT_LOAD :: "rat spn" where
  "ENGINE_PERCENT_LOAD = signal 92 ''Engine Percent Load At Current Speed'' (bit_position 3 1) 8 1 0 ''%''"
definition ENGINE_COOLANT_TEMPERATURE :: "rat spn" where
  "ENGINE_COOLANT_TEMPERATURE =
     signal 110 ''Engine Coolant Temperature'' (bit_position 1 1) 8 1 (- 40) degrees_celsius"
definition ENGINE_FUEL_TEMPERATURE :: "rat spn" where
  "ENGINE_FUEL_TEMPERATURE =
     signal 174 ''Engine Fuel Temperature 1'' (bit_position 2 1) 8 1 (- 40) degrees_celsius"
definition ENGINE_OIL_TEMPERATURE :: "rat spn" where
  "ENGINE_OIL_TEMPERATURE =
     signal 175 ''Engine Oil Temperature 1'' (bit_position 3 1) 16 0.03125 (- 273) degrees_celsius"
definition ENGINE_OIL_PRESSURE :: "rat spn" where
  "ENGINE_OIL_PRESSURE = signal 100 ''Engine Oil Pressure'' (bit_position 4 1) 8 4 0 ''kPa''"
definition ENGINE_OIL_LEVEL :: "rat spn" where
  "ENGINE_OIL_LEVEL = signal 98 ''Engine Oil Level'' (bit_position 3 1) 8 0.4 0 ''%''"
definition ENGINE_FUEL_RATE :: "rat spn" where
  "ENGINE_FUEL_RATE = signal 183 ''Engine Fuel Rate'' (bit_position 1 1) 16 0.05 0 ''L/h''"
definition WHEEL_BASED_VEHICLE_SPEED :: "rat spn" where
  "WHEEL_BASED_VEHICLE_SPEED = signal 84 ''Wheel-Based Vehicle Speed'' (bit_position 2 1) 16 (1 / 256) 0 ''km/h''"
definition BATTERY_POTENTIAL :: "rat spn" where
  "BATTERY_POTENTIAL = signal 168 ''Battery Potential'' (bit_position 5 1) 16 0.05 0 ''V''"

lemmas catalogue_defs =
  ENGINE_SPEED_def ACTUAL_ENGINE_PERCENT_TORQUE_def DRIVERS_DEMAND_ENGINE_PERCENT_TORQUE_def
  ACCELERATOR_PEDAL_POSITION_def ENGINE_PERCENT_LOAD_def ENGINE_COOLANT_TEMPERATURE_def
  ENGINE_FUEL_TEMPERATURE_def ENGINE_OIL_TEMPERATURE_def ENGINE_OIL_PRESSURE_def ENGINE_OIL_LEVEL_def
  ENGINE_FUEL_RATE_def WHEEL_BASED_VEHICLE_SPEED_def BATTERY_POTENTIAL_def

definition CATALOGUE_ALL :: "rat spn list" where
  "CATALOGUE_ALL =
     [ENGINE_SPEED, ACTUAL_ENGINE_PERCENT_TORQUE, DRIVERS_DEMAND_ENGINE_PERCENT_TORQUE, ACCELERATOR_PEDAL_POSITION,
      ENGINE_PERCENT_LOAD, ENGINE_COOLANT_TEMPERATURE, ENGINE_FUEL_TEMPERATURE, ENGINE_OIL_TEMPERATURE,
      ENGINE_OIL_PRESSURE, ENGINE_OIL_LEVEL, ENGINE_FUEL_RATE, WHEEL_BASED_VEHICLE_SPEED, BATTERY_POTENTIAL]"

definition GROUPS :: "(pgn \<times> rat spn list) list" where
  "GROUPS =
     [(PGN_EEC1, [ENGINE_SPEED, ACTUAL_ENGINE_PERCENT_TORQUE, DRIVERS_DEMAND_ENGINE_PERCENT_TORQUE]),
      (PGN_EEC2, [ACCELERATOR_PEDAL_POSITION, ENGINE_PERCENT_LOAD]),
      (PGN_ENGINE_TEMPERATURE_1, [ENGINE_COOLANT_TEMPERATURE, ENGINE_FUEL_TEMPERATURE, ENGINE_OIL_TEMPERATURE]),
      (PGN_ENGINE_FLUID_LEVEL_PRESSURE_1, [ENGINE_OIL_PRESSURE, ENGINE_OIL_LEVEL]),
      (PGN_FUEL_ECONOMY, [ENGINE_FUEL_RATE]),
      (PGN_CRUISE_CONTROL_VEHICLE_SPEED, [WHEEL_BASED_VEHICLE_SPEED]),
      (PGN_VEHICLE_ELECTRICAL_POWER, [BATTERY_POTENTIAL])]"

text \<open>The loop over the groups: the signals of the first one whose number it is.\<close>

definition for_pgn :: "pgn \<Rightarrow> rat spn list" where
  "for_pgn p =
     (case List.find (\<lambda>g. Pgn_as_u32 (fst g) = Pgn_as_u32 p) GROUPS of Some g \<Rightarrow> snd g | None \<Rightarrow> [])"

text \<open>Two signals share no bit of the payload.\<close>

definition apart :: "'f spn \<Rightarrow> 'g spn \<Rightarrow> bool" where
  "apart s t \<longleftrightarrow> unat (sp_start_bit s) + unat (sp_bit_length s) \<le> unat (sp_start_bit t) \<or>
     unat (sp_start_bit t) + unat (sp_bit_length t) \<le> unat (sp_start_bit s)"

definition fits_frame :: "'f spn \<Rightarrow> bool" where
  "fits_frame s \<longleftrightarrow> 1 \<le> unat (sp_bit_length s) \<and> unat (sp_bit_length s) \<le> 32 \<and> required_len s \<le> 8"

lemma bit_positions:
  "bit_position 1 1 = Some 0" "bit_position 2 1 = Some 8" "bit_position 3 1 = Some 16"
  "bit_position 4 1 = Some 24" "bit_position 5 1 = Some 32"
  by (simp_all add: bit_position_def checked_sub_def checked_mul_def checked_add_def)

lemma catalogue_start [simp]:
  "sp_start_bit (signal n nm p l r f u) = the p" "sp_bit_length (signal n nm p l r f u) = l"
  "sp_number (signal n nm p l r f u) = n"
  by (simp_all add: signal_def Spn_new_def)

lemma catalogue_fits: "g \<in> set GROUPS \<Longrightarrow> s \<in> set (snd g) \<Longrightarrow> fits_frame s"
  by (auto simp: GROUPS_def catalogue_defs fits_frame_def required_len_def div_ceil_def bit_positions)

lemma catalogue_apart:
  "g \<in> set GROUPS \<Longrightarrow> i < j \<Longrightarrow> j < length (snd g) \<Longrightarrow> apart (snd g ! i) (snd g ! j)"
  by (auto simp: GROUPS_def catalogue_defs apart_def bit_positions less_Suc_eq)

lemma catalogue_complete: "set CATALOGUE_ALL = (\<Union>g \<in> set GROUPS. set (snd g))"
  by (auto simp: CATALOGUE_ALL_def GROUPS_def)

lemma catalogue_numbers: "distinct (map sp_number CATALOGUE_ALL)"
  by (simp add: CATALOGUE_ALL_def catalogue_defs)

lemma for_pgn_mem: "s \<in> set (for_pgn p) \<Longrightarrow> \<exists>g \<in> set GROUPS. fst g = p \<and> s \<in> set (snd g)"
proof (cases "List.find (\<lambda>g. Pgn_as_u32 (fst g) = Pgn_as_u32 p) GROUPS")
  case (Some g)
  then have "Pgn_as_u32 (fst g) = Pgn_as_u32 p" "g \<in> set GROUPS"
    unfolding find_Some_iff by (metis nth_mem)+
  moreover assume "s \<in> set (for_pgn p)"
  ultimately show ?thesis using Some Pgn_eqI [of "fst g" p] unfolding for_pgn_def by auto
qed (simp add: for_pgn_def)

lemma catalogue_extracts:
  assumes "s \<in> set (for_pgn p)" and "8 \<le> length data"
  shows "\<exists>v. Spn_extract s data = Some (Inr v)"
proof -
  from for_pgn_mem [OF assms(1)] catalogue_fits have f: "fits_frame s" by blast
  then have n: "1 \<le> unat (sp_bit_length s)" "unat (sp_bit_length s) \<le> 32" and l: "required_len s \<le> 8"
    by (simp_all add: fits_frame_def)
  from l have "unat (sp_start_bit s) + unat (sp_bit_length s) \<le> 65536" by (simp add: required_len_le)
  with extract_value [OF n order_trans [OF l assms(2)]] show ?thesis by blast
qed

end
