(* ===== verification/Iso11783.thy ===== *)
theory Iso11783
  imports Can_Id Tp_Codec
begin

text \<open>
  The ISO 11783 application layer, \<^verbatim>\<open>core/src/iso11783\<close>: auxiliary and general purpose valves
  (\<^verbatim>\<open>valve.rs\<close>), process data of the task controller (\<^verbatim>\<open>task_controller.rs\<close>) and working sets
  (\<^verbatim>\<open>working_set.rs\<close>). Every message has a codec; a state, a mode or a command is a code of a few
  bits that shares its byte with others.
\<close>

section \<open>Valve states and modes\<close>

definition MAX_VALVE_NUMBER :: u8 where "MAX_VALVE_NUMBER = 15"
definition AUX_VALVE_COMMAND_BASE :: u32 where "AUX_VALVE_COMMAND_BASE = 0x00FE30"
definition AUX_VALVE_ESTIMATED_FLOW_BASE :: u32 where "AUX_VALVE_ESTIMATED_FLOW_BASE = 0x00FE10"
definition AUX_VALVE_MEASURED_POSITION_BASE :: u32 where "AUX_VALVE_MEASURED_POSITION_BASE = 0x00FF20"
definition GENERAL_PURPOSE_VALVE_COMMAND :: pgn where
  "GENERAL_PURPOSE_VALVE_COMMAND = Pgn_new_masked 0x00C400"
definition GENERAL_PURPOSE_VALVE_ESTIMATED_FLOW :: pgn where
  "GENERAL_PURPOSE_VALVE_ESTIMATED_FLOW = Pgn_new_masked 0x00C600"
definition VALVE_PRIORITY :: priority where "VALVE_PRIORITY = Priority_CONTROL"
definition LIMIT_NOT_USED :: u8 where "LIMIT_NOT_USED = 7"

datatype valve_state =
    ValveNeutral | ValveExtend | ValveRetract | ValveFloating | ValveInitialisation | ValveError | ValveOther u8

primrec ValveState_as_u8 :: "valve_state \<Rightarrow> u8" where
  "ValveState_as_u8 ValveNeutral = 0x0"
| "ValveState_as_u8 ValveExtend = 0x1"
| "ValveState_as_u8 ValveRetract = 0x2"
| "ValveState_as_u8 ValveFloating = 0x3"
| "ValveState_as_u8 ValveInitialisation = 0xA"
| "ValveState_as_u8 ValveError = 0xE"
| "ValveState_as_u8 (ValveOther raw) = raw AND 0x0F"

definition ValveState_from_u8 :: "u8 \<Rightarrow> valve_state" where
  "ValveState_from_u8 raw =
     (let r = raw AND 0x0F in
      if r = 0x0 then ValveNeutral else if r = 0x1 then ValveExtend else if r = 0x2 then ValveRetract
      else if r = 0x3 then ValveFloating else if r = 0xA then ValveInitialisation
      else if r = 0xE then ValveError else ValveOther r)"

definition is_moving :: "valve_state \<Rightarrow> bool" where
  "is_moving s \<longleftrightarrow> s = ValveExtend \<or> s = ValveRetract"

datatype fail_safe_mode = FailSafeBlocked | FailSafeActivated | FailSafeOther u8

primrec FailSafeMode_as_u8 :: "fail_safe_mode \<Rightarrow> u8" where
  "FailSafeMode_as_u8 FailSafeBlocked = 0"
| "FailSafeMode_as_u8 FailSafeActivated = 1"
| "FailSafeMode_as_u8 (FailSafeOther raw) = raw AND 3"

definition FailSafeMode_from_u8 :: "u8 \<Rightarrow> fail_safe_mode" where
  "FailSafeMode_from_u8 raw =
     (let r = raw AND 3 in if r = 0 then FailSafeBlocked else if r = 1 then FailSafeActivated else FailSafeOther r)"

lemma and_idem: "(x AND m) AND m = (x :: 'a::len word) AND m"
  by (simp add: and.assoc)

interpretation valve_state: packed_code ValveState_as_u8 ValveState_from_u8 "0x0F"
  by unfold_locales (auto simp: ValveState_from_u8_def Let_def and_idem)

interpretation fail_safe_mode: packed_code FailSafeMode_as_u8 FailSafeMode_from_u8 3
  by unfold_locales (auto simp: FailSafeMode_from_u8_def Let_def and_idem)

definition ValveState_ok :: "valve_state \<Rightarrow> bool" where
  "ValveState_ok s = (ValveState_from_u8 (ValveState_as_u8 s) = s)"

definition FailSafeMode_ok :: "fail_safe_mode \<Rightarrow> bool" where
  "FailSafeMode_ok s = (FailSafeMode_from_u8 (FailSafeMode_as_u8 s) = s)"

lemma ValveState_ok_simps [simp]:
  "ValveState_ok ValveNeutral" "ValveState_ok ValveExtend" "ValveState_ok ValveRetract" "ValveState_ok ValveFloating"
  "ValveState_ok ValveInitialisation" "ValveState_ok ValveError" "ValveState_ok (ValveState_from_u8 x)"
  "FailSafeMode_ok FailSafeBlocked" "FailSafeMode_ok FailSafeActivated" "FailSafeMode_ok (FailSafeMode_from_u8 x)"
  by (simp_all add: ValveState_ok_def FailSafeMode_ok_def valve_state.read_back fail_safe_mode.read_back)
    (simp_all add: ValveState_from_u8_def FailSafeMode_from_u8_def)

lemma ValveState_masked [simp]: "ValveState_as_u8 s AND 0x0F = ValveState_as_u8 s"
  by (cases s) (simp_all add: and_idem)

lemma FailSafeMode_masked [simp]: "FailSafeMode_as_u8 s AND 3 = FailSafeMode_as_u8 s"
  by (cases s) (simp_all add: and_idem)

definition pack_mode_and_state :: "fail_safe_mode \<Rightarrow> valve_state \<Rightarrow> u8" where
  "pack_mode_and_state m s = push_bit 6 (FailSafeMode_as_u8 m) OR push_bit 4 3 OR ValveState_as_u8 s"

text \<open>The two codes of the shared byte do not disturb each other.\<close>

lemma packed_bits:
  "(push_bit 6 a OR push_bit 4 3 OR b) AND 0x0F = b AND (0x0F :: u8)"
  "drop_bit 6 (push_bit 6 a OR push_bit 4 3 OR (b AND 0x0F)) AND 3 = a AND (3 :: u8)"
  "(0xF0 OR b) AND 0x0F = b AND (0x0F :: u8)"
  "(push_bit 4 (a AND 0x0F) OR b) AND 0x0F = b AND (0x0F :: u8)"
  by (simp_all add: word_bits)

lemma state_of_packed: "ValveState_ok s \<Longrightarrow> ValveState_from_u8 (pack_mode_and_state m s) = s"
  unfolding pack_mode_and_state_def ValveState_ok_def by (rule valve_state.written_bits [OF packed_bits(1)])

lemma mode_of_packed: "FailSafeMode_ok m \<Longrightarrow> FailSafeMode_from_u8 (drop_bit 6 (pack_mode_and_state m s)) = m"
  unfolding pack_mode_and_state_def FailSafeMode_ok_def
  by (rule fail_safe_mode.written_bits [OF packed_bits(2) [of _ "ValveState_as_u8 s", unfolded ValveState_masked]])

section \<open>Valve numbers\<close>

datatype valve_number = ValveNumber u8

primrec ValveNumber_get :: "valve_number \<Rightarrow> u8" where "ValveNumber_get (ValveNumber n) = n"

definition ValveNumber_new :: "u8 \<Rightarrow> valve_number j1939_result" where
  "ValveNumber_new n =
     (if n > MAX_VALVE_NUMBER then Inl (ValueOutOfRange ''valve number'' (ucast n)) else Inr (ValveNumber n))"

definition valve_block_pgn :: "u32 \<Rightarrow> valve_number \<Rightarrow> pgn" where
  "valve_block_pgn base v = Pgn_new_masked (base + ucast (ValveNumber_get v))"

definition command_pgn :: "valve_number \<Rightarrow> pgn" where
  "command_pgn v = valve_block_pgn AUX_VALVE_COMMAND_BASE v"

definition estimated_flow_pgn :: "valve_number \<Rightarrow> pgn" where
  "estimated_flow_pgn v = valve_block_pgn AUX_VALVE_ESTIMATED_FLOW_BASE v"

definition measured_position_pgn :: "valve_number \<Rightarrow> pgn" where
  "measured_position_pgn v = valve_block_pgn AUX_VALVE_MEASURED_POSITION_BASE v"

definition valve_from_block :: "pgn \<Rightarrow> u32 \<Rightarrow> valve_number option" where
  "valve_from_block p base =
     (let raw = Pgn_as_u32 p in
      if raw \<ge> base \<and> raw \<le> base + ucast MAX_VALVE_NUMBER then Some (ValveNumber (ucast (raw - base))) else None)"

definition from_command_pgn :: "pgn \<Rightarrow> valve_number option" where
  "from_command_pgn p = valve_from_block p AUX_VALVE_COMMAND_BASE"

definition from_estimated_flow_pgn :: "pgn \<Rightarrow> valve_number option" where
  "from_estimated_flow_pgn p = valve_from_block p AUX_VALVE_ESTIMATED_FLOW_BASE"

definition from_measured_position_pgn :: "pgn \<Rightarrow> valve_number option" where
  "from_measured_position_pgn p = valve_from_block p AUX_VALVE_MEASURED_POSITION_BASE"

definition valve_broadcast_id :: "pgn \<Rightarrow> address \<Rightarrow> can_id" where
  "valve_broadcast_id p source = Id_broadcast VALVE_PRIORITY p source"

definition ValveNumber_ok :: "valve_number \<Rightarrow> bool" where
  "ValveNumber_ok v \<longleftrightarrow> unat (ValveNumber_get v) \<le> 15"

lemma ValveNumber_new_ok: "ValveNumber_new n = Inr v \<Longrightarrow> ValveNumber_ok v"
  by (auto simp: ValveNumber_new_def ValveNumber_ok_def MAX_VALVE_NUMBER_def unat_iffs split: if_splits)

text \<open>A PDU2 number is its own normal form.\<close>

lemma Pgn_new_masked_pdu2:
  assumes "0xF000 \<le> raw" and "raw \<le> 0xFFFF"
  shows "Pgn_as_u32 (Pgn_new_masked raw) = raw"
proof -
  have u: "61440 \<le> unat raw" "unat raw \<le> 65535" using assms by (simp_all add: word_le_nat_alt)
  then have id: "raw AND Pgn_MAX = raw" by (intro and_MAX_id) (simp add: Pgn_MAX_def word_le_nat_alt)
  have "unat (drop_bit 8 raw) < 256" using u by (simp add: unat_drop_bit)
  then have "unat (ucast (drop_bit 8 raw) :: u8) = unat raw div 256"
    by (simp add: unsigned_ucast_eq take_bit_nat_eq_self unat_drop_bit)
  with u have "\<not> (ucast (drop_bit 8 raw) :: u8) < 0xF0" by (simp add: word_less_nat_alt)
  then show ?thesis by (simp add: Pgn_new_masked_def id normalise_def PDU2_FORMAT_MIN_def)
qed

lemma valve_block_roundtrip:
  assumes v: "ValveNumber_ok v" and base: "0xF000 \<le> unat base" "unat base \<le> 0xFF00 + 0xF0"
  shows "valve_from_block (valve_block_pgn base v) base = Some v"
    and "unat (Pgn_as_u32 (valve_block_pgn base v)) = unat base + unat (ValveNumber_get v)"
proof -
  let ?n = "ucast (ValveNumber_get v) :: u32"
  have n: "unat ?n = unat (ValveNumber_get v)" by (simp add: unat_ucast_widen)
  have sum: "unat (base + ?n) = unat base + unat (ValveNumber_get v)"
    using v base unat_add_no_wrap [of base ?n] unfolding n ValveNumber_ok_def by simp
  have raw: "Pgn_as_u32 (valve_block_pgn base v) = base + ?n"
    unfolding valve_block_pgn_def
    by (rule Pgn_new_masked_pdu2) (use v base sum in \<open>simp_all add: word_le_nat_alt ValveNumber_ok_def\<close>)
  then show "unat (Pgn_as_u32 (valve_block_pgn base v)) = unat base + unat (ValveNumber_get v)" using sum by simp
  have fifteen: "unat (base + ucast MAX_VALVE_NUMBER) = unat base + 15"
    using base unat_add_no_wrap [of base "ucast MAX_VALVE_NUMBER"] by (simp add: MAX_VALVE_NUMBER_def)
  have "base \<le> base + ?n" "base + ?n \<le> base + ucast MAX_VALVE_NUMBER"
    using v sum fifteen by (simp_all add: word_le_nat_alt ValveNumber_ok_def)
  moreover have "(ucast ?n :: u8) = ValveNumber_get v" by (simp add: word_bits)
  moreover have "ValveNumber (ValveNumber_get v) = v" by (cases v) simp
  ultimately show "valve_from_block (valve_block_pgn base v) base = Some v"
    by (simp add: valve_from_block_def raw)
qed

lemmas valve_bases = AUX_VALVE_COMMAND_BASE_def AUX_VALVE_ESTIMATED_FLOW_BASE_def AUX_VALVE_MEASURED_POSITION_BASE_def

lemma valve_pgn_roundtrips:
  assumes "ValveNumber_ok v"
  shows "from_command_pgn (command_pgn v) = Some v"
    and "from_estimated_flow_pgn (estimated_flow_pgn v) = Some v"
    and "from_measured_position_pgn (measured_position_pgn v) = Some v"
  using assms by (simp_all add: from_command_pgn_def command_pgn_def from_estimated_flow_pgn_def estimated_flow_pgn_def
      from_measured_position_pgn_def measured_position_pgn_def valve_block_roundtrip(1) valve_bases)

lemma valve_blocks_apart:
  assumes "ValveNumber_ok v"
  shows "from_command_pgn (estimated_flow_pgn v) = None" and "from_command_pgn (measured_position_pgn v) = None"
    and "from_estimated_flow_pgn (command_pgn v) = None" and "from_estimated_flow_pgn (measured_position_pgn v) = None"
    and "from_measured_position_pgn (command_pgn v) = None" and "from_measured_position_pgn (estimated_flow_pgn v) = None"
  using valve_block_roundtrip(2) [OF assms] assms
  by (simp_all add: from_command_pgn_def command_pgn_def from_estimated_flow_pgn_def estimated_flow_pgn_def
      from_measured_position_pgn_def measured_position_pgn_def valve_from_block_def Let_def MAX_VALVE_NUMBER_def
      word_le_nat_alt valve_bases ValveNumber_ok_def)

section \<open>Valve messages\<close>

record auxiliary_valve_command =
  avc_standard_flow :: u8
  avc_valve_state :: valve_state
  avc_fail_safe_mode :: fail_safe_mode

definition AuxiliaryValveCommand_encode :: "auxiliary_valve_command \<Rightarrow> bytes" where
  "AuxiliaryValveCommand_encode c =
     [avc_standard_flow c, 0xFF, pack_mode_and_state (avc_fail_safe_mode c) (avc_valve_state c),
      0xFF, 0xFF, 0xFF, 0xFF, 0xFF]"

definition AuxiliaryValveCommand_decode :: "bytes \<Rightarrow> auxiliary_valve_command" where
  "AuxiliaryValveCommand_decode data =
     \<lparr>avc_standard_flow = data ! 0, avc_valve_state = ValveState_from_u8 (data ! 2),
      avc_fail_safe_mode = FailSafeMode_from_u8 (drop_bit 6 (data ! 2))\<rparr>"

record auxiliary_valve_estimated_flow =
  avf_extend_flow :: u8
  avf_retract_flow :: u8
  avf_valve_state :: valve_state
  avf_fail_safe_mode :: fail_safe_mode
  avf_limit :: u8

definition AuxiliaryValveEstimatedFlow_default :: auxiliary_valve_estimated_flow where
  "AuxiliaryValveEstimatedFlow_default =
     \<lparr>avf_extend_flow = 0, avf_retract_flow = 0, avf_valve_state = ValveNeutral,
      avf_fail_safe_mode = FailSafeBlocked, avf_limit = LIMIT_NOT_USED\<rparr>"

definition AuxiliaryValveEstimatedFlow_encode :: "auxiliary_valve_estimated_flow \<Rightarrow> bytes" where
  "AuxiliaryValveEstimatedFlow_encode c =
     [avf_extend_flow c, avf_retract_flow c, pack_mode_and_state (avf_fail_safe_mode c) (avf_valve_state c),
      push_bit 5 (avf_limit c AND 7), 0xFF, 0xFF, 0xFF, 0xFF]"

definition AuxiliaryValveEstimatedFlow_decode :: "bytes \<Rightarrow> auxiliary_valve_estimated_flow" where
  "AuxiliaryValveEstimatedFlow_decode data =
     \<lparr>avf_extend_flow = data ! 0, avf_retract_flow = data ! 1, avf_valve_state = ValveState_from_u8 (data ! 2),
      avf_fail_safe_mode = FailSafeMode_from_u8 (drop_bit 6 (data ! 2)), avf_limit = drop_bit 5 (data ! 3)\<rparr>"

record auxiliary_valve_measured_position =
  avp_position_percent :: u16
  avp_position_micrometres :: u16
  avp_valve_state :: valve_state

definition AuxiliaryValveMeasuredPosition_encode :: "auxiliary_valve_measured_position \<Rightarrow> bytes" where
  "AuxiliaryValveMeasuredPosition_encode c =
     [byte_at 0 (avp_position_percent c), byte_at 1 (avp_position_percent c),
      0xF0 OR ValveState_as_u8 (avp_valve_state c),
      byte_at 0 (avp_position_micrometres c), byte_at 1 (avp_position_micrometres c), 0xFF, 0xFF, 0xFF]"

definition AuxiliaryValveMeasuredPosition_decode :: "bytes \<Rightarrow> auxiliary_valve_measured_position" where
  "AuxiliaryValveMeasuredPosition_decode data =
     \<lparr>avp_position_percent = u16_of (data ! 0) (data ! 1), avp_position_micrometres = u16_of (data ! 3) (data ! 4),
      avp_valve_state = ValveState_from_u8 (data ! 2)\<rparr>"

record general_purpose_valve_command =
  gvc_standard_flow :: u8
  gvc_extended_flow :: u16
  gvc_valve_state :: valve_state
  gvc_fail_safe_mode :: fail_safe_mode

definition GeneralPurposeValveCommand_encode :: "general_purpose_valve_command \<Rightarrow> bytes" where
  "GeneralPurposeValveCommand_encode c =
     [gvc_standard_flow c, 0xFF, pack_mode_and_state (gvc_fail_safe_mode c) (gvc_valve_state c),
      byte_at 0 (gvc_extended_flow c), byte_at 1 (gvc_extended_flow c), 0xFF, 0xFF, 0xFF]"

definition GeneralPurposeValveCommand_decode :: "bytes \<Rightarrow> general_purpose_valve_command" where
  "GeneralPurposeValveCommand_decode data =
     \<lparr>gvc_standard_flow = data ! 0, gvc_extended_flow = u16_of (data ! 3) (data ! 4),
      gvc_valve_state = ValveState_from_u8 (data ! 2),
      gvc_fail_safe_mode = FailSafeMode_from_u8 (drop_bit 6 (data ! 2))\<rparr>"

record general_purpose_valve_estimated_flow =
  gvf_extend_flow :: u8
  gvf_retract_flow :: u8
  gvf_extend_flow_extended :: u16
  gvf_retract_flow_extended :: u16
  gvf_valve_state :: valve_state
  gvf_fail_safe_mode :: fail_safe_mode
  gvf_limit :: u8

definition GeneralPurposeValveEstimatedFlow_default :: general_purpose_valve_estimated_flow where
  "GeneralPurposeValveEstimatedFlow_default =
     \<lparr>gvf_extend_flow = 0, gvf_retract_flow = 0, gvf_extend_flow_extended = 0, gvf_retract_flow_extended = 0,
      gvf_valve_state = ValveNeutral, gvf_fail_safe_mode = FailSafeBlocked, gvf_limit = LIMIT_NOT_USED\<rparr>"

definition GeneralPurposeValveEstimatedFlow_encode :: "general_purpose_valve_estimated_flow \<Rightarrow> bytes" where
  "GeneralPurposeValveEstimatedFlow_encode c =
     [gvf_extend_flow c, gvf_retract_flow c, pack_mode_and_state (gvf_fail_safe_mode c) (gvf_valve_state c),
      push_bit 5 (gvf_limit c AND 7), byte_at 0 (gvf_extend_flow_extended c), byte_at 1 (gvf_extend_flow_extended c),
      byte_at 0 (gvf_retract_flow_extended c), byte_at 1 (gvf_retract_flow_extended c)]"

definition GeneralPurposeValveEstimatedFlow_decode :: "bytes \<Rightarrow> general_purpose_valve_estimated_flow" where
  "GeneralPurposeValveEstimatedFlow_decode data =
     \<lparr>gvf_extend_flow = data ! 0, gvf_retract_flow = data ! 1,
      gvf_extend_flow_extended = u16_of (data ! 4) (data ! 5), gvf_retract_flow_extended = u16_of (data ! 6) (data ! 7),
      gvf_valve_state = ValveState_from_u8 (data ! 2),
      gvf_fail_safe_mode = FailSafeMode_from_u8 (drop_bit 6 (data ! 2)), gvf_limit = drop_bit 5 (data ! 3)\<rparr>"

text \<open>A limit of three bits.\<close>

lemma limit_roundtrip:
  assumes "unat l < 8"
  shows "drop_bit 5 (push_bit 5 l) AND 7 = (l :: u8)"
proof -
  have "\<forall>n. 3 \<le> n \<longrightarrow> \<not> bit l n" using not_bit_of_less_pow [of l 3] assms by simp
  then show ?thesis by (simp add: word_bits)
qed

lemma measured_state: "ValveState_ok s \<Longrightarrow> ValveState_from_u8 (0xF0 OR ValveState_as_u8 s) = s"
  unfolding ValveState_ok_def by (rule valve_state.written_bits [OF packed_bits(3)])

interpretation aux_command_format: wire_format AuxiliaryValveCommand_encode "\<lambda>d. Inr (AuxiliaryValveCommand_decode d)"
  "\<lambda>c. ValveState_ok (avc_valve_state c) \<and> FailSafeMode_ok (avc_fail_safe_mode c)" 8
  by unfold_locales
    (simp_all add: AuxiliaryValveCommand_encode_def AuxiliaryValveCommand_decode_def state_of_packed mode_of_packed)

interpretation aux_flow_format: wire_format AuxiliaryValveEstimatedFlow_encode
  "\<lambda>d. Inr (AuxiliaryValveEstimatedFlow_decode d)"
  "\<lambda>c. ValveState_ok (avf_valve_state c) \<and> FailSafeMode_ok (avf_fail_safe_mode c) \<and> unat (avf_limit c) < 8" 8
  by unfold_locales
    (simp_all add: AuxiliaryValveEstimatedFlow_encode_def AuxiliaryValveEstimatedFlow_decode_def state_of_packed
      mode_of_packed limit_roundtrip)

interpretation aux_position_format: wire_format AuxiliaryValveMeasuredPosition_encode
  "\<lambda>d. Inr (AuxiliaryValveMeasuredPosition_decode d)" "\<lambda>c. ValveState_ok (avp_valve_state c)" 8
  by unfold_locales
    (simp_all add: AuxiliaryValveMeasuredPosition_encode_def AuxiliaryValveMeasuredPosition_decode_def measured_state)

interpretation gp_command_format: wire_format GeneralPurposeValveCommand_encode
  "\<lambda>d. Inr (GeneralPurposeValveCommand_decode d)"
  "\<lambda>c. ValveState_ok (gvc_valve_state c) \<and> FailSafeMode_ok (gvc_fail_safe_mode c)" 8
  by unfold_locales
    (simp_all add: GeneralPurposeValveCommand_encode_def GeneralPurposeValveCommand_decode_def state_of_packed mode_of_packed)

interpretation gp_flow_format: wire_format GeneralPurposeValveEstimatedFlow_encode
  "\<lambda>d. Inr (GeneralPurposeValveEstimatedFlow_decode d)"
  "\<lambda>c. ValveState_ok (gvf_valve_state c) \<and> FailSafeMode_ok (gvf_fail_safe_mode c) \<and> unat (gvf_limit c) < 8" 8
  by unfold_locales
    (simp_all add: GeneralPurposeValveEstimatedFlow_encode_def GeneralPurposeValveEstimatedFlow_decode_def
      state_of_packed mode_of_packed limit_roundtrip)

section \<open>Process data\<close>

definition PROCESS_DATA :: pgn where "PROCESS_DATA = Pgn_new_masked 0x00CB00"
definition MAX_ELEMENT :: u16 where "MAX_ELEMENT = 0x0FFF"
definition DEVICE_ELEMENT :: u16 where "DEVICE_ELEMENT = 0"

datatype tc_command =
    TechnicalCapabilities | DeviceDescriptorCommand | RequestValue | ValueCommand
  | MeasurementTimeInterval | MeasurementDistanceInterval | MeasurementMinimumThreshold
  | MeasurementMaximumThreshold | MeasurementChangeThreshold | PeerControlAssignment
  | SetValueAndAcknowledge | OtherCommand u8

primrec Command_as_u8 :: "tc_command \<Rightarrow> u8" where
  "Command_as_u8 TechnicalCapabilities = 0"
| "Command_as_u8 DeviceDescriptorCommand = 1"
| "Command_as_u8 RequestValue = 2"
| "Command_as_u8 ValueCommand = 3"
| "Command_as_u8 MeasurementTimeInterval = 4"
| "Command_as_u8 MeasurementDistanceInterval = 5"
| "Command_as_u8 MeasurementMinimumThreshold = 6"
| "Command_as_u8 MeasurementMaximumThreshold = 7"
| "Command_as_u8 MeasurementChangeThreshold = 8"
| "Command_as_u8 PeerControlAssignment = 9"
| "Command_as_u8 SetValueAndAcknowledge = 10"
| "Command_as_u8 (OtherCommand raw) = raw AND 0x0F"

definition Command_from_u8 :: "u8 \<Rightarrow> tc_command" where
  "Command_from_u8 raw =
     (let r = raw AND 0x0F in
      if r = 0 then TechnicalCapabilities else if r = 1 then DeviceDescriptorCommand
      else if r = 2 then RequestValue else if r = 3 then ValueCommand
      else if r = 4 then MeasurementTimeInterval else if r = 5 then MeasurementDistanceInterval
      else if r = 6 then MeasurementMinimumThreshold else if r = 7 then MeasurementMaximumThreshold
      else if r = 8 then MeasurementChangeThreshold else if r = 9 then PeerControlAssignment
      else if r = 10 then SetValueAndAcknowledge else OtherCommand r)"

definition is_measurement_trigger :: "tc_command \<Rightarrow> bool" where
  "is_measurement_trigger c \<longleftrightarrow>
     c = MeasurementTimeInterval \<or> c = MeasurementDistanceInterval \<or> c = MeasurementMinimumThreshold \<or>
     c = MeasurementMaximumThreshold \<or> c = MeasurementChangeThreshold"

interpretation tc_command: packed_code Command_as_u8 Command_from_u8 "0x0F"
  by unfold_locales (auto simp: Command_from_u8_def Let_def and_idem)

definition Command_ok :: "tc_command \<Rightarrow> bool" where
  "Command_ok c = (Command_from_u8 (Command_as_u8 c) = c)"

lemma Command_masked [simp]: "Command_as_u8 c AND 0x0F = Command_as_u8 c"
  by (cases c) (simp_all add: and_idem)

datatype ddi = Ddi u16

primrec Ddi_as_u16 :: "ddi \<Rightarrow> u16" where "Ddi_as_u16 (Ddi n) = n"

definition Ddi_is_proprietary :: "ddi \<Rightarrow> bool" where "Ddi_is_proprietary d = (Ddi_as_u16 d \<ge> 0xDFFF)"

definition REQUEST_DEFAULT_PROCESS_DATA :: ddi where "REQUEST_DEFAULT_PROCESS_DATA = Ddi 0xDFFF"

text \<open>The identifier the module names as a standard one is in the range it calls proprietary.\<close>

lemma default_request_is_proprietary: "Ddi_is_proprietary REQUEST_DEFAULT_PROCESS_DATA"
  by (simp add: Ddi_is_proprietary_def REQUEST_DEFAULT_PROCESS_DATA_def)

text \<open>The value is a signed 32-bit integer, kept as its word.\<close>

record process_data =
  pdv_command :: tc_command
  pdv_element :: u16
  pdv_ddi :: ddi
  pdv_value :: u32

definition ProcessData_new :: "tc_command \<Rightarrow> u16 \<Rightarrow> ddi \<Rightarrow> u32 \<Rightarrow> process_data j1939_result" where
  "ProcessData_new command element d v =
     (if element > MAX_ELEMENT then Inl (ValueOutOfRange ''process data element'' (ucast element))
      else Inr \<lparr>pdv_command = command, pdv_element = element, pdv_ddi = d, pdv_value = v\<rparr>)"

definition ProcessData_request :: "u16 \<Rightarrow> ddi \<Rightarrow> process_data j1939_result" where
  "ProcessData_request element d = ProcessData_new RequestValue element d 0"

definition ProcessData_report :: "u16 \<Rightarrow> ddi \<Rightarrow> u32 \<Rightarrow> process_data j1939_result" where
  "ProcessData_report element d v = ProcessData_new ValueCommand element d v"

definition ProcessData_encode :: "process_data \<Rightarrow> bytes" where
  "ProcessData_encode p =
     [push_bit 4 (ucast (pdv_element p) AND 0x0F) OR Command_as_u8 (pdv_command p),
      ucast (drop_bit 4 (pdv_element p)),
      byte_at 0 (Ddi_as_u16 (pdv_ddi p)), byte_at 1 (Ddi_as_u16 (pdv_ddi p)),
      byte_at 0 (pdv_value p), byte_at 1 (pdv_value p), byte_at 2 (pdv_value p), byte_at 3 (pdv_value p)]"

definition ProcessData_decode :: "bytes \<Rightarrow> process_data" where
  "ProcessData_decode data =
     \<lparr>pdv_command = Command_from_u8 (data ! 0),
      pdv_element = ucast (drop_bit 4 (data ! 0)) OR push_bit 4 (ucast (data ! 1)),
      pdv_ddi = Ddi (u16_of (data ! 2) (data ! 3)),
      pdv_value = u32_of4 (data ! 4) (data ! 5) (data ! 6) (data ! 7)\<rparr>"

definition ProcessData_ok :: "process_data \<Rightarrow> bool" where
  "ProcessData_ok p \<longleftrightarrow> Command_ok (pdv_command p) \<and> unat (pdv_element p) < 2 ^ 12"

lemma ProcessData_new_ok: "ProcessData_new c e d v = Inr p \<Longrightarrow> Command_ok c \<Longrightarrow> ProcessData_ok p"
  by (auto simp: ProcessData_new_def ProcessData_ok_def MAX_ELEMENT_def unat_iffs split: if_splits)

lemma element_roundtrip:
  assumes "unat (e :: u16) < 2 ^ 12"
  shows "ucast (drop_bit 4 (push_bit 4 (ucast e AND 0x0F) OR (c AND 0x0F) :: u8)) OR push_bit 4 (ucast (ucast (drop_bit 4 e) :: u8)) = e"
proof -
  have "\<forall>n. 12 \<le> n \<longrightarrow> \<not> bit e n" using not_bit_of_less_pow [OF assms] by blast
  then show ?thesis by (simp add: word_bits)
qed

lemma ProcessData_decode_encode:
  assumes "ProcessData_ok p"
  shows "ProcessData_decode (ProcessData_encode p) = p"
proof -
  from assms have c: "Command_ok (pdv_command p)" and e: "unat (pdv_element p) < 2 ^ 12"
    by (simp_all add: ProcessData_ok_def)
  have "Command_from_u8 (push_bit 4 (ucast (pdv_element p) AND 0x0F) OR Command_as_u8 (pdv_command p)) = pdv_command p"
    using c unfolding Command_ok_def by (rule tc_command.written_bits [OF packed_bits(4)])
  moreover have "Ddi (Ddi_as_u16 (pdv_ddi p)) = pdv_ddi p" by (cases "pdv_ddi p") simp
  ultimately show ?thesis
    using element_roundtrip [OF e, of "Command_as_u8 (pdv_command p)"]
    by (simp add: ProcessData_encode_def ProcessData_decode_def)
qed

interpretation process_data_format: wire_format ProcessData_encode "\<lambda>d. Inr (ProcessData_decode d)" ProcessData_ok 8
  by unfold_locales (simp_all add: ProcessData_decode_encode, simp add: ProcessData_encode_def)

definition needs_extended_transport :: "nat \<Rightarrow> bool" where
  "needs_extended_transport sz = (sz > unat TP_MAX_MESSAGE_SIZE)"

definition DeviceDescriptor_announcement :: "u16 \<Rightarrow> u32 \<Rightarrow> process_data j1939_result" where
  "DeviceDescriptor_announcement element sz = ProcessData_new DeviceDescriptorCommand element (Ddi 0) sz"

section \<open>Working sets\<close>

definition WORKING_SET_MASTER :: pgn where "WORKING_SET_MASTER = Pgn_new_masked 0x00FE0D"
definition WORKING_SET_MEMBER :: pgn where "WORKING_SET_MEMBER = Pgn_new_masked 0x00FE0C"

record working_set_master =
  wsm_members :: u8

definition WorkingSetMaster_new :: "u8 \<Rightarrow> working_set_master j1939_result" where
  "WorkingSetMaster_new members =
     (if members = 0 then Inl (ValueOutOfRange ''working set members'' 0) else Inr \<lparr>wsm_members = members\<rparr>)"

definition WorkingSetMaster_single :: working_set_master where
  "WorkingSetMaster_single = \<lparr>wsm_members = 1\<rparr>"

definition WorkingSetMaster_followers :: "working_set_master \<Rightarrow> u8" where
  "WorkingSetMaster_followers w = saturating_sub (wsm_members w) 1"

definition WorkingSetMaster_encode :: "working_set_master \<Rightarrow> bytes" where
  "WorkingSetMaster_encode w = [wsm_members w, 0xFF, 0xFF, 0xFF, 0xFF, 0xFF, 0xFF, 0xFF]"

definition WorkingSetMaster_decode :: "bytes \<Rightarrow> working_set_master j1939_result" where
  "WorkingSetMaster_decode data = WorkingSetMaster_new (data ! 0)"

interpretation working_set_format: wire_format WorkingSetMaster_encode WorkingSetMaster_decode
  "\<lambda>w. wsm_members w \<noteq> 0" 8
  by unfold_locales (simp_all add: WorkingSetMaster_encode_def WorkingSetMaster_decode_def WorkingSetMaster_new_def)

end
