(* ===== verification/Host_Bus.thy ===== *)
theory Host_Bus
  imports J1939_Types Can_Frame
begin

text \<open>
  The bus as the host crate sees it, \<^verbatim>\<open>host/src/bus.rs\<close>: a \<open>Bus\<close> that sends a frame, waits for one, and
  may fail at either, beside the clock of the operating system. The implementor of the trait and the
  clock are not code of the crate, so they are the argument \<open>env\<close>: what they answer, as functions of
  all that happened before, and the first time the platform's \<^verbatim>\<open>Instant\<close> cannot hold. The trace of what happened, newest first, is part of the state.

  The second half is the vocabulary of the ECU's operations: an operation ends with a value, an error
  (the \<open>?\<close> of the code returns it), or a panic, or is still waiting when the rounds given to its
  loops are used up, and leaves a state in each case. Triples \<open>triple P m Q E W\<close> state that no run of \<open>m\<close>
  from \<open>P\<close> panics, that a value is returned in \<open>Q\<close>, an error in \<open>E\<close>, and that the wait leaves \<open>W\<close>;
  with \<open>W\<close> false, that \<open>m\<close> does not wait.
\<close>

section \<open>Messages, errors and the trace\<close>

record message =
  msg_pgn :: pgn
  msg_source :: address
  msg_data :: bytes

text \<open>The kinds of \<open>io::Error\<close> the crate constructs, and those of the bus itself; texts are left out.\<close>

datatype io_error =
    TimedOutError
  | ConnectionAbortedError
  | NotConnectedError
  | NotFoundError
  | InvalidInputError
  | UnsupportedError
  | WouldBlockError
  | BusError nat

datatype io_event =
    Sent can_frame
  | SendFailed can_frame
  | Received can_frame
  | NothingReceived
  | ReceiveFailed
  | ClockRead nat
  | Slept nat

record environment =
  env_send :: "io_event list \<Rightarrow> can_frame \<Rightarrow> io_error option"
  env_recv :: "io_event list \<Rightarrow> io_error + can_frame option"
  env_clock :: "io_event list \<Rightarrow> nat"
  env_horizon :: nat

record bus_state =
  bus_trace :: "io_event list"

section \<open>Operations and their outcomes\<close>

datatype 'a outcome = Done 'a | Failed io_error | Panicked | Waiting

type_synonym ('s, 'a) operation = "'s \<Rightarrow> 'a outcome \<times> 's"

definition done_with :: "'a \<Rightarrow> ('s, 'a) operation" where
  "done_with a s = (Done a, s)"

definition fail_with :: "io_error \<Rightarrow> ('s, 'a) operation" where
  "fail_with e s = (Failed e, s)"

definition out_of_rounds :: "('s, 'a) operation" where
  "out_of_rounds s = (Waiting, s)"

definition attempt :: "('s, 'a) operation \<Rightarrow> ('a \<Rightarrow> ('s, 'b) operation) \<Rightarrow> ('s, 'b) operation" where
  "attempt m k s =
     (case m s of
        (Done a, s1) \<Rightarrow> k a s1
      | (Failed e, s1) \<Rightarrow> (Failed e, s1)
      | (Panicked, s1) \<Rightarrow> (Panicked, s1)
      | (Waiting, s1) \<Rightarrow> (Waiting, s1))"

definition read_state :: "('s \<Rightarrow> 'a) \<Rightarrow> ('s, 'a) operation" where
  "read_state f s = (Done (f s), s)"

definition update_state :: "('s \<Rightarrow> 's) \<Rightarrow> ('s, unit) operation" where
  "update_state f s = (Done (), f s)"

text \<open>A computation that may panic, and one whose error becomes invalid input.\<close>

definition unless_panic :: "'a option \<Rightarrow> ('s, 'a) operation" where
  "unless_panic x s = (case x of Some a \<Rightarrow> (Done a, s) | None \<Rightarrow> (Panicked, s))"

definition invalid_input :: "'e + 'a \<Rightarrow> ('s, 'a) operation" where
  "invalid_input r s = (case r of Inr a \<Rightarrow> (Done a, s) | Inl _ \<Rightarrow> (Failed InvalidInputError, s))"

section \<open>The bus and the clock\<close>

definition log_event :: "io_event \<Rightarrow> 'm bus_state_scheme \<Rightarrow> 'm bus_state_scheme" where
  "log_event ev s = s\<lparr>bus_trace := ev # bus_trace s\<rparr>"

definition send_frame :: "environment \<Rightarrow> can_frame \<Rightarrow> ('m bus_state_scheme, unit) operation" where
  "send_frame env f s =
     (case env_send env (bus_trace s) f of
        None \<Rightarrow> (Done (), log_event (Sent f) s)
      | Some e \<Rightarrow> (Failed e, log_event (SendFailed f) s))"

definition recv_frame :: "environment \<Rightarrow> ('m bus_state_scheme, can_frame option) operation" where
  "recv_frame env s =
     (case env_recv env (bus_trace s) of
        Inr (Some f) \<Rightarrow> (Done (Some f), log_event (Received f) s)
      | Inr None \<Rightarrow> (Done None, log_event NothingReceived s)
      | Inl e \<Rightarrow> (Failed e, log_event ReceiveFailed s))"

definition read_clock :: "environment \<Rightarrow> ('m bus_state_scheme, nat) operation" where
  "read_clock env s =
     (let t = env_clock env (bus_trace s) in (Done t, log_event (ClockRead t) s))"

text \<open>\<^verbatim>\<open>Instant::now() + duration\<close>, which panics if the sum is not an \<^verbatim>\<open>Instant\<close>.\<close>

definition later_than :: "environment \<Rightarrow> nat \<Rightarrow> nat \<Rightarrow> nat option" where
  "later_than env now duration = (if now + duration < env_horizon env then Some (now + duration) else None)"

definition deadline_after :: "environment \<Rightarrow> nat \<Rightarrow> ('m bus_state_scheme, nat) operation" where
  "deadline_after env duration = attempt (read_clock env) (\<lambda>now. unless_panic (later_than env now duration))"

definition sleep_for :: "nat \<Rightarrow> ('m bus_state_scheme, unit) operation" where
  "sleep_for ns s = (Done (), log_event (Slept ns) s)"

fun send_all :: "environment \<Rightarrow> can_frame list \<Rightarrow> ('m bus_state_scheme, unit) operation" where
  "send_all env [] = done_with ()"
| "send_all env (f # fs) = attempt (send_frame env f) (\<lambda>_. send_all env fs)"

section \<open>Triples\<close>

definition triple ::
  "('s \<Rightarrow> bool) \<Rightarrow> ('s, 'a) operation \<Rightarrow> ('a \<Rightarrow> 's \<Rightarrow> bool) \<Rightarrow> ('s \<Rightarrow> bool) \<Rightarrow> ('s \<Rightarrow> bool) \<Rightarrow> bool" where
  "triple P m Q E W \<longleftrightarrow>
     (\<forall>s. P s \<longrightarrow>
        (case m s of
           (Done a, s1) \<Rightarrow> Q a s1
         | (Failed e, s1) \<Rightarrow> E s1
         | (Panicked, s1) \<Rightarrow> False
         | (Waiting, s1) \<Rightarrow> W s1))"

text \<open>The frequent case: an invariant is kept, whatever the outcome.\<close>

abbreviation keeps :: "('s \<Rightarrow> bool) \<Rightarrow> ('s, 'a) operation \<Rightarrow> ('s \<Rightarrow> bool) \<Rightarrow> bool" where
  "keeps I m W \<equiv> triple I m (\<lambda>_. I) I W"

lemma tripleD:
  assumes "triple P m Q E W" and "P s" and "m s = (r, s1)"
  shows "r \<noteq> Panicked" and "r = Done a \<Longrightarrow> Q a s1" and "r = Failed e \<Longrightarrow> E s1" and "r = Waiting \<Longrightarrow> W s1"
  using assms unfolding triple_def by fastforce+

lemma triple_conseq:
  assumes "triple P' m Q' E' W'" and "\<And>s. P s \<Longrightarrow> P' s" and "\<And>a s. Q' a s \<Longrightarrow> Q a s" and "\<And>s. E' s \<Longrightarrow> E s"
    and "\<And>s. W' s \<Longrightarrow> W s"
  shows "triple P m Q E W"
  using assms unfolding triple_def by (fastforce split: outcome.splits)

lemma triple_pre: "triple P' m Q E W \<Longrightarrow> (\<And>s. P s \<Longrightarrow> P' s) \<Longrightarrow> triple P m Q E W"
  by (erule triple_conseq) auto

lemma triple_attempt:
  assumes "triple P m R E W" and "\<And>a. triple (R a) (k a) Q E W"
  shows "triple P (attempt m k) Q E W"
  using assms unfolding triple_def attempt_def by (fastforce split: outcome.splits)

lemma triple_done: "(\<And>s. P s \<Longrightarrow> Q a s) \<Longrightarrow> triple P (done_with a) Q E W"
  by (simp add: triple_def done_with_def)

lemma triple_fail: "(\<And>s. P s \<Longrightarrow> E s) \<Longrightarrow> triple P (fail_with e) Q E W"
  by (simp add: triple_def fail_with_def)

lemma triple_rounds: "(\<And>s. P s \<Longrightarrow> W s) \<Longrightarrow> triple P out_of_rounds Q E W"
  by (simp add: triple_def out_of_rounds_def)

lemma triple_update: "(\<And>s. P s \<Longrightarrow> Q () (f s)) \<Longrightarrow> triple P (update_state f) Q E W"
  by (simp add: triple_def update_state_def)

lemma triple_input:
  "(\<And>a s. r = Inr a \<Longrightarrow> P s \<Longrightarrow> Q a s) \<Longrightarrow> (\<And>s. P s \<Longrightarrow> E s) \<Longrightarrow> triple P (invalid_input r) Q E W"
  by (cases r) (auto simp: triple_def invalid_input_def)

text \<open>Sequences, by their first operation.\<close>

lemma attempt_read:
  "(\<And>a. triple (\<lambda>s. P s \<and> a = f s) (k a) Q E W) \<Longrightarrow> triple P (attempt (read_state f) k) Q E W"
  by (simp add: triple_def attempt_def read_state_def)

lemma attempt_read_fact:
  "(\<And>s. P s \<Longrightarrow> F (f s)) \<Longrightarrow> (\<And>a. F a \<Longrightarrow> triple P (k a) Q E W) \<Longrightarrow> triple P (attempt (read_state f) k) Q E W"
  by (simp add: triple_def attempt_def read_state_def)

lemma attempt_update:
  "(\<And>s. P s \<Longrightarrow> P' (f s)) \<Longrightarrow> triple P' (k ()) Q E W \<Longrightarrow> triple P (attempt (update_state f) k) Q E W"
  by (simp add: triple_def attempt_def update_state_def)

lemma attempt_panic:
  "(\<And>s. P s \<Longrightarrow> x \<noteq> None) \<Longrightarrow> (\<And>b. x = Some b \<Longrightarrow> triple P (k b) Q E W) \<Longrightarrow>
     triple P (attempt (unless_panic x) k) Q E W"
  by (cases x) (auto simp: triple_def attempt_def unless_panic_def)

lemma attempt_input:
  "(\<And>a. r = Inr a \<Longrightarrow> triple P (k a) Q E W) \<Longrightarrow> (\<And>s. P s \<Longrightarrow> E s) \<Longrightarrow>
     triple P (attempt (invalid_input r) k) Q E W"
  by (cases r) (auto simp: triple_def attempt_def invalid_input_def)

lemma attempt_keeps:
  "keeps I m W \<Longrightarrow> (\<And>a. triple I (k a) Q I W) \<Longrightarrow> triple I (attempt m k) Q I W"
  by (rule triple_attempt)

lemma triple_if:
  "(b \<Longrightarrow> triple P m Q E W) \<Longrightarrow> (\<not> b \<Longrightarrow> triple P n Q E W) \<Longrightarrow> triple P (if b then m else n) Q E W"
  by simp

lemma triple_option:
  "(x = None \<Longrightarrow> triple P m Q E W) \<Longrightarrow> (\<And>a. x = Some a \<Longrightarrow> triple P (k a) Q E W) \<Longrightarrow>
     triple P (case x of None \<Rightarrow> m | Some a \<Rightarrow> k a) Q E W"
  by (simp split: option.split)

lemma triple_pair:
  "(\<And>a b. x = (a, b) \<Longrightarrow> triple P (k a b) Q E W) \<Longrightarrow> triple P (case x of (a, b) \<Rightarrow> k a b) Q E W"
  by (cases x) simp

lemma triple_fact: "(\<And>s. P s \<Longrightarrow> F) \<Longrightarrow> (F \<Longrightarrow> triple P m Q E W) \<Longrightarrow> triple P m Q E W"
  by (auto simp: triple_def)

text \<open>A duration that can be added to any reading of the clock.\<close>

definition clock_fits :: "environment \<Rightarrow> nat \<Rightarrow> bool" where
  "clock_fits env duration \<longleftrightarrow> (\<forall>trace. env_clock env trace + duration < env_horizon env)"

lemma clock_fits_mono: "clock_fits env e \<Longrightarrow> d \<le> e \<Longrightarrow> clock_fits env d"
  unfolding clock_fits_def by (meson add_left_mono le_less_trans)

lemma deadline_run:
  "deadline_after env d s =
     (let now = env_clock env (bus_trace s)
      in (if now + d < env_horizon env then Done (now + d) else Panicked, log_event (ClockRead now) s))"
  by (simp add: deadline_after_def attempt_def read_clock_def later_than_def unless_panic_def Let_def)

lemmas triple_rules = attempt_read attempt_panic attempt_input triple_done triple_fail triple_rounds triple_if
  triple_option triple_pair

text \<open>
  An invariant that does not look at the trace is kept by everything the bus and the clock do,
  whether it succeeds or not.
\<close>

locale trace_blind =
  fixes I :: "'m bus_state_scheme \<Rightarrow> bool"
  assumes blind: "I (log_event ev s) = I s"
begin

lemma send_keeps: "keeps I (send_frame env f) W"
  by (auto simp: triple_def send_frame_def blind split: option.splits)

lemma recv_keeps: "keeps I (recv_frame env) W"
  by (auto simp: triple_def recv_frame_def blind split: option.splits sum.splits)

lemma clock_keeps: "keeps I (read_clock env) W"
  by (simp add: triple_def read_clock_def Let_def blind)

lemma deadline_keeps: "clock_fits env d \<Longrightarrow> keeps I (deadline_after env d) W"
  by (simp add: triple_def deadline_run Let_def clock_fits_def blind)

lemma sleep_keeps: "keeps I (sleep_for ns) W"
  by (simp add: triple_def sleep_for_def blind)

lemma send_all_keeps: "keeps I (send_all env fs) W"
  by (induction fs) (auto intro: triple_done attempt_keeps send_keeps)

lemmas bus_keeps = send_keeps recv_keeps clock_keeps sleep_keeps send_all_keeps

end

section \<open>What a bus puts on the wire\<close>

definition frames_sent :: "io_event list \<Rightarrow> can_frame list" where
  "frames_sent trace = List.map_filter (\<lambda>ev. case ev of Sent f \<Rightarrow> Some f | _ \<Rightarrow> None) (rev trace)"

lemma frames_sent_simps [simp]:
  "frames_sent [] = []" "frames_sent (Sent f # t) = frames_sent t @ [f]" "frames_sent (SendFailed f # t) = frames_sent t"
  "frames_sent (Received f # t) = frames_sent t" "frames_sent (NothingReceived # t) = frames_sent t"
  "frames_sent (ReceiveFailed # t) = frames_sent t" "frames_sent (ClockRead n # t) = frames_sent t"
  "frames_sent (Slept n # t) = frames_sent t"
  by (simp_all add: frames_sent_def map_filter_def)

text \<open>A bus that accepts every frame.\<close>

definition accepting :: "environment \<Rightarrow> bool" where
  "accepting env \<longleftrightarrow> (\<forall>trace f. env_send env trace f = None)"

lemma send_accepted [simp]: "accepting env \<Longrightarrow> send_frame env f s = (Done (), log_event (Sent f) s)"
  by (simp add: send_frame_def accepting_def)

lemma log_event_trace [simp]: "bus_trace (log_event ev s) = ev # bus_trace s"
  by (simp add: log_event_def)

lemma run_simps:
  "done_with a s = (Done a, s)" "fail_with e s = (Failed e, s)" "out_of_rounds s = (Waiting, s)"
  "read_state g s = (Done (g s), s)" "update_state h s = (Done (), h s)"
  "unless_panic (Some a) s = (Done a, s)" "unless_panic None s = (Panicked, s)"
  "invalid_input (Inr a) s = (Done a, s)" "invalid_input (Inl x) s = (Failed InvalidInputError, s)"
  "sleep_for ns t = (Done (), log_event (Slept ns) t)"
  by (simp_all add: done_with_def fail_with_def out_of_rounds_def read_state_def update_state_def unless_panic_def
      invalid_input_def sleep_for_def)

lemma attempt_simps [simp]:
  "m s = (Done a, s1) \<Longrightarrow> attempt m k s = k a s1" "m s = (Failed e, s1) \<Longrightarrow> attempt m k s = (Failed e, s1)"
  "m s = (Panicked, s1) \<Longrightarrow> attempt m k s = (Panicked, s1)" "m s = (Waiting, s1) \<Longrightarrow> attempt m k s = (Waiting, s1)"
  by (simp_all add: attempt_def)

lemma attempt_Done:
  "attempt m k s = (Done b, s2) \<longleftrightarrow> (\<exists>a s1. m s = (Done a, s1) \<and> k a s1 = (Done b, s2))"
  by (auto simp: attempt_def split: outcome.splits prod.splits)

end
