(* ===== verification/Host_Ecu.thy ===== *)
theory Host_Ecu
  imports Host_Bus Node_Transfer Fault_Log Broadcast_Schedule Etp_Transfer Identification
begin

text \<open>
  The ECU of the host crate, \<^verbatim>\<open>host/src/ecu.rs\<close>: a node, the reassembler of the extended protocol, the
  fault log, the schedule with its payloads, the inventory of claims heard and the queue of messages
  not yet taken, over a bus and a clock. The operations are in the order in which they call each
  other. The number of loop rounds an operation may wait is the argument \<open>rounds\<close>; the loops whose
  length the code bounds have a fixed number, shown to be enough in \<open>Host_Safety\<close>. The buffer size
  \<open>BUF\<close> of the const generic is the argument \<open>buf\<close>. Times are in nanoseconds.
\<close>

section \<open>Constants and state\<close>

definition MILLISECOND :: nat where "MILLISECOND = 1000000"
definition BAM_PACKET_INTERVAL :: nat where "BAM_PACKET_INTERVAL = 50 * MILLISECOND"
definition HANDSHAKE_TIMEOUT :: nat where "HANDSHAKE_TIMEOUT = 1250 * MILLISECOND"
definition CLAIM_TIMEOUT :: nat where "CLAIM_TIMEOUT = 3000 * MILLISECOND"
definition T3_TIMEOUT_MS :: u16 where "T3_TIMEOUT_MS = 1250"
definition FAULT_CAPACITY :: nat where "FAULT_CAPACITY = 32"
definition SCHEDULE_CAPACITY :: nat where "SCHEDULE_CAPACITY = 16"
definition ETP_BUFFER :: nat where "ETP_BUFFER = 64 * 1024"
definition ETP_SESSIONS :: nat where "ETP_SESSIONS = 2"

record ecu = bus_state +
  ec_node :: node
  ec_etp :: etp_reassembler
  ec_pending :: "message list"
  ec_faults :: fault_log
  ec_inventory :: "u8 \<rightharpoonup> ecu_name"
  ec_obd :: obd_compliance
  ec_schedule :: schedule
  ec_payloads :: "u32 \<times> u8 \<rightharpoonup> bytes \<times> priority"
  ec_last_tick :: nat

text \<open>The clock is read once, for \<open>last_tick\<close>.\<close>

definition Ecu_new :: "environment \<Rightarrow> nat \<Rightarrow> nat \<Rightarrow> ecu_name \<Rightarrow> address \<Rightarrow> ecu" where
  "Ecu_new env buf sessions n preferred =
     \<lparr>bus_trace = [ClockRead (env_clock env [])], ec_node = Node_new buf sessions n preferred,
      ec_etp = new_table ETP_BUFFER ETP_SESSIONS, ec_pending = [], ec_faults = FaultLog_new FAULT_CAPACITY,
      ec_inventory = Map.empty, ec_obd = ObdNotIntended, ec_schedule = Schedule_new SCHEDULE_CAPACITY,
      ec_payloads = Map.empty, ec_last_tick = env_clock env []\<rparr>"

definition ecu_address :: "ecu \<Rightarrow> address" where "ecu_address s = nd_address (ec_node s)"
definition ecu_name_of :: "ecu \<Rightarrow> ecu_name" where "ecu_name_of s = cl_name (nd_claimer (ec_node s))"
definition ecu_has_address :: "ecu \<Rightarrow> bool" where "ecu_has_address s = has_address (ec_node s)"
definition ecu_claim_state :: "ecu \<Rightarrow> claim_state" where "ecu_claim_state s = nd_state (ec_node s)"

definition ecu_etp_progress :: "address \<Rightarrow> ecu \<Rightarrow> (u32 \<times> u32) option option" where
  "ecu_etp_progress source s = etp_progress source (ec_etp s)"

definition ecu_transfers_in_flight :: "ecu \<Rightarrow> nat" where
  "ecu_transfers_in_flight s = transfers_in_flight (ec_node s) + active_sessions (ec_etp s)"

section \<open>Transmitting\<close>

definition check_may_transmit :: "(ecu, unit) operation" where
  "check_may_transmit s = (if ecu_has_address s then (Done (), s) else (Failed NotConnectedError, s))"

definition ecu_request :: "environment \<Rightarrow> address \<Rightarrow> pgn \<Rightarrow> (ecu, unit) operation" where
  "ecu_request env destination requested =
     attempt check_may_transmit (\<lambda>_.
     attempt (read_state ecu_address) (\<lambda>source.
     attempt (invalid_input (Id_from_parts Priority_DEFAULT PGN_REQUEST destination source)) (\<lambda>i.
     attempt (invalid_input (Frame_new i (Request_encode (Request_new requested)))) (\<lambda>f.
     send_frame env f))))"

text \<open>
  \<open>while let Some(frame) = outgoing.next_frame()\<close>, with the pause before every frame but the first
  when the message is spaced. An announcement, 255 packets and the end are 257 rounds.
\<close>

definition FRAME_ROUNDS :: nat where "FRAME_ROUNDS = 257"

fun send_frames ::
  "nat \<Rightarrow> environment \<Rightarrow> bool \<Rightarrow> bool \<Rightarrow> outgoing \<Rightarrow> ('m bus_state_scheme, outgoing) operation" where
  "send_frames 0 env spaced first o1 = out_of_rounds"
| "send_frames (Suc k) env spaced first o1 =
     attempt (unless_panic (out_next_frame o1)) (\<lambda>(next_frame, o2).
     case next_frame of
       None \<Rightarrow> done_with o2
     | Some f \<Rightarrow>
         attempt (if spaced \<and> \<not> first then sleep_for BAM_PACKET_INTERVAL else done_with ()) (\<lambda>_.
         attempt (send_frame env f) (\<lambda>_.
         send_frames k env spaced False o2)))"

definition broadcast_with_priority :: "environment \<Rightarrow> pgn \<Rightarrow> bytes \<Rightarrow> priority \<Rightarrow> (ecu, unit) operation" where
  "broadcast_with_priority env grp data priority =
     attempt check_may_transmit (\<lambda>_.
     attempt (read_state ecu_address) (\<lambda>source.
     attempt (invalid_input (Outgoing_new grp source Address_GLOBAL data)) (\<lambda>o1.
     attempt (send_frames FRAME_ROUNDS env (needs_pacing o1) True (with_priority priority o1)) (\<lambda>_.
     done_with ()))))"

definition ecu_broadcast :: "environment \<Rightarrow> pgn \<Rightarrow> bytes \<Rightarrow> (ecu, unit) operation" where
  "ecu_broadcast env grp data = broadcast_with_priority env grp data Priority_DEFAULT"

section \<open>Reporting faults\<close>

definition ecu_set_fault :: "u32 \<Rightarrow> u8 \<Rightarrow> lamp \<Rightarrow> (ecu, unit) operation" where
  "ecu_set_fault spn fmi lamp =
     attempt (read_state ec_faults) (\<lambda>l.
     attempt (unless_panic (FaultLog_set spn fmi lamp l)) (\<lambda>(r, l1).
     attempt (update_state (\<lambda>s. s\<lparr>ec_faults := l1\<rparr>)) (\<lambda>_.
     invalid_input r)))"

definition ecu_clear_fault :: "u32 \<Rightarrow> u8 \<Rightarrow> (ecu, bool) operation" where
  "ecu_clear_fault spn fmi =
     attempt (read_state ec_faults) (\<lambda>l.
     attempt (unless_panic (FaultLog_clear spn fmi l)) (\<lambda>(b, l1).
     attempt (update_state (\<lambda>s. s\<lparr>ec_faults := l1\<rparr>)) (\<lambda>_.
     done_with b)))"

definition send_report :: "environment \<Rightarrow> pgn \<Rightarrow> (nat j1939_result \<times> bytes) option \<Rightarrow> (ecu, unit) operation" where
  "send_report env grp encoded =
     attempt (unless_panic encoded) (\<lambda>(r, payload).
     attempt (invalid_input r) (\<lambda>len.
     attempt (unless_panic (slice 0 len payload)) (\<lambda>data.
     ecu_broadcast env grp data)))"

definition send_dm1 :: "environment \<Rightarrow> (ecu, unit) operation" where
  "send_dm1 env =
     attempt (read_state ec_faults) (\<lambda>l.
     send_report env PGN_DM1 (FaultLog_dm1 l (replicate (dm1_len l) 0)))"

definition send_dm2 :: "environment \<Rightarrow> (ecu, unit) operation" where
  "send_dm2 env =
     attempt (read_state ec_faults) (\<lambda>l.
     send_report env PGN_DM2 (FaultLog_dm2 l (replicate (dm2_len l) 0)))"

definition saturating_count :: "nat \<Rightarrow> u8" where
  "saturating_count count = (if count \<le> 255 then word_of_nat count else 255)"

definition set_obd_compliance :: "obd_compliance \<Rightarrow> ecu \<Rightarrow> ecu" where
  "set_obd_compliance level s = s\<lparr>ec_obd := level\<rparr>"

definition send_dm5 :: "environment \<Rightarrow> (ecu, unit) operation" where
  "send_dm5 env =
     attempt (read_state (\<lambda>s. Dm5_new (saturating_count (length (active_codes (ec_faults s))))
       (saturating_count (length (previous_codes (ec_faults s)))) (ec_obd s))) (\<lambda>readiness.
     ecu_broadcast env PGN_DM5 (Dm5_encode readiness))"

definition ecu_acknowledge :: "environment \<Rightarrow> address \<Rightarrow> acknowledgement \<Rightarrow> (ecu, unit) operation" where
  "ecu_acknowledge env requester ack =
     attempt (read_state ecu_address) (\<lambda>source.
     attempt (invalid_input (Id_from_parts Priority_DEFAULT PGN_ACKNOWLEDGEMENT requester source)) (\<lambda>i.
     send_frame env (Frame_from_payload i (Acknowledgement_encode ack))))"

definition answer_diagnostic_request :: "environment \<Rightarrow> address \<Rightarrow> request \<Rightarrow> (ecu, bool) operation" where
  "answer_diagnostic_request env requester rq =
     (let grp = req_pgn rq in
      if grp = PGN_DM1 then attempt (send_dm1 env) (\<lambda>_. done_with True)
      else if grp = PGN_DM2 then attempt (send_dm2 env) (\<lambda>_. done_with True)
      else if grp = PGN_DM5 then attempt (send_dm5 env) (\<lambda>_. done_with True)
      else if grp = PGN_DM3 then
        attempt (update_state (\<lambda>s. s\<lparr>ec_faults := clear_previously_active (ec_faults s)\<rparr>)) (\<lambda>_.
        attempt (read_state ecu_address) (\<lambda>a.
        attempt (ecu_acknowledge env requester (dm3_acknowledge a)) (\<lambda>_.
        done_with True)))
      else if grp = PGN_DM11 then
        attempt (update_state (\<lambda>s. s\<lparr>ec_faults := clear_active (ec_faults s)\<rparr>)) (\<lambda>_.
        attempt (read_state ecu_address) (\<lambda>a.
        attempt (ecu_acknowledge env requester (dm11_acknowledge a)) (\<lambda>_.
        attempt (send_dm1 env) (\<lambda>_.
        done_with True))))
      else done_with False)"

section \<open>The schedule and its payloads\<close>

definition payload_key :: "pgn \<Rightarrow> address \<Rightarrow> u32 \<times> u8" where
  "payload_key grp destination = (Pgn_as_u32 grp, Address_as_u8 destination)"

definition stored_priority :: "u32 \<times> u8 \<Rightarrow> ecu \<Rightarrow> priority" where
  "stored_priority k s = (case ec_payloads s k of Some (_, priority) \<Rightarrow> priority | None \<Rightarrow> Priority_DEFAULT)"

definition store_payload :: "u32 \<times> u8 \<Rightarrow> bytes \<Rightarrow> ecu \<Rightarrow> ecu" where
  "store_payload k data s = s\<lparr>ec_payloads := (ec_payloads s)(k \<mapsto> (data, stored_priority k s))\<rparr>"

definition as_millis :: "nat \<Rightarrow> nat" where "as_millis duration = duration div MILLISECOND"

definition ecu_send_every :: "pgn \<Rightarrow> address \<Rightarrow> bytes \<Rightarrow> nat \<Rightarrow> (ecu, unit) operation" where
  "ecu_send_every grp destination data period =
     (if 65535 < as_millis period then fail_with InvalidInputError
      else
        attempt (read_state ec_schedule) (\<lambda>sc.
        attempt (unless_panic (send_every grp destination (word_of_nat (as_millis period)) sc)) (\<lambda>(r, sc1).
        attempt (update_state (\<lambda>s. s\<lparr>ec_schedule := sc1\<rparr>)) (\<lambda>_.
        attempt (invalid_input r) (\<lambda>_.
        update_state (store_payload (payload_key grp destination) data))))))"

definition ecu_broadcast_every :: "pgn \<Rightarrow> bytes \<Rightarrow> nat \<Rightarrow> (ecu, unit) operation" where
  "ecu_broadcast_every grp data period = ecu_send_every grp Address_GLOBAL data period"

definition set_periodic_priority :: "pgn \<Rightarrow> address \<Rightarrow> priority \<Rightarrow> (ecu, unit) operation" where
  "set_periodic_priority grp destination priority =
     (let k = payload_key grp destination in
      attempt (read_state (\<lambda>s. ec_payloads s k)) (\<lambda>stored.
      case stored of
        Some (data, _) \<Rightarrow> update_state (\<lambda>s. s\<lparr>ec_payloads := (ec_payloads s)(k \<mapsto> (data, priority))\<rparr>)
      | None \<Rightarrow> fail_with NotFoundError))"

definition update_periodic_to :: "pgn \<Rightarrow> address \<Rightarrow> bytes \<Rightarrow> (ecu, unit) operation" where
  "update_periodic_to grp destination data =
     attempt (read_state (\<lambda>s. sc_contains grp destination (ec_schedule s))) (\<lambda>scheduled.
     if \<not> scheduled then fail_with NotFoundError
     else update_state (store_payload (payload_key grp destination) data))"

definition update_periodic :: "pgn \<Rightarrow> bytes \<Rightarrow> (ecu, unit) operation" where
  "update_periodic grp data = update_periodic_to grp Address_GLOBAL data"

definition stop_periodic :: "pgn \<Rightarrow> address \<Rightarrow> (ecu, bool) operation" where
  "stop_periodic grp destination =
     attempt (update_state (\<lambda>s. s\<lparr>ec_payloads := (ec_payloads s)(payload_key grp destination := None)\<rparr>)) (\<lambda>_.
     attempt (read_state ec_schedule) (\<lambda>sc.
     attempt (unless_panic (sc_remove grp destination sc)) (\<lambda>(removed, sc1).
     attempt (update_state (\<lambda>s. s\<lparr>ec_schedule := sc1\<rparr>)) (\<lambda>_.
     done_with removed))))"

definition periodic :: "ecu \<Rightarrow> (pgn \<times> address \<times> nat) list" where
  "periodic s =
     map (\<lambda>(due, period_ms). (due_pgn due, due_destination due, unat period_ms * MILLISECOND)) (sc_listing (ec_schedule s))"

definition broadcasts_suspended :: "ecu \<Rightarrow> bool" where
  "broadcasts_suspended s = is_suspended (ec_schedule s)"

definition suspend_broadcasts :: "nat \<Rightarrow> ecu \<Rightarrow> ecu" where
  "suspend_broadcasts timeout s =
     (let ms = (if as_millis timeout \<le> 65535 then word_of_nat (as_millis timeout) else 65535)
      in s\<lparr>ec_schedule := sc_suspend ms (ec_schedule s)\<rparr>)"

definition resume_broadcasts :: "ecu \<Rightarrow> ecu" where
  "resume_broadcasts s = s\<lparr>ec_schedule := sc_resume (ec_schedule s)\<rparr>"

text \<open>The networks in the order of the loop; the first command that says anything is obeyed.\<close>

fun on_dm13_networks :: "dm_network list \<Rightarrow> dm13 \<Rightarrow> schedule \<Rightarrow> schedule" where
  "on_dm13_networks [] command sc = sc"
| "on_dm13_networks (n # ns) command sc =
     (case Dm13_command command n of
        StopBroadcast \<Rightarrow> sc_suspend DEFAULT_SUSPEND_MS sc
      | StartBroadcast \<Rightarrow> sc_resume sc
      | _ \<Rightarrow> on_dm13_networks ns command sc)"

definition on_dm13 :: "dm13 \<Rightarrow> ecu \<Rightarrow> ecu" where
  "on_dm13 command s = s\<lparr>ec_schedule := on_dm13_networks [CurrentDataLink, VehicleNetwork] command (ec_schedule s)\<rparr>"

section \<open>A received frame\<close>

definition send_etp_cm :: "environment \<Rightarrow> address \<Rightarrow> etp_cm \<Rightarrow> (ecu, unit) operation" where
  "send_etp_cm env destination cm =
     attempt (read_state ecu_address) (\<lambda>source.
     attempt (invalid_input (Id_from_parts Priority_LOWEST PGN_ETP_CM destination source)) (\<lambda>i.
     send_frame env (Frame_from_payload i (EtpCm_encode cm))))"

text \<open>The step of the reassembler a frame asks for; \<open>None\<close> when its control byte is unknown.\<close>

definition etp_step_of :: "can_frame \<Rightarrow> etp_reassembler \<Rightarrow> (etp_rx \<times> etp_reassembler) option option" where
  "etp_step_of f r =
     (let source = Frame_source_address f in
      if Frame_pgn f = PGN_ETP_CM then
        (case EtpCm_decode (Frame_payload f) of
           Inr cm \<Rightarrow> Some (etp_on_cm ETP_BUFFER source cm r)
         | Inl _ \<Rightarrow> None)
      else Some (etp_on_dt source (EtpDt_decode (Frame_payload f)) r))"

definition etp_outcome :: "etp_rx \<Rightarrow> etp_cm option \<times> message option" where
  "etp_outcome outcome =
     (case outcome of
        ErIdle \<Rightarrow> (None, None)
      | ErSend cm \<Rightarrow> (Some cm, None)
      | ErMessage grp source data ack \<Rightarrow>
          (Some ack, Some \<lparr>msg_pgn = grp, msg_source = source, msg_data = data\<rparr>))"

definition dispatch_etp :: "environment \<Rightarrow> can_frame \<Rightarrow> (ecu, message option option) operation" where
  "dispatch_etp env f =
     attempt (read_state (\<lambda>s. (ecu_address s, ec_etp s))) (\<lambda>(a, r).
     if Frame_pgn f \<noteq> PGN_ETP_CM \<and> Frame_pgn f \<noteq> PGN_ETP_DT then done_with None
     else if \<not> Id_is_addressed_to (frame_id f) a then done_with (Some None)
     else
       (case etp_step_of f r of
          None \<Rightarrow> done_with (Some None)
        | Some step \<Rightarrow>
            attempt (unless_panic step) (\<lambda>(outcome, r1).
            attempt (update_state (\<lambda>s. s\<lparr>ec_etp := r1\<rparr>)) (\<lambda>_.
            case etp_outcome outcome of (reply, m) \<Rightarrow>
              attempt (case reply of Some cm \<Rightarrow> send_etp_cm env (Frame_source_address f) cm | None \<Rightarrow> done_with ()) (\<lambda>_.
              done_with (Some m))))))"

definition note_claim :: "can_frame \<Rightarrow> ecu \<Rightarrow> ecu" where
  "note_claim f s =
     (if Frame_pgn f = PGN_ADDRESS_CLAIMED \<and> Address_is_specific (Frame_source_address f)
      then s\<lparr>ec_inventory := (ec_inventory s)(Address_as_u8 (Frame_source_address f) \<mapsto> Name_from_bytes (Frame_payload f))\<rparr>
      else s)"

definition event_message :: "event \<Rightarrow> message option" where
  "event_message ev =
     (case ev of
        EvtMessage grp source data _ \<Rightarrow> Some \<lparr>msg_pgn = grp, msg_source = source, msg_data = data\<rparr>
      | _ \<Rightarrow> None)"

definition follow_command :: "environment \<Rightarrow> message option \<Rightarrow> (ecu, unit) operation" where
  "follow_command env m =
     (case m of
        None \<Rightarrow> done_with ()
      | Some msg \<Rightarrow>
          if msg_pgn msg \<noteq> PGN_COMMANDED_ADDRESS then done_with ()
          else
            attempt (read_state (\<lambda>s. node_on_commanded_address (msg_data msg) (ec_node s))) (\<lambda>(r, nd1).
            attempt (update_state (\<lambda>s. s\<lparr>ec_node := nd1\<rparr>)) (\<lambda>_.
            case r of Inr (Some claim) \<Rightarrow> send_frame env claim | _ \<Rightarrow> done_with ())))"

definition obey_dm13 :: "message option \<Rightarrow> ecu \<Rightarrow> ecu" where
  "obey_dm13 m s =
     (case m of
        Some msg \<Rightarrow>
          if msg_pgn msg = PGN_DM13 \<and> 8 \<le> length (msg_data msg) then on_dm13 (Dm13_decode (take 8 (msg_data msg))) s else s
      | None \<Rightarrow> s)"

definition answer_request :: "environment \<Rightarrow> message option \<Rightarrow> (ecu, unit) operation" where
  "answer_request env m =
     (case m of
        None \<Rightarrow> done_with ()
      | Some msg \<Rightarrow>
          attempt (read_state ecu_has_address) (\<lambda>has.
          if msg_pgn msg = PGN_REQUEST \<and> has then
            (case Request_decode (msg_data msg) of
               Inr rq \<Rightarrow> attempt (answer_diagnostic_request env (msg_source msg) rq) (\<lambda>_. done_with ())
             | Inl _ \<Rightarrow> done_with ())
          else done_with ()))"

definition dispatch :: "nat \<Rightarrow> environment \<Rightarrow> can_frame \<Rightarrow> (ecu, message option) operation" where
  "dispatch buf env f =
     attempt (update_state (note_claim f)) (\<lambda>_.
     attempt (dispatch_etp env f) (\<lambda>handled.
     case handled of
       Some m \<Rightarrow> done_with m
     | None \<Rightarrow>
         attempt (read_state ec_node) (\<lambda>nd.
         attempt (unless_panic (node_on_frame buf f nd)) (\<lambda>(ev, nd1).
         attempt (update_state (\<lambda>s. s\<lparr>ec_node := nd1\<rparr>)) (\<lambda>_.
         attempt (send_all env (event_frames ev)) (\<lambda>_.
         attempt (follow_command env (event_message ev)) (\<lambda>_.
         attempt (update_state (obey_dm13 (event_message ev))) (\<lambda>_.
         attempt (answer_request env (event_message ev)) (\<lambda>_.
         done_with (event_message ev))))))))))"

text \<open>\<open>pending.push_back\<close>, for the callers that keep a message for later.\<close>

definition queue_message :: "message option \<Rightarrow> ecu \<Rightarrow> ecu" where
  "queue_message m s = (case m of Some msg \<Rightarrow> s\<lparr>ec_pending := ec_pending s @ [msg]\<rparr> | None \<Rightarrow> s)"

section \<open>A message to one peer\<close>

fun await_peer :: "nat \<Rightarrow> nat \<Rightarrow> environment \<Rightarrow> nat \<Rightarrow> outgoing \<Rightarrow> (ecu, unit) operation" where
  "await_peer 0 buf env deadline o1 = out_of_rounds"
| "await_peer (Suc k) buf env deadline o1 =
     (if out_is_complete o1 then done_with ()
      else
        attempt (read_clock env) (\<lambda>now.
        if deadline \<le> now then fail_with TimedOutError
        else
          attempt (recv_frame env) (\<lambda>received.
          case received of
            None \<Rightarrow> await_peer k buf env deadline o1
          | Some f \<Rightarrow>
              attempt (unless_panic (out_on_frame f o1)) (\<lambda>(progress, o2).
              case progress of
                ProgressReady \<Rightarrow>
                  attempt (send_frames FRAME_ROUNDS env False True o2) (\<lambda>o3.
                  attempt (deadline_after env HANDSHAKE_TIMEOUT) (\<lambda>later.
                  await_peer k buf env later o3))
              | ProgressComplete \<Rightarrow> done_with ()
              | ProgressAborted _ \<Rightarrow> fail_with ConnectionAbortedError
              | ProgressIdle \<Rightarrow>
                  attempt (dispatch buf env f) (\<lambda>m.
                  attempt (update_state (queue_message m)) (\<lambda>_.
                  await_peer k buf env deadline o2))))))"

definition ecu_send_to :: "nat \<Rightarrow> nat \<Rightarrow> environment \<Rightarrow> address \<Rightarrow> pgn \<Rightarrow> bytes \<Rightarrow> (ecu, unit) operation" where
  "ecu_send_to rounds buf env destination grp data =
     (if Address_is_broadcast destination then ecu_broadcast env grp data
      else
        attempt check_may_transmit (\<lambda>_.
        attempt (read_state ecu_address) (\<lambda>source.
        attempt (invalid_input (Outgoing_new grp source destination data)) (\<lambda>o1.
        attempt (send_frames FRAME_ROUNDS env False True o1) (\<lambda>o2.
        attempt (deadline_after env HANDSHAKE_TIMEOUT) (\<lambda>deadline.
        await_peer rounds buf env deadline o2))))))"

section \<open>Time\<close>

definition DUE_ROUNDS :: nat where "DUE_ROUNDS = SCHEDULE_CAPACITY + 1"

fun send_due :: "nat \<Rightarrow> nat \<Rightarrow> nat \<Rightarrow> environment \<Rightarrow> (ecu, unit) operation" where
  "send_due 0 rounds buf env = out_of_rounds"
| "send_due (Suc k) rounds buf env =
     attempt (read_state ec_schedule) (\<lambda>sc.
     attempt (unless_panic (next_due sc)) (\<lambda>(due, sc1).
     attempt (update_state (\<lambda>s. s\<lparr>ec_schedule := sc1\<rparr>)) (\<lambda>_.
     case due of
       None \<Rightarrow> done_with ()
     | Some d \<Rightarrow>
         attempt (read_state (\<lambda>s. ec_payloads s (payload_key (due_pgn d) (due_destination d)))) (\<lambda>stored.
         case stored of
           None \<Rightarrow> send_due k rounds buf env
         | Some (payload, priority) \<Rightarrow>
             attempt (if Address_is_broadcast (due_destination d)
                      then broadcast_with_priority env (due_pgn d) payload priority
                      else ecu_send_to rounds buf env (due_destination d) (due_pgn d) payload) (\<lambda>_.
             send_due k rounds buf env)))))"

fun send_aborts :: "environment \<Rightarrow> (address \<times> etp_cm) list \<Rightarrow> (ecu, unit) operation" where
  "send_aborts env [] = done_with ()"
| "send_aborts env ((peer, abort) # rest) = attempt (send_etp_cm env peer abort) (\<lambda>_. send_aborts env rest)"

definition tick_node :: "environment \<Rightarrow> u16 \<Rightarrow> (ecu, unit) operation" where
  "tick_node env elapsed_ms =
     attempt (read_state (\<lambda>s. node_tick elapsed_ms (ec_node s))) (\<lambda>(frames, nd1).
     attempt (update_state (\<lambda>s. s\<lparr>ec_node := nd1\<rparr>)) (\<lambda>_.
     send_all env frames))"

definition tick_etp :: "environment \<Rightarrow> u16 \<Rightarrow> (ecu, unit) operation" where
  "tick_etp env elapsed_ms =
     attempt (read_state (\<lambda>s. etp_tick elapsed_ms T3_TIMEOUT_MS (ec_etp s))) (\<lambda>(expired, r1).
     attempt (update_state (\<lambda>s. s\<lparr>ec_etp := r1\<rparr>)) (\<lambda>_.
     send_aborts env expired))"

definition tick_faults :: "environment \<Rightarrow> u16 \<Rightarrow> (ecu, unit) operation" where
  "tick_faults env elapsed_ms =
     attempt (read_state ecu_has_address) (\<lambda>has.
     if \<not> has then done_with ()
     else
       attempt (read_state (\<lambda>s. FaultLog_tick elapsed_ms (ec_faults s))) (\<lambda>(report, l1).
       attempt (update_state (\<lambda>s. s\<lparr>ec_faults := l1\<rparr>)) (\<lambda>_.
       if report then send_dm1 env else done_with ())))"

definition tick_schedule :: "nat \<Rightarrow> nat \<Rightarrow> environment \<Rightarrow> u16 \<Rightarrow> (ecu, unit) operation" where
  "tick_schedule rounds buf env elapsed_ms =
     attempt (read_state ecu_has_address) (\<lambda>has.
     if \<not> has then done_with ()
     else
       attempt (read_state ec_schedule) (\<lambda>sc.
       attempt (unless_panic (sc_tick elapsed_ms sc)) (\<lambda>(_, sc1).
       attempt (update_state (\<lambda>s. s\<lparr>ec_schedule := sc1\<rparr>)) (\<lambda>_.
       send_due DUE_ROUNDS rounds buf env))))"

text \<open>\<open>elapsed\<close> of an instant is zero when the clock has not moved past it.\<close>

definition ecu_tick :: "nat \<Rightarrow> nat \<Rightarrow> environment \<Rightarrow> (ecu, unit) operation" where
  "ecu_tick rounds buf env =
     attempt (read_clock env) (\<lambda>now.
     attempt (read_state ec_last_tick) (\<lambda>last_tick.
     let elapsed_ms = min (as_millis (now - last_tick)) 65535 in
     if elapsed_ms = 0 then done_with ()
     else
       attempt (update_state (\<lambda>s. s\<lparr>ec_last_tick := last_tick + elapsed_ms * MILLISECOND\<rparr>)) (\<lambda>_.
       attempt (tick_node env (word_of_nat elapsed_ms)) (\<lambda>_.
       attempt (tick_etp env (word_of_nat elapsed_ms)) (\<lambda>_.
       attempt (tick_faults env (word_of_nat elapsed_ms)) (\<lambda>_.
       tick_schedule rounds buf env (word_of_nat elapsed_ms)))))))"

definition pump :: "nat \<Rightarrow> nat \<Rightarrow> environment \<Rightarrow> (ecu, message option) operation" where
  "pump rounds buf env =
     attempt (recv_frame env) (\<lambda>received.
     attempt (case received of Some f \<Rightarrow> dispatch buf env f | None \<Rightarrow> done_with None) (\<lambda>m.
     attempt (ecu_tick rounds buf env) (\<lambda>_.
     done_with m)))"

section \<open>Waiting for the bus\<close>

definition ecu_poll :: "nat \<Rightarrow> nat \<Rightarrow> environment \<Rightarrow> (ecu, message option) operation" where
  "ecu_poll rounds buf env =
     attempt (read_state ec_pending) (\<lambda>pending.
     case pending of
       [] \<Rightarrow> pump rounds buf env
     | m # rest \<Rightarrow> attempt (update_state (\<lambda>s. s\<lparr>ec_pending := rest\<rparr>)) (\<lambda>_. done_with (Some m)))"

fun claim_loop :: "nat \<Rightarrow> nat \<Rightarrow> nat \<Rightarrow> environment \<Rightarrow> nat \<Rightarrow> (ecu, unit) operation" where
  "claim_loop 0 rounds buf env give_up_at = out_of_rounds"
| "claim_loop (Suc k) rounds buf env give_up_at =
     attempt (read_clock env) (\<lambda>now.
     if give_up_at \<le> now then done_with ()
     else
       attempt (read_state ec_node) (\<lambda>nd.
       if has_address nd \<or> nd_state nd = CannotClaim then done_with ()
       else
         attempt (pump rounds buf env) (\<lambda>m.
         attempt (update_state (queue_message m)) (\<lambda>_.
         claim_loop k rounds buf env give_up_at))))"

definition claim_address :: "nat \<Rightarrow> nat \<Rightarrow> environment \<Rightarrow> (ecu, unit) operation" where
  "claim_address rounds buf env =
     attempt (read_state (\<lambda>s. node_start (ec_node s))) (\<lambda>(claim, nd1).
     attempt (update_state (\<lambda>s. s\<lparr>ec_node := nd1\<rparr>)) (\<lambda>_.
     attempt (send_frame env claim) (\<lambda>_.
     attempt (deadline_after env CLAIM_TIMEOUT) (\<lambda>give_up_at.
     claim_loop rounds rounds buf env give_up_at))))"

text \<open>A \<open>BTreeMap\<close> is traversed in the order of its keys.\<close>

definition ecu_inventory :: "ecu \<Rightarrow> (address \<times> ecu_name) list" where
  "ecu_inventory s =
     List.map_filter (\<lambda>n. map_option (\<lambda>claimed. (Address (word_of_nat n), claimed)) (ec_inventory s (word_of_nat n))) [0 ..< 256]"

fun scan_loop :: "nat \<Rightarrow> nat \<Rightarrow> nat \<Rightarrow> environment \<Rightarrow> nat \<Rightarrow> (ecu, unit) operation" where
  "scan_loop 0 rounds buf env deadline = out_of_rounds"
| "scan_loop (Suc k) rounds buf env deadline =
     attempt (read_clock env) (\<lambda>now.
     if deadline \<le> now then done_with ()
     else
       attempt (pump rounds buf env) (\<lambda>m.
       attempt (update_state (queue_message m)) (\<lambda>_.
       scan_loop k rounds buf env deadline)))"

definition ecu_scan :: "nat \<Rightarrow> nat \<Rightarrow> environment \<Rightarrow> nat \<Rightarrow> (ecu, (address \<times> ecu_name) list) operation" where
  "ecu_scan rounds buf env duration =
     attempt (ecu_request env Address_GLOBAL PGN_ADDRESS_CLAIMED) (\<lambda>_.
     attempt (deadline_after env duration) (\<lambda>deadline.
     attempt (scan_loop rounds rounds buf env deadline) (\<lambda>_.
     read_state ecu_inventory)))"

end
