(* ===== verification/Socket_Transport.thy ===== *)
theory Socket_Transport
  imports Host_Ecu
begin

text \<open>
  \<^verbatim>\<open>core/src/can.rs\<close>, the conversion between the frames of the stack and those of a CAN driver, and
  \<^verbatim>\<open>host/src/transport.rs\<close>, the bus over a SocketCAN socket. The traits of \<^verbatim>\<open>embedded-can\<close> and the
  sockets of \<^verbatim>\<open>socketcan\<close> are not code of the repository: the record \<open>driver\<close> has the operations
  the bridge calls on a driver frame of type \<open>'d\<close> with identifiers of type \<open>'i\<close>, and the record
  \<open>socket\<close> what a socket answers, as functions of all that happened on the bus before and, for a read, of
  the number of frames read since. \<open>driver_ok\<close> is the documented contract of the traits.

  A socket under the bus is an \<open>environment\<close> of the ECU: \<open>runs_on\<close> says that every call to the bus returns
  and answers as the socket does.
\<close>

section \<open>The driver\<close>

record ('i, 'd) driver =
  dr_extended_id :: "u32 \<Rightarrow> 'i option"
  dr_as_raw :: "'i \<Rightarrow> u32"
  dr_new :: "'i \<Rightarrow> bytes \<Rightarrow> 'd option"
  dr_id :: "'d \<Rightarrow> 'i option"
  dr_data :: "'d \<Rightarrow> bytes"

text \<open>\<open>dr_id\<close> is \<open>None\<close> for a standard identifier.\<close>

definition frame_from :: "('i, 'd) driver \<Rightarrow> can_id \<Rightarrow> bytes \<Rightarrow> 'd option" where
  "frame_from drv i data = do { x \<leftarrow> dr_extended_id drv (Id_as_u32 i); dr_new drv x data }"

definition j1939_id :: "('i, 'd) driver \<Rightarrow> 'd \<Rightarrow> can_id option" where
  "j1939_id drv d =
     (case dr_id drv d of
        Some x \<Rightarrow> (case Id_new (dr_as_raw drv x) of Inr i \<Rightarrow> Some i | Inl _ \<Rightarrow> None)
      | None \<Rightarrow> None)"

definition can_decode :: "('i, 'd) driver \<Rightarrow> 'd \<Rightarrow> can_frame option" where
  "can_decode drv d =
     do { i \<leftarrow> j1939_id drv d;
          case Frame_new i (dr_data drv d) of Inr f \<Rightarrow> Some f | Inl _ \<Rightarrow> None }"

definition can_encode :: "('i, 'd) driver \<Rightarrow> can_frame \<Rightarrow> 'd option" where
  "can_encode drv f = frame_from drv (frame_id f) (Frame_data f)"

definition driver_ok :: "('i, 'd) driver \<Rightarrow> bool" where
  "driver_ok drv \<longleftrightarrow>
     (\<forall>raw. raw \<le> 0x1FFFFFFF \<longrightarrow> (\<exists>x. dr_extended_id drv raw = Some x \<and> dr_as_raw drv x = raw)) \<and>
     (\<forall>x data. length data \<le> 8 \<longrightarrow> (\<exists>d. dr_new drv x data = Some d \<and> dr_id drv d = Some x \<and> dr_data drv d = data))"

lemma frame_from_written:
  assumes "driver_ok drv" and "Id_ok i" and "length data \<le> 8"
  obtains d where "frame_from drv i data = Some d" and "j1939_id drv d = Some i" and "dr_data drv d = data"
proof -
  have i: "Id_as_u32 i \<le> 0x1FFFFFFF" "Id_new (Id_as_u32 i) = Inr i"
    using assms(2) by (cases i; simp add: Id_ok_def Id_MAX_def Id_new_def)+
  then obtain x where x: "dr_extended_id drv (Id_as_u32 i) = Some x" "dr_as_raw drv x = Id_as_u32 i"
    using assms(1) unfolding driver_ok_def by blast
  obtain d where "dr_new drv x data = Some d" "dr_id drv d = Some x" "dr_data drv d = data"
    using assms(1,3) unfolding driver_ok_def by blast
  with x i that show thesis by (simp add: frame_from_def j1939_id_def)
qed

text \<open>Every frame of the stack can be put on the wire, and is read back from it.\<close>

lemma encode_decode:
  assumes "driver_ok drv" and "Frame_ok f"
  obtains d where "can_encode drv f = Some d" and "can_decode drv d = Some f"
proof -
  have "Id_ok (frame_id f)" "length (Frame_data f) \<le> 8"
    using assms(2) by (simp_all add: Frame_ok_def Frame_data_def MAX_PAYLOAD_def)
  from frame_from_written [OF assms(1) this] obtain d where
    "frame_from drv (frame_id f) (Frame_data f) = Some d" "j1939_id drv d = Some (frame_id f)" "dr_data drv d = Frame_data f"
    by blast
  with Frame_rebuild [OF assms(2)] that show thesis by (simp add: can_encode_def can_decode_def)
qed

lemma can_decode_ok: "can_decode drv d = Some f \<Longrightarrow> Frame_ok f \<and> Frame_data f = dr_data drv d \<and> j1939_id drv d = Some (frame_id f)"
  using Frame_new_ok Frame_new_fields Id_new_ok
  by (fastforce simp: can_decode_def j1939_id_def split: Option.bind_splits option.splits sum.splits)

lemma standard_frames_are_not_decoded: "dr_id drv d = None \<Longrightarrow> can_decode drv d = None"
  by (simp add: can_decode_def j1939_id_def)

section \<open>The socket\<close>

record 'd socket =
  so_is_data :: "'d \<Rightarrow> bool"
  so_write :: "io_event list \<Rightarrow> 'd \<Rightarrow> io_error option"
  so_read :: "io_event list \<Rightarrow> nat \<Rightarrow> io_error + 'd"

definition socket_send_frame :: "('i, 'd) driver \<Rightarrow> 'd socket \<Rightarrow> io_event list \<Rightarrow> can_frame \<Rightarrow> io_error option" where
  "socket_send_frame drv so trace f =
     (case can_encode drv f of
        None \<Rightarrow> Some InvalidInputError
      | Some raw \<Rightarrow> so_write so trace raw)"

definition socket_send :: "('i, 'd) driver \<Rightarrow> 'd socket \<Rightarrow> io_event list \<Rightarrow> can_id \<Rightarrow> bytes \<Rightarrow> io_error option" where
  "socket_send drv so trace i data =
     (case Frame_new i data of
        Inl _ \<Rightarrow> Some InvalidInputError
      | Inr f \<Rightarrow> socket_send_frame drv so trace f)"

text \<open>What one read gives: \<open>None\<close> when it is skipped. The loop over the reads may not end.\<close>

definition usable :: "('i, 'd) driver \<Rightarrow> 'd socket \<Rightarrow> io_error + 'd \<Rightarrow> (io_error + can_frame) option" where
  "usable drv so r =
     (case r of
        Inl e \<Rightarrow> Some (Inl e)
      | Inr raw \<Rightarrow> if so_is_data so raw then map_option Inr (can_decode drv raw) else None)"

partial_function (option) socket_recv ::
  "('i, 'd) driver \<Rightarrow> 'd socket \<Rightarrow> io_event list \<Rightarrow> nat \<Rightarrow> (io_error + can_frame) option" where
  "socket_recv drv so trace n =
     (case usable drv so (so_read so trace n) of
        Some r \<Rightarrow> Some r
      | None \<Rightarrow> socket_recv drv so trace (Suc n))"

definition socket_recv_frame :: "('i, 'd) driver \<Rightarrow> 'd socket \<Rightarrow> io_event list \<Rightarrow> (io_error + can_frame option) option" where
  "socket_recv_frame drv so trace =
     map_option (\<lambda>r. case r of
         Inr f \<Rightarrow> Inr (Some f)
       | Inl e \<Rightarrow> if e = WouldBlockError \<or> e = TimedOutError then Inr None else Inl e) (socket_recv drv so trace 0)"

text \<open>The first read that is not skipped decides; a socket that is kept busy with other traffic never returns.\<close>

lemma socket_recv_first:
  assumes "\<And>j. n \<le> j \<Longrightarrow> j < n + k \<Longrightarrow> usable drv so (so_read so trace j) = None"
    and "usable drv so (so_read so trace (n + k)) = Some r"
  shows "socket_recv drv so trace n = Some r"
  using assms
proof (induction k arbitrary: n)
  case 0
  then show ?case by (simp add: socket_recv.simps [of drv so trace n])
next
  case (Suc k)
  have "usable drv so (so_read so trace n) = None" by (rule Suc.prems(1)) simp_all
  moreover have "socket_recv drv so trace (Suc n) = Some r" using Suc.prems by (intro Suc.IH) simp_all
  ultimately show ?case by (simp add: socket_recv.simps [of drv so trace n])
qed

lemma socket_recv_Some:
  assumes "socket_recv drv so trace n = Some r"
  shows "\<exists>k. (\<forall>j. n \<le> j \<and> j < n + k \<longrightarrow> usable drv so (so_read so trace j) = None) \<and>
    usable drv so (so_read so trace (n + k)) = Some r"
proof (rule socket_recv.raw_induct [of "\<lambda>drv so trace n r. \<exists>k. (\<forall>j. n \<le> j \<and> j < n + k \<longrightarrow> usable drv so (so_read so trace j) = None) \<and>
    usable drv so (so_read so trace (n + k)) = Some r", OF _ assms])
  fix recv :: "('i, 'd) driver \<Rightarrow> 'd socket \<Rightarrow> io_event list \<Rightarrow> nat \<Rightarrow> (io_error + can_frame) option"
    and drv :: "('i, 'd) driver" and so trace n r
  assume ih: "\<And>drv so trace n r. recv drv so trace n = Some r \<Longrightarrow> \<exists>k. (\<forall>j. n \<le> j \<and> j < n + k \<longrightarrow>
      usable drv so (so_read so trace j) = None) \<and> usable drv so (so_read so trace (n + k)) = Some r"
    and h: "(case usable drv so (so_read so trace n) of Some r \<Rightarrow> Some r | None \<Rightarrow> recv drv so trace (Suc n)) = Some r"
  show "\<exists>k. (\<forall>j. n \<le> j \<and> j < n + k \<longrightarrow> usable drv so (so_read so trace j) = None) \<and> usable drv so (so_read so trace (n + k)) = Some r"
  proof (cases "usable drv so (so_read so trace n)")
    case None
    with h ih obtain k where k: "\<forall>j. Suc n \<le> j \<and> j < Suc n + k \<longrightarrow> usable drv so (so_read so trace j) = None"
      "usable drv so (so_read so trace (Suc n + k)) = Some r" by fastforce
    have "\<forall>j. n \<le> j \<and> j < n + Suc k \<longrightarrow> usable drv so (so_read so trace j) = None"
    proof (intro allI impI)
      fix j assume "n \<le> j \<and> j < n + Suc k"
      then show "usable drv so (so_read so trace j) = None" using k(1) None by (cases "j = n") auto
    qed
    with k(2) show ?thesis by (intro exI [of _ "Suc k"]) simp
  qed (use h in \<open>auto intro!: exI [of _ 0]\<close>)
qed

lemma socket_recv_diverges:
  assumes "\<And>j. n \<le> j \<Longrightarrow> usable drv so (so_read so trace j) = None"
  shows "socket_recv drv so trace n = None"
proof (cases "socket_recv drv so trace n")
  case (Some r)
  then obtain k where "usable drv so (so_read so trace (n + k)) = Some r" using socket_recv_Some by blast
  with assms [of "n + k"] show ?thesis by simp
qed

text \<open>The frames of other protocols alone, without end: no call returns, whatever the read timeout.\<close>

lemma busy_with_standard_frames:
  assumes "\<And>n. \<exists>d. so_read so trace n = Inr d \<and> dr_id drv d = None"
  shows "socket_recv_frame drv so trace = None"
proof -
  have "usable drv so (so_read so trace n) = None" for n
    using assms [of n] by (auto simp: usable_def standard_frames_are_not_decoded)
  then show ?thesis by (simp add: socket_recv_frame_def socket_recv_diverges)
qed

lemma socket_recv_frame_ok:
  assumes "socket_recv_frame drv so trace = Some (Inr (Some f))"
  shows "Frame_ok f"
proof -
  have "socket_recv drv so trace 0 = Some (Inr f)"
    using assms by (cases "socket_recv drv so trace 0") (auto simp: socket_recv_frame_def split: sum.splits if_splits)
  then obtain n where "usable drv so (so_read so trace n) = Some (Inr f)" using socket_recv_Some by fastforce
  then obtain d where "can_decode drv d = Some f" by (auto simp: usable_def split: sum.splits if_splits)
  then show ?thesis using can_decode_ok [of drv d f] by simp
qed

section \<open>The bus of an ECU\<close>

definition runs_on :: "('i, 'd) driver \<Rightarrow> 'd socket \<Rightarrow> environment \<Rightarrow> bool" where
  "runs_on drv so env \<longleftrightarrow>
     (\<forall>trace f. env_send env trace f = socket_send_frame drv so trace f) \<and>
     (\<forall>trace. socket_recv_frame drv so trace = Some (env_recv env trace))"

text \<open>\<open>env_of\<close> is the bus of the socket that was opened.\<close>

definition Ecu_open ::
  "(string \<Rightarrow> io_error + 's) \<Rightarrow> ('s \<Rightarrow> nat \<Rightarrow> io_error option) \<Rightarrow> ('s \<Rightarrow> environment) \<Rightarrow> nat \<Rightarrow> nat \<Rightarrow>
    string \<Rightarrow> ecu_name \<Rightarrow> address \<Rightarrow> io_error + ecu" where
  "Ecu_open socket_open set_read_timeout env_of buf sessions interface n preferred =
     (case socket_open interface of
        Inl e \<Rightarrow> Inl e
      | Inr so \<Rightarrow>
          (case set_read_timeout so (50 * MILLISECOND) of
             Some e \<Rightarrow> Inl e
           | None \<Rightarrow> Inr (Ecu_new (env_of so) buf sessions n preferred)))"

text \<open>A frame that one socket writes is the next that another hears, past the traffic that is not J1939.\<close>

lemma frame_crosses_the_wire:
  assumes "driver_ok drv" and "Frame_ok f" and "runs_on drv so env"
    and "can_encode drv f = Some d" and "so_is_data so d"
    and "so_read so (bus_trace s) n = Inr d" and "\<And>j. j < n \<Longrightarrow> usable drv so (so_read so (bus_trace s) j) = None"
  shows "recv_frame env s = (Done (Some f), s\<lparr>bus_trace := Received f # bus_trace s\<rparr>)"
proof -
  obtain d1 where "can_encode drv f = Some d1" "can_decode drv d1 = Some f" by (rule encode_decode [OF assms(1,2)])
  with assms(4,5) have "usable drv so (Inr d) = Some (Inr f)" by (simp add: usable_def)
  then have "socket_recv drv so (bus_trace s) 0 = Some (Inr f)"
    using assms(6,7) by (intro socket_recv_first [where k = n]) simp_all
  moreover have "socket_recv_frame drv so (bus_trace s) = Some (env_recv env (bus_trace s))"
    using assms(3) by (simp add: runs_on_def)
  ultimately have "env_recv env (bus_trace s) = Inr (Some f)" by (auto simp: socket_recv_frame_def)
  then show ?thesis by (simp add: recv_frame_def log_event_def)
qed

text \<open>A socket that takes every frame is a bus that accepts the frames of the stack.\<close>

lemma sends_are_accepted:
  assumes "driver_ok drv" and "runs_on drv so env" and "Frame_ok f" and "\<And>d. so_write so trace d = None"
  shows "env_send env trace f = None"
proof -
  obtain d where "can_encode drv f = Some d" by (rule encode_decode [OF assms(1,3)])
  with assms(2,4) show ?thesis by (simp add: runs_on_def socket_send_frame_def)
qed

end
