(* ===== verification/Host_Service.thy ===== *)
theory Host_Service
  imports Host_Ecu
begin

text \<open>
  The service-tool side of \<^verbatim>\<open>host/src/ecu.rs\<close>: a request and the wait for its answer, and the readers
  of another ECU's diagnostics built on it. A \<open>String\<close> is its UTF-8 bytes.
\<close>

section \<open>Requests that wait\<close>

datatype response =
    MessageResponse message
  | AcknowledgedResponse acknowledgement
  | TimedOutResponse

definition from_target :: "address \<Rightarrow> message \<Rightarrow> bool" where
  "from_target destination m \<longleftrightarrow> Address_is_broadcast destination \<or> msg_source m = destination"

text \<open>What one message is to a request: its answer, its acknowledgement, or somebody else's business.\<close>

definition response_of :: "address \<Rightarrow> pgn \<Rightarrow> message \<Rightarrow> response option" where
  "response_of destination requested m =
     (if from_target destination m \<and> msg_pgn m = requested then Some (MessageResponse m)
      else if from_target destination m \<and> msg_pgn m = PGN_ACKNOWLEDGEMENT \<and> 8 \<le> length (msg_data m) then
        (let ack = Acknowledgement_decode (take 8 (msg_data m))
         in if ack_pgn ack = requested then Some (AcknowledgedResponse ack) else None)
      else None)"

fun wait_for_response ::
  "nat \<Rightarrow> nat \<Rightarrow> nat \<Rightarrow> environment \<Rightarrow> address \<Rightarrow> pgn \<Rightarrow> nat \<Rightarrow> (ecu, response) operation" where
  "wait_for_response 0 rounds buf env destination requested deadline = out_of_rounds"
| "wait_for_response (Suc k) rounds buf env destination requested deadline =
     attempt (read_clock env) (\<lambda>now.
     if deadline \<le> now then done_with TimedOutResponse
     else
       attempt (pump rounds buf env) (\<lambda>received.
       case received of
         None \<Rightarrow> wait_for_response k rounds buf env destination requested deadline
       | Some m \<Rightarrow>
           (case response_of destination requested m of
              Some answer \<Rightarrow> done_with answer
            | None \<Rightarrow>
                attempt (update_state (queue_message (Some m))) (\<lambda>_.
                wait_for_response k rounds buf env destination requested deadline))))"

definition request_wait :: "nat \<Rightarrow> nat \<Rightarrow> environment \<Rightarrow> address \<Rightarrow> pgn \<Rightarrow> nat \<Rightarrow> (ecu, response) operation" where
  "request_wait rounds buf env destination requested timeout =
     attempt (ecu_request env destination requested) (\<lambda>_.
     attempt (deadline_after env timeout) (\<lambda>deadline.
     wait_for_response rounds rounds buf env destination requested deadline))"

section \<open>Reading diagnostics\<close>

definition refused :: "acknowledgement \<Rightarrow> ('s, 'a) operation" where
  "refused ack = fail_with UnsupportedError"

record fault_report =
  fr_lamps :: lamps
  fr_dtcs :: "dtc list"

definition FaultReport_is_healthy :: "fault_report \<Rightarrow> bool" where
  "FaultReport_is_healthy r \<longleftrightarrow> fr_dtcs r = []"

definition FaultReport_parse :: "bytes \<Rightarrow> fault_report j1939_result" where
  "FaultReport_parse payload =
     map_sum id (\<lambda>dm. \<lparr>fr_lamps = dm_lamps dm, fr_dtcs = filter (\<lambda>d. \<not> Dtc_is_no_fault d) (Message_dtcs dm)\<rparr>)
       (Message_parse payload)"

definition read_faults :: "pgn \<Rightarrow> nat \<Rightarrow> nat \<Rightarrow> environment \<Rightarrow> address \<Rightarrow> nat \<Rightarrow> (ecu, fault_report option) operation" where
  "read_faults grp rounds buf env target timeout =
     attempt (request_wait rounds buf env target grp timeout) (\<lambda>response.
     case response of
       MessageResponse m \<Rightarrow> attempt (invalid_input (FaultReport_parse (msg_data m))) (\<lambda>r. done_with (Some r))
     | AcknowledgedResponse ack \<Rightarrow> refused ack
     | TimedOutResponse \<Rightarrow> done_with None)"

definition read_active_faults :: "nat \<Rightarrow> nat \<Rightarrow> environment \<Rightarrow> address \<Rightarrow> nat \<Rightarrow> (ecu, fault_report option) operation" where
  "read_active_faults = read_faults PGN_DM1"

definition read_previously_active_faults ::
  "nat \<Rightarrow> nat \<Rightarrow> environment \<Rightarrow> address \<Rightarrow> nat \<Rightarrow> (ecu, fault_report option) operation" where
  "read_previously_active_faults = read_faults PGN_DM2"

definition read_readiness :: "nat \<Rightarrow> nat \<Rightarrow> environment \<Rightarrow> address \<Rightarrow> nat \<Rightarrow> (ecu, dm5 option) operation" where
  "read_readiness rounds buf env target timeout =
     attempt (request_wait rounds buf env target PGN_DM5 timeout) (\<lambda>response.
     case response of
       MessageResponse m \<Rightarrow>
         if 8 \<le> length (msg_data m) then done_with (Some (Dm5_decode (take 8 (msg_data m))))
         else fail_with InvalidInputError
     | AcknowledgedResponse ack \<Rightarrow> refused ack
     | TimedOutResponse \<Rightarrow> done_with None)"

section \<open>Text\<close>

text \<open>
  \<^verbatim>\<open>String::from_utf8_lossy\<close>: the longest beginning of the bytes that is one character, or else one
  maximal beginning that could have been, replaced by U+FFFD.
\<close>

definition second_byte :: "u8 \<Rightarrow> u8 \<Rightarrow> bool" where
  "second_byte a b \<longleftrightarrow> continuation b \<and> (a = 0xE0 \<longrightarrow> 0xA0 \<le> b) \<and> (a = 0xED \<longrightarrow> b \<le> 0x9F) \<and>
     (a = 0xF0 \<longrightarrow> 0x90 \<le> b) \<and> (a = 0xF4 \<longrightarrow> b \<le> 0x8F)"

definition continues :: "bytes \<Rightarrow> nat \<Rightarrow> bool" where
  "continues s i \<longleftrightarrow> i < length s \<and> continuation (s ! i)"

definition utf8_chunk :: "u8 \<Rightarrow> bytes \<Rightarrow> nat \<times> bool" where
  "utf8_chunk a s =
     (let second = s \<noteq> [] \<and> second_byte a (s ! 0) in
      if a < 0x80 then (1, True)
      else if 0xC2 \<le> a \<and> a \<le> 0xDF then (if continues s 0 then (2, True) else (1, False))
      else if 0xE0 \<le> a \<and> a \<le> 0xEF then
        (if \<not> second then (1, False) else if continues s 1 then (3, True) else (2, False))
      else if 0xF0 \<le> a \<and> a \<le> 0xF4 then
        (if \<not> second then (1, False) else if \<not> continues s 1 then (2, False)
         else if continues s 2 then (4, True) else (3, False))
      else (1, False))"

definition REPLACEMENT :: bytes where "REPLACEMENT = [0xEF, 0xBF, 0xBD]"

lemma utf8_chunk_pos: "0 < fst (utf8_chunk a s)"
  by (simp add: utf8_chunk_def Let_def)

function utf8_lossy :: "bytes \<Rightarrow> bytes" where
  "utf8_lossy data =
     (case data of
        [] \<Rightarrow> []
      | a # s \<Rightarrow>
          (let n = fst (utf8_chunk a s)
           in (if snd (utf8_chunk a s) then take n data else REPLACEMENT) @ utf8_lossy (drop n data)))"
  by pat_completeness auto
termination
  by (relation "measure length") (simp_all add: utf8_chunk_pos)

declare utf8_lossy.simps [simp del]

text \<open>Text that is valid comes back as it is.\<close>

lemma continues_simps [simp]:
  "continues (b # s) 0 = continuation b" "continues (b # c # s) (Suc 0) = continuation c"
  "continues (b # c # d # s) 2 = continuation d"
  by (simp_all add: continues_def numeral_2_eq_2)

lemma utf8_lossy_step:
  "utf8_chunk a s = (n, True) \<Longrightarrow> utf8_lossy (drop n (a # s)) = drop n (a # s) \<Longrightarrow> utf8_lossy (a # s) = a # s"
  by (subst utf8_lossy.simps) (simp add: Let_def)

lemma utf8_lossy_valid: "utf8 s \<Longrightarrow> utf8_lossy s = s"
proof (induction s rule: utf8.induct)
  case 1
  then show ?case by (simp add: utf8_lossy.simps)
next
  case (2 a s)
  consider "a < 0x80" | "\<not> a < 0x80" "0xC2 \<le> a \<and> a \<le> 0xDF"
    | "\<not> a < 0x80" "\<not> (0xC2 \<le> a \<and> a \<le> 0xDF)" "0xE0 \<le> a \<and> a \<le> 0xEF"
    | "\<not> a < 0x80" "\<not> (0xC2 \<le> a \<and> a \<le> 0xDF)" "\<not> (0xE0 \<le> a \<and> a \<le> 0xEF)" "0xF0 \<le> a \<and> a \<le> 0xF4"
    using "2.prems" by (auto split: if_splits)
  then show ?case
  proof cases
    case 1
    with 2 show ?thesis by (intro utf8_lossy_step [of _ _ 1]) (simp_all add: utf8_chunk_def)
  next
    case c: 2
    with "2.prems" obtain b s1 where s: "s = b # s1" "continuation b" "utf8 s1" by (auto split: list.splits)
    with 2(2) c have "utf8_lossy s1 = s1" by simp
    with s c show ?thesis by (intro utf8_lossy_step [of _ _ 2]) (simp_all add: utf8_chunk_def)
  next
    case c: 3
    then have "a \<noteq> 0xF0" "a \<noteq> 0xF4" by auto
    with c "2.prems" obtain b d s1 where s: "s = b # d # s1" "continuation d" "second_byte a b" "utf8 s1"
      by (auto simp: second_byte_def split: list.splits)
    with 2(3) c have "utf8_lossy s1 = s1" by simp
    with s c show ?thesis by (intro utf8_lossy_step [of _ _ 3]) (simp_all add: utf8_chunk_def)
  next
    case c: 4
    then have "a \<noteq> 0xE0" "a \<noteq> 0xED" by auto
    with c "2.prems" obtain b d e s1 where s: "s = b # d # e # s1" "continuation d" "continuation e" "second_byte a b" "utf8 s1"
      by (auto simp: second_byte_def split: list.splits)
    with 2(4) c have "utf8_lossy s1 = s1" by simp
    with s c show ?thesis by (intro utf8_lossy_step [of _ _ 4]) (simp_all add: utf8_chunk_def)
  qed
qed

definition read_software_identification ::
  "nat \<Rightarrow> nat \<Rightarrow> environment \<Rightarrow> address \<Rightarrow> nat \<Rightarrow> (ecu, bytes list option) operation" where
  "read_software_identification rounds buf env target timeout =
     attempt (request_wait rounds buf env target PGN_SOFTWARE_IDENTIFICATION timeout) (\<lambda>response.
     case response of
       MessageResponse m \<Rightarrow>
         attempt (invalid_input (SoftwareIdentification_parse (msg_data m))) (\<lambda>d.
         done_with (Some (map utf8_lossy (SoftwareIdentification_fields d))))
     | AcknowledgedResponse ack \<Rightarrow> refused ack
     | TimedOutResponse \<Rightarrow> done_with None)"

section \<open>Clearing\<close>

definition clear_with :: "pgn \<Rightarrow> nat \<Rightarrow> nat \<Rightarrow> environment \<Rightarrow> address \<Rightarrow> nat \<Rightarrow> (ecu, bool) operation" where
  "clear_with grp rounds buf env target timeout =
     attempt (request_wait rounds buf env target grp timeout) (\<lambda>response.
     case response of
       AcknowledgedResponse ack \<Rightarrow>
         if AckControl_is_positive (ack_control ack) then done_with True else refused ack
     | _ \<Rightarrow> done_with False)"

definition clear_active_faults :: "nat \<Rightarrow> nat \<Rightarrow> environment \<Rightarrow> address \<Rightarrow> nat \<Rightarrow> (ecu, bool) operation" where
  "clear_active_faults = clear_with PGN_DM11"

definition clear_previously_active_faults ::
  "nat \<Rightarrow> nat \<Rightarrow> environment \<Rightarrow> address \<Rightarrow> nat \<Rightarrow> (ecu, bool) operation" where
  "clear_previously_active_faults = clear_with PGN_DM3"

end
