(* ===== verification/Host_Safety.thy ===== *)
theory Host_Safety
  imports Host_Service
begin

text \<open>
  The invariant of the ECU of \<open>Host_Ecu\<close> and its proof: every part keeps its own invariant, and the
  payloads stored are exactly those of the scheduled messages. No operation panics, whatever the bus,
  the clock and the peers do. Operations that do not talk to one peer never wait.
\<close>

section \<open>The invariant\<close>

definition schedule_keys :: "schedule \<Rightarrow> (pgn \<times> address) set" where
  "schedule_keys s = entry_key ` set (live s)"

definition payloads_match :: "ecu \<Rightarrow> bool" where
  "payloads_match s \<longleftrightarrow> dom (ec_payloads s) = (\<lambda>(p, d). payload_key p d) ` schedule_keys (ec_schedule s)"

definition ecu_ok :: "nat \<Rightarrow> ecu \<Rightarrow> bool" where
  "ecu_ok buf s \<longleftrightarrow> node_ok buf (ec_node s) \<and> etp_table_ok ETP_BUFFER ETP_SESSIONS (ec_etp s) \<and>
     fault_log_ok FAULT_CAPACITY (ec_faults s) \<and> schedule_ok SCHEDULE_CAPACITY (ec_schedule s) \<and> payloads_match s"

lemma payload_key_inj: "payload_key p d = payload_key q e \<longleftrightarrow> p = q \<and> d = e"
  by (cases p; cases q; cases d; cases e) (simp add: payload_key_def)

lemma payload_key_mem: "payload_key p d \<in> (\<lambda>(p, d). payload_key p d) ` K \<longleftrightarrow> (p, d) \<in> K"
  by (force simp: payload_key_inj)

lemma ecu_ok_blind [simp]: "ecu_ok buf (log_event ev s) = ecu_ok buf s"
  by (simp add: ecu_ok_def log_event_def payloads_match_def)


lemma Ecu_new_ok: "ecu_ok buf (Ecu_new env buf sessions n a)"
  by (simp add: ecu_ok_def Ecu_new_def Node_new_ok etp_table_new FaultLog_new_ok Schedule_new_ok payloads_match_def
      schedule_keys_def) (simp add: live_def Schedule_new_def)

text \<open>One field changes at a time.\<close>

lemma ecu_ok_updates [simp]:
  "ecu_ok buf s \<Longrightarrow> node_ok buf nd \<Longrightarrow> ecu_ok buf (s\<lparr>ec_node := nd\<rparr>)"
  "ecu_ok buf s \<Longrightarrow> etp_table_ok ETP_BUFFER ETP_SESSIONS r \<Longrightarrow> ecu_ok buf (s\<lparr>ec_etp := r\<rparr>)"
  "ecu_ok buf s \<Longrightarrow> fault_log_ok FAULT_CAPACITY l \<Longrightarrow> ecu_ok buf (s\<lparr>ec_faults := l\<rparr>)"
  "ecu_ok buf s \<Longrightarrow> ecu_ok buf (s\<lparr>ec_pending := ms\<rparr>)" "ecu_ok buf s \<Longrightarrow> ecu_ok buf (s\<lparr>ec_inventory := claims\<rparr>)"
  "ecu_ok buf s \<Longrightarrow> ecu_ok buf (s\<lparr>ec_obd := level\<rparr>)" "ecu_ok buf s \<Longrightarrow> ecu_ok buf (s\<lparr>ec_last_tick := t\<rparr>)"
  "ecu_ok buf s \<Longrightarrow> schedule_ok SCHEDULE_CAPACITY sc \<Longrightarrow> schedule_keys sc = schedule_keys (ec_schedule s) \<Longrightarrow>
     ecu_ok buf (s\<lparr>ec_schedule := sc\<rparr>)"
  by (simp_all add: ecu_ok_def payloads_match_def)

lemma ecu_okD:
  assumes "ecu_ok buf s"
  shows "node_ok buf (ec_node s)" "etp_table_ok ETP_BUFFER ETP_SESSIONS (ec_etp s)"
    "fault_log_ok FAULT_CAPACITY (ec_faults s)" "schedule_ok SCHEDULE_CAPACITY (ec_schedule s)" "payloads_match s"
  using assms by (simp_all add: ecu_ok_def)

section \<open>The schedule keeps its keys\<close>

lemma schedule_keys_plan: "schedule_keys s = entry_key ` set (pl_entries (plan_of s))"
  by (simp add: schedule_keys_def plan_of_def)

lemma take_due_keys: "entry_key ` set (snd (take_due es)) = entry_key ` set es"
proof (induction es)
  case (Cons e es)
  have "entry_key (e\<lparr>en_due := False\<rparr>) = entry_key e" by (simp add: entry_key_def)
  with Cons.IH show ?case by (auto simp: split_beta)
qed simp

lemma next_due_keys:
  assumes "schedule_ok n s"
  obtains d s1 where "next_due s = Some (d, s1)" and "schedule_ok n s1" and "schedule_keys s1 = schedule_keys s"
    and "d = fst (take_due (live s))" and "live s1 = snd (take_due (live s))"
proof -
  obtain d s1 where h: "next_due s = Some (d, s1)" "schedule_ok n s1" "spec_next_due (plan_of s) = (d, plan_of s1)"
    by (rule next_due_refines [OF assms])
  from h(3) have l: "d = fst (take_due (live s))" "live s1 = snd (take_due (live s))"
    by (auto simp: spec_next_due_def plan_of_def split_beta)
  with h that take_due_keys [of "live s"] show thesis by (simp add: schedule_keys_def)
qed

lemma aged_key: "entry_key (aged t e) = entry_key e"
  by (simp add: entry_key_def aged_def Let_def)

lemma sc_tick_keys:
  assumes "schedule_ok n s"
  obtains k s1 where "sc_tick t s = Some (k, s1)" and "schedule_ok n s1" and "schedule_keys s1 = schedule_keys s"
proof -
  obtain k s1 where h: "sc_tick t s = Some (k, s1)" "schedule_ok n s1" "spec_schedule_tick t (plan_of s) = (k, plan_of s1)"
    by (rule sc_tick_refines [OF assms])
  from h(3) have "plan_of s1 = snd (spec_schedule_tick t (plan_of s))" by simp
  then have "schedule_keys s1 = schedule_keys s"
    by (simp add: schedule_keys_plan spec_schedule_tick_def Let_def image_image aged_key)
  with h that show thesis by blast
qed

lemma quiet_keys:
  "schedule_keys (sc_resume s) = schedule_keys s"
  "schedule_ok n s \<Longrightarrow> schedule_keys (sc_suspend t s) = schedule_keys s"
  using sc_suspend_refines(2) [of n s t]
  by (simp_all add: schedule_keys_plan sc_resume_refines(2)) (simp add: plan_of_def image_image entry_key_def)

lemma on_dm13_keeps:
  "schedule_ok n s \<Longrightarrow> schedule_ok n (on_dm13_networks ns c s) \<and> schedule_keys (on_dm13_networks ns c s) = schedule_keys s"
  by (induction ns) (auto simp: quiet_keys sc_resume_refines(1) sc_suspend_refines(1) split: broadcast_command.split)

lemma send_every_keys:
  assumes "schedule_ok n s"
  obtains r s1 where "send_every p d period s = Some (r, s1)" and "schedule_ok n s1"
    and "schedule_keys s1 = (if r = Inr () then insert (p, d) (schedule_keys s) else schedule_keys s)"
proof -
  obtain r s1 where h: "send_every p d period s = Some (r, s1)" "schedule_ok n s1"
    "spec_send_every n p d period (plan_of s) = (r, plan_of s1)"
    by (rule send_every_refines [OF assms])
  have ret: "entry_key (if entry_key e = (p, d) then retimed period e else e) = entry_key e" for e
    by (simp add: entry_key_def retimed_def)
  have m: "entry_key ` set (map (\<lambda>e. if entry_key e = (p, d) then retimed period e else e) es) = entry_key ` set es" for es
    unfolding set_map image_image ret ..
  have fresh: "entry_key (fresh_entry p d period) = (p, d)" by (simp add: entry_key_def fresh_entry_def)
  from h(3) have e: "r = fst (spec_send_every n p d period (plan_of s))" "plan_of s1 = snd (spec_send_every n p d period (plan_of s))"
    by simp_all
  have "schedule_keys s1 = (if r = Inr () then insert (p, d) (schedule_keys s) else schedule_keys s)"
    unfolding schedule_keys_plan e spec_send_every_def by (simp add: m fresh insert_absorb del: set_map)
  with h that show thesis by blast
qed

lemma sc_remove_keys:
  assumes "schedule_ok n s"
  obtains b s1 where "sc_remove p d s = Some (b, s1)" and "schedule_ok n s1"
    and "schedule_keys s1 = schedule_keys s - {(p, d)}"
proof -
  obtain b s1 where h: "sc_remove p d s = Some (b, s1)" "schedule_ok n s1" "spec_remove p d (plan_of s) = (b, plan_of s1)"
    by (rule sc_remove_refines [OF assms])
  from h(3) have e: "plan_of s1 = snd (spec_remove p d (plan_of s))" by simp
  have "schedule_keys s1 = schedule_keys s - {(p, d)}"
    unfolding schedule_keys_plan e spec_remove_def by auto
  with h that show thesis by blast
qed

section \<open>An outgoing message\<close>

definition out_ok :: "outgoing \<Rightarrow> bool" where
  "out_ok o1 = (case out_state o1 of Single _ _ \<Rightarrow> True | Multi tx _ \<Rightarrow> tx_ok tx)"

definition out_left :: "outgoing \<Rightarrow> nat" where
  "out_left o1 =
     (case out_state o1 of
        Single _ sent \<Rightarrow> if sent then 0 else 1
      | Multi tx announced \<Rightarrow> unat (tx_window_remaining tx) + (if announced then 0 else 1))"

lemma out_left_rounds: "out_left o1 < FRAME_ROUNDS"
proof -
  have w: "unat w < 256" for w :: u8 using unat_u8_lt [of w] by simp
  show ?thesis
  proof (cases "out_state o1")
    case (Multi tx announced)
    with w [of "tx_window_remaining tx"] show ?thesis by (simp add: out_left_def FRAME_ROUNDS_def)
  qed (simp add: out_left_def FRAME_ROUNDS_def)
qed

text \<open>Pulling a frame never panics, and frames run out.\<close>

lemma out_step:
  assumes "out_ok o1"
  obtains f o2 where "out_next_frame o1 = Some (f, o2)" and "out_ok o2" and "out_source o2 = out_source o1"
    and "out_destination o2 = out_destination o1" and "f \<noteq> None \<Longrightarrow> out_left o2 < out_left o1"
proof (cases "out_state o1")
  case (Single data sent)
  let ?o2 = "o1\<lparr>out_state := Single data True\<rparr>"
  show thesis
  proof (cases sent)
    case True
    with Single that [of None o1] assms show thesis by (simp add: out_next_frame_def)
  next
    case False
    then have "\<exists>f. out_next_frame o1 = Some (f, ?o2)"
      using Single by (simp add: out_next_frame_def Let_def split: sum.split)
    then obtain f where "out_next_frame o1 = Some (f, ?o2)" by blast
    with Single False that [of f ?o2] show thesis by (simp add: out_ok_def out_left_def)
  qed
next
  case (Multi tx announced)
  with assms have tx: "tx_ok tx" by (simp add: out_ok_def)
  show thesis
  proof (cases announced)
    case False
    with Multi tx that show thesis by (fastforce simp: out_next_frame_def out_ok_def out_left_def)
  next
    case True
    show thesis
    proof (cases "tx_window_remaining tx = 0")
      case True
      with Multi \<open>announced\<close> tx that tx_next_packet_None [of tx] show thesis
        by (simp add: out_next_frame_def out_ok_def)
    next
      case False
      note n = tx_next_packet_Some [OF tx False]
      have "0 < unat (tx_window_remaining tx)" using False by (simp add: unat_gt_0)
      with Multi \<open>announced\<close> n that show thesis
        by (simp add: out_next_frame_def out_ok_def out_left_def)
    qed
  qed
qed

lemma out_on_frame_ok:
  assumes "out_ok o1"
  obtains progress o2 where "out_on_frame f o1 = Some (progress, o2)" and "out_ok o2"
proof (cases "out_state o1")
  case (Single data sent)
  with assms that show thesis by (simp add: out_on_frame_def)
next
  case (Multi tx announced)
  with assms have tx: "tx_ok tx" by (simp add: out_ok_def)
  show thesis
  proof (cases "Frame_pgn f \<noteq> PGN_TP_CM \<or> Frame_source_address f \<noteq> out_destination o1")
    case True
    with Multi assms that show thesis by (simp add: out_on_frame_def)
  next
    case False
    show thesis
    proof (cases "TpCm_decode (Frame_payload f)")
      case (Inl e)
      with False Multi assms that show thesis by (simp add: out_on_frame_def)
    next
      case (Inr cm)
      obtain t tx1 where "tx_on_tp_cm cm tx = Some (t, tx1)" "tx_ok tx1" using tx_on_tp_cm_total [OF tx, of cm] by blast
      with False Inr Multi that show thesis by (simp add: out_on_frame_def out_ok_def)
    qed
  qed
qed

lemma Outgoing_new_ok: "Outgoing_new p a d data = Inr o1 \<Longrightarrow> out_ok o1"
  by (auto simp: Outgoing_new_def out_ok_def Let_def Transmitter_broadcast_def Transmitter_addressed_def
      split: if_splits sum.splits dest: build_InrD(1))

lemma with_priority_simps [simp]:
  "out_ok (with_priority pr o1) = out_ok o1" "out_left (with_priority pr o1) = out_left o1"
  by (simp_all add: with_priority_def out_ok_def out_left_def)

lemma weaken: "keeps I m W \<Longrightarrow> (\<And>s. P s \<Longrightarrow> I s) \<Longrightarrow> triple P m (\<lambda>_. I) I W"
  by (rule triple_pre)

section \<open>Faults and their reports\<close>

lemma set_fault_keeps: "keeps (ecu_ok buf) (ecu_set_fault spn fmi lamp) W"
  unfolding ecu_set_fault_def
proof (rule attempt_read_fact [where F = "\<lambda>l. \<exists>r l1. FaultLog_set spn fmi lamp l = Some (r, l1) \<and> fault_log_ok FAULT_CAPACITY l1"])
  show "\<exists>r l1. FaultLog_set spn fmi lamp (ec_faults s) = Some (r, l1) \<and> fault_log_ok FAULT_CAPACITY l1" if "ecu_ok buf s" for s
    using FaultLog_set_refines [OF ecu_okD(3) [OF that]] by metis
qed (auto intro!: attempt_panic attempt_update [where P' = "ecu_ok buf"] triple_input)

lemma clear_fault_keeps: "keeps (ecu_ok buf) (ecu_clear_fault spn fmi) W"
  unfolding ecu_clear_fault_def
proof (rule attempt_read_fact [where F = "\<lambda>l. \<exists>r l1. FaultLog_clear spn fmi l = Some (r, l1) \<and> fault_log_ok FAULT_CAPACITY l1"])
  show "\<exists>r l1. FaultLog_clear spn fmi (ec_faults s) = Some (r, l1) \<and> fault_log_ok FAULT_CAPACITY l1" if "ecu_ok buf s" for s
    using FaultLog_clear_refines [OF ecu_okD(3) [OF that]] by metis
qed (auto intro!: attempt_panic attempt_update [where P' = "ecu_ok buf"] triple_done)

text \<open>A report that fits its buffer is written and broadcast.\<close>

definition report_payload :: "(nat j1939_result \<times> bytes) option \<Rightarrow> bytes \<Rightarrow> bool" where
  "report_payload encoded data \<longleftrightarrow> (\<exists>out. encoded = Some (Inr (length data), out) \<and> take (length data) out = data \<and> length data \<le> length out)"

lemma send_report_eq: "report_payload encoded data \<Longrightarrow> send_report env grp encoded = ecu_broadcast env grp data"
  by (auto simp: report_payload_def send_report_def fun_eq_iff attempt_def run_simps slice_def)

definition reported :: "dtc list \<Rightarrow> dtc list" where
  "reported ds = (if ds = [] then [Dtc_default] else ds)"

lemma dm1_payload:
  assumes "fault_log_ok n l"
  shows "report_payload (FaultLog_dm1 l (replicate (dm1_len l) 0)) (dm_payload (fl_report_lamps l) (reported (active_codes l)))"
proof -
  have "dm1_len l = dm_len (reported (active_codes l))"
    using payload_len_eq [of "active_codes l"] fault_log_lengths(1) [OF assms] by (simp add: dm1_len_def reported_def)
  moreover have "FaultLog_dm1 l (replicate (dm1_len l) 0) = Some (Inr (dm1_len l),
      dm_payload (fl_report_lamps l) (reported (active_codes l)) @ drop (dm1_len l) (replicate (dm1_len l) 0))"
    by (rule dm1_report [OF assms, of "replicate (dm1_len l) 0"]) (simp_all add: reported_def)
  ultimately show ?thesis by (simp add: report_payload_def)
qed

lemma dm2_payload:
  assumes "fault_log_ok n l"
  shows "report_payload (FaultLog_dm2 l (replicate (dm2_len l) 0)) (dm_payload Lamps_new (reported (previous_codes l)))"
proof -
  have "dm2_len l = dm_len (reported (previous_codes l))"
    using payload_len_eq [of "previous_codes l"] fault_log_lengths(3) [OF assms] by (simp add: dm2_len_def reported_def)
  moreover have "FaultLog_dm2 l (replicate (dm2_len l) 0) = Some (Inr (dm2_len l),
      dm_payload Lamps_new (reported (previous_codes l)) @ drop (dm2_len l) (replicate (dm2_len l) 0))"
    by (rule dm2_report [OF assms, of "replicate (dm2_len l) 0"]) (simp_all add: reported_def)
  ultimately show ?thesis by (simp add: report_payload_def)
qed

lemma send_dm1_eq:
  assumes "ecu_ok buf s"
  shows "send_dm1 env s =
    ecu_broadcast env PGN_DM1 (dm_payload (fl_report_lamps (ec_faults s)) (reported (active_codes (ec_faults s)))) s"
  using send_report_eq [OF dm1_payload [OF ecu_okD(3) [OF assms]]] by (simp add: send_dm1_def attempt_def run_simps)

lemma send_dm2_eq:
  assumes "ecu_ok buf s"
  shows "send_dm2 env s = ecu_broadcast env PGN_DM2 (dm_payload Lamps_new (reported (previous_codes (ec_faults s)))) s"
  using send_report_eq [OF dm2_payload [OF ecu_okD(3) [OF assms]]] by (simp add: send_dm2_def attempt_def run_simps)

lemma send_dm5_eq:
  "send_dm5 env s = ecu_broadcast env PGN_DM5 (Dm5_encode (Dm5_new (saturating_count (length (active_codes (ec_faults s))))
     (saturating_count (length (previous_codes (ec_faults s)))) (ec_obd s))) s"
  by (simp add: send_dm5_def attempt_def run_simps)

lemma keeps_by_eq: "(\<And>s. I s \<Longrightarrow> \<exists>m'. m s = m' s \<and> keeps I m' W) \<Longrightarrow> keeps I m W"
  unfolding triple_def by metis

section \<open>The schedule and its payloads\<close>

lemma payload_stored:
  assumes "ecu_ok buf s" and "ec_payloads s (payload_key p d) \<noteq> None"
  shows "(p, d) \<in> schedule_keys (ec_schedule s)"
proof -
  have "payload_key p d \<in> dom (ec_payloads s)" using assms(2) by blast
  then show ?thesis using assms(1) payload_key_mem [of p d] by (simp add: ecu_ok_def payloads_match_def)
qed

lemma overwrite_payload_ok:
  assumes "ecu_ok buf s" and "(p, d) \<in> schedule_keys (ec_schedule s)"
  shows "ecu_ok buf (s\<lparr>ec_payloads := (ec_payloads s)(payload_key p d \<mapsto> x)\<rparr>)"
  using assms payload_key_mem [of p d] by (auto simp: ecu_ok_def payloads_match_def insert_absorb)

text \<open>Scheduling a message and storing its payload is one step for the invariant.\<close>

lemma ecu_send_every_eq:
  assumes ok: "ecu_ok buf s" and period: "as_millis period \<le> 65535"
  obtains r sc1 where "send_every p d (word_of_nat (as_millis period)) (ec_schedule s) = Some (r, sc1)"
    and "ecu_send_every p d data period s =
      (case r of Inl _ \<Rightarrow> (Failed InvalidInputError, s\<lparr>ec_schedule := sc1\<rparr>)
       | Inr _ \<Rightarrow> (Done (), store_payload (payload_key p d) data (s\<lparr>ec_schedule := sc1\<rparr>)))"
    and "ecu_ok buf (snd (ecu_send_every p d data period s))"
proof -
  obtain r sc1 where h: "send_every p d (word_of_nat (as_millis period)) (ec_schedule s) = Some (r, sc1)"
    "schedule_ok SCHEDULE_CAPACITY sc1"
    "schedule_keys sc1 = (if r = Inr () then insert (p, d) (schedule_keys (ec_schedule s)) else schedule_keys (ec_schedule s))"
    by (rule send_every_keys [OF ecu_okD(4) [OF ok]])
  have e: "ecu_send_every p d data period s =
      (case r of Inl _ \<Rightarrow> (Failed InvalidInputError, s\<lparr>ec_schedule := sc1\<rparr>)
       | Inr _ \<Rightarrow> (Done (), store_payload (payload_key p d) data (s\<lparr>ec_schedule := sc1\<rparr>)))"
    using h(1) period by (simp add: ecu_send_every_def attempt_def run_simps invalid_input_def split: sum.split)
  have "ecu_ok buf (snd (ecu_send_every p d data period s))"
  proof (cases r)
    case (Inl x)
    with ok h show ?thesis unfolding e by simp
  next
    case (Inr u)
    with ok h show ?thesis
      unfolding e by (auto simp: store_payload_def ecu_ok_def payloads_match_def)
  qed
  with h(1) e that show thesis by blast
qed

lemma triple_run: "(\<And>s. I s \<Longrightarrow> fst (m s) \<notin> {Panicked, Waiting} \<and> I (snd (m s))) \<Longrightarrow> keeps I m W"
  unfolding triple_def by (fastforce split: outcome.splits prod.splits)

lemma send_every_keeps: "keeps (ecu_ok buf) (ecu_send_every p d data period) W"
proof (cases "as_millis period \<le> 65535")
  case True
  show ?thesis
  proof (rule triple_run)
    fix s assume "ecu_ok buf s"
    then show "fst (ecu_send_every p d data period s) \<notin> {Panicked, Waiting} \<and> ecu_ok buf (snd (ecu_send_every p d data period s))"
      by (rule ecu_send_every_eq [OF _ True, of buf s p d data]) (auto split: sum.split)
  qed
qed (auto simp: ecu_send_every_def intro: triple_fail)

lemma set_priority_keeps: "keeps (ecu_ok buf) (set_periodic_priority p d pr) W"
  by (rule triple_run)
    (auto simp: set_periodic_priority_def attempt_def run_simps Let_def overwrite_payload_ok payload_stored split: option.split)

lemma contains_keys: "sc_contains p d s \<longleftrightarrow> (p, d) \<in> schedule_keys s"
  by (simp add: contains_iff schedule_keys_def)

lemma update_periodic_keeps: "keeps (ecu_ok buf) (update_periodic_to p d data) W"
  by (rule triple_run)
    (auto simp: update_periodic_to_def attempt_def run_simps contains_keys store_payload_def overwrite_payload_ok)

lemma stop_periodic_eq:
  assumes ok: "ecu_ok buf s"
  obtains removed sc1 where "sc_remove p d (ec_schedule s) = Some (removed, sc1)"
    and "stop_periodic p d s =
      (Done removed, s\<lparr>ec_payloads := (ec_payloads s)(payload_key p d := None), ec_schedule := sc1\<rparr>)"
    and "ecu_ok buf (snd (stop_periodic p d s))"
proof -
  obtain removed sc1 where h: "sc_remove p d (ec_schedule s) = Some (removed, sc1)" "schedule_ok SCHEDULE_CAPACITY sc1"
    "schedule_keys sc1 = schedule_keys (ec_schedule s) - {(p, d)}"
    by (rule sc_remove_keys [OF ecu_okD(4) [OF ok]])
  have e: "stop_periodic p d s =
      (Done removed, s\<lparr>ec_payloads := (ec_payloads s)(payload_key p d := None), ec_schedule := sc1\<rparr>)"
    using h(1) by (simp add: stop_periodic_def attempt_def run_simps)
  have "(\<lambda>(p, d). payload_key p d) ` (K - {(p, d)}) = (\<lambda>(p, d). payload_key p d) ` K - {payload_key p d}" for K
    by (force simp: payload_key_inj)
  with ok h have "ecu_ok buf (snd (stop_periodic p d s))" unfolding e by (simp add: ecu_ok_def payloads_match_def)
  with h(1) e that show thesis by blast
qed

lemma stop_periodic_keeps: "keeps (ecu_ok buf) (stop_periodic p d) W"
proof (rule triple_run)
  fix s assume "ecu_ok buf s"
  then show "fst (stop_periodic p d s) \<notin> {Panicked, Waiting} \<and> ecu_ok buf (snd (stop_periodic p d s))"
    by (rule stop_periodic_eq [of buf s p d]) auto
qed

lemma quiet_keeps:
  assumes "ecu_ok buf s"
  shows "ecu_ok buf (suspend_broadcasts t s)" and "ecu_ok buf (resume_broadcasts s)" and "ecu_ok buf (on_dm13 c s)"
  using assms quiet_keys sc_suspend_refines(1) sc_resume_refines(1) on_dm13_keeps ecu_okD(4) [OF assms]
  by (simp_all add: suspend_broadcasts_def resume_broadcasts_def on_dm13_def Let_def del: on_dm13_networks.simps)

lemma etp_step_total:
  assumes "etp_table_ok ETP_BUFFER ETP_SESSIONS r" and "etp_step_of f r = Some step"
  obtains outcome r1 where "step = Some (outcome, r1)" and "etp_table_ok ETP_BUFFER ETP_SESSIONS r1"
proof (cases "Frame_pgn f = PGN_ETP_CM")
  case True
  with assms(2) obtain cm where cm: "EtpCm_decode (Frame_payload f) = Inr cm"
    "step = etp_on_cm ETP_BUFFER (Frame_source_address f) cm r"
    by (auto simp: etp_step_of_def Let_def split: sum.splits)
  have "etp_admissible (EtpCmIn (Frame_source_address f) cm)" using EtpCm_decode_ok [OF cm(1)] by simp
  from etp_step_refines [OF assms(1) this] cm(2) that show thesis by (auto split: Option.bind_splits)
next
  case False
  then have st: "step = etp_on_dt (Frame_source_address f) (EtpDt_decode (Frame_payload f)) r"
    using assms(2) by (simp add: etp_step_of_def Let_def)
  have "etp_admissible (EtpDtIn (Frame_source_address f) (EtpDt_decode (Frame_payload f)))"
    by (simp add: EtpDt_as_TpDt TpDt_decode_ok)
  from etp_step_refines [OF assms(1) this] st that show thesis by (auto split: Option.bind_splits)
qed

lemma queue_message_ok [simp]: "ecu_ok buf s \<Longrightarrow> ecu_ok buf (queue_message m s)"
  by (auto simp: queue_message_def split: option.split)

section \<open>What the parts of the ECU keep\<close>

text \<open>
  An invariant that implies \<open>ecu_ok\<close> and survives the updates of the parts is kept by the operations
  that do not wait for a peer, and by those that wait as far as sending the due messages keeps it.
\<close>

locale ecu_invariant = trace_blind I for I :: "ecu \<Rightarrow> bool" +
  fixes buf :: nat
  assumes ok: "I s \<Longrightarrow> ecu_ok buf s"
    and set_node [simp]: "I s \<Longrightarrow> node_ok buf nd \<Longrightarrow> I (s\<lparr>ec_node := nd\<rparr>)"
    and set_etp [simp]: "I s \<Longrightarrow> etp_table_ok ETP_BUFFER ETP_SESSIONS r \<Longrightarrow> I (s\<lparr>ec_etp := r\<rparr>)"
    and set_faults [simp]: "I s \<Longrightarrow> fault_log_ok FAULT_CAPACITY l \<Longrightarrow> I (s\<lparr>ec_faults := l\<rparr>)"
    and set_inventory [simp]: "I s \<Longrightarrow> I (s\<lparr>ec_inventory := claims\<rparr>)"
    and set_last_tick [simp]: "I s \<Longrightarrow> I (s\<lparr>ec_last_tick := t\<rparr>)"
    and set_schedule [simp]: "I s \<Longrightarrow> schedule_ok SCHEDULE_CAPACITY sc \<Longrightarrow>
      schedule_keys sc = schedule_keys (ec_schedule s) \<Longrightarrow> I (s\<lparr>ec_schedule := sc\<rparr>)"
begin

lemma send_frames_keeps:
  assumes "out_ok o1" and "out_left o1 < k"
  shows "triple I (send_frames k env spaced first o1) (\<lambda>o2 s. I s \<and> out_ok o2) I W"
  using assms
proof (induction k arbitrary: o1 first)
  case (Suc k)
  obtain f o2 where step: "out_next_frame o1 = Some (f, o2)" "out_ok o2" "f \<noteq> None \<Longrightarrow> out_left o2 < out_left o1"
    using out_step [OF Suc.prems(1)] by metis
  have rest: "triple I (send_frames k env spaced False o2) (\<lambda>o2 s. I s \<and> out_ok o2) I W"
    if "f = Some g" for g
    by (rule Suc.IH) (use step Suc.prems(2) that in auto)
  show ?case
    unfolding send_frames.simps step(1)
    by (rule attempt_panic, simp)
      (auto intro!: triple_option triple_done attempt_keeps rest bus_keeps triple_if step(2))
qed simp

lemma check_keeps: "triple I check_may_transmit (\<lambda>_ s. I s \<and> ecu_has_address s) I W"
  by (simp add: triple_def check_may_transmit_def)

lemmas send_ok = weaken [OF send_keeps]

lemma request_keeps: "keeps I (ecu_request env d p) W"
  unfolding ecu_request_def
  by (rule triple_attempt [OF check_keeps]) (auto intro!: attempt_read attempt_input send_ok)

lemma broadcast_with_priority_keeps: "keeps I (broadcast_with_priority env p data pr) W"
  unfolding broadcast_with_priority_def
  by (rule triple_attempt [OF check_keeps])
    (auto intro!: attempt_read attempt_input triple_done out_left_rounds
      triple_attempt [OF triple_pre [OF send_frames_keeps]] dest: Outgoing_new_ok)

lemma broadcast_keeps: "keeps I (ecu_broadcast env p data) W"
  by (simp add: ecu_broadcast_def broadcast_with_priority_keeps)

lemma send_dm1_keeps: "keeps I (send_dm1 env) W"
  by (rule keeps_by_eq) (use send_dm1_eq [OF ok] broadcast_keeps in blast)

lemma send_dm2_keeps: "keeps I (send_dm2 env) W"
  by (rule keeps_by_eq) (use send_dm2_eq [OF ok] broadcast_keeps in blast)

lemma send_dm5_keeps: "keeps I (send_dm5 env) W"
  by (rule keeps_by_eq) (use send_dm5_eq broadcast_keeps in blast)

lemma acknowledge_keeps: "keeps I (ecu_acknowledge env a ack) W"
  unfolding ecu_acknowledge_def by (auto intro!: attempt_read attempt_input send_ok)

lemma answer_keeps: "keeps I (answer_diagnostic_request env a rq) W"
proof -
  have cl: "I (s\<lparr>ec_faults := clear_active (ec_faults s)\<rparr>)" "I (s\<lparr>ec_faults := clear_previously_active (ec_faults s)\<rparr>)"
    if "I s" for s
    using that clear_active_refines(2) [OF ecu_okD(3) [OF ok [OF that]]] clear_previous_refines(2) [OF ecu_okD(3) [OF ok [OF that]]] by simp_all
  have ack: "triple (\<lambda>s. I s \<and> x = ecu_address s) (ecu_acknowledge env a k) (\<lambda>_. I) I W" for k x
    by (rule weaken [OF acknowledge_keeps]) simp
  show ?thesis
    unfolding answer_diagnostic_request_def Let_def
    by (intro triple_if)
      (auto intro!: attempt_keeps triple_done send_dm1_keeps send_dm2_keeps send_dm5_keeps cl attempt_read
        attempt_update [where P' = "I"] triple_attempt [OF ack])
qed

lemma send_etp_cm_keeps: "keeps I (send_etp_cm env d cm) W"
  unfolding send_etp_cm_def by (auto intro!: attempt_read attempt_input send_ok)

lemma etp_reply_keeps:
  "keeps I (case reply of Some cm \<Rightarrow> send_etp_cm env d cm | None \<Rightarrow> done_with ()) W"
  by (auto intro!: triple_option triple_done send_etp_cm_keeps)

lemma dispatch_etp_keeps: "keeps I (dispatch_etp env f) W"
  unfolding dispatch_etp_def
proof (rule attempt_read_fact [where F = "\<lambda>(a, r). etp_table_ok ETP_BUFFER ETP_SESSIONS r"])
  show "case (ecu_address s, ec_etp s) of (a, r) \<Rightarrow> etp_table_ok ETP_BUFFER ETP_SESSIONS r" if "I s" for s
    using ecu_okD(2) [OF ok [OF that]] by simp
  fix x :: "address \<times> etp_reassembler"
  assume r: "case x of (a, r) \<Rightarrow> etp_table_ok ETP_BUFFER ETP_SESSIONS r"
  have step: "\<exists>outcome r1. step = Some (outcome, r1) \<and> etp_table_ok ETP_BUFFER ETP_SESSIONS r1"
    if "x = (a, q)" "etp_step_of f q = Some step" for a q step
    by (rule etp_step_total [OF _ that(2)]) (use r that in \<open>auto simp: split_beta\<close>)
  show "triple I
     (case x of (a, r) \<Rightarrow>
        if Frame_pgn f \<noteq> PGN_ETP_CM \<and> Frame_pgn f \<noteq> PGN_ETP_DT then done_with None
        else if \<not> Id_is_addressed_to (frame_id f) a then done_with (Some None)
        else (case etp_step_of f r of
            None \<Rightarrow> done_with (Some None)
          | Some step \<Rightarrow>
              attempt (unless_panic step) (\<lambda>(outcome, r1).
              attempt (update_state (\<lambda>s. s\<lparr>ec_etp := r1\<rparr>)) (\<lambda>_.
              case etp_outcome outcome of (reply, m) \<Rightarrow>
                attempt (case reply of Some cm \<Rightarrow> send_etp_cm env (Frame_source_address f) cm | None \<Rightarrow> done_with ())
                  (\<lambda>_. done_with (Some m))))))
     (\<lambda>_. I) I W"
    by (intro triple_pair triple_if triple_option triple_done)
      (auto dest: step intro!: attempt_panic attempt_update [where P' = "I"] triple_pair
        attempt_keeps [OF etp_reply_keeps] triple_done)
qed

lemma note_claim_ok [simp]: "I s \<Longrightarrow> I (note_claim f s)"
  by (simp add: note_claim_def)

lemma obey_dm13_ok [simp]: "I s \<Longrightarrow> I (obey_dm13 m s)"
  using on_dm13_keeps [OF ecu_okD(4) [OF ok]]
  by (auto simp: obey_dm13_def on_dm13_def simp del: on_dm13_networks.simps split: option.split)

lemma follow_command_keeps: "keeps I (follow_command env m) W"
  unfolding follow_command_def
proof (intro triple_option triple_if triple_done)
  fix msg
  show "triple I
     (attempt (read_state (\<lambda>s. node_on_commanded_address (msg_data msg) (ec_node s))) (\<lambda>(r, nd1).
      attempt (update_state (\<lambda>s. s\<lparr>ec_node := nd1\<rparr>)) (\<lambda>_.
      case r of Inr (Some claim) \<Rightarrow> send_frame env claim | _ \<Rightarrow> done_with ())))
     (\<lambda>_. I) I W"
  proof (rule attempt_read_fact [where F = "\<lambda>(r, nd1). node_ok buf nd1"])
    show "case node_on_commanded_address (msg_data msg) (ec_node s) of (r, nd1) \<Rightarrow> node_ok buf nd1" if "I s" for s
      using node_commanded_total [OF ecu_okD(1) [OF ok [OF that]], of "msg_data msg"] by (auto simp: split_beta)
  qed (auto intro!: attempt_update [where P' = "I"] triple_done send_keeps split: sum.split option.split)
qed

lemma answer_request_keeps: "keeps I (answer_request env m) W"
  unfolding answer_request_def
  by (intro triple_option triple_done attempt_read triple_if)
    (auto intro!: triple_done triple_attempt [OF weaken [OF answer_keeps]] split: sum.split)

lemma dispatch_keeps: "keeps I (dispatch buf env f) W"
  unfolding dispatch_def
proof (intro attempt_update [where P' = "I"] attempt_keeps [OF dispatch_etp_keeps] triple_option triple_done)
  show "triple I
     (attempt (read_state ec_node) (\<lambda>nd.
      attempt (unless_panic (node_on_frame buf f nd)) (\<lambda>(ev, nd1).
      attempt (update_state (\<lambda>s. s\<lparr>ec_node := nd1\<rparr>)) (\<lambda>_.
      attempt (send_all env (event_frames ev)) (\<lambda>_.
      attempt (follow_command env (event_message ev)) (\<lambda>_.
      attempt (update_state (obey_dm13 (event_message ev))) (\<lambda>_.
      attempt (answer_request env (event_message ev)) (\<lambda>_.
      done_with (event_message ev))))))))) (\<lambda>_. I) I W"
  proof (rule attempt_read_fact [where F = "\<lambda>nd. \<exists>ev nd1. node_on_frame buf f nd = Some (ev, nd1) \<and> node_ok buf nd1"])
    show "\<exists>ev nd1. node_on_frame buf f (ec_node s) = Some (ev, nd1) \<and> node_ok buf nd1" if "I s" for s
      using node_on_frame_total [OF ecu_okD(1) [OF ok [OF that]], of f] by metis
  qed (auto intro!: attempt_panic attempt_update [where P' = "I"] attempt_keeps [OF send_all_keeps]
      attempt_keeps [OF follow_command_keeps] attempt_keeps [OF answer_request_keeps] triple_done)
qed simp_all

lemma send_aborts_keeps: "keeps I (send_aborts env calls) W"
  by (induction calls) (auto intro: triple_done attempt_keeps [OF send_etp_cm_keeps])

lemma tick_node_keeps: "keeps I (tick_node env e) W"
  unfolding tick_node_def
proof (rule attempt_read_fact [where F = "\<lambda>(frames, nd1). node_ok buf nd1"])
  show "case node_tick e (ec_node s) of (frames, nd1) \<Rightarrow> node_ok buf nd1" if "I s" for s
    using node_tick_total [OF ecu_okD(1) [OF ok [OF that]], of e] by (simp add: split_beta)
qed (auto intro!: attempt_update [where P' = "I"] send_all_keeps)

lemma tick_etp_keeps: "keeps I (tick_etp env e) W"
  unfolding tick_etp_def
proof (rule attempt_read_fact [where F = "\<lambda>(expired, r1). etp_table_ok ETP_BUFFER ETP_SESSIONS r1"])
  show "case etp_tick e T3_TIMEOUT_MS (ec_etp s) of (expired, r1) \<Rightarrow> etp_table_ok ETP_BUFFER ETP_SESSIONS r1"
    if "I s" for s
    using etp_step_refines [OF ecu_okD(2) [OF ok [OF that]], of "EtpTick e T3_TIMEOUT_MS"] by (auto simp: split_beta)
qed (auto intro!: attempt_update [where P' = "I"] send_aborts_keeps)

lemma tick_faults_keeps: "keeps I (tick_faults env e) W"
  unfolding tick_faults_def
proof (rule attempt_read, rule triple_if, rule triple_done)
  fix has
  show "triple (\<lambda>s. I s \<and> has = ecu_has_address s)
     (attempt (read_state (\<lambda>s. FaultLog_tick e (ec_faults s))) (\<lambda>(report, l1).
      attempt (update_state (\<lambda>s. s\<lparr>ec_faults := l1\<rparr>)) (\<lambda>_. if report then send_dm1 env else done_with ())))
     (\<lambda>_. I) I W"
  proof (rule attempt_read_fact [where F = "\<lambda>(report, l1). fault_log_ok FAULT_CAPACITY l1"])
    show "case FaultLog_tick e (ec_faults s) of (report, l1) \<Rightarrow> fault_log_ok FAULT_CAPACITY l1"
      if "I s \<and> has = ecu_has_address s" for s
      using fault_tick_refines(2) [of FAULT_CAPACITY "ec_faults s" e] ecu_okD(3) [OF ok] that by (auto simp: split_beta)
  qed (auto intro!: attempt_update [where P' = "I"] triple_if send_dm1_keeps triple_done)
qed simp

lemma tick_schedule_keeps:
  assumes due: "keeps I (send_due DUE_ROUNDS rounds buf env) W"
  shows "keeps I (tick_schedule rounds buf env e) W"
  unfolding tick_schedule_def
proof (rule attempt_read, rule triple_if, rule triple_done)
  fix has
  show "triple (\<lambda>s. I s \<and> has = ecu_has_address s)
     (attempt (read_state ec_schedule) (\<lambda>sc.
      attempt (unless_panic (sc_tick e sc)) (\<lambda>(_, sc1).
      attempt (update_state (\<lambda>s. s\<lparr>ec_schedule := sc1\<rparr>)) (\<lambda>_. send_due DUE_ROUNDS rounds buf env))))
     (\<lambda>_. I) I W"
  proof (rule attempt_read)
    fix sc
    have tick: "\<exists>k sc1. sc_tick e sc = Some (k, sc1) \<and> schedule_ok SCHEDULE_CAPACITY sc1 \<and> schedule_keys sc1 = schedule_keys sc"
      if "schedule_ok SCHEDULE_CAPACITY sc"
      by (rule sc_tick_keys [OF that]) blast
    show "triple (\<lambda>s. (I s \<and> has = ecu_has_address s) \<and> sc = ec_schedule s)
      (attempt (unless_panic (sc_tick e sc)) (\<lambda>(_, sc1).
       attempt (update_state (\<lambda>s. s\<lparr>ec_schedule := sc1\<rparr>)) (\<lambda>_. send_due DUE_ROUNDS rounds buf env)))
      (\<lambda>_. I) I W"
    proof (rule triple_fact)
      show "schedule_ok SCHEDULE_CAPACITY sc" if "(I s \<and> has = ecu_has_address s) \<and> sc = ec_schedule s" for s
        using that ok ecu_okD(4) by blast
      assume "schedule_ok SCHEDULE_CAPACITY sc"
      with tick show ?thesis
        by (auto intro!: attempt_panic attempt_update [where P' = "I"] due)
    qed
  qed
qed simp

lemma tick_keeps:
  assumes due: "keeps I (send_due DUE_ROUNDS rounds buf env) W"
  shows "keeps I (ecu_tick rounds buf env) W"
  unfolding ecu_tick_def Let_def
  by (intro attempt_keeps [OF clock_keeps] attempt_read triple_if triple_done
      attempt_update [where P' = "I"] attempt_keeps [OF tick_node_keeps] attempt_keeps [OF tick_etp_keeps]
      attempt_keeps [OF tick_faults_keeps] tick_schedule_keeps [OF due])
    simp_all

lemma pump_keeps:
  assumes due: "keeps I (send_due DUE_ROUNDS rounds buf env) W"
  shows "keeps I (pump rounds buf env) W"
  unfolding pump_def
proof (rule attempt_keeps [OF recv_keeps], rule attempt_keeps)
  show "keeps I (case received of Some f \<Rightarrow> dispatch buf env f | None \<Rightarrow> done_with None) W" for received
    by (auto intro!: triple_option triple_done dispatch_keeps)
qed (auto intro!: attempt_keeps [OF tick_keeps [OF due]] triple_done)

end

interpretation ecu_parts: ecu_invariant "ecu_ok buf" buf for buf
  by unfold_locales simp_all

section \<open>Waiting for one peer\<close>

abbreviation safe :: "nat \<Rightarrow> (ecu, 'a) operation \<Rightarrow> bool" where
  "safe buf m \<equiv> keeps (ecu_ok buf) m (ecu_ok buf)"

lemma queue_rest: "triple (ecu_ok buf) (k ()) Q E W \<Longrightarrow> triple (ecu_ok buf) (attempt (update_state (queue_message m)) k) Q E W"
  by (rule attempt_update [where P' = "ecu_ok buf"]) simp_all

lemma await_peer_safe:
  assumes fits: "clock_fits env HANDSHAKE_TIMEOUT"
  shows "out_ok o1 \<Longrightarrow> safe buf (await_peer k buf env deadline o1)"
proof (induction k arbitrary: o1 deadline)
  case 0
  show ?case unfolding await_peer.simps by (rule triple_rounds)
next
  case (Suc k)
  have on_frame: "\<exists>progress o2. out_on_frame f o1 = Some (progress, o2) \<and> out_ok o2" for f
    using out_on_frame_ok [OF Suc.prems] by metis
  have ready: "safe buf (attempt (send_frames FRAME_ROUNDS env False True o2) (\<lambda>o3.
      attempt (deadline_after env HANDSHAKE_TIMEOUT) (\<lambda>later. await_peer k buf env later o3)))" if "out_ok o2" for o2
  proof (rule triple_attempt [OF ecu_parts.send_frames_keeps [OF that out_left_rounds]])
    fix o3
    show "triple (\<lambda>s. ecu_ok buf s \<and> out_ok o3)
      (attempt (deadline_after env HANDSHAKE_TIMEOUT) (\<lambda>later. await_peer k buf env later o3))
      (\<lambda>_. ecu_ok buf) (ecu_ok buf) (ecu_ok buf)"
      by (rule triple_fact, erule conjunct2)
        (auto intro: triple_pre [OF attempt_keeps [OF ecu_parts.deadline_keeps [OF fits]]] Suc.IH)
  qed
  have idle: "safe buf (attempt (dispatch buf env f) (\<lambda>m. attempt (update_state (queue_message m)) (\<lambda>_.
      await_peer k buf env deadline o2)))" if "out_ok o2" for o2 f
    by (rule attempt_keeps [OF ecu_parts.dispatch_keeps], rule queue_rest) (rule Suc.IH [OF that])
  have received: "safe buf (attempt (unless_panic (out_on_frame f o1)) (\<lambda>(progress, o2).
      case progress of
        ProgressReady \<Rightarrow> attempt (send_frames FRAME_ROUNDS env False True o2) (\<lambda>o3.
          attempt (deadline_after env HANDSHAKE_TIMEOUT) (\<lambda>later. await_peer k buf env later o3))
      | ProgressComplete \<Rightarrow> done_with ()
      | ProgressAborted _ \<Rightarrow> fail_with ConnectionAbortedError
      | ProgressIdle \<Rightarrow> attempt (dispatch buf env f) (\<lambda>m. attempt (update_state (queue_message m)) (\<lambda>_.
          await_peer k buf env deadline o2))))" for f
    using on_frame [of f]
    by (auto intro!: attempt_panic intro: ready idle triple_done triple_fail split: progress.split)
  show ?case
    unfolding await_peer.simps
    by (intro triple_if triple_done attempt_keeps [OF ecu_parts.clock_keeps] triple_fail
        attempt_keeps [OF ecu_parts.recv_keeps] triple_option received Suc.IH Suc.prems)
qed

lemma send_to_safe:
  assumes fits: "clock_fits env HANDSHAKE_TIMEOUT"
  shows "safe buf (ecu_send_to rounds buf env d p data)"
  unfolding ecu_send_to_def
proof (rule triple_if [OF ecu_parts.broadcast_keeps], rule triple_attempt [OF ecu_parts.check_keeps])
  have start: "safe buf (attempt (send_frames FRAME_ROUNDS env False True o1) (\<lambda>o2.
      attempt (deadline_after env HANDSHAKE_TIMEOUT) (\<lambda>deadline. await_peer rounds buf env deadline o2)))" if "out_ok o1" for o1
  proof (rule triple_attempt [OF ecu_parts.send_frames_keeps [OF that out_left_rounds]])
    fix o2
    show "triple (\<lambda>s. ecu_ok buf s \<and> out_ok o2)
      (attempt (deadline_after env HANDSHAKE_TIMEOUT) (\<lambda>deadline. await_peer rounds buf env deadline o2))
      (\<lambda>_. ecu_ok buf) (ecu_ok buf) (ecu_ok buf)"
      by (rule triple_fact, erule conjunct2)
        (auto intro: triple_pre [OF attempt_keeps [OF ecu_parts.deadline_keeps [OF fits]]] await_peer_safe [OF fits])
  qed
  show "triple (\<lambda>s. ecu_ok buf s \<and> ecu_has_address s)
     (attempt (read_state ecu_address) (\<lambda>source.
      attempt (invalid_input (Outgoing_new p source d data)) (\<lambda>o1.
      attempt (send_frames FRAME_ROUNDS env False True o1) (\<lambda>o2.
      attempt (deadline_after env HANDSHAKE_TIMEOUT) (\<lambda>deadline. await_peer rounds buf env deadline o2)))))
     (\<lambda>_. ecu_ok buf) (ecu_ok buf) (ecu_ok buf)"
    by (intro attempt_read attempt_input) (auto dest: Outgoing_new_ok intro: triple_pre [OF start])
qed

section \<open>Time\<close>

lemma send_due_safe:
  assumes fits: "clock_fits env HANDSHAKE_TIMEOUT"
  shows "safe buf (send_due k rounds buf env)"
proof (induction k)
  case 0
  show ?case unfolding send_due.simps by (rule triple_rounds)
next
  case (Suc k)
  have one: "safe buf (if Address_is_broadcast d then broadcast_with_priority env p payload pr
      else ecu_send_to rounds buf env d p payload)" for d p payload pr
    by (intro triple_if ecu_parts.broadcast_with_priority_keeps send_to_safe [OF fits])
  show ?case
    unfolding send_due.simps
  proof (rule attempt_read)
    fix sc
    have due: "\<exists>d sc1. next_due sc = Some (d, sc1) \<and> schedule_ok SCHEDULE_CAPACITY sc1 \<and> schedule_keys sc1 = schedule_keys sc"
      if "schedule_ok SCHEDULE_CAPACITY sc"
      by (rule next_due_keys [OF that]) blast
    show "triple (\<lambda>s. ecu_ok buf s \<and> sc = ec_schedule s)
      (attempt (unless_panic (next_due sc)) (\<lambda>(due, sc1).
       attempt (update_state (\<lambda>s. s\<lparr>ec_schedule := sc1\<rparr>)) (\<lambda>_.
       case due of
         None \<Rightarrow> done_with ()
       | Some d \<Rightarrow>
           attempt (read_state (\<lambda>s. ec_payloads s (payload_key (due_pgn d) (due_destination d)))) (\<lambda>stored.
           case stored of
             None \<Rightarrow> send_due k rounds buf env
           | Some (payload, priority) \<Rightarrow>
               attempt (if Address_is_broadcast (due_destination d)
                        then broadcast_with_priority env (due_pgn d) payload priority
                        else ecu_send_to rounds buf env (due_destination d) (due_pgn d) payload) (\<lambda>_.
               send_due k rounds buf env)))))
      (\<lambda>_. ecu_ok buf) (ecu_ok buf) (ecu_ok buf)"
    proof (rule triple_fact)
      show "schedule_ok SCHEDULE_CAPACITY sc" if "ecu_ok buf s \<and> sc = ec_schedule s" for s using that ecu_okD(4) by blast
      assume "schedule_ok SCHEDULE_CAPACITY sc"
      with due show ?thesis
        by (auto intro!: attempt_panic attempt_update [where P' = "ecu_ok buf"] triple_option triple_done attempt_read
          triple_pair weaken [OF Suc.IH] weaken [OF attempt_keeps [OF one Suc.IH]])
    qed
  qed
qed

lemma pump_safe: "clock_fits env HANDSHAKE_TIMEOUT \<Longrightarrow> safe buf (pump rounds buf env)"
  by (rule ecu_parts.pump_keeps [OF send_due_safe])

section \<open>Waiting for the bus\<close>

lemma poll_safe: "clock_fits env HANDSHAKE_TIMEOUT \<Longrightarrow> safe buf (ecu_poll rounds buf env)"
  unfolding ecu_poll_def
  by (rule attempt_read)
    (auto intro: weaken [OF pump_safe] intro!: attempt_update [where P' = "ecu_ok buf"] triple_done split: list.split)

lemma pump_rest: "clock_fits env HANDSHAKE_TIMEOUT \<Longrightarrow> (\<And>m. triple (ecu_ok buf) (k m) Q (ecu_ok buf) (ecu_ok buf)) \<Longrightarrow>
    triple (ecu_ok buf) (attempt (pump rounds buf env) k) Q (ecu_ok buf) (ecu_ok buf)"
  by (rule attempt_keeps [OF pump_safe])

lemma claim_loop_safe:
  assumes fits: "clock_fits env HANDSHAKE_TIMEOUT"
  shows "safe buf (claim_loop k rounds buf env t)"
proof (induction k)
  case 0
  show ?case unfolding claim_loop.simps by (rule triple_rounds)
next
  case (Suc k)
  show ?case
    unfolding claim_loop.simps
    by (intro attempt_keeps [OF ecu_parts.clock_keeps] triple_if triple_done attempt_read)
      (auto intro: triple_done triple_pre [OF pump_rest [OF fits queue_rest [OF Suc.IH]]])
qed

lemma handshake_fits: "clock_fits env CLAIM_TIMEOUT \<Longrightarrow> clock_fits env HANDSHAKE_TIMEOUT"
  by (erule clock_fits_mono) (simp add: HANDSHAKE_TIMEOUT_def CLAIM_TIMEOUT_def)

lemma claim_address_safe:
  assumes fits: "clock_fits env CLAIM_TIMEOUT"
  shows "safe buf (claim_address rounds buf env)"
  unfolding claim_address_def
proof (rule attempt_read_fact [where F = "\<lambda>(claim, nd1). node_ok buf nd1"])
  show "case node_start (ec_node s) of (claim, nd1) \<Rightarrow> node_ok buf nd1" if "ecu_ok buf s" for s
    using node_start_total [OF ecu_okD(1) [OF that]] by (simp add: split_beta)
qed (auto intro!: attempt_update [where P' = "ecu_ok buf"] attempt_keeps [OF ecu_parts.send_keeps]
    attempt_keeps [OF ecu_parts.deadline_keeps [OF fits]] claim_loop_safe [OF handshake_fits [OF fits]])

lemma scan_loop_safe:
  assumes fits: "clock_fits env HANDSHAKE_TIMEOUT"
  shows "safe buf (scan_loop k rounds buf env t)"
proof (induction k)
  case 0
  show ?case unfolding scan_loop.simps by (rule triple_rounds)
next
  case (Suc k)
  show ?case
    unfolding scan_loop.simps
    by (intro attempt_keeps [OF ecu_parts.clock_keeps] triple_if triple_done pump_rest [OF fits] queue_rest Suc.IH)
qed

lemma scan_safe:
  assumes "clock_fits env HANDSHAKE_TIMEOUT" and "clock_fits env duration"
  shows "safe buf (ecu_scan rounds buf env duration)"
  unfolding ecu_scan_def
  by (intro attempt_keeps [OF ecu_parts.request_keeps] attempt_keeps [OF ecu_parts.deadline_keeps] attempt_keeps [OF scan_loop_safe] assms)
    (simp add: triple_def run_simps)

lemma wait_for_response_safe:
  assumes fits: "clock_fits env HANDSHAKE_TIMEOUT"
  shows "safe buf (wait_for_response k rounds buf env d p t)"
proof (induction k)
  case 0
  show ?case unfolding wait_for_response.simps by (rule triple_rounds)
next
  case (Suc k)
  show ?case
    unfolding wait_for_response.simps
    by (intro attempt_keeps [OF ecu_parts.clock_keeps] triple_if triple_done pump_rest [OF fits] triple_option queue_rest Suc.IH)
qed

lemma request_wait_safe:
  assumes "clock_fits env HANDSHAKE_TIMEOUT" and "clock_fits env timeout"
  shows "safe buf (request_wait rounds buf env d p timeout)"
  unfolding request_wait_def
  by (intro attempt_keeps [OF ecu_parts.request_keeps] attempt_keeps [OF ecu_parts.deadline_keeps] wait_for_response_safe assms)

lemma readers_safe:
  assumes "clock_fits env HANDSHAKE_TIMEOUT" and "clock_fits env timeout"
  shows "safe buf (read_faults g rounds buf env target timeout)" "safe buf (read_readiness rounds buf env target timeout)"
  "safe buf (read_software_identification rounds buf env target timeout)"
  "safe buf (clear_with g rounds buf env target timeout)"
  unfolding read_faults_def read_readiness_def read_software_identification_def clear_with_def refused_def
  by (rule attempt_keeps [OF request_wait_safe [OF assms]],
      auto intro!: triple_done triple_fail attempt_input triple_if split: response.split)+

section \<open>The ECU as a machine\<close>

text \<open>The calls an application can make, with what they return left out.\<close>

datatype host_call =
    HostClaimAddress
  | HostPoll
  | HostRequest address pgn
  | HostBroadcast pgn bytes priority
  | HostSendTo address pgn bytes
  | HostSendEvery pgn address bytes nat
  | HostSetPriority pgn address priority
  | HostUpdatePeriodic pgn address bytes
  | HostStopPeriodic pgn address
  | HostSuspend nat
  | HostResume
  | HostSetFault u32 u8 lamp
  | HostClearFault u32 u8
  | HostSetObd obd_compliance
  | HostSendDm1
  | HostSendDm2
  | HostSendDm5
  | HostScan nat
  | HostReadFaults pgn address nat
  | HostReadReadiness address nat
  | HostReadSoftware address nat
  | HostClear pgn address nat

definition ignoring :: "('s, 'a) operation \<Rightarrow> ('s, unit) operation" where
  "ignoring m = attempt m (\<lambda>_. done_with ())"

fun host_run :: "nat \<Rightarrow> nat \<Rightarrow> environment \<Rightarrow> host_call \<Rightarrow> (ecu, unit) operation" where
  "host_run rounds buf env HostClaimAddress = claim_address rounds buf env"
| "host_run rounds buf env HostPoll = ignoring (ecu_poll rounds buf env)"
| "host_run rounds buf env (HostRequest d p) = ecu_request env d p"
| "host_run rounds buf env (HostBroadcast p data pr) = broadcast_with_priority env p data pr"
| "host_run rounds buf env (HostSendTo d p data) = ecu_send_to rounds buf env d p data"
| "host_run rounds buf env (HostSendEvery p d data period) = ecu_send_every p d data period"
| "host_run rounds buf env (HostSetPriority p d pr) = set_periodic_priority p d pr"
| "host_run rounds buf env (HostUpdatePeriodic p d data) = update_periodic_to p d data"
| "host_run rounds buf env (HostStopPeriodic p d) = ignoring (stop_periodic p d)"
| "host_run rounds buf env (HostSuspend timeout) = update_state (suspend_broadcasts timeout)"
| "host_run rounds buf env HostResume = update_state resume_broadcasts"
| "host_run rounds buf env (HostSetFault spn fmi lamp) = ecu_set_fault spn fmi lamp"
| "host_run rounds buf env (HostClearFault spn fmi) = ignoring (ecu_clear_fault spn fmi)"
| "host_run rounds buf env (HostSetObd level) = update_state (set_obd_compliance level)"
| "host_run rounds buf env HostSendDm1 = send_dm1 env"
| "host_run rounds buf env HostSendDm2 = send_dm2 env"
| "host_run rounds buf env HostSendDm5 = send_dm5 env"
| "host_run rounds buf env (HostScan duration) = ignoring (ecu_scan rounds buf env duration)"
| "host_run rounds buf env (HostReadFaults g a t) = ignoring (read_faults g rounds buf env a t)"
| "host_run rounds buf env (HostReadReadiness a t) = ignoring (read_readiness rounds buf env a t)"
| "host_run rounds buf env (HostReadSoftware a t) = ignoring (read_software_identification rounds buf env a t)"
| "host_run rounds buf env (HostClear g a t) = ignoring (clear_with g rounds buf env a t)"

lemma ignoring_safe: "safe buf m \<Longrightarrow> safe buf (ignoring m)"
  by (auto simp: ignoring_def intro: attempt_keeps triple_done)

text \<open>The longest time a call adds to a reading of the clock.\<close>

definition call_time :: "host_call \<Rightarrow> nat" where
  "call_time c =
     max CLAIM_TIMEOUT
       (case c of HostScan t \<Rightarrow> t | HostReadFaults g a t \<Rightarrow> t | HostReadReadiness a t \<Rightarrow> t | HostReadSoftware a t \<Rightarrow> t
        | HostClear g a t \<Rightarrow> t | _ \<Rightarrow> 0)"

lemma host_run_safe:
  assumes "clock_fits env (call_time c)"
  shows "safe buf (host_run rounds buf env c)"
  using clock_fits_mono [OF assms, of CLAIM_TIMEOUT] handshake_fits [of env] clock_fits_mono [OF assms]
  by (cases c)
    (auto intro: ignoring_safe claim_address_safe poll_safe ecu_parts.request_keeps ecu_parts.broadcast_with_priority_keeps send_to_safe
      send_every_keeps set_priority_keeps update_periodic_keeps stop_periodic_keeps triple_update quiet_keeps
      set_fault_keeps clear_fault_keeps ecu_parts.send_dm1_keeps ecu_parts.send_dm2_keeps ecu_parts.send_dm5_keeps scan_safe readers_safe max.cobounded2
      simp: set_obd_compliance_def call_time_def)

text \<open>A step reports how the call ended; \<open>None\<close> is a panic.\<close>

definition host_step ::
  "nat \<Rightarrow> nat \<Rightarrow> environment \<Rightarrow> host_call \<Rightarrow> ecu \<Rightarrow> (unit outcome \<times> ecu) option" where
  "host_step rounds buf env c s =
     (case host_run rounds buf env c s of (Panicked, s1) \<Rightarrow> None | (r, s1) \<Rightarrow> Some (r, s1))"

interpretation host: safe_machine "host_step rounds buf env" "ecu_ok buf"
  "\<lambda>c. clock_fits env (call_time c)" for rounds buf env
proof
  fix s e
  assume "ecu_ok buf s" and fits: "clock_fits env (call_time e)"
  moreover obtain r s1 where "host_run rounds buf env e s = (r, s1)" by (cases "host_run rounds buf env e s")
  ultimately show "\<exists>out s'. host_step rounds buf env e s = Some (out, s') \<and> ecu_ok buf s'"
    using tripleD [OF host_run_safe [OF fits], of buf s rounds r s1] by (cases r) (auto simp: host_step_def)
qed

end
