(* ===== verification/Host_Traffic.thy ===== *)
theory Host_Traffic
  imports Host_Safety
begin

text \<open>
  What the ECU of \<open>Host_Ecu\<close> puts on the bus and when its calls return: it says nothing of its own
  without an address; a broadcast is exactly the frames of the message, in order and paced, and every
  idle node that hears them delivers the message; a request that waits returns, with its own answer,
  and every other message stays queued in order.
\<close>

section \<open>The trace only grows\<close>

definition grows :: "('m bus_state_scheme, 'a) operation \<Rightarrow> bool" where
  "grows m \<longleftrightarrow> (\<forall>s. \<exists>events. bus_trace (snd (m s)) = events @ bus_trace s)"

named_theorems grow_rules \<open>operations that only add to the trace\<close>

lemma grows_attempt [grow_rules]:
  assumes "grows m" and "\<And>a. grows (k a)"
  shows "grows (attempt m k)"
  unfolding grows_def
proof
  fix s
  obtain r s1 where m: "m s = (r, s1)" by (cases "m s")
  obtain e1 where e1: "bus_trace s1 = e1 @ bus_trace s" using assms(1) m by (metis grows_def snd_conv)
  show "\<exists>events. bus_trace (snd (attempt m k s)) = events @ bus_trace s"
  proof (cases r)
    case (Done a)
    obtain e2 where "bus_trace (snd (k a s1)) = e2 @ bus_trace s1" using assms(2) by (metis grows_def)
    with Done m e1 show ?thesis by (simp add: attempt_def)
  qed (use m e1 in \<open>simp_all add: attempt_def\<close>)
qed

lemma grows_basic [grow_rules]:
  "grows (done_with a)" "grows (fail_with e)" "grows out_of_rounds" "grows (read_state f)" "grows (unless_panic x)"
  "grows (invalid_input r)" "grows (sleep_for n)" "grows (send_frame env fr)" "grows (recv_frame env)" "grows (read_clock env)"
  "grows check_may_transmit"
  by (auto simp: grows_def run_simps unless_panic_def invalid_input_def send_frame_def recv_frame_def read_clock_def Let_def
      check_may_transmit_def split: option.split sum.split)

lemma grows_deadline [grow_rules]: "grows (deadline_after env d)"
  unfolding deadline_after_def by (intro grow_rules)

lemma grows_update [grow_rules]: "(\<And>s. bus_trace (f s) = bus_trace s) \<Longrightarrow> grows (update_state f)"
  by (simp add: grows_def run_simps)

lemma grows_if [grow_rules]: "grows m \<Longrightarrow> grows n \<Longrightarrow> grows (if b then m else n)"
  by simp

lemma grows_option [grow_rules]: "grows m \<Longrightarrow> (\<And>a. grows (k a)) \<Longrightarrow> grows (case x of None \<Rightarrow> m | Some a \<Rightarrow> k a)"
  by (simp split: option.split)

lemma grows_pair [grow_rules]: "(\<And>a b. grows (k a b)) \<Longrightarrow> grows (case x of (a, b) \<Rightarrow> k a b)"
  by (simp split: prod.split)

lemma grows_sum [grow_rules]: "(\<And>a. grows (k a)) \<Longrightarrow> (\<And>a. grows (l a)) \<Longrightarrow> grows (case x of Inl a \<Rightarrow> k a | Inr a \<Rightarrow> l a)"
  by (simp split: sum.split)

lemma state_trace [simp]:
  "bus_trace (note_claim f s) = bus_trace s" "bus_trace (obey_dm13 m s) = bus_trace s"
  "bus_trace (queue_message m s) = bus_trace s" "bus_trace (store_payload k d s) = bus_trace s"
  by (simp_all add: note_claim_def obey_dm13_def on_dm13_def queue_message_def store_payload_def del: on_dm13_networks.simps
      split: option.split)

lemma grows_send_all [grow_rules]: "grows (send_all env fs)"
  by (induction fs) (simp_all add: grow_rules)

lemma grows_send_frames [grow_rules]: "grows (send_frames k env spaced first o1)"
  by (induction k arbitrary: first o1) (simp, intro grow_rules, unfold send_frames.simps, intro grow_rules)

lemma grows_transmit [grow_rules]:
  "grows (ecu_request env d p)" "grows (broadcast_with_priority env p data pr)" "grows (ecu_broadcast env p data)"
  unfolding ecu_request_def ecu_broadcast_def broadcast_with_priority_def by (intro grow_rules)+

lemma grows_reports [grow_rules]:
  "grows (send_dm1 env)" "grows (send_dm2 env)" "grows (send_dm5 env)" "grows (ecu_acknowledge env a ack)"
  unfolding send_dm1_def send_dm2_def send_dm5_def send_report_def ecu_acknowledge_def by (intro grow_rules)+

lemma grows_answer [grow_rules]: "grows (answer_diagnostic_request env a rq)"
  unfolding answer_diagnostic_request_def Let_def by (intro grow_rules) simp_all

lemma grows_dispatch [grow_rules]: "grows (send_etp_cm env d cm)" "grows (dispatch_etp env f)" "grows (follow_command env m)"
  "grows (answer_request env m)" "grows (dispatch buf env f)"
proof -
  show cm [grow_rules]: "grows (send_etp_cm env d cm)" for d cm unfolding send_etp_cm_def by (intro grow_rules)
  show [grow_rules]: "grows (dispatch_etp env f)" unfolding dispatch_etp_def by (intro grow_rules) simp_all
  show [grow_rules]: "grows (follow_command env m)" for m unfolding follow_command_def by (intro grow_rules) simp_all
  show [grow_rules]: "grows (answer_request env m)" for m unfolding answer_request_def by (intro grow_rules)
  show "grows (dispatch buf env f)" unfolding dispatch_def by (intro grow_rules) simp_all
qed

lemma grows_await_peer [grow_rules]: "grows (await_peer k buf env deadline o1)"
proof (induction k arbitrary: deadline o1)
  case (Suc k)
  have "grows (case p of
        ProgressReady \<Rightarrow> attempt (send_frames FRAME_ROUNDS env False True o2) (\<lambda>o3.
          attempt (deadline_after env HANDSHAKE_TIMEOUT) (\<lambda>later. await_peer k buf env later o3))
      | ProgressComplete \<Rightarrow> done_with ()
      | ProgressAborted _ \<Rightarrow> fail_with ConnectionAbortedError
      | ProgressIdle \<Rightarrow> attempt (dispatch buf env f) (\<lambda>m. attempt (update_state (queue_message m)) (\<lambda>_.
          await_peer k buf env deadline o2)))" for p o2 f
    by (cases p) (auto intro!: grow_rules Suc.IH)
  then show ?case unfolding await_peer.simps by (intro grow_rules Suc.IH)
qed (simp add: grow_rules)

lemma grows_send_to [grow_rules]: "grows (ecu_send_to rounds buf env d p data)"
  unfolding ecu_send_to_def by (intro grow_rules)

lemma grows_send_due [grow_rules]: "grows (send_due k rounds buf env)"
  by (induction k) (simp add: grow_rules, unfold send_due.simps, intro grow_rules, simp_all)

lemma grows_send_aborts [grow_rules]: "grows (send_aborts env calls)"
proof (induction calls)
  case (Cons c calls)
  then show ?case by (cases c) (simp, intro grow_rules)
qed (simp add: grow_rules)

lemma grows_tick [grow_rules]: "grows (ecu_tick rounds buf env)"
  unfolding ecu_tick_def tick_node_def tick_etp_def tick_faults_def tick_schedule_def Let_def
  by (intro grow_rules) simp_all

lemma grows_pump [grow_rules]: "grows (pump rounds buf env)"
  unfolding pump_def by (intro grow_rules)

text \<open>How often the bus was asked for a frame, and a clock that moves while it is asked.\<close>

fun is_poll :: "io_event \<Rightarrow> bool" where
  "is_poll (Received f) = True"
| "is_poll NothingReceived = True"
| "is_poll ReceiveFailed = True"
| "is_poll _ = False"

definition polls :: "io_event list \<Rightarrow> nat" where
  "polls trace = length (filter is_poll trace)"

lemma polls_simps [simp]:
  "polls [] = 0" "polls (e # t) = (if is_poll e then 1 else 0) + polls t" "polls (t @ u) = polls t + polls u"
  by (simp_all add: polls_def)

definition clock_moves :: "nat \<Rightarrow> environment \<Rightarrow> bool" where
  "clock_moves step env \<longleftrightarrow>
     (\<forall>events trace. env_clock env trace + step * polls events \<le> env_clock env (events @ trace))"

lemma pump_polls: "\<exists>events. bus_trace (snd (pump rounds buf env s)) = events @ bus_trace s \<and> 1 \<le> polls events"
proof -
  obtain r s1 where recv: "recv_frame env s = (r, s1)" by (cases "recv_frame env s")
  obtain ev where ev: "bus_trace s1 = ev # bus_trace s" "is_poll ev"
    using recv by (auto simp: recv_frame_def split: sum.splits option.splits)
  show ?thesis
  proof (cases r)
    case (Done f)
    define rest where "rest = attempt (case f of Some f \<Rightarrow> dispatch buf env f | None \<Rightarrow> done_with None) (\<lambda>m.
        attempt (ecu_tick rounds buf env) (\<lambda>_. done_with m))"
    have "pump rounds buf env s = rest s1"
      using recv Done by (simp add: pump_def attempt_def rest_def)
    moreover have "grows rest" unfolding rest_def by (intro grow_rules)
    then obtain events where "bus_trace (snd (rest s1)) = events @ bus_trace s1" by (metis grows_def)
    ultimately show ?thesis using ev by (intro exI [of _ "events @ [ev]"]) simp
  qed (use recv ev in \<open>auto simp: pump_def attempt_def\<close>)
qed

section \<open>Silence without an address\<close>

lemma check_refuses: "\<not> ecu_has_address s \<Longrightarrow> attempt check_may_transmit k s = (Failed NotConnectedError, s)"
  by (simp add: attempt_def check_may_transmit_def)

lemma transmit_refused:
  assumes "\<not> ecu_has_address s"
  shows "ecu_request env d p s = (Failed NotConnectedError, s)"
    and "broadcast_with_priority env p data pr s = (Failed NotConnectedError, s)"
    and "ecu_broadcast env p data s = (Failed NotConnectedError, s)"
    and "ecu_send_to rounds buf env d p data s = (Failed NotConnectedError, s)"
    and "send_dm5 env s = (Failed NotConnectedError, s)"
    and "ecu_ok buf s \<Longrightarrow> send_dm1 env s = (Failed NotConnectedError, s)"
    and "ecu_ok buf s \<Longrightarrow> send_dm2 env s = (Failed NotConnectedError, s)"
    and "request_wait rounds buf env d p timeout s = (Failed NotConnectedError, s)"
    and "ecu_scan rounds buf env duration s = (Failed NotConnectedError, s)"
    and "read_faults g rounds buf env a timeout s = (Failed NotConnectedError, s)"
    and "read_readiness rounds buf env a timeout s = (Failed NotConnectedError, s)"
    and "read_software_identification rounds buf env a timeout s = (Failed NotConnectedError, s)"
    and "clear_with g rounds buf env a timeout s = (Failed NotConnectedError, s)"
proof -
  show req: "ecu_request env d p s = (Failed NotConnectedError, s)" for d p
    using assms by (simp add: ecu_request_def check_refuses)
  show "broadcast_with_priority env p data pr s = (Failed NotConnectedError, s)" for p data pr
    using assms by (simp add: broadcast_with_priority_def check_refuses)
  then show bc: "ecu_broadcast env p data s = (Failed NotConnectedError, s)" for p data by (simp add: ecu_broadcast_def)
  then show "ecu_send_to rounds buf env d p data s = (Failed NotConnectedError, s)"
    using assms by (simp add: ecu_send_to_def check_refuses)
  show "send_dm5 env s = (Failed NotConnectedError, s)" by (simp add: send_dm5_eq bc)
  show "ecu_ok buf s \<Longrightarrow> send_dm1 env s = (Failed NotConnectedError, s)" by (simp add: send_dm1_eq bc)
  show "ecu_ok buf s \<Longrightarrow> send_dm2 env s = (Failed NotConnectedError, s)" by (simp add: send_dm2_eq bc)
  show wait: "request_wait rounds buf env d p timeout s = (Failed NotConnectedError, s)" for d p
    by (simp add: request_wait_def attempt_def req)
  show "read_faults g rounds buf env a timeout s = (Failed NotConnectedError, s)"
    "read_readiness rounds buf env a timeout s = (Failed NotConnectedError, s)"
    "read_software_identification rounds buf env a timeout s = (Failed NotConnectedError, s)"
    "clear_with g rounds buf env a timeout s = (Failed NotConnectedError, s)"
    by (simp_all add: read_faults_def read_readiness_def read_software_identification_def clear_with_def attempt_def wait)
  show "ecu_scan rounds buf env duration s = (Failed NotConnectedError, s)"
    by (simp add: ecu_scan_def attempt_def req)
qed

text \<open>What a node without an address may say: its claim, and the control messages of transfers.\<close>

definition housekeeping :: "can_frame \<Rightarrow> bool" where
  "housekeeping f \<longleftrightarrow> Frame_pgn f \<in> {PGN_ADDRESS_CLAIMED, PGN_TP_CM, PGN_ETP_CM}"

definition only_housekeeping :: "io_event list \<Rightarrow> bool" where
  "only_housekeeping events \<longleftrightarrow> (\<forall>f. Sent f \<in> set events \<longrightarrow> housekeeping f)"

lemma housekeeping_cm: "tp_cm_frame a d cm = Some g \<Longrightarrow> housekeeping g"
  by (simp add: housekeeping_def cm_frame_fields(3))

lemma housekeeping_lift: "g \<in> set (event_frames (lift out a peer)) \<Longrightarrow> housekeeping g"
proof (cases out)
  case (RxMessage p s d ack)
  then show "g \<in> set (event_frames (lift out a peer)) \<Longrightarrow> ?thesis"
    by (cases "Option.bind ack (tp_cm_frame a peer)") (auto simp: lift_def bind_eq_Some_conv dest: housekeeping_cm)
qed (auto simp: lift_def dest: housekeeping_cm split: option.splits)

lemma housekeeping_claim: "act_on_claim action nd = (ev, nd1) \<Longrightarrow> g \<in> set (event_frames ev) \<Longrightarrow> housekeeping g"
  by (auto simp: act_on_claim_def housekeeping_def claim_frame_fields split: claim_action.splits)

lemma unclaimed_hears:
  assumes "nd_state nd \<noteq> Claimed" and h: "node_on_frame buf f nd = Some (ev, nd1)"
  shows "nd_state nd1 \<noteq> Claimed" and "g \<in> set (event_frames ev) \<Longrightarrow> housekeeping g"
proof -
  let ?src = "Id_source_address (frame_id f)" and ?n = "Name_from_bytes (Frame_payload f)"
  obtain action c1 where act: "on_address_claimed ?src ?n (nd_claimer nd) = (action, c1)"
    by (cases "on_address_claimed ?src ?n (nd_claimer nd)")
  then have c1: "cl_state c1 \<noteq> Claimed"
    by (cases rule: on_address_claimed_cases) (use assms(1) in \<open>auto simp: nd_state_def\<close>)
  have cm: "nd_claimer (snd (on_tp_cm_frame buf f nd)) = nd_claimer nd"
    by (auto simp: on_tp_cm_frame_def Let_def split_beta split: sum.split)
  have cmf: "on_tp_cm_frame buf f nd = (ev, nd1) \<Longrightarrow> g \<in> set (event_frames ev) \<Longrightarrow> housekeeping g" for g
    by (auto simp: on_tp_cm_frame_def Let_def split_beta dest: housekeeping_lift split: sum.splits if_splits)
  show "nd_state nd1 \<noteq> Claimed"
    using h assms(1) c1 cm
    by (auto simp: node_on_frame_def on_tp_dt_frame_def Let_def act nd_state_def split: if_splits Option.bind_splits
        dest: arg_cong [of _ "(_, _)" "\<lambda>x. nd_claimer (snd x)"])
  show "g \<in> set (event_frames ev) \<Longrightarrow> housekeeping g"
    using h cmf [of g]
    by (auto simp: node_on_frame_def on_tp_dt_frame_def Let_def act split: if_splits Option.bind_splits
        dest: housekeeping_lift housekeeping_claim)
qed

text \<open>So no frame that is heard makes an ECU without an address say anything but housekeeping.\<close>

definition mute_since :: "io_event list \<Rightarrow> ecu \<Rightarrow> bool" where
  "mute_since t s \<longleftrightarrow> \<not> ecu_has_address s \<and> (\<exists>events. bus_trace s = events @ t \<and> only_housekeeping events)"

definition stays :: "('s \<Rightarrow> bool) \<Rightarrow> ('s, 'a) operation \<Rightarrow> bool" where
  "stays J m \<longleftrightarrow> (\<forall>s. J s \<longrightarrow> J (snd (m s)))"

named_theorems stay_rules \<open>operations after which a property of the state still holds\<close>

lemma stays_attempt [stay_rules]:
  assumes "stays J m" and "\<And>a. stays J (k a)"
  shows "stays J (attempt m k)"
  unfolding stays_def
proof (intro allI impI)
  fix s assume J: "J s"
  obtain r s1 where m: "m s = (r, s1)" by (cases "m s")
  with J assms(1) have "J s1" by (metis stays_def snd_conv)
  with m assms(2) show "J (snd (attempt m k s))" by (cases r) (auto simp: attempt_def stays_def)
qed

lemma stays_basic [stay_rules]:
  "stays J (done_with a)" "stays J (fail_with e)" "stays J (read_state f)" "stays J (unless_panic x)" "stays J (invalid_input r)"
  by (auto simp: stays_def run_simps unless_panic_def invalid_input_def split: option.split sum.split)

lemma stays_update [stay_rules]: "(\<And>s. J s \<Longrightarrow> J (f s)) \<Longrightarrow> stays J (update_state f)"
  by (simp add: stays_def run_simps)

lemma stays_branch [stay_rules]:
  "stays J m \<Longrightarrow> stays J n \<Longrightarrow> stays J (if b then m else n)"
  "stays J m \<Longrightarrow> (\<And>a. stays J (k a)) \<Longrightarrow> stays J (case x of None \<Rightarrow> m | Some a \<Rightarrow> k a)"
  "(\<And>a b. stays J (l a b)) \<Longrightarrow> stays J (case y of (a, b) \<Rightarrow> l a b)"
  by (simp_all split: option.split prod.split)

lemma mute_log: "mute_since t s \<Longrightarrow> (\<And>f. ev = Sent f \<Longrightarrow> housekeeping f) \<Longrightarrow> mute_since t (log_event ev s)"
  by (force simp: mute_since_def only_housekeeping_def ecu_has_address_def log_event_def)

lemma mute_send [stay_rules]: "housekeeping f \<Longrightarrow> stays (mute_since t) (send_frame env f)"
  by (auto simp: stays_def send_frame_def intro: mute_log split: option.split)

lemma mute_send_all [stay_rules]: "(\<And>f. f \<in> set fs \<Longrightarrow> housekeeping f) \<Longrightarrow> stays (mute_since t) (send_all env fs)"
  by (induction fs) (simp_all add: stay_rules)

lemma mute_updates [simp]:
  "mute_since t (s\<lparr>ec_etp := r\<rparr>) = mute_since t s" "mute_since t (s\<lparr>ec_schedule := sc\<rparr>) = mute_since t s"
  "mute_since t (note_claim f s) = mute_since t s" "mute_since t (obey_dm13 m s) = mute_since t s"
  "nd_state nd \<noteq> Claimed \<Longrightarrow> mute_since t s \<Longrightarrow> mute_since t (s\<lparr>ec_node := nd\<rparr>)"
  by (simp_all add: mute_since_def ecu_has_address_def has_address_def note_claim_def obey_dm13_def on_dm13_def
      del: on_dm13_networks.simps split: option.split)

lemma etp_cm_id:
  "Id_from_parts Priority_LOWEST PGN_ETP_CM d a = Inr i \<Longrightarrow> Id_pgn i = PGN_ETP_CM \<and> Id_source_address i = a"
  using from_parts_fields [of Priority_LOWEST PGN_ETP_CM d a i] by simp

lemma mute_etp_cm [stay_rules]: "stays (mute_since t) (send_etp_cm env d cm)"
proof -
  have "stays (mute_since t) (attempt (invalid_input (Id_from_parts Priority_LOWEST PGN_ETP_CM d a)) (\<lambda>i.
      send_frame env (Frame_from_payload i (EtpCm_encode cm))))" for d a cm
    by (cases "Id_from_parts Priority_LOWEST PGN_ETP_CM d a")
      (auto simp: stays_def attempt_def run_simps housekeeping_def dest!: etp_cm_id
        intro!: mute_send [unfolded stays_def, rule_format])
  then show ?thesis unfolding send_etp_cm_def by (rule stays_attempt [OF stays_basic(3)])
qed

lemma mute_etp [stay_rules]: "stays (mute_since t) (dispatch_etp env f)"
  unfolding dispatch_etp_def by (intro stay_rules) simp_all

lemma mute_follow [stay_rules]: "stays (mute_since t) (follow_command env m)"
proof (cases m)
  case (Some msg)
  show ?thesis
    unfolding stays_def
  proof (intro allI impI)
    fix s assume mute: "mute_since t s"
    obtain r nd1 where h: "node_on_commanded_address (msg_data msg) (ec_node s) = (r, nd1)"
      by (cases "node_on_commanded_address (msg_data msg) (ec_node s)")
    obtain r' c1 where c: "on_commanded_address (msg_data msg) (nd_claimer (ec_node s)) = (r', c1)"
      by (cases "on_commanded_address (msg_data msg) (nd_claimer (ec_node s))")
    have "nd_state nd1 \<noteq> Claimed \<and> (\<forall>f. r = Inr (Some f) \<longrightarrow> housekeeping f)"
      using c
      by (cases rule: on_commanded_address_cases)
        (use h c mute in \<open>auto simp: node_on_commanded_address_def nd_state_def mute_since_def ecu_has_address_def
          has_address_def housekeeping_def claim_frame_fields\<close>)
    then show "mute_since t (snd (follow_command env m s))"
      using mute h mute_send [unfolded stays_def, of _ t env]
      by (auto simp: follow_command_def Some attempt_def run_simps split: sum.split option.split)
  qed
qed (simp add: follow_command_def stay_rules)

lemma mute_answer [stay_rules]: "stays (mute_since t) (answer_request env m)"
  by (auto simp: stays_def answer_request_def attempt_def run_simps mute_since_def split: option.split)

lemma dispatch_is_mute: "stays (mute_since t) (dispatch buf env f)"
proof -
  have noted: "stays (mute_since t) (update_state (note_claim f))" by (rule stays_update) simp
  have heard: "stays (mute_since t)
     (attempt (read_state ec_node) (\<lambda>nd.
      attempt (unless_panic (node_on_frame buf f nd)) (\<lambda>(ev, nd1).
      attempt (update_state (\<lambda>s. s\<lparr>ec_node := nd1\<rparr>)) (\<lambda>_.
      attempt (send_all env (event_frames ev)) (\<lambda>_.
      attempt (follow_command env (event_message ev)) (\<lambda>_.
      attempt (update_state (obey_dm13 (event_message ev))) (\<lambda>_.
      attempt (answer_request env (event_message ev)) (\<lambda>_.
      done_with (event_message ev)))))))))" (is "stays _ ?m")
    unfolding stays_def
  proof (intro allI impI)
    fix s assume mute: "mute_since t s"
    show "mute_since t (snd (?m s))"
    proof (cases "node_on_frame buf f (ec_node s)")
      case None
      with mute show ?thesis by (simp add: attempt_def run_simps)
    next
      case (Some x)
      obtain ev nd1 where x: "x = (ev, nd1)" by (cases x)
      have "nd_state (ec_node s) \<noteq> Claimed" using mute by (simp add: mute_since_def ecu_has_address_def has_address_def)
      note u = unclaimed_hears [OF this, of buf f ev nd1]
      have "stays (mute_since t)
         (attempt (send_all env (event_frames ev)) (\<lambda>_.
          attempt (follow_command env (event_message ev)) (\<lambda>_.
          attempt (update_state (obey_dm13 (event_message ev))) (\<lambda>_.
          attempt (answer_request env (event_message ev)) (\<lambda>_.
          done_with (event_message ev))))))"
        by (intro stay_rules) (use Some x u in simp_all)
      with mute Some x u(1) show ?thesis by (simp add: attempt_def run_simps stays_def)
    qed
  qed
  show ?thesis
    unfolding dispatch_def
    by (intro stays_attempt [OF noted] stays_attempt [OF mute_etp] stays_branch(2) stays_basic(1) heard)
qed

text \<open>
  A poll is what it hears, then a tick. The tick of an ECU that is not in the middle of a claim says
  nothing of its own; that of an ECU that claims may complete the claim, and then the ECU has an address.
\<close>

lemma housekeeping_aborts: "f \<in> set (abort_frames a calls) \<Longrightarrow> housekeeping f"
  by (induction calls) (auto simp: abort_frames_def map_filter_simps bind_eq_Some_conv split: option.splits dest: housekeeping_cm)

lemma mute_tick_node:
  assumes "mute_since t s" and "nd_state (ec_node s) \<noteq> Claiming"
  shows "mute_since t (snd (tick_node env e s))"
proof -
  obtain frames nd1 where h: "node_tick e (ec_node s) = (frames, nd1)" by (cases "node_tick e (ec_node s)")
  have "claim_tick e (ec_node s) = ec_node s" using assms(2) by (simp add: claim_tick_def nd_state_def)
  then have "nd_state nd1 \<noteq> Claimed" "f \<in> set frames \<Longrightarrow> housekeeping f" for f
    using h assms(1) housekeeping_aborts
    by (auto simp: node_tick_def Let_def split_beta nd_state_def mute_since_def ecu_has_address_def has_address_def)
  with assms(1) mute_send_all [of frames t env] h show ?thesis
    by (simp add: tick_node_def attempt_def run_simps stays_def)
qed

lemma mute_send_aborts [stay_rules]: "stays (mute_since t) (send_aborts env calls)"
proof (induction calls)
  case (Cons c calls)
  then show ?case by (cases c) (simp add: stay_rules)
qed (simp add: stay_rules)

lemma mute_tick_rest [stay_rules]:
  "stays (mute_since t) (tick_etp env e)" "stays (mute_since t) (tick_faults env e)"
  "stays (mute_since t) (tick_schedule rounds buf env e)"
proof -
  show "stays (mute_since t) (tick_etp env e)"
    unfolding tick_etp_def by (intro stay_rules) simp
  show "stays (mute_since t) (tick_faults env e)" "stays (mute_since t) (tick_schedule rounds buf env e)"
    by (auto simp: stays_def tick_faults_def tick_schedule_def attempt_def run_simps mute_since_def)
qed

lemma mute_tick:
  assumes "mute_since t s" and "nd_state (ec_node s) \<noteq> Claiming"
  shows "mute_since t (snd (ecu_tick rounds buf env s))"
proof -
  let ?s1 = "log_event (ClockRead (env_clock env (bus_trace s))) s"
  let ?e = "min (as_millis (env_clock env (bus_trace s) - ec_last_tick s)) 65535"
  let ?s2 = "?s1\<lparr>ec_last_tick := ec_last_tick s + ?e * MILLISECOND\<rparr>"
  have m1: "mute_since t ?s1" using assms(1) by (rule mute_log) simp
  then have m2: "mute_since t ?s2" by (simp add: mute_since_def ecu_has_address_def)
  have "mute_since t (snd (tick_node env (word_of_nat ?e) ?s2))"
    by (rule mute_tick_node [OF m2]) (use assms(2) in \<open>simp add: log_event_def\<close>)
  moreover have "stays (mute_since t) (attempt (tick_etp env x) (\<lambda>_. attempt (tick_faults env x) (\<lambda>_. tick_schedule rounds buf env x)))"
    for x by (intro stay_rules)
  ultimately have "mute_since t (snd (attempt (tick_node env (word_of_nat ?e)) (\<lambda>_. attempt (tick_etp env (word_of_nat ?e))
      (\<lambda>_. attempt (tick_faults env (word_of_nat ?e)) (\<lambda>_. tick_schedule rounds buf env (word_of_nat ?e)))) ?s2))"
    by (auto simp: attempt_def [of "tick_node env (word_of_nat ?e)"] stays_def split: prod.split outcome.split)
  with m1 show ?thesis by (simp add: ecu_tick_def attempt_def read_clock_def run_simps Let_def log_event_def)
qed

definition after_hearing :: "nat \<Rightarrow> environment \<Rightarrow> ecu \<Rightarrow> ecu" where
  "after_hearing buf env s =
     snd (attempt (recv_frame env) (\<lambda>received. case received of Some f \<Rightarrow> dispatch buf env f | None \<Rightarrow> done_with None) s)"

lemma hearing_is_mute: "mute_since t s \<Longrightarrow> mute_since t (after_hearing buf env s)"
proof -
  have recv: "stays (mute_since t) (recv_frame env)"
    by (auto simp: stays_def recv_frame_def intro: mute_log split: sum.split option.split)
  have "stays (mute_since t) (attempt (recv_frame env)
      (\<lambda>received. case received of Some f \<Rightarrow> dispatch buf env f | None \<Rightarrow> done_with None))"
    by (intro stays_attempt [OF recv] stays_branch(2) stays_basic(1) dispatch_is_mute)
  then show "mute_since t s \<Longrightarrow> mute_since t (after_hearing buf env s)" by (simp add: after_hearing_def stays_def)
qed

lemma pump_is_mute:
  assumes "mute_since t s" and "nd_state (ec_node (after_hearing buf env s)) \<noteq> Claiming"
  shows "mute_since t (snd (pump rounds buf env s))"
proof -
  let ?hear = "attempt (recv_frame env) (\<lambda>received. case received of Some f \<Rightarrow> dispatch buf env f | None \<Rightarrow> done_with None)"
  obtain r s1 where h: "?hear s = (r, s1)" by (cases "?hear s")
  then have s1: "s1 = after_hearing buf env s" by (simp add: after_hearing_def)
  have m1: "mute_since t s1" unfolding s1 by (rule hearing_is_mute [OF assms(1)])
  have m2: "mute_since t (snd (ecu_tick rounds buf env s1))" by (rule mute_tick [OF m1]) (use assms(2) s1 in simp)
  have "pump rounds buf env s = attempt ?hear (\<lambda>m. attempt (ecu_tick rounds buf env) (\<lambda>_. done_with m)) s"
    by (auto simp: pump_def attempt_def split: prod.split outcome.split)
  then show ?thesis using h m1 m2
    by (cases r) (auto simp: attempt_def run_simps split: prod.split outcome.split)
qed

lemma poll_is_mute:
  assumes "mute_since t s" and "nd_state (ec_node (after_hearing buf env s)) \<noteq> Claiming"
  shows "mute_since t (snd (ecu_poll rounds buf env s))"
  using pump_is_mute [OF assms] assms(1)
  by (cases "ec_pending s") (auto simp: ecu_poll_def attempt_def run_simps mute_since_def ecu_has_address_def)

section \<open>A broadcast on the bus\<close>

text \<open>The events of a run over frames, oldest first: every frame but the first after a pause, if paced.\<close>

fun frame_events :: "bool \<Rightarrow> bool \<Rightarrow> can_frame list \<Rightarrow> io_event list" where
  "frame_events spaced first [] = []"
| "frame_events spaced first (f # fs) =
     (if spaced \<and> \<not> first then [Slept BAM_PACKET_INTERVAL, Sent f] else [Sent f]) @ frame_events spaced False fs"

lemma frames_sent_append: "frames_sent (t @ u) = frames_sent u @ frames_sent t"
  by (simp add: frames_sent_def map_filter_def)

lemma frames_sent_events: "frames_sent (rev (frame_events spaced first fs)) = fs"
  by (induction spaced first fs rule: frame_events.induct) (auto simp: frames_sent_append)

lemma send_frames_run:
  assumes "accepting env" and "out_drain k o1 = Some (fs, o2)"
  shows "send_frames k env spaced first o1 s = (Done o2, s\<lparr>bus_trace := rev (frame_events spaced first fs) @ bus_trace s\<rparr>)"
  using assms(2)
proof (induction k arbitrary: o1 first fs s)
  case (Suc k)
  from Suc.prems obtain g o3 where step: "out_next_frame o1 = Some (g, o3)"
    by (auto split: Option.bind_splits)
  show ?case
  proof (cases g)
    case None
    with Suc.prems step show ?thesis by (simp add: attempt_def run_simps)
  next
    case (Some f)
    with Suc.prems step obtain gs where rest: "out_drain k o3 = Some (gs, o2)" "fs = f # gs"
      by (auto split: Option.bind_splits)
    note ih = Suc.IH [OF rest(1), of False]
    show ?thesis
      using step Some rest(2) ih assms(1) by (cases spaced) (simp_all add: attempt_def run_simps log_event_def)
  qed
qed simp

lemma new_has_default_priority: "Outgoing_new p a d data = Inr o1 \<Longrightarrow> with_priority Priority_DEFAULT o1 = o1"
  by (auto simp: Outgoing_new_def with_priority_def Let_def split: if_splits sum.splits)

lemma ecu_broadcast_run:
  assumes "accepting env" and "ecu_has_address s" and "Outgoing_new p (ecu_address s) Address_GLOBAL data = Inr o1"
    and "out_drain 257 o1 = Some (fs, o2)"
  shows "ecu_broadcast env p data s =
    (Done (), s\<lparr>bus_trace := rev (frame_events (needs_pacing o1) True fs) @ bus_trace s\<rparr>)"
  using send_frames_run [OF assms(1,4), of "needs_pacing o1" True s] assms(2,3) new_has_default_priority [OF assms(3)]
  by (simp add: ecu_broadcast_def broadcast_with_priority_def attempt_def run_simps check_may_transmit_def FRAME_ROUNDS_def)

lemma pacing_iff:
  assumes "Outgoing_new p a Address_GLOBAL data = Inr o1"
  shows "needs_pacing o1 \<longleftrightarrow> 8 < length data"
proof (cases "8 < length data")
  case True
  then obtain tx where tx: "Transmitter_build p data True = Inr tx" "out_state o1 = Multi tx False" "out_destination o1 = Address_GLOBAL"
    by (rule Outgoing_multi [OF assms]) simp
  have "unat (tx_packets tx) \<noteq> 0" using started(3,4) [OF tx(1)] by simp
  then have "tx_packets tx \<noteq> 0" by auto
  then have "0 < tx_packets tx" by (rule word_neq_0_conv [THEN iffD1])
  with tx(2,3) True show ?thesis by (simp add: needs_pacing_def guard_simps)
next
  case False
  then have l8: "length data \<le> 8" by simp
  have "out_state o1 = Single data False" by (rule Outgoing_single [OF assms l8]) simp
  with False show ?thesis by (simp add: needs_pacing_def)
qed

lemma broadcast_reaches:
  assumes acc: "accepting env" and addr: "ecu_has_address s" and p: "Pgn_ok p" and max: "length data \<le> 1785"
    and nd: "node_ok buf nd" and short: "length data \<le> 8 \<Longrightarrow> application_group p"
    and long: "8 < length data \<Longrightarrow> length data \<le> buf \<and> slot_for ses_source (nd_reassembler nd) (ecu_address s) \<noteq> None"
  obtains frames outs nd2 where
    "ecu_broadcast env p data s =
      (Done (), s\<lparr>bus_trace := rev (frame_events (8 < length data) True frames) @ bus_trace s\<rparr>)"
    and "run_machine (node_step buf) (map NdFrame frames) nd = Some (outs, nd2)"
    and "last_event outs = EvtMessage p (ecu_address s) data None" and "node_ok buf nd2"
proof (cases "8 < length data")
  case True
  with max obtain o1 where o1: "Outgoing_new p (ecu_address s) Address_GLOBAL data = Inr o1"
    using Outgoing_multi_defined [of data p "ecu_address s" Address_GLOBAL] by auto
  obtain frames o2 outs nd2 where h: "out_drain 257 o1 = Some (frames, o2)" "out_is_complete o2"
    "run_machine (node_step buf) (map NdFrame frames) nd = Some (outs, nd2)"
    "last_event outs = EvtMessage p (ecu_address s) data None" "node_ok buf nd2" "nd_claimer nd2 = nd_claimer nd"
    by (rule broadcast_frames_run [OF nd p o1 True]) (use long True in auto)
  from ecu_broadcast_run [OF acc addr o1 h(1)] h that True pacing_iff [OF o1] show thesis by simp
next
  case False
  then have l8: "length data \<le> 8" by simp
  obtain i where i: "Id_from_parts Priority_DEFAULT p Address_GLOBAL (ecu_address s) = Inr i"
    by (simp add: from_parts_eq)
  obtain f0 where "Frame_new i data = Inr f0" using Frame_new_defined [OF l8] by blast
  with i l8 obtain o1 where o1: "Outgoing_new p (ecu_address s) Address_GLOBAL data = Inr o1"
    by (simp add: Outgoing_new_def MAX_PAYLOAD_def Let_def)
  obtain f o2 where h: "out_drain 257 o1 = Some ([f], o2)" "out_is_complete o2"
    "node_on_frame buf f nd = Some (EvtMessage p (ecu_address s) data None, nd)"
    by (rule single_frames_run [OF o1 l8 p short [OF l8], of nd buf]) simp
  from h(3) have "run_machine (node_step buf) (map NdFrame [f]) nd = Some ([OutEvent (EvtMessage p (ecu_address s) data None)], nd)"
    by simp
  moreover have "ecu_broadcast env p data s =
      (Done (), s\<lparr>bus_trace := rev (frame_events (8 < length data) True [f]) @ bus_trace s\<rparr>)"
    unfolding pacing_iff [OF o1, symmetric] by (rule ecu_broadcast_run [OF acc addr o1 h(1)])
  ultimately show thesis using that [of "[f]"] nd by (simp add: last_event_def)
qed

end
