(* ===== verification/Host_Wait.thy ===== *)
theory Host_Wait
  imports Host_Traffic
begin

text \<open>
  \<^verbatim>\<open>host/src/ecu.rs\<close>: an ECU whose periodic messages are all broadcasts never waits for one peer while it
  pumps the bus, so a request that waits for its answer comes to an end as soon as the clock has moved
  past its deadline, and every message that was heard and was not the answer stays queued in its order. A
  deadline the clock cannot represent, and a tick that fails, are the two ways a wait goes wrong.
\<close>

section \<open>An ECU that waits for nobody\<close>

definition broadcasts_only :: "ecu \<Rightarrow> bool" where
  "broadcasts_only s \<longleftrightarrow> (\<forall>(p, d) \<in> schedule_keys (ec_schedule s). Address_is_broadcast d)"

definition quiet_ok :: "nat \<Rightarrow> message list \<Rightarrow> ecu \<Rightarrow> bool" where
  "quiet_ok buf pending s \<longleftrightarrow> ecu_ok buf s \<and> broadcasts_only s \<and> ec_pending s = pending"

interpretation quiet_parts: ecu_invariant "quiet_ok buf pending" buf for buf pending
  by unfold_locales (auto simp: quiet_ok_def broadcasts_only_def log_event_def ecu_ok_def payloads_match_def)

definition only_trace :: "('m bus_state_scheme, 'a) operation \<Rightarrow> bool" where
  "only_trace m \<longleftrightarrow> (\<forall>s. \<exists>t. snd (m s) = s\<lparr>bus_trace := t\<rparr>)"

lemma only_trace_attempt:
  assumes "only_trace m" and "\<And>a. only_trace (k a)"
  shows "only_trace (attempt m k)"
  unfolding only_trace_def
proof
  fix s
  obtain r s1 where m: "m s = (r, s1)" by (cases "m s")
  then obtain t where t: "s1 = s\<lparr>bus_trace := t\<rparr>" using assms(1) by (metis only_trace_def snd_conv)
  show "\<exists>t. snd (attempt m k s) = s\<lparr>bus_trace := t\<rparr>"
  proof (cases r)
    case (Done a)
    obtain u where "snd (k a s1) = s1\<lparr>bus_trace := u\<rparr>" using assms(2) by (metis only_trace_def)
    with m Done t show ?thesis by (auto simp: attempt_def)
  qed (use m t in \<open>auto simp: attempt_def\<close>)
qed

lemma unchanged_trace: "\<exists>t. s = s\<lparr>bus_trace := t\<rparr>"
  by (rule exI [of _ "bus_trace s"]) simp

lemma only_trace_basic:
  "only_trace (done_with a)" "only_trace out_of_rounds" "only_trace (read_state f)" "only_trace (unless_panic x)"
  "only_trace (invalid_input r)" "only_trace (sleep_for n)" "only_trace (send_frame env fr)" "only_trace check_may_transmit"
  using unchanged_trace
  by (auto simp: only_trace_def run_simps unless_panic_def invalid_input_def send_frame_def check_may_transmit_def log_event_def
      split: option.split sum.split)

lemma only_trace_branch:
  "only_trace m \<Longrightarrow> only_trace n \<Longrightarrow> only_trace (if b then m else n)"
  "only_trace m \<Longrightarrow> (\<And>a. only_trace (k a)) \<Longrightarrow> only_trace (case x of None \<Rightarrow> m | Some a \<Rightarrow> k a)"
  "(\<And>a b. only_trace (l a b)) \<Longrightarrow> only_trace (case y of (a, b) \<Rightarrow> l a b)"
  by (simp_all split: option.split prod.split)

lemma only_trace_frames: "only_trace (send_frames k env spaced first o1)"
proof (induction k arbitrary: first o1)
  case 0
  show ?case unfolding send_frames.simps by (rule only_trace_basic)
next
  case (Suc k)
  show ?case
    unfolding send_frames.simps by (intro only_trace_attempt only_trace_basic only_trace_branch Suc.IH)
qed

lemma only_trace_broadcast: "only_trace (broadcast_with_priority env p data pr)"
  unfolding broadcast_with_priority_def by (intro only_trace_attempt only_trace_basic only_trace_frames)

lemma only_trace_keeps:
  assumes "only_trace m" and "keeps (ecu_ok buf) m W" and "\<And>s t. P (s\<lparr>bus_trace := t\<rparr>) = P s" and "\<And>s. P s \<Longrightarrow> ecu_ok buf s"
    and "\<And>s. \<not> W s"
  shows "keeps P m V"
  unfolding triple_def
proof (intro allI impI)
  fix s assume P: "P s"
  obtain r s1 where m: "m s = (r, s1)" by (cases "m s")
  then obtain t where "s1 = s\<lparr>bus_trace := t\<rparr>" using assms(1) by (metis only_trace_def snd_conv)
  with P assms(3) have "P s1" by simp
  with tripleD [OF assms(2) assms(4) [OF P] m] assms(5) m
  show "case m s of (Done a, s1) \<Rightarrow> P s1 | (Failed e, s1) \<Rightarrow> P s1 | (Panicked, s1) \<Rightarrow> False | (Waiting, s1) \<Rightarrow> V s1"
    by (cases r) auto
qed

text \<open>The broadcasts that are due go out without waiting for anybody.\<close>

definition due_count :: "schedule \<Rightarrow> nat" where
  "due_count sc = length (filter en_due (live sc))"

lemma next_due_broadcast:
  assumes "schedule_ok n sc" and "\<forall>(p, d) \<in> schedule_keys sc. Address_is_broadcast d"
  obtains sc1 where "next_due sc = Some (None, sc1)" and "schedule_ok n sc1" and "schedule_keys sc1 = schedule_keys sc"
  | d sc1 where "next_due sc = Some (Some d, sc1)" and "schedule_ok n sc1" and "schedule_keys sc1 = schedule_keys sc"
    and "Address_is_broadcast (due_destination d)" and "due_count sc1 < due_count sc"
proof -
  obtain d sc1 where h: "next_due sc = Some (d, sc1)" "schedule_ok n sc1" "schedule_keys sc1 = schedule_keys sc"
    "d = fst (take_due (live sc))" "live sc1 = snd (take_due (live sc))"
    by (rule next_due_keys [OF assms(1)])
  show thesis
  proof (cases rule: take_due_cases [of "live sc"])
    case 1
    with h that(1) show thesis by simp
  next
    case (2 e)
    from 2(2) have "e \<in> set (filter en_due (live sc))" by simp
    then have "e \<in> set (live sc)" by simp
    then have "entry_key e \<in> schedule_keys sc" by (simp add: schedule_keys_def)
    with assms(2) have "Address_is_broadcast (due_destination (due_of e))" by (auto simp: entry_key_def due_of_def)
    moreover have "due_count sc1 < due_count sc" using 2(2) h(5) by (simp add: due_count_def)
    ultimately show thesis using that(2) h(1-4) 2(1) by simp
  qed
qed

lemma quiet_trace [simp]: "quiet_ok buf ps (s\<lparr>bus_trace := t\<rparr>) = quiet_ok buf ps s"
  by (simp add: quiet_ok_def broadcasts_only_def ecu_ok_def payloads_match_def)

lemma send_due_quiet:
  "triple (\<lambda>s. quiet_ok buf ps s \<and> due_count (ec_schedule s) < k) (send_due k rounds buf env)
     (\<lambda>_. quiet_ok buf ps) (quiet_ok buf ps) V"
proof (induction k)
  case 0
  show ?case by (simp add: triple_def)
next
  case (Suc k)
  let ?P = "\<lambda>s. quiet_ok buf ps s \<and> due_count (ec_schedule s) < k"
  have bc: "keeps ?P (broadcast_with_priority env p data pr) V" for p data pr
  proof (rule only_trace_keeps)
    show "keeps (ecu_ok buf) (broadcast_with_priority env p data pr) (\<lambda>_. False)"
      by (rule ecu_parts.broadcast_with_priority_keeps)
    show "ecu_ok buf s" if "?P s" for s using that by (simp add: quiet_ok_def)
  qed (simp_all add: only_trace_broadcast)
  have after: "triple ?P (attempt (broadcast_with_priority env p data pr) (\<lambda>_. send_due k rounds buf env))
      (\<lambda>_. quiet_ok buf ps) (quiet_ok buf ps) V" for p data pr
    by (rule triple_attempt [where R = "\<lambda>_. ?P", OF triple_conseq [OF bc] Suc.IH]) simp_all
  show ?case
    unfolding send_due.simps
  proof (rule attempt_read, rule triple_fact)
    fix sc s
    assume "(quiet_ok buf ps s \<and> due_count (ec_schedule s) < Suc k) \<and> sc = ec_schedule s"
    then show "schedule_ok SCHEDULE_CAPACITY sc \<and> (\<forall>(p, d) \<in> schedule_keys sc. Address_is_broadcast d) \<and> due_count sc < Suc k"
      by (auto simp: quiet_ok_def broadcasts_only_def dest: ecu_okD(4))
  next
    fix sc
    assume sc: "schedule_ok SCHEDULE_CAPACITY sc \<and> (\<forall>(p, d) \<in> schedule_keys sc. Address_is_broadcast d) \<and> due_count sc < Suc k"
    let ?Q = "\<lambda>s. (quiet_ok buf ps s \<and> due_count (ec_schedule s) < Suc k) \<and> sc = ec_schedule s"
    show "triple ?Q
      (attempt (unless_panic (next_due sc)) (\<lambda>(due, sc1).
       attempt (update_state (\<lambda>s. s\<lparr>ec_schedule := sc1\<rparr>)) (\<lambda>_.
       case due of
         None \<Rightarrow> done_with ()
       | Some d \<Rightarrow>
           attempt (read_state (\<lambda>s. ec_payloads s (payload_key (due_pgn d) (due_destination d)))) (\<lambda>stored.
           case stored of
             None \<Rightarrow> send_due k rounds buf env
           | Some (payload, priority) \<Rightarrow>
               attempt (if Address_is_broadcast (due_destination d)
                        then broadcast_with_priority env (due_pgn d) payload priority
                        else ecu_send_to rounds buf env (due_destination d) (due_pgn d) payload) (\<lambda>_.
               send_due k rounds buf env)))))
      (\<lambda>_. quiet_ok buf ps) (quiet_ok buf ps) V"
    proof (cases rule: next_due_broadcast [OF conjunct1 [OF sc] conjunct1 [OF conjunct2 [OF sc]]])
      case (1 sc1)
      have "quiet_ok buf ps (s\<lparr>ec_schedule := sc1\<rparr>)" if "?Q s" for s
        using that 1 quiet_parts.set_schedule by blast
      with 1(1) show ?thesis by (auto intro!: attempt_panic attempt_update [where P' = "quiet_ok buf ps"] triple_done)
    next
      case (2 d sc1)
      have "?P (s\<lparr>ec_schedule := sc1\<rparr>)" if "?Q s" for s
        using that 2 quiet_parts.set_schedule by fastforce
      with 2(1,4) after show ?thesis
        by (auto intro!: attempt_panic attempt_update [where P' = ?P] attempt_read triple_option triple_pair
            triple_pre [OF Suc.IH] triple_pre [OF after])
    qed
  qed
qed

lemma quiet_send_due: "keeps (quiet_ok buf ps) (send_due DUE_ROUNDS rounds buf env) V"
proof (rule triple_pre [OF send_due_quiet])
  fix s
  assume q: "quiet_ok buf ps s"
  then have ok: "schedule_ok SCHEDULE_CAPACITY (ec_schedule s)" by (simp add: quiet_ok_def ecu_ok_def)
  have "due_count (ec_schedule s) \<le> length (live (ec_schedule s))" by (simp add: due_count_def)
  also have "\<dots> = sc_len (ec_schedule s)" by (rule length_live [OF ok])
  also have "\<dots> \<le> SCHEDULE_CAPACITY" using ok by (simp add: schedule_ok_def)
  finally show "quiet_ok buf ps s \<and> due_count (ec_schedule s) < DUE_ROUNDS" using q by (simp add: DUE_ROUNDS_def)
qed

lemma quiet_pump: "keeps (quiet_ok buf ps) (pump rounds buf env) V"
  by (rule quiet_parts.pump_keeps [OF quiet_send_due])

section \<open>The wait for an answer\<close>

lemma quiet_queue: "quiet_ok buf ps s \<Longrightarrow> quiet_ok buf (ps @ [m]) (queue_message (Some m) s)"
  by (simp add: quiet_ok_def broadcasts_only_def ecu_ok_def payloads_match_def queue_message_def)

lemma clock_mono: "clock_moves step env \<Longrightarrow> env_clock env trace \<le> env_clock env (events @ trace)"
  unfolding clock_moves_def using le_add1 order.trans by blast

text \<open>
  What an application hears in a number of rounds of the wait: the clock is read, the bus is pumped and
  whatever arrives is queued, with nobody asking for an answer.
\<close>

fun listen :: "nat \<Rightarrow> nat \<Rightarrow> nat \<Rightarrow> environment \<Rightarrow> (ecu, message list) operation" where
  "listen 0 rounds buf env = done_with []"
| "listen (Suc n) rounds buf env =
     attempt (read_clock env) (\<lambda>_.
     attempt (pump rounds buf env) (\<lambda>received.
     attempt (update_state (queue_message received)) (\<lambda>_.
     attempt (listen n rounds buf env) (\<lambda>ms.
     done_with (case received of None \<Rightarrow> ms | Some m \<Rightarrow> m # ms)))))"

text \<open>
  How a wait ends that has heard \<open>ms\<close> and queued it after \<open>ps\<close> in the state \<open>s2\<close>: with the last message
  as its answer, taken from the queue again; in time, with the bus failing in the next round; or late.
\<close>

definition wait_ended ::
  "nat \<Rightarrow> nat \<Rightarrow> environment \<Rightarrow> address \<Rightarrow> pgn \<Rightarrow> nat \<Rightarrow> message list \<Rightarrow> message list \<Rightarrow> ecu \<Rightarrow> response outcome \<Rightarrow> ecu \<Rightarrow> bool" where
  "wait_ended rounds buf env d p deadline ps ms s2 r s1 \<longleftrightarrow>
     r = Done TimedOutResponse \<and> (\<forall>m \<in> set ms. response_of d p m = None) \<and> s1 = snd (read_clock env s2) \<and>
       deadline \<le> env_clock env (bus_trace s2) \<or>
     (\<exists>others m answer. r = Done answer \<and> ms = others @ [m] \<and> response_of d p m = Some answer \<and>
       (\<forall>x \<in> set others. response_of d p x = None) \<and> s1 = s2\<lparr>ec_pending := ps @ others\<rparr>) \<or>
     (\<exists>e. r = Failed e \<and> (\<forall>m \<in> set ms. response_of d p m = None) \<and> env_clock env (bus_trace s2) < deadline \<and>
       pump rounds buf env (snd (read_clock env s2)) = (Failed e, s1) \<and> ec_pending s1 = ps @ ms)"

lemma wait_ended_Cons:
  "wait_ended rounds buf env d p deadline (ps @ [m]) ms s2 r s1 \<Longrightarrow> response_of d p m = None \<Longrightarrow>
     wait_ended rounds buf env d p deadline ps (m # ms) s2 r s1"
  unfolding wait_ended_def by (elim disjE exE conjE) (simp, metis append.assoc append_Cons append_Nil set_ConsD, simp)

lemma wait_listens:
  assumes "clock_moves step env" and "quiet_ok buf ps s" and "deadline \<le> env_clock env (bus_trace s) + step * k"
  shows "\<exists>r s1 n ms s2. wait_for_response (Suc k) rounds buf env d p deadline s = (r, s1) \<and> n \<le> Suc k \<and>
    listen n rounds buf env s = (Done ms, s2) \<and> quiet_ok buf (ps @ ms) s2 \<and>
    wait_ended rounds buf env d p deadline ps ms s2 r s1"
  using assms(2,3)
proof (induction k arbitrary: s ps)
  case 0
  have "wait_for_response (Suc 0) rounds buf env d p deadline s = (Done TimedOutResponse, snd (read_clock env s))"
    using 0(2) by (simp add: run_simps attempt_def read_clock_def Let_def)
  with 0 show ?case by (intro exI conjI [OF _ conjI [of "0 \<le> Suc 0"]]) (auto simp: run_simps wait_ended_def)
next
  case (Suc k)
  let ?now = "env_clock env (bus_trace s)"
  let ?s0 = "log_event (ClockRead ?now) s"
  have read: "read_clock env s = (Done ?now, ?s0)" by (simp add: read_clock_def Let_def)
  have q0: "quiet_ok buf ps ?s0" using Suc.prems(1) by (simp add: quiet_parts.blind)
  show ?case
  proof (cases "deadline \<le> ?now")
    case True
    with Suc.prems(1) read show ?thesis
      by (intro exI [of _ "Done TimedOutResponse"] exI [of _ ?s0] exI [of _ 0] exI [of _ "[]"] exI [of _ s])
        (simp add: run_simps wait_ended_def)
  next
    case False
    obtain r s1 where pump: "pump rounds buf env ?s0 = (r, s1)" by (cases "pump rounds buf env ?s0")
    note pumped = tripleD [OF quiet_pump [where V = "\<lambda>_. False"] q0 pump]
    obtain events where events: "bus_trace s1 = events @ bus_trace ?s0" "1 \<le> polls events"
      using pump_polls [of rounds buf env ?s0] pump by auto
    have "?now + step * 1 \<le> ?now + step * polls (events @ [ClockRead ?now])"
      using events(2) by (intro add_left_mono mult_left_mono) simp_all
    also have "\<dots> \<le> env_clock env ((events @ [ClockRead ?now]) @ bus_trace s)"
      using assms(1) unfolding clock_moves_def by blast
    finally have later: "deadline \<le> env_clock env (bus_trace s1) + step * k"
      using Suc.prems(2) events(1) by simp
    show ?thesis
    proof (cases r)
      case (Done received)
      have q1: "quiet_ok buf ps s1" using pumped(2) Done by simp
      show ?thesis
      proof (cases received)
        case None
        from Suc.IH [OF q1 later] obtain r2 s3 n ms s2 where ih:
          "wait_for_response (Suc k) rounds buf env d p deadline s1 = (r2, s3)" "n \<le> Suc k"
          "listen n rounds buf env s1 = (Done ms, s2)" "quiet_ok buf (ps @ ms) s2"
          "wait_ended rounds buf env d p deadline ps ms s2 r2 s3"
          by blast
        have "listen (Suc n) rounds buf env s = (Done ms, s2)"
          using read pump Done None ih(3) by (simp add: attempt_def run_simps queue_message_def)
        moreover have "wait_for_response (Suc (Suc k)) rounds buf env d p deadline s = (r2, s3)"
          using False read pump Done None ih(1) by simp
        ultimately show ?thesis using ih(2,4,5) by (meson Suc_le_mono)
      next
        case (Some m)
        show ?thesis
        proof (cases "response_of d p m")
          case None
          have "deadline \<le> env_clock env (bus_trace (queue_message (Some m) s1)) + step * k"
            using later by (simp add: queue_message_def)
          from Suc.IH [OF quiet_queue [OF q1] this] obtain r2 s3 n ms s2 where ih:
            "wait_for_response (Suc k) rounds buf env d p deadline (queue_message (Some m) s1) = (r2, s3)" "n \<le> Suc k"
            "listen n rounds buf env (queue_message (Some m) s1) = (Done ms, s2)" "quiet_ok buf ((ps @ [m]) @ ms) s2"
            "wait_ended rounds buf env d p deadline (ps @ [m]) ms s2 r2 s3"
            by blast
          have "listen (Suc n) rounds buf env s = (Done (m # ms), s2)"
            using read pump Done Some ih(3) by (simp add: attempt_def run_simps)
          moreover have "wait_for_response (Suc (Suc k)) rounds buf env d p deadline s = (r2, s3)"
            using False read pump Done Some None ih(1) by (simp add: attempt_def run_simps)
          moreover have "quiet_ok buf (ps @ m # ms) s2" using ih(4) by simp
          ultimately show ?thesis using ih(2) wait_ended_Cons [OF ih(5) None] by (meson Suc_le_mono)
        next
          case (Some answer)
          let ?s2 = "queue_message (Some m) s1"
          have w: "wait_for_response (Suc (Suc k)) rounds buf env d p deadline s = (Done answer, s1)"
            using False read pump Done \<open>received = Some m\<close> Some by (simp add: run_simps)
          have l: "listen (Suc 0) rounds buf env s = (Done [m], ?s2)"
            using read pump Done \<open>received = Some m\<close> by (simp add: attempt_def run_simps)
          have "s1 = ?s2\<lparr>ec_pending := ps @ []\<rparr>" using q1 by (simp add: queue_message_def quiet_ok_def)
          then have "wait_ended rounds buf env d p deadline ps ([] @ [m]) ?s2 (Done answer) s1"
            unfolding wait_ended_def using Some by (intro disjI2 disjI1 exI conjI) (rule refl | assumption | simp)+
          then have "wait_ended rounds buf env d p deadline ps [m] ?s2 (Done answer) s1" by simp
          with w l quiet_queue [OF q1, of m] show ?thesis by (meson Suc_le_mono le0)
        qed
      qed
    next
      case (Failed e)
      have "wait_for_response (Suc (Suc k)) rounds buf env d p deadline s = (Failed e, s1)"
        using False read pump Failed by simp
      moreover have "wait_ended rounds buf env d p deadline ps [] s (Failed e) s1"
        using False read pump Failed pumped(3) by (simp add: wait_ended_def quiet_ok_def)
      moreover have "listen 0 rounds buf env s = (Done [], s)" by (simp add: run_simps)
      moreover have "quiet_ok buf (ps @ []) s" using Suc.prems(1) by simp
      ultimately show ?thesis by (meson le0)
    qed (use pumped(1,4) in simp_all)
  qed
qed

text \<open>What is left of the platform's time before the bus is asked again.\<close>

definition time_left :: "environment \<Rightarrow> nat \<Rightarrow> io_event list \<Rightarrow> bool" where
  "time_left env duration trace \<longleftrightarrow>
     (\<forall>events. polls events = 0 \<longrightarrow> env_clock env (events @ trace) + duration < env_horizon env)"

lemma request_polls_nothing: "\<exists>events. bus_trace (snd (ecu_request env d p s)) = events @ bus_trace s \<and> polls events = 0"
  by (auto simp: ecu_request_def attempt_def check_may_transmit_def run_simps invalid_input_def send_frame_def
      split: sum.split option.split)

lemma request_wait_ends:
  assumes moves: "clock_moves step env" and q: "quiet_ok buf ps s" and enough: "timeout \<le> step * k"
    and left: "time_left env timeout (bus_trace s)"
  shows "\<exists>r s1. request_wait (Suc k) buf env d p timeout s = (r, s1) \<and>
    ((\<exists>e. r = Failed e \<and> ecu_request env d p s = (Failed e, s1) \<and> ec_pending s1 = ps) \<or>
     (\<exists>s0 deadline n ms s2. ecu_request env d p s = (Done (), s0) \<and> deadline = env_clock env (bus_trace s0) + timeout \<and>
        n \<le> Suc k \<and> listen n (Suc k) buf env (snd (read_clock env s0)) = (Done ms, s2) \<and> ec_pending s2 = ps @ ms \<and>
        wait_ended (Suc k) buf env d p deadline ps ms s2 r s1))"
proof -
  obtain r0 s0 where req: "ecu_request env d p s = (r0, s0)" by (cases "ecu_request env d p s")
  note asked = tripleD [OF quiet_parts.request_keeps [where W = "\<lambda>_. False"] q req]
  obtain events where events: "bus_trace s0 = events @ bus_trace s" "polls events = 0"
    using request_polls_nothing [of env d p s] req by auto
  show ?thesis
  proof (cases r0)
    case (Done u)
    let ?now = "env_clock env (bus_trace s0)"
    let ?s1 = "log_event (ClockRead ?now) s0"
    have read: "snd (read_clock env s0) = ?s1" by (simp add: read_clock_def Let_def)
    have "?now + timeout < env_horizon env" using left events unfolding time_left_def by simp
    then have dl: "deadline_after env timeout s0 = (Done (?now + timeout), ?s1)" by (simp add: deadline_run Let_def)
    have "?now \<le> env_clock env (bus_trace ?s1)"
      using clock_mono [OF moves, of "bus_trace s0" "[ClockRead ?now]"] by simp
    with enough have "?now + timeout \<le> env_clock env (bus_trace ?s1) + step * k" by simp
    moreover have "quiet_ok buf ps ?s1" using asked(2) Done by (simp add: quiet_parts.blind)
    ultimately obtain r s1 n ms s2 where run:
      "wait_for_response (Suc k) (Suc k) buf env d p (?now + timeout) ?s1 = (r, s1)" "n \<le> Suc k"
      "listen n (Suc k) buf env ?s1 = (Done ms, s2)" "quiet_ok buf (ps @ ms) s2"
      "wait_ended (Suc k) buf env d p (?now + timeout) ps ms s2 r s1"
      using wait_listens [OF moves] by blast
    then have "request_wait (Suc k) buf env d p timeout s = (r, s1)"
      using req Done dl by (simp add: request_wait_def)
    moreover have "ec_pending s2 = ps @ ms" using run(4) by (simp add: quiet_ok_def)
    moreover have "ecu_request env d p s = (Done (), s0)" using req Done by simp
    ultimately show ?thesis using run(2,3,5) unfolding read [symmetric] by blast
  next
    case (Failed e)
    with asked(3) req show ?thesis by (intro exI [of _ "Failed e"] exI [of _ s0]) (simp add: request_wait_def quiet_ok_def)
  qed (use asked(1,4) in simp_all)
qed

text \<open>A timeout the platform's clock cannot add to its reading is a panic, after the request went out.\<close>

lemma request_wait_overflows:
  assumes "ecu_request env d p s = (Done (), s0)" and "env_horizon env \<le> env_clock env (bus_trace s0) + timeout"
  shows "fst (request_wait rounds buf env d p timeout s) = Panicked"
  using assms by (simp add: request_wait_def attempt_def deadline_run Let_def)

lemma scan_overflows:
  assumes "ecu_request env Address_GLOBAL PGN_ADDRESS_CLAIMED s = (Done (), s0)"
    and "env_horizon env \<le> env_clock env (bus_trace s0) + duration"
  shows "fst (ecu_scan rounds buf env duration s) = Panicked"
  using assms by (simp add: ecu_scan_def attempt_def deadline_run Let_def)

text \<open>A message that was received is lost when the tick of the same pump fails: it is neither returned nor queued.\<close>

lemma tick_error_loses_message:
  assumes "quiet_ok buf ps s" and "recv_frame env s = (Done (Some f), s0)" and "dispatch buf env f s0 = (Done (Some m), s1)"
    and "ecu_tick rounds buf env s1 = (Failed e, s2)"
  shows "pump rounds buf env s = (Failed e, s2)" and "ec_pending s2 = ps"
proof -
  show p: "pump rounds buf env s = (Failed e, s2)" using assms(2-4) by (simp add: pump_def)
  show "ec_pending s2 = ps"
    using tripleD(3) [OF quiet_pump [where V = "\<lambda>_. False"] assms(1) p, of e] by (simp add: quiet_ok_def)
qed

section \<open>An ECU that holds its address\<close>

definition settled_ecu :: "environment \<Rightarrow> nat \<Rightarrow> nat \<Rightarrow> ecu_name \<Rightarrow> address \<Rightarrow> ecu" where
  "settled_ecu env buf sessions n a =
     (Ecu_new env buf sessions n a)\<lparr>ec_node := node_ticks [250] (snd (node_start (Node_new buf sessions n a)))\<rparr>"

lemma settled_ecu_ready:
  assumes "Address_is_specific a"
  shows "ecu_has_address (settled_ecu env buf sessions n a)" and "ecu_address (settled_ecu env buf sessions n a) = a"
    and "quiet_ok buf [] (settled_ecu env buf sessions n a)" and "bus_trace (settled_ecu env buf sessions n a) = [ClockRead (env_clock env [])]"
proof -
  let ?nd = "Node_new buf sessions n a" and ?s = "settled_ecu env buf sessions n a"
  have new: "nd_address ?nd = a" by (simp add: Node_new_def nd_address_def Claimer_new_def)
  with assms have "Address_is_specific (nd_address ?nd)" by simp
  note started = node_start_claims [OF this]
  have cl: "nd_claimer (ec_node ?s) = (nd_claimer (snd (node_start ?nd)))\<lparr>cl_state := Claimed\<rparr>"
    using claim_window [of "snd (node_start ?nd)" "[250]"] started by (simp add: settled_ecu_def)
  then show "ecu_has_address ?s" by (simp add: ecu_has_address_def has_address_def nd_state_def)
  from cl started(3) new show "ecu_address ?s = a" by (simp add: ecu_address_def nd_address_def)
  have "node_ok buf (snd (node_start ?nd))" using node_start_total [OF Node_new_ok] by blast
  then have "node_ok buf (ec_node ?s)" using node_tick_total by (simp add: settled_ecu_def)
  then have "ecu_ok buf ?s" using Ecu_new_ok [of buf env sessions n a] by (simp add: settled_ecu_def)
  then show "quiet_ok buf [] ?s"
    by (simp add: quiet_ok_def broadcasts_only_def settled_ecu_def Ecu_new_def schedule_keys_def live_def Schedule_new_def)
  show "bus_trace ?s = [ClockRead (env_clock env [])]" by (simp add: settled_ecu_def Ecu_new_def)
qed

text \<open>A silent bus whose clock counts how often it was asked, with the times a Linux \<^verbatim>\<open>Instant\<close> can hold.\<close>

definition silent_bus :: environment where
  "silent_bus = \<lparr>env_send = \<lambda>_ _. None, env_recv = \<lambda>_. Inr None, env_clock = polls, env_horizon = 2 ^ 63 * 10 ^ 9\<rparr>"

lemma silent_bus: "clock_moves 1 silent_bus" "accepting silent_bus"
  by (simp_all add: silent_bus_def clock_moves_def accepting_def)

text \<open>An extended request to send that is addressed to everybody is answered; the node never answers such a request.\<close>

lemma etp_answers_everybody:
  assumes "Frame_pgn f = PGN_ETP_CM" and "Id_is_broadcast (frame_id f)" and "EtpCm_decode (Frame_payload f) = Inr cm"
    and "etp_on_cm ETP_BUFFER (Frame_source_address f) cm (ec_etp s) = Some (ErSend answer, r1)"
  shows "dispatch_etp env f s =
    attempt (send_etp_cm env (Frame_source_address f) answer) (\<lambda>_. done_with (Some None)) (s\<lparr>ec_etp := r1\<rparr>)"
  using assms by (simp add: dispatch_etp_def etp_step_of_def etp_outcome_def is_addressed_to_iff attempt_def read_state_def
      update_state_def unless_panic_def)

end
