(* ===== verification/Utf8_Text.thy ===== *)
theory Utf8_Text
  imports Identification
begin

text \<open>
  The operations of the Rust standard library on \<^verbatim>\<open>&str\<close> that the readers of \<^verbatim>\<open>host/src/log.rs\<close> and
  \<^verbatim>\<open>host/src/dbc.rs\<close> use, on the UTF-8 bytes of the text: UTF-8 is self-synchronising, so a search for
  a character is a search for its bytes, and \<^verbatim>\<open>len\<close> counts bytes. White space is the Unicode property
  \<^verbatim>\<open>White_Space\<close>, as for \<^verbatim>\<open>char::is_whitespace\<close>. The second half states what the operations do to the
  words, lines and numbers that a writer puts out.
\<close>

abbreviation byte :: "char \<Rightarrow> u8" where "byte c \<equiv> of_char c"

definition ascii :: "string \<Rightarrow> bytes" where "ascii s = map byte s"

lemma ascii_simps [simp]: "ascii [] = []" "ascii (c # s) = byte c # ascii s"
  by (simp_all add: ascii_def)

section \<open>White space\<close>

definition ws_char :: "bytes \<Rightarrow> bool" where
  "ws_char c =
     (case c of
        [a] \<Rightarrow> 0x09 \<le> a \<and> a \<le> 0x0D \<or> a = 0x20
      | [a, b] \<Rightarrow> a = 0xC2 \<and> (b = 0x85 \<or> b = 0xA0)
      | [a, b, d] \<Rightarrow>
          a = 0xE1 \<and> b = 0x9A \<and> d = 0x80 \<or>
          a = 0xE2 \<and> b = 0x80 \<and> (0x80 \<le> d \<and> d \<le> 0x8A \<or> d = 0xA8 \<or> d = 0xA9 \<or> d = 0xAF) \<or>
          a = 0xE2 \<and> b = 0x81 \<and> d = 0x9F \<or>
          a = 0xE3 \<and> b = 0x80 \<and> d = 0x80
      | _ \<Rightarrow> False)"

text \<open>How many bytes of white space a text begins or ends with, by one character.\<close>

definition ws_first :: "bytes \<Rightarrow> nat" where
  "ws_first s = (if ws_char (take 1 s) then 1 else if ws_char (take 2 s) then 2 else if ws_char (take 3 s) then 3 else 0)"

definition ws_last :: "bytes \<Rightarrow> nat" where
  "ws_last s =
     (if ws_char (drop (length s - 1) s) then 1 else if ws_char (drop (length s - 2) s) then 2
      else if ws_char (drop (length s - 3) s) then 3 else 0)"

lemma ws_char_Nil [simp]: "\<not> ws_char []"
  by (simp add: ws_char_def)

lemma ws_Nil [simp]: "ws_first [] = 0" "ws_last [] = 0"
  by (simp_all add: ws_first_def ws_last_def)

lemma ws_shorter: "ws_first s \<noteq> 0 \<Longrightarrow> length s - ws_first s < length s" "ws_last s \<noteq> 0 \<Longrightarrow> length s - ws_last s < length s"
  by (cases s; simp)+

function trim_start :: "bytes \<Rightarrow> bytes" where
  "trim_start s = (if ws_first s = 0 then s else trim_start (drop (ws_first s) s))"
  by pat_completeness auto
termination
  by (relation "measure length") (simp_all add: ws_shorter del: length_greater_0_conv)

function trim_end :: "bytes \<Rightarrow> bytes" where
  "trim_end s = (if ws_last s = 0 then s else trim_end (take (length s - ws_last s) s))"
  by pat_completeness auto
termination
  by (relation "measure length") (simp_all add: ws_shorter del: length_greater_0_conv)

declare trim_start.simps [simp del] trim_end.simps [simp del]

definition trim :: "bytes \<Rightarrow> bytes" where "trim s = trim_end (trim_start s)"

section \<open>Cutting\<close>

definition strip_prefix :: "bytes \<Rightarrow> bytes \<Rightarrow> bytes option" where
  "strip_prefix p s = (if take (length p) s = p then Some (drop (length p) s) else None)"

definition split_once :: "u8 \<Rightarrow> bytes \<Rightarrow> (bytes \<times> bytes) option" where
  "split_once c s =
     (if c \<in> set s then Some (takeWhile (\<lambda>b. b \<noteq> c) s, tl (dropWhile (\<lambda>b. b \<noteq> c) s)) else None)"

fun split_once_ws :: "bytes \<Rightarrow> (bytes \<times> bytes) option" where
  "split_once_ws [] = None"
| "split_once_ws (a # s) =
     (if ws_first (a # s) \<noteq> 0 then Some ([], drop (ws_first (a # s)) (a # s))
      else map_option (\<lambda>(l, r). (a # l, r)) (split_once_ws s))"

text \<open>The text between the first \<open>first\<close> and the next \<open>last\<close>, and what follows.\<close>

fun has_infix :: "bytes \<Rightarrow> bytes \<Rightarrow> bool" where
  "has_infix p [] = (p = [])"
| "has_infix p (a # s) = (take (length p) (a # s) = p \<or> has_infix p s)"

lemma split_once_ws_shorter: "split_once_ws s = Some (l, r) \<Longrightarrow> length l + length r < length s"
  by (induction s arbitrary: l r) (auto split: if_splits)

lemma trim_start_shorter: "length (trim_start s) \<le> length s"
  by (induction s rule: trim_start.induct) (subst trim_start.simps, auto)

function split_whitespace :: "bytes \<Rightarrow> bytes list" where
  "split_whitespace s =
     (if trim_start s = [] then []
      else (case split_once_ws (trim_start s) of None \<Rightarrow> [trim_start s] | Some (w, r) \<Rightarrow> w # split_whitespace r))"
  by pat_completeness auto
termination
proof (relation "measure length")
  fix s p w r
  assume "split_once_ws (trim_start s) = Some p" "(w, r) = p"
  then show "(r, s) \<in> measure length"
    using split_once_ws_shorter [of "trim_start s" w r] trim_start_shorter [of s] by simp
qed simp

declare split_whitespace.simps [simp del]

definition chop_cr :: "bytes \<Rightarrow> bytes" where
  "chop_cr l = (if l \<noteq> [] \<and> last l = 0x0D then butlast l else l)"

lemma split_once_Cons:
  "split_once c (a # s) = (if a = c then Some ([], s) else map_option (\<lambda>(l, r). (a # l, r)) (split_once c s))"
  by (auto simp: split_once_def)

lemma split_once_iff: "split_once c s = Some (l, r) \<longleftrightarrow> s = l @ c # r \<and> c \<notin> set l"
proof (induction s arbitrary: l)
  case (Cons a s)
  then show ?case by (cases l) (auto simp: split_once_Cons)
qed (simp add: split_once_def)

lemma split_once_shorter: "split_once c s = Some (l, r) \<Longrightarrow> length l + length r < length s"
  by (auto simp: split_once_iff)

text \<open>\<^verbatim>\<open>str::lines\<close>: a line ends with \<^verbatim>\<open>\n\<close> or \<^verbatim>\<open>\r\n\<close>, the last one also with the text.\<close>

function text_lines :: "bytes \<Rightarrow> bytes list" where
  "text_lines s =
     (if s = [] then []
      else (case split_once 0x0A s of None \<Rightarrow> [s] | Some (l, r) \<Rightarrow> chop_cr l # text_lines r))"
  by pat_completeness auto
termination
proof (relation "measure length")
  fix s p l r
  assume "split_once 0x0A s = Some p" "(l, r) = p"
  then show "(r, s) \<in> measure length" using split_once_shorter [of "0x0A" s l r] by simp
qed simp

declare text_lines.simps [simp del]

definition trim_end_matches :: "u8 \<Rightarrow> bytes \<Rightarrow> bytes" where
  "trim_end_matches c s = rev (dropWhile (\<lambda>b. b = c) (rev s))"

text \<open>\<^verbatim>\<open>&s[i..j]\<close> panics off a character boundary.\<close>

definition char_boundary :: "bytes \<Rightarrow> nat \<Rightarrow> bool" where
  "char_boundary s i \<longleftrightarrow> i = 0 \<or> i = length s \<or> i < length s \<and> \<not> continuation (s ! i)"

definition str_slice :: "nat \<Rightarrow> nat \<Rightarrow> bytes \<Rightarrow> bytes option" where
  "str_slice i j s =
     (if i \<le> j \<and> char_boundary s i \<and> char_boundary s j then Some (take (j - i) (drop i s)) else None)"

section \<open>Numbers\<close>

definition digit_value :: "nat \<Rightarrow> u8 \<Rightarrow> nat option" where
  "digit_value radix b =
     (let n = (if 0x30 \<le> b \<and> b \<le> 0x39 then unat b - 0x30
               else if 0x61 \<le> b \<and> b \<le> 0x7A then unat b - 0x61 + 10
               else if 0x41 \<le> b \<and> b \<le> 0x5A then unat b - 0x41 + 10 else radix)
      in if n < radix then Some n else None)"

fun digits_value :: "nat \<Rightarrow> nat \<Rightarrow> nat \<Rightarrow> bytes \<Rightarrow> nat option" where
  "digits_value radix limit acc [] = Some acc"
| "digits_value radix limit acc (b # s) =
     do { d \<leftarrow> digit_value radix b;
          if radix * acc + d \<le> limit then digits_value radix limit (radix * acc + d) s else None }"

text \<open>\<^verbatim>\<open>from_str_radix\<close> of an unsigned type with the greatest value \<open>limit\<close>: a leading plus sign is accepted.\<close>

definition from_str_radix :: "nat \<Rightarrow> nat \<Rightarrow> bytes \<Rightarrow> nat option" where
  "from_str_radix radix limit s =
     (let digits = (if s \<noteq> [] \<and> hd s = byte CHR ''+'' then tl s else s)
      in if digits = [] then None else digits_value radix limit 0 digits)"

definition parse_u16 :: "bytes \<Rightarrow> u16 option" where
  "parse_u16 s = map_option word_of_nat (from_str_radix 10 (2 ^ 16 - 1) s)"
definition parse_u32 :: "bytes \<Rightarrow> u32 option" where
  "parse_u32 s = map_option word_of_nat (from_str_radix 10 (2 ^ 32 - 1) s)"
definition parse_usize :: "bytes \<Rightarrow> nat option" where
  "parse_usize s = from_str_radix 10 (2 ^ 64 - 1) s"

section \<open>What a writer puts out is read back\<close>

definition graphic :: "u8 \<Rightarrow> bool" where "graphic b \<longleftrightarrow> 0x21 \<le> b \<and> b \<le> 0x7E"

lemma ws_char_Cons:
  "ws_char [a] \<longleftrightarrow> 0x09 \<le> a \<and> a \<le> 0x0D \<or> a = 0x20"
  "ws_char (a # b # s) \<Longrightarrow> a \<in> {0xC2, 0xE1, 0xE2, 0xE3}" "ws_char (s @ [b, a]) \<Longrightarrow> 0x80 \<le> a"
proof -
  show "ws_char [a] \<longleftrightarrow> 0x09 \<le> a \<and> a \<le> 0x0D \<or> a = 0x20" by (simp add: ws_char_def)
  show "ws_char (a # b # s) \<Longrightarrow> a \<in> {0xC2, 0xE1, 0xE2, 0xE3}" by (auto simp: ws_char_def split: list.splits)
  show "ws_char (s @ [b, a]) \<Longrightarrow> 0x80 \<le> a"
  proof (cases s)
    case (Cons x t)
    then show "ws_char (s @ [b, a]) \<Longrightarrow> ?thesis" by (cases t) (auto simp: ws_char_def split: list.splits)
  qed (auto simp: ws_char_def)
qed

lemma graphic_not_ws:
  assumes "graphic a"
  shows "\<not> ws_char [a]" and "a \<notin> {0xC2, 0xE1, 0xE2, 0xE3}" and "\<not> 0x80 \<le> a"
  using assms by (auto simp: graphic_def ws_char_Cons unat_iffs)

lemma ws_first_graphic [simp]:
  assumes "graphic a"
  shows "ws_first (a # s) = 0"
proof -
  have "\<not> ws_char (take (Suc n) (a # s))" for n
  proof (cases "take n s")
    case Nil
    show ?thesis unfolding take_Suc_Cons Nil by (rule graphic_not_ws(1) [OF assms])
  next
    case (Cons b t)
    show ?thesis unfolding take_Suc_Cons Cons using graphic_not_ws(2) [OF assms] ws_char_Cons(2) by blast
  qed
  from this [of 0] this [of 1] this [of 2] show ?thesis by (simp add: ws_first_def numeral_2_eq_2 numeral_3_eq_3)
qed

lemma ws_last_graphic [simp]:
  assumes "graphic a"
  shows "ws_last (s @ [a]) = 0"
proof -
  have "\<not> ws_char (drop n s @ [a])" for n
  proof (cases "drop n s" rule: rev_cases)
    case Nil
    show ?thesis unfolding Nil append_Nil by (rule graphic_not_ws(1) [OF assms])
  next
    case (snoc t b)
    show ?thesis unfolding snoc using graphic_not_ws(3) [OF assms] ws_char_Cons(3) [of t b a] by auto
  qed
  from this [of "length s"] this [of "length s - 1"] this [of "length s - 2"] show ?thesis
    by (simp add: ws_last_def drop_Cons' split: nat_diff_split)
qed

lemma ws_first_space [simp]: "ws_first (0x20 # s) = 1"
  by (simp add: ws_first_def ws_char_Cons)

lemma trim_start_simps [simp]:
  "graphic a \<Longrightarrow> trim_start (a # s) = a # s" "trim_start (0x20 # s) = trim_start s" "trim_start [] = []"
  by (simp_all add: trim_start.simps [of "a # s"] trim_start.simps [of "0x20 # s"] trim_start.simps [of "[]"])

lemma trim_graphic: "s \<noteq> [] \<Longrightarrow> graphic (hd s) \<Longrightarrow> graphic (last s) \<Longrightarrow> trim s = s"
proof -
  assume s: "s \<noteq> []" "graphic (hd s)" "graphic (last s)"
  then have "trim_start s = s" by (cases s) simp_all
  moreover from s have "ws_last s = 0" using ws_last_graphic [of "last s" "butlast s"] by simp
  ultimately show ?thesis by (simp add: trim_def trim_end.simps [of s])
qed

lemma split_once_ws_word [simp]:
  "list_all graphic w \<Longrightarrow> split_once_ws (w @ 0x20 # r) = Some (w, r)" "list_all graphic w \<Longrightarrow> split_once_ws w = None"
  by (induction w) simp_all

lemma split_whitespace_simps:
  "list_all graphic w \<Longrightarrow> w \<noteq> [] \<Longrightarrow> split_whitespace (w @ 0x20 # r) = w # split_whitespace r"
  "list_all graphic w \<Longrightarrow> w \<noteq> [] \<Longrightarrow> split_whitespace w = [w]"
  "split_whitespace (0x20 # s) = split_whitespace s"
proof -
  assume w: "list_all graphic w" "w \<noteq> []"
  then have start: "trim_start (w @ t) = w @ t" for t by (cases w) simp_all
  with w show "split_whitespace (w @ 0x20 # r) = w # split_whitespace r" by (simp add: split_whitespace.simps [of "w @ _"])
  from start [of "[]"] w show "split_whitespace w = [w]" by (simp add: split_whitespace.simps [of w])
next
  show "split_whitespace (0x20 # s) = split_whitespace s"
    by (simp add: split_whitespace.simps [of "0x20 # s"] split_whitespace.simps [of s] split: option.split)
qed

lemma has_infix_iff: "has_infix p s \<longleftrightarrow> (\<exists>u v. s = u @ p @ v)"
proof (induction s)
  case (Cons a s)
  have "take (length p) (a # s) = p \<longleftrightarrow> (\<exists>v. a # s = p @ v)"
  proof
    assume "take (length p) (a # s) = p"
    then have "a # s = p @ drop (length p) (a # s)" by (metis append_take_drop_id)
    then show "\<exists>v. a # s = p @ v" ..
  qed auto
  moreover have "(\<exists>u v. a # s = u @ p @ v) \<longleftrightarrow> (\<exists>v. a # s = p @ v) \<or> (\<exists>u v. s = u @ p @ v)"
  proof
    assume "\<exists>u v. a # s = u @ p @ v"
    then obtain u v where uv: "a # s = u @ p @ v" by blast
    then show "(\<exists>v. a # s = p @ v) \<or> (\<exists>u v. s = u @ p @ v)" by (cases u) auto
  next
    assume "(\<exists>v. a # s = p @ v) \<or> (\<exists>u v. s = u @ p @ v)"
    then show "\<exists>u v. a # s = u @ p @ v" by (metis append_Cons append_Nil)
  qed
  ultimately show ?case unfolding has_infix.simps using Cons.IH by blast
qed auto

lemma text_lines_concat:
  assumes "\<forall>l \<in> set ls. 0x0A \<notin> set l \<and> (l \<noteq> [] \<longrightarrow> last l \<noteq> 0x0D)"
  shows "text_lines (concat (map (\<lambda>l. l @ [0x0A]) ls)) = ls"
  using assms
proof (induction ls)
  case (Cons l ls)
  have "split_once 0x0A (l @ 0x0A # concat (map (\<lambda>l. l @ [0x0A]) ls)) = Some (l, concat (map (\<lambda>l. l @ [0x0A]) ls))"
    using Cons.prems by (simp add: split_once_iff)
  moreover have "chop_cr l = l" using Cons.prems by (auto simp: chop_cr_def)
  ultimately show ?case using Cons by (simp add: text_lines.simps [of "l @ _"])
qed (simp add: text_lines.simps)

text \<open>Numbers in a base up to 36, most significant digit first, in capital letters.\<close>

definition digit_byte :: "nat \<Rightarrow> u8" where
  "digit_byte d = word_of_nat (if d < 10 then 0x30 + d else 0x41 + (d - 10))"

fun base_digits :: "nat \<Rightarrow> nat \<Rightarrow> nat \<Rightarrow> nat list" where
  "base_digits radix 0 n = []"
| "base_digits radix (Suc k) n = base_digits radix k (n div radix) @ [n mod radix]"

definition write_number :: "nat \<Rightarrow> nat \<Rightarrow> nat \<Rightarrow> bytes" where
  "write_number radix k n = map digit_byte (base_digits radix k n)"

lemma unat_digit_byte: "d < 36 \<Longrightarrow> unat (digit_byte d) = (if d < 10 then 48 + d else 55 + d)"
  unfolding digit_byte_def by (subst unat_u8_of_nat) auto

lemma digit_value_byte: "d < radix \<Longrightarrow> radix \<le> 36 \<Longrightarrow> digit_value radix (digit_byte d) = Some d"
  by (simp add: digit_value_def Let_def word_le_nat_alt unat_digit_byte)

lemma digits_value_append:
  "digits_value radix limit acc (xs @ ys) =
     do { n \<leftarrow> digits_value radix limit acc xs; digits_value radix limit n ys }"
  by (induction xs arbitrary: acc) (simp_all add: bind_assoc split: bind_splits)

lemma digits_value_written:
  assumes "0 < radix" and "radix \<le> 36" and "n < radix ^ k" and "n \<le> limit"
  shows "digits_value radix limit 0 (write_number radix k n) = Some n"
  using assms
proof (induction k arbitrary: n)
  case (Suc k)
  have "n div radix < radix ^ k" using Suc.prems by (simp add: less_mult_imp_div_less mult.commute)
  moreover have "n div radix \<le> limit" using Suc.prems(4) div_le_dividend le_trans by blast
  ultimately have "digits_value radix limit 0 (write_number radix k (n div radix)) = Some (n div radix)"
    using Suc by simp
  then show ?case
    using Suc.prems by (simp add: write_number_def digits_value_append digit_value_byte)
qed (simp add: write_number_def)

lemma length_base_digits [simp]: "length (base_digits radix k n) = k"
  by (induction k arbitrary: n) simp_all

lemma length_write_number [simp]: "length (write_number radix k n) = k"
  by (simp add: write_number_def)

lemma base_digits_less: "0 < radix \<Longrightarrow> d \<in> set (base_digits radix k n) \<Longrightarrow> d < radix"
  by (induction k arbitrary: n) auto

definition digit_bytes :: "u8 set" where
  "digit_bytes = {b. 0x30 \<le> b \<and> b \<le> 0x39 \<or> 0x41 \<le> b \<and> b \<le> 0x5A}"

lemma digit_byte_mem: "d < 36 \<Longrightarrow> digit_byte d \<in> digit_bytes"
  by (simp add: digit_bytes_def word_le_nat_alt unat_digit_byte)

lemma write_number_digits: "0 < radix \<Longrightarrow> radix \<le> 36 \<Longrightarrow> b \<in> set (write_number radix k n) \<Longrightarrow> b \<in> digit_bytes"
  using base_digits_less [of radix _ k n] digit_byte_mem by (fastforce simp: write_number_def)

lemma digit_bytes_graphic: "b \<in> digit_bytes \<Longrightarrow> graphic b"
  by (auto simp: digit_bytes_def graphic_def unat_iffs)

lemma from_str_radix_written:
  assumes "0 < radix" and "radix \<le> 36" and "n < radix ^ k" and "n \<le> limit" and "0 < k"
  shows "from_str_radix radix limit (write_number radix k n) = Some n"
proof -
  have ne: "write_number radix k n \<noteq> []" using assms(5) by (metis length_write_number length_0_conv less_not_refl)
  have "hd (write_number radix k n) \<in> digit_bytes" using write_number_digits [OF assms(1,2)] hd_in_set [OF ne] by blast
  then have "hd (write_number radix k n) \<noteq> byte CHR ''+''" by (auto simp: digit_bytes_def unat_iffs)
  with ne digits_value_written [OF assms(1-4)] show ?thesis by (simp add: from_str_radix_def Let_def)
qed

lemma char_boundary_ascii: "\<forall>b \<in> set s. b < 0x80 \<Longrightarrow> i \<le> length s \<Longrightarrow> char_boundary s i"
  by (auto simp: char_boundary_def continuation_def simp flip: not_less dest: nth_mem)

lemma str_slice_ascii:
  "\<forall>b \<in> set s. b < 0x80 \<Longrightarrow> i \<le> j \<Longrightarrow> j \<le> length s \<Longrightarrow> str_slice i j s = Some (take (j - i) (drop i s))"
  by (simp add: str_slice_def char_boundary_ascii)

lemma trim_space [simp]: "trim (0x20 # s) = trim s"
  by (simp add: trim_def)

lemma strip_prefix_append: "strip_prefix p (p @ s) = Some s"
  by (simp add: strip_prefix_def)

lemma split_once_append: "c \<notin> set l \<Longrightarrow> split_once c (l @ c # r) = Some (l, r)"
  by (simp add: split_once_iff)

lemma digit_bytes_facts:
  "b \<in> digit_bytes \<Longrightarrow> b < 0x80" "b \<in> digit_bytes \<Longrightarrow> b \<noteq> byte CHR ''#''"
  "b \<in> digit_bytes \<Longrightarrow> b \<noteq> 0x0A" "b \<in> digit_bytes \<Longrightarrow> b \<noteq> 0x0D"
  "b \<in> digit_bytes \<Longrightarrow> b \<noteq> byte CHR ''|''" "b \<in> digit_bytes \<Longrightarrow> b \<noteq> byte CHR ''@''" "b \<in> digit_bytes \<Longrightarrow> b \<noteq> byte CHR '' ''"
  by (auto simp: digit_bytes_def unat_iffs)

lemma write_number_no:
  assumes "0 < radix" and "radix \<le> 36" and "b \<notin> digit_bytes"
  shows "b \<notin> set (write_number radix k n)"
  using write_number_digits [OF assms(1,2)] assms(3) by blast

lemma write_number_graphic: "0 < radix \<Longrightarrow> radix \<le> 36 \<Longrightarrow> list_all graphic (write_number radix k n)"
  unfolding list_all_iff by (intro ballI digit_bytes_graphic write_number_digits)

lemma write_number_Nil [simp]: "write_number radix k n = [] \<longleftrightarrow> k = 0"
  by (simp flip: length_0_conv)

lemma trim_start_word: "list_all graphic w \<Longrightarrow> w \<noteq> [] \<Longrightarrow> trim_start (w @ r) = w @ r"
  by (cases w) simp_all

end
