(* ===== verification/Text_Output.thy ===== *)
theory Text_Output
  imports Utf8_Text Can_Frame Ecu_Name Diagnostics Iso11783
begin

text \<open>
  The \<^verbatim>\<open>Display\<close> implementations of the core crate: errors and addresses of \<^verbatim>\<open>core/src/types.rs\<close>,
  parameter groups, identifiers, NAMEs, frames, trouble codes and process data identifiers. A text is its
  UTF-8 bytes. The number formats of \<^verbatim>\<open>std::fmt\<close> they use are written out: \<open>show_number\<close> with a
  radix and a least width filled with zeros, and the prefix of \<^verbatim>\<open>{:#x}\<close>, which counts in the width. A
  frame is displayed in the form of \<^verbatim>\<open>candump\<close>, which \<open>Capture_Log\<close> reads back.
\<close>

section \<open>Number formats\<close>

fun digit_count :: "nat \<Rightarrow> nat \<Rightarrow> nat" where
  "digit_count radix n = (if radix < 2 \<or> n < radix then 1 else Suc (digit_count radix (n div radix)))"

declare digit_count.simps [simp del]

definition show_number :: "nat \<Rightarrow> nat \<Rightarrow> nat \<Rightarrow> bytes" where
  "show_number radix width n = write_number radix (max width (digit_count radix n)) n"

definition lower_case :: "u8 \<Rightarrow> u8" where
  "lower_case b = (if 0x41 \<le> b \<and> b \<le> 0x5A then b + 0x20 else b)"

abbreviation decimal :: "nat \<Rightarrow> bytes" where "decimal \<equiv> show_number 10 (Suc 0)"

text \<open>\<^verbatim>\<open>{:#0wX}\<close> and \<^verbatim>\<open>{:#0wx}\<close>, the width without the two bytes of the prefix.\<close>

definition upper_hex :: "nat \<Rightarrow> nat \<Rightarrow> bytes" where
  "upper_hex width n = ascii ''0x'' @ show_number 16 width n"

definition lower_hex :: "nat \<Rightarrow> nat \<Rightarrow> bytes" where
  "lower_hex width n = ascii ''0x'' @ map lower_case (show_number 16 width n)"

lemma digit_count_pos [simp]: "0 < digit_count radix n" "digit_count radix n \<noteq> 0"
  by (simp_all add: digit_count.simps [of radix n])

lemma less_digit_count: "2 \<le> radix \<Longrightarrow> n < radix ^ digit_count radix n"
proof (induction radix n rule: digit_count.induct)
  case (1 radix n)
  show ?case
  proof (cases "n < radix")
    case True
    then show ?thesis using "1.prems" by (simp add: digit_count.simps [of radix n])
  next
    case False
    then have "n div radix < radix ^ digit_count radix (n div radix)" using 1 by simp
    then have "n < radix * radix ^ digit_count radix (n div radix)"
      using "1.prems" by (simp add: div_less_iff_less_mult mult.commute)
    then show ?thesis using False "1.prems" by (simp add: digit_count.simps [of radix n])
  qed
qed

lemma digit_count_le: "2 \<le> radix \<Longrightarrow> 0 < k \<Longrightarrow> n < radix ^ k \<Longrightarrow> digit_count radix n \<le> k"
proof (induction radix n arbitrary: k rule: digit_count.induct)
  case (1 radix n)
  show ?case
  proof (cases "n < radix")
    case False
    with "1.prems" obtain m where m: "k = Suc m" "0 < m" by (cases k; cases "k - 1") auto
    with "1.prems" have "n div radix < radix ^ m" by (simp add: less_mult_imp_div_less mult.commute)
    then have "digit_count radix (n div radix) \<le> m" using "1.IH" False "1.prems"(1) m(2) by simp
    then show ?thesis using False "1.prems"(1) m(1) by (simp add: digit_count.simps [of radix n])
  qed (use "1.prems" in \<open>simp add: digit_count.simps [of radix n]\<close>)
qed

text \<open>A number whose digits fit the width has exactly that many.\<close>

lemma show_number_fixed: "2 \<le> radix \<Longrightarrow> 0 < k \<Longrightarrow> n < radix ^ k \<Longrightarrow> show_number radix k n = write_number radix k n"
  using digit_count_le [of radix k n] by (simp add: show_number_def max_absorb1)

lemma show_number_digits: "0 < radix \<Longrightarrow> radix \<le> 36 \<Longrightarrow> b \<in> set (show_number radix width n) \<Longrightarrow> b \<in> digit_bytes"
  unfolding show_number_def by (rule write_number_digits)

lemma show_number_no: "0 < radix \<Longrightarrow> radix \<le> 36 \<Longrightarrow> b \<notin> digit_bytes \<Longrightarrow> b \<notin> set (show_number radix width n)"
  using show_number_digits by blast

lemma show_number_graphic: "0 < radix \<Longrightarrow> radix \<le> 36 \<Longrightarrow> list_all graphic (show_number radix width n)"
  unfolding show_number_def by (rule write_number_graphic)

lemma show_number_Nil [simp]: "show_number radix width n \<noteq> []"
  by (simp add: show_number_def)

lemma from_str_radix_shown:
  assumes "2 \<le> radix" and "radix \<le> 36" and "n \<le> limit"
  shows "from_str_radix radix limit (show_number radix width n) = Some n"
  unfolding show_number_def
proof (rule from_str_radix_written)
  have "n < radix ^ digit_count radix n" by (rule less_digit_count [OF assms(1)])
  also have "\<dots> \<le> radix ^ max width (digit_count radix n)" using assms(1) by (intro power_increasing) simp_all
  finally show "n < radix ^ max width (digit_count radix n)" .
qed (use assms in \<open>simp_all add: less_max_iff_disj\<close>)

lemma decimal_reads:
  "parse_u16 (decimal (unat w)) = Some w" "parse_u32 (decimal (unat v)) = Some v"
  "n < 2 ^ 64 \<Longrightarrow> parse_usize (decimal n) = Some n"
proof -
  show "parse_u16 (decimal (unat w)) = Some w"
    using unat_u16_lt [of w] by (simp add: parse_u16_def from_str_radix_shown)
  show "parse_u32 (decimal (unat v)) = Some v"
    using unat_u32_lt [of v] by (simp add: parse_u32_def from_str_radix_shown)
  show "n < 2 ^ 64 \<Longrightarrow> parse_usize (decimal n) = Some n"
    unfolding parse_usize_def by (rule from_str_radix_shown) simp_all
qed

section \<open>Values\<close>

definition Error_display :: "j1939_error \<Rightarrow> bytes" where
  "Error_display e =
     (case e of
        InvalidId raw \<Rightarrow> lower_hex 1 (unat raw) @ ascii '' is not a valid 29-bit CAN identifier''
      | InvalidPgn raw \<Rightarrow> lower_hex 1 (unat raw) @ ascii '' is not a valid 18-bit PGN''
      | InvalidPriority p \<Rightarrow> ascii ''priority '' @ decimal (unat p) @ ascii '' exceeds the 3-bit range 0..=7''
      | DestinationMismatch \<Rightarrow> ascii ''destination address does not match the PGN'' @ [0x27] @ ascii ''s PDU format''
      | ShortPayload expected actual \<Rightarrow>
          ascii ''payload too short: expected '' @ decimal expected @ ascii '' bytes, got '' @ decimal actual
      | InvalidMessageSize n \<Rightarrow> decimal (unat n) @ ascii '' bytes is outside the transport protocol range of 9..=1785''
      | UnknownControlByte b \<Rightarrow> lower_hex 2 (unat b) @ ascii '' is not a defined TP.CM control byte''
      | InvalidDtc \<Rightarrow> ascii ''diagnostic trouble code field out of range''
      | ValueOutOfRange field v \<Rightarrow> decimal (unat v) @ ascii '' does not fit the '' @ ascii field @ ascii '' field'')"

definition Address_display :: "address \<Rightarrow> bytes" where
  "Address_display a =
     upper_hex 2 (unat (Address_as_u8 a)) @
     (if Address_as_u8 a = 0xFF then ascii '' (global)'' else if Address_as_u8 a = 0xFE then ascii '' (null)'' else [])"

definition Priority_display :: "priority \<Rightarrow> bytes" where
  "Priority_display p = decimal (unat (Priority_as_u8 p))"

definition Pgn_display :: "pgn \<Rightarrow> bytes" where
  "Pgn_display p = upper_hex 6 (unat (Pgn_as_u32 p)) @ ascii '' ('' @ decimal (unat (Pgn_as_u32 p)) @ ascii '')''"

definition Id_display :: "can_id \<Rightarrow> bytes" where
  "Id_display i = show_number 16 8 (unat (Id_as_u32 i))"

definition Frame_display :: "can_frame \<Rightarrow> bytes" where
  "Frame_display f = Id_display (frame_id f) @ ascii ''#'' @ concat (map (\<lambda>b. show_number 16 2 (unat b)) (Frame_data f))"

definition Name_display :: "ecu_name \<Rightarrow> bytes" where
  "Name_display n =
     ascii ''NAME mfr='' @ decimal (unat (manufacturer_code n)) @ ascii '' id='' @ decimal (unat (identity_number n)) @
     ascii '' fn='' @ upper_hex 2 (unat (ecu_function n))"

definition Dtc_display :: "dtc \<Rightarrow> bytes" where
  "Dtc_display d =
     (if Dtc_is_no_fault d then ascii ''no active fault''
      else ascii ''SPN '' @ decimal (unat (dtc_spn d)) @ ascii '' FMI '' @ decimal (unat (dtc_fmi d)) @
        ascii '' (x'' @ decimal (unat (dtc_count d)) @ ascii '')'')"

definition Ddi_display :: "ddi \<Rightarrow> bytes" where
  "Ddi_display d = ascii ''DDI '' @ decimal (unat (Ddi_as_u16 d))"

end
