(* ===== verification/Capture_Log.thy ===== *)
theory Capture_Log
  imports Text_Output Host_Safety
begin

text \<open>
  \<^verbatim>\<open>host/src/log.rs\<close>: reading \<^verbatim>\<open>candump -l\<close> captures, and replaying them through a node and an extended
  reassembler. A text is its UTF-8 bytes; the timestamps are \<^verbatim>\<open>f64\<close>, which is the type \<open>'f\<close> with two
  arguments: \<open>parse_f64\<close> for \<^verbatim>\<open>str::parse::<f64>\<close>, and \<open>elapsed_ms now previous\<close> for the difference in
  milliseconds, clamped to a \<^verbatim>\<open>u16\<close>. The outer option of a result is a panic.
\<close>

section \<open>Lines\<close>

datatype log_error =
    LogMalformed nat string
  | LogNotJ1939 nat bytes
  | LogBadPayload nat

record 'f log_entry =
  lg_timestamp :: 'f
  lg_frame :: can_frame

text \<open>\<^verbatim>\<open>ok_or_else(..)?\<close>\<close>

definition need :: "'a option \<Rightarrow> 'e \<Rightarrow> ('a \<Rightarrow> ('e + 'b) option) \<Rightarrow> ('e + 'b) option" where
  "need x e k = (case x of None \<Rightarrow> Some (Inl e) | Some a \<Rightarrow> k a)"

lemma need_simps [simp]: "need None e k = Some (Inl e)" "need (Some a) e k = k a"
  by (simp_all add: need_def)

text \<open>The bytes of the payload, two digits each.\<close>

fun hex_bytes :: "nat \<Rightarrow> bytes \<Rightarrow> nat list \<Rightarrow> (log_error + bytes) option" where
  "hex_bytes number payload [] = Some (Inr [])"
| "hex_bytes number payload (i # is) =
     do { digits \<leftarrow> str_slice (i * 2) (i * 2 + 2) payload;
          case from_str_radix 16 255 digits of
            None \<Rightarrow> Some (Inl (LogBadPayload number))
          | Some b \<Rightarrow>
              do { rest \<leftarrow> hex_bytes number payload is;
                   Some (map_sum id (\<lambda>bs. word_of_nat b # bs) rest) } }"

definition parse_frame :: "nat \<Rightarrow> 'f \<Rightarrow> bytes \<Rightarrow> bytes \<Rightarrow> (log_error + 'f log_entry option) option" where
  "parse_frame number timestamp id_text payload =
     need (from_str_radix 16 (2 ^ 32 - 1) id_text) (LogNotJ1939 number id_text) (\<lambda>raw.
     case Id_new (word_of_nat raw) of
       Inl _ \<Rightarrow> Some (Inl (LogNotJ1939 number id_text))
     | Inr i \<Rightarrow>
         if odd (length payload) \<or> length payload > 16 then Some (Inl (LogBadPayload number))
         else
           do { data \<leftarrow> hex_bytes number payload [0 ..< length payload div 2];
                Some (case data of
                    Inl e \<Rightarrow> Inl e
                  | Inr bs \<Rightarrow>
                      (case Frame_new i bs of
                         Inl _ \<Rightarrow> Inl (LogBadPayload number)
                       | Inr f \<Rightarrow> Inr (Some \<lparr>lg_timestamp = timestamp, lg_frame = f\<rparr>))) })"

definition parse_line :: "(bytes \<Rightarrow> 'f option) \<Rightarrow> bytes \<Rightarrow> nat \<Rightarrow> (log_error + 'f log_entry option) option" where
  "parse_line parse_f64 text number =
     (let line = trim text in
      if line = [] \<or> hd line = byte CHR ''#'' then Some (Inr None)
      else
        need (strip_prefix (ascii ''('') line) (LogMalformed number ''a '(' starting the timestamp'') (\<lambda>rest.
        need (split_once (byte CHR '')'') rest) (LogMalformed number ''a ')' after the timestamp'') (\<lambda>(timestamp_text, rest).
        need (parse_f64 (trim timestamp_text)) (LogMalformed number ''a numeric timestamp'') (\<lambda>timestamp.
        let parts = split_whitespace rest in
        need (at_index parts 0) (LogMalformed number ''an interface name'') (\<lambda>_.
        need (at_index parts 1) (LogMalformed number ''an ID#DATA frame'') (\<lambda>frame_text.
        if has_infix (ascii ''##'') frame_text then Some (Inr None)
        else
          need (split_once (byte CHR ''#'') frame_text)
            (LogMalformed number ''a '#' between identifier and payload'') (\<lambda>(id_text, payload).
          if payload \<noteq> [] \<and> (hd payload = byte CHR ''R'' \<or> hd payload = byte CHR ''r'') then Some (Inr None)
          else if length id_text \<le> 3 then Some (Inr None)
          else parse_frame number timestamp id_text payload)))))))"

fun parse_lines :: "(bytes \<Rightarrow> 'f option) \<Rightarrow> nat \<Rightarrow> bytes list \<Rightarrow> (log_error + 'f log_entry list) option" where
  "parse_lines parse_f64 index [] = Some (Inr [])"
| "parse_lines parse_f64 index (line # rest) =
     do { r \<leftarrow> parse_line parse_f64 line (index + 1);
          case r of
            Inl e \<Rightarrow> Some (Inl e)
          | Inr entry \<Rightarrow>
              do { es \<leftarrow> parse_lines parse_f64 (index + 1) rest;
                   Some (map_sum id (\<lambda>es. case entry of Some x \<Rightarrow> x # es | None \<Rightarrow> es) es) } }"

definition parse_capture :: "(bytes \<Rightarrow> 'f option) \<Rightarrow> bytes \<Rightarrow> (log_error + 'f log_entry list) option" where
  "parse_capture parse_f64 text = parse_lines parse_f64 0 (text_lines text)"

section \<open>Replay\<close>

record 'f replay =
  rp_node :: node
  rp_etp :: etp_reassembler
  rp_previous :: "'f option"
  rp_transmitted :: "can_frame list"
  rp_claims :: "u8 \<rightharpoonup> ecu_name"

definition REPLAY_BUFFER :: nat where "REPLAY_BUFFER = 1785"
definition REPLAY_SESSIONS :: nat where "REPLAY_SESSIONS = 8"

definition Replay_new :: "ecu_name \<Rightarrow> address \<Rightarrow> 'f replay" where
  "Replay_new n a =
     (let (_, nd) = node_start (Node_new REPLAY_BUFFER REPLAY_SESSIONS n a);
          (_, nd1) = node_tick ADDRESS_CLAIM_WINDOW_MS nd
      in \<lparr>rp_node = nd1, rp_etp = new_table ETP_BUFFER ETP_SESSIONS, rp_previous = None, rp_transmitted = [],
          rp_claims = Map.empty\<rparr>)"

definition feed_etp :: "can_frame \<Rightarrow> 'f replay \<Rightarrow> (message option \<times> 'f replay) option" where
  "feed_etp f rp =
     (case etp_step_of f (rp_etp rp) of
        None \<Rightarrow> Some (None, rp)
      | Some step \<Rightarrow>
          do { (outcome, r1) \<leftarrow> step;
               Some (case outcome of
                   ErMessage grp source data _ \<Rightarrow> Some \<lparr>msg_pgn = grp, msg_source = source, msg_data = data\<rparr>
                 | _ \<Rightarrow> None, rp\<lparr>rp_etp := r1\<rparr>) })"

definition replay_tick :: "('f \<Rightarrow> 'f \<Rightarrow> u16) \<Rightarrow> 'f \<Rightarrow> 'f replay \<Rightarrow> 'f replay" where
  "replay_tick elapsed_ms now rp =
     (case rp_previous rp of
        None \<Rightarrow> rp
      | Some previous \<Rightarrow>
          (let (timeouts, nd) = node_tick (elapsed_ms now previous) (rp_node rp)
           in rp\<lparr>rp_node := nd, rp_transmitted := rp_transmitted rp @ timeouts\<rparr>))\<lparr>rp_previous := Some now\<rparr>"

definition record_claim :: "can_frame \<Rightarrow> 'f replay \<Rightarrow> 'f replay" where
  "record_claim f rp =
     (if Frame_pgn f = PGN_ADDRESS_CLAIMED \<and> Address_is_specific (Frame_source_address f)
      then rp\<lparr>rp_claims := (rp_claims rp)(Address_as_u8 (Frame_source_address f) \<mapsto> Name_from_bytes (Frame_payload f))\<rparr>
      else rp)"

definition Replay_feed :: "('f \<Rightarrow> 'f \<Rightarrow> u16) \<Rightarrow> 'f log_entry \<Rightarrow> 'f replay \<Rightarrow> (message option \<times> 'f replay) option" where
  "Replay_feed elapsed_ms entry rp =
     (let f = lg_frame entry; rp1 = record_claim f (replay_tick elapsed_ms (lg_timestamp entry) rp) in
      if Frame_pgn f = PGN_ETP_CM \<or> Frame_pgn f = PGN_ETP_DT then feed_etp f rp1
      else
        do { (ev, nd) \<leftarrow> node_on_frame REPLAY_BUFFER f (rp_node rp1);
             let rp2 = rp1\<lparr>rp_node := nd\<rparr>;
             Some (case ev of
                 EvtIdle \<Rightarrow> (None, rp2)
               | EvtTransmit g \<Rightarrow> (None, rp2\<lparr>rp_transmitted := rp_transmitted rp2 @ [g]\<rparr>)
               | EvtMessage grp source data ack \<Rightarrow>
                   (Some \<lparr>msg_pgn = grp, msg_source = source, msg_data = data\<rparr>,
                    rp2\<lparr>rp_transmitted := rp_transmitted rp2 @ (case ack of Some g \<Rightarrow> [g] | None \<Rightarrow> [])\<rparr>)) })"

definition Replay_run ::
  "(bytes \<Rightarrow> 'f option) \<Rightarrow> ('f \<Rightarrow> 'f \<Rightarrow> u16) \<Rightarrow> bytes \<Rightarrow> 'f replay \<Rightarrow> ((log_error + message list) \<times> 'f replay) option" where
  "Replay_run parse_f64 elapsed_ms text rp =
     do { parsed \<leftarrow> parse_capture parse_f64 text;
          case parsed of
            Inl e \<Rightarrow> Some (Inl e, rp)
          | Inr entries \<Rightarrow>
              do { (outs, rp1) \<leftarrow> run_machine (Replay_feed elapsed_ms) entries rp;
                   Some (Inr (List.map_filter id outs), rp1) } }"

definition claimed_addresses :: "'f replay \<Rightarrow> (address \<times> ecu_name) list" where
  "claimed_addresses rp =
     List.map_filter (\<lambda>n. map_option (\<lambda>claimed. (Address (word_of_nat n), claimed)) (rp_claims rp (word_of_nat n))) [0 ..< 256]"

section \<open>What candump writes is read back\<close>

definition write_bytes :: "bytes \<Rightarrow> bytes" where
  "write_bytes bs = concat (map (\<lambda>b. write_number 16 2 (unat b)) bs)"

text \<open>The \<^verbatim>\<open>Display\<close> of a frame is the form of \<^verbatim>\<open>candump\<close>.\<close>

lemma Frame_display_written:
  "Frame_display f = write_number 16 8 (unat (Id_as_u32 (frame_id f))) @ ascii ''#'' @ write_bytes (Frame_data f)"
proof -
  have "show_number 16 2 (unat b) = write_number 16 2 (unat b)" for b :: u8
    using unat_u8_lt [of b] by (intro show_number_fixed) simp_all
  moreover have "show_number 16 8 (unat w) = write_number 16 8 (unat w)" for w :: u32
    using unat_u32_lt [of w] by (intro show_number_fixed) simp_all
  ultimately show ?thesis by (simp add: Frame_display_def Id_display_def write_bytes_def)
qed

definition capture_line :: "bytes \<times> bytes \<times> can_frame \<Rightarrow> bytes" where
  "capture_line = (\<lambda>(timestamp, interface, f). ascii ''('' @ timestamp @ ascii '') '' @ interface @ ascii '' '' @ Frame_display f)"

definition capture_text :: "(bytes \<times> bytes \<times> can_frame) list \<Rightarrow> bytes" where
  "capture_text ls = concat (map (\<lambda>l. l @ [0x0A]) (map capture_line ls))"

text \<open>A time stamp that the parser of floating-point numbers reads, without a parenthesis, and an interface name.\<close>

definition writable :: "(bytes \<Rightarrow> 'f option) \<Rightarrow> bytes \<times> bytes \<times> can_frame \<Rightarrow> bool" where
  "writable parse_f64 = (\<lambda>(timestamp, interface, f).
     list_all (\<lambda>b. graphic b \<and> b \<noteq> byte CHR '')'') timestamp \<and> timestamp \<noteq> [] \<and> parse_f64 timestamp \<noteq> None \<and>
     list_all graphic interface \<and> interface \<noteq> [] \<and> Frame_ok f)"

definition entry_of_line :: "(bytes \<Rightarrow> 'f option) \<Rightarrow> bytes \<times> bytes \<times> can_frame \<Rightarrow> 'f log_entry" where
  "entry_of_line parse_f64 = (\<lambda>(timestamp, interface, f). \<lparr>lg_timestamp = the (parse_f64 timestamp), lg_frame = f\<rparr>)"

lemma length_write_bytes [simp]: "length (write_bytes bs) = 2 * length bs"
  by (induction bs) (simp_all add: write_bytes_def)

lemma write_bytes_digits: "b \<in> set (write_bytes bs) \<Longrightarrow> b \<in> digit_bytes"
  using write_number_digits [of 16] by (auto simp: write_bytes_def)

lemma hex_bytes_written:
  "hex_bytes number (write_bytes (xs @ ys)) [length xs ..< length xs + length ys] = Some (Inr ys)"
proof (induction ys arbitrary: xs)
  case (Cons y ys)
  have "write_bytes (xs @ y # ys) = write_bytes xs @ write_number 16 2 (unat y) @ write_bytes ys"
    by (simp add: write_bytes_def)
  then have "take 2 (drop (2 * length xs) (write_bytes (xs @ y # ys))) = write_number 16 2 (unat y)" by simp
  moreover have "\<forall>b \<in> set (write_bytes (xs @ y # ys)). b < 0x80" using write_bytes_digits digit_bytes_facts(1) by blast
  ultimately have "str_slice (length xs * 2) (length xs * 2 + 2) (write_bytes (xs @ y # ys)) = Some (write_number 16 2 (unat y))"
    by (subst str_slice_ascii) (simp_all add: mult.commute)
  moreover have "from_str_radix 16 255 (write_number 16 2 (unat y)) = Some (unat y)"
    using unat_u8_lt [of y] by (intro from_str_radix_written) simp_all
  moreover have "[length xs ..< length xs + length (y # ys)] = length xs # [Suc (length xs) ..< Suc (length xs) + length ys]"
    by (subst upt_conv_Cons; simp del: upt_Suc)
  ultimately show ?case using Cons.IH [of "xs @ [y]"] by simp
qed simp

lemma parse_frame_written:
  assumes "Frame_ok f"
  shows "parse_frame number timestamp (write_number 16 8 (unat (Id_as_u32 (frame_id f)))) (write_bytes (Frame_data f)) =
    Some (Inr (Some \<lparr>lg_timestamp = timestamp, lg_frame = f\<rparr>))"
proof -
  let ?raw = "unat (Id_as_u32 (frame_id f))"
  have raw: "from_str_radix 16 (2 ^ 32 - 1) (write_number 16 8 ?raw) = Some ?raw"
    using unat_u32_lt [of "Id_as_u32 (frame_id f)"] by (intro from_str_radix_written) simp_all
  have "Id_new (word_of_nat ?raw) = Inr (frame_id f)"
    using assms by (cases "frame_id f") (simp add: Frame_ok_def Id_ok_def Id_new_def not_less)
  moreover have "length (Frame_data f) \<le> 8" using assms by (simp add: Frame_ok_def Frame_data_def MAX_PAYLOAD_def)
  moreover have "hex_bytes number (write_bytes (Frame_data f)) [0 ..< length (Frame_data f)] = Some (Inr (Frame_data f))"
    using hex_bytes_written [of number "[]" "Frame_data f"] by simp
  ultimately show ?thesis using raw Frame_rebuild [OF assms] by (simp add: parse_frame_def)
qed

lemma Frame_display_parts:
  "list_all graphic (Frame_display f)" "Frame_display f \<noteq> []" "\<not> has_infix (ascii ''##'') (Frame_display f)"
  "split_once (byte CHR ''#'') (Frame_display f) =
     Some (write_number 16 8 (unat (Id_as_u32 (frame_id f))), write_bytes (Frame_data f))"
proof -
  let ?i = "write_number 16 8 (unat (Id_as_u32 (frame_id f)))" and ?d = "write_bytes (Frame_data f)"
  have digits: "b \<in> digit_bytes" if "b \<in> set ?i \<or> b \<in> set ?d" for b
    using that write_number_digits [of 16] write_bytes_digits by auto
  have hash: "byte CHR ''#'' \<notin> set ?i" "byte CHR ''#'' \<notin> set ?d" using digits digit_bytes_facts(2) by blast+
  have "graphic (byte CHR ''#'')" by (simp add: graphic_def)
  with digits digit_bytes_graphic show "list_all graphic (Frame_display f)" by (auto simp: Frame_display_written list_all_iff)
  show "Frame_display f \<noteq> []" by (simp add: Frame_display_written)
  show "split_once (byte CHR ''#'') (Frame_display f) = Some (?i, ?d)"
    using hash by (simp add: Frame_display_written split_once_iff)
  show "\<not> has_infix (ascii ''##'') (Frame_display f)"
  proof
    assume "has_infix (ascii ''##'') (Frame_display f)"
    then obtain u v where "?i @ byte CHR ''#'' # ?d = u @ byte CHR ''#'' # byte CHR ''#'' # v"
      by (auto simp: has_infix_iff Frame_display_written)
    then have "count_list (?i @ byte CHR ''#'' # ?d) (byte CHR ''#'') = count_list (u @ byte CHR ''#'' # byte CHR ''#'' # v) (byte CHR ''#'')"
      by (rule arg_cong)
    with hash show False by (simp add: count_notin)
  qed
qed

lemma parse_capture_line:
  assumes "writable parse_f64 l"
  shows "parse_line parse_f64 (capture_line l) number = Some (Inr (Some (entry_of_line parse_f64 l)))"
proof -
  obtain ts iface f where l: "l = (ts, iface, f)" by (cases l)
  note w = assms [unfolded writable_def l prod.case]
  obtain t where t: "parse_f64 ts = Some t" using w by blast
  let ?rest = "0x20 # iface @ 0x20 # Frame_display f"
  have line: "capture_line l = byte CHR ''('' # ts @ byte CHR '')'' # ?rest" by (simp add: l capture_line_def)
  have "last (capture_line l) = last (Frame_display f)" using Frame_display_parts(2) by (simp add: line)
  moreover have "graphic (last (Frame_display f))" 
    using Frame_display_parts(1) [of f] last_in_set [OF Frame_display_parts(2) [of f]] by (simp add: list_all_iff)
  ultimately have trim: "trim (capture_line l) = capture_line l" by (intro trim_graphic) (simp_all add: line graphic_def)
  have cut: "split_once (byte CHR '')'') (ts @ byte CHR '')'' # ?rest) = Some (ts, ?rest)"
    using w by (auto simp: split_once_iff list_all_iff)
  have "list_all graphic ts" "ts \<noteq> []" using w by (auto simp: list_all_iff)
  then have ts: "trim ts = ts" by (intro trim_graphic) (simp_all add: list_all_iff)
  have words: "split_whitespace ?rest = [iface, Frame_display f]"
    using w Frame_display_parts(1,2) by (simp add: split_whitespace_simps)
  have payload: "\<not> (write_bytes (Frame_data f) \<noteq> [] \<and>
      (hd (write_bytes (Frame_data f)) = byte CHR ''R'' \<or> hd (write_bytes (Frame_data f)) = byte CHR ''r''))"
  proof (cases "Frame_data f")
    case (Cons b bs)
    let ?n = "unat b div 16"
    have n: "?n < 16" using unat_u8_lt [of b] by simp
    have "hd (write_bytes (Frame_data f)) = digit_byte ?n"
      using n by (simp add: Cons write_bytes_def write_number_def numeral_2_eq_2)
    moreover have "unat (digit_byte ?n) < 0x52" using n by (simp add: unat_digit_byte)
    ultimately show ?thesis by auto
  qed (simp add: write_bytes_def)
  have "strip_prefix (ascii ''('') (capture_line l) = Some (ts @ byte CHR '')'' # ?rest)" by (simp add: strip_prefix_def line)
  moreover have "capture_line l \<noteq> []" "hd (capture_line l) \<noteq> byte CHR ''#''" by (simp_all add: line)
  ultimately show ?thesis
    using trim cut ts t words payload Frame_display_parts(3,4) [of f] parse_frame_written [of f number t] w
    by (simp add: parse_line_def at_index_def entry_of_line_def l)
qed

lemma capture_line_bytes:
  assumes "writable parse_f64 l"
  shows "list_all (\<lambda>b. graphic b \<or> b = 0x20) (capture_line l)"
proof -
  obtain ts iface f where l: "l = (ts, iface, f)" by (cases l)
  have "list_all graphic ts" "list_all graphic iface" "list_all graphic (Frame_display f)"
    using assms Frame_display_parts(1) by (simp_all add: writable_def l list_all_iff)
  then have "\<forall>b \<in> set ts \<union> set iface \<union> set (Frame_display f). graphic b" by (auto simp: list_all_iff)
  moreover have "graphic (byte CHR ''('')" "graphic (byte CHR '')'')" by (simp_all add: graphic_def)
  ultimately show ?thesis unfolding list_all_iff by (auto simp: capture_line_def l)
qed

lemma parse_capture_text:
  assumes "list_all (writable parse_f64) ls"
  shows "parse_capture parse_f64 (capture_text ls) = Some (Inr (map (entry_of_line parse_f64) ls))"
proof -
  have "0x0A \<notin> set (capture_line l) \<and> (capture_line l \<noteq> [] \<longrightarrow> last (capture_line l) \<noteq> 0x0D)" if "l \<in> set ls" for l
  proof -
    have "writable parse_f64 l" using assms that by (simp add: list_all_iff)
    then have "list_all (\<lambda>b. graphic b \<or> b = 0x20) (capture_line l)"
      by (rule capture_line_bytes)
    moreover have "\<not> (graphic 0x0A \<or> 0x0A = (0x20 :: u8))" "\<not> (graphic 0x0D \<or> 0x0D = (0x20 :: u8))"
      by (simp_all add: graphic_def)
    ultimately have "b \<noteq> 0x0A \<and> b \<noteq> 0x0D" if "b \<in> set (capture_line l)" for b using that by (auto simp: list_all_iff)
    then show ?thesis using last_in_set by blast
  qed
  then have "text_lines (capture_text ls) = map capture_line ls"
    unfolding capture_text_def by (intro text_lines_concat) auto
  moreover have "parse_lines parse_f64 n (map capture_line ls) = Some (Inr (map (entry_of_line parse_f64) ls))" for n
    using assms by (induction ls arbitrary: n) (simp_all add: parse_capture_line)
  ultimately show ?thesis by (simp add: parse_capture_def)
qed

section \<open>Text that is not ASCII\<close>

text \<open>
  The only slice of a line is that of the payload, two bytes at a time. ASCII text always has the
  boundaries; a payload of an even number of bytes with a longer character at an odd one does not.
\<close>

lemma hex_bytes_ascii:
  assumes "\<forall>b \<in> set payload. b < 0x80" and "\<forall>i \<in> set is. i * 2 + 2 \<le> length payload"
  shows "hex_bytes number payload is \<noteq> None"
  using assms(2)
proof (induction "is")
  case (Cons i "is")
  then show ?case using str_slice_ascii [OF assms(1), of "i * 2" "i * 2 + 2"] by (auto split: option.split)
qed simp

lemma parse_frame_ascii: "\<forall>b \<in> set payload. b < 0x80 \<Longrightarrow> parse_frame number timestamp id_text payload \<noteq> None"
proof -
  assume "\<forall>b \<in> set payload. b < 0x80"
  then have "hex_bytes number payload [0 ..< length payload div 2] \<noteq> None" by (intro hex_bytes_ascii) auto
  then show ?thesis by (auto simp: parse_frame_def need_def split: option.split sum.split)
qed

lemma need_None: "need x e k = None \<Longrightarrow> \<exists>a. x = Some a \<and> k a = None"
  by (cases x) simp_all

lemma set_trim_start: "set (trim_start s) \<subseteq> set s"
proof (induction s rule: trim_start.induct)
  case (1 s)
  then show ?case using set_drop_subset [of "ws_first s" s] by (cases "ws_first s = 0") (auto simp: trim_start.simps [of s])
qed

lemma set_trim_end: "set (trim_end s) \<subseteq> set s"
proof (induction s rule: trim_end.induct)
  case (1 s)
  then show ?case
    using set_take_subset [of "length s - ws_last s" s] by (cases "ws_last s = 0") (auto simp: trim_end.simps [of s])
qed

lemma set_split_once_ws: "split_once_ws s = Some (l, r) \<Longrightarrow> set l \<subseteq> set s \<and> set r \<subseteq> set s"
proof (induction s arbitrary: l)
  case (Cons a s)
  then show ?case using set_drop_subset [of "ws_first (a # s)" "a # s"] by (fastforce split: if_splits)
qed simp

lemma set_words: "w \<in> set (split_whitespace s) \<Longrightarrow> set w \<subseteq> set s"
proof (induction s rule: split_whitespace.induct)
  case (1 s)
  then show ?case
    using set_trim_start [of s] set_split_once_ws [of "trim_start s"]
    by (fastforce simp: split_whitespace.simps [of s] split: if_splits option.splits)
qed

lemma set_lines: "l \<in> set (text_lines s) \<Longrightarrow> set l \<subseteq> set s"
proof (induction s rule: text_lines.induct)
  case (1 s)
  have "set (chop_cr x) \<subseteq> set x" for x by (auto simp: chop_cr_def dest: in_set_butlastD)
  with 1 show ?case by (fastforce simp: text_lines.simps [of s] split_once_iff split: if_splits option.splits)
qed

lemma parse_line_ascii:
  fixes parse_f64 :: "bytes \<Rightarrow> 'f option"
  assumes "\<forall>b \<in> set text. b < 0x80"
  shows "parse_line parse_f64 text number \<noteq> None"
proof
  assume none: "parse_line parse_f64 text number = None"
  then obtain r1 t r2 x y z and w :: 'f where p: "split_once (byte CHR '')'') r1 = Some (t, r2)"
    "at_index (split_whitespace r2) 1 = Some x" "split_once (byte CHR ''#'') x = Some (y, z)"
    "parse_frame number w y z = None" "strip_prefix (ascii ''('') (trim text) = Some r1"
    by (auto simp: parse_line_def Let_def split: if_splits dest!: need_None)
  have "set (trim text) \<subseteq> set text" using set_trim_start set_trim_end unfolding trim_def by blast
  then have sub1: "set r1 \<subseteq> set text" using p(5) set_drop_subset by (fastforce simp: strip_prefix_def split: if_splits)
  from p(1) have "set r2 \<subseteq> set r1" by (auto simp: split_once_iff)
  moreover from p(2) have "x \<in> set (split_whitespace r2)" by (auto simp: at_index_def split: if_splits)
  then have "set x \<subseteq> set r2" by (rule set_words)
  moreover from p(3) have "set z \<subseteq> set x" by (auto simp: split_once_iff)
  ultimately have "\<forall>b \<in> set z. b < 0x80" using sub1 assms by blast
  with p(4) parse_frame_ascii [of z number w y] show False by simp
qed

lemma parse_capture_ascii:
  assumes "\<forall>b \<in> set text. b < 0x80"
  shows "parse_capture parse_f64 text \<noteq> None"
proof -
  have "parse_lines parse_f64 n ls \<noteq> None" if "\<forall>l \<in> set ls. \<forall>b \<in> set l. b < 0x80" for n ls
    using that
  proof (induction ls arbitrary: n)
    case (Cons l ls)
    obtain r where "parse_line parse_f64 l (n + 1) = Some r" using parse_line_ascii [of l parse_f64 "n + 1"] Cons.prems by auto
    moreover obtain es where "parse_lines parse_f64 (n + 1) ls = Some es" using Cons.IH [of "n + 1"] Cons.prems by auto
    ultimately show ?case by (cases r) simp_all
  qed simp
  moreover have "\<forall>l \<in> set (text_lines text). \<forall>b \<in> set l. b < 0x80" using assms set_lines by blast
  ultimately show ?thesis by (simp add: parse_capture_def)
qed

text \<open>The payload \<^verbatim>\<open>a\<close>, \<^verbatim>\<open>e\<close> with an acute accent, \<^verbatim>\<open>b\<close> has four bytes, and its first slice ends inside the accented letter.\<close>

lemma non_ascii_payload_panics:
  "parse_frame number timestamp (ascii ''18FECA80'') [byte CHR ''a'', 0xC3, 0xA9, byte CHR ''b''] = None"
proof -
  have "from_str_radix 16 (2 ^ 32 - 1) (ascii ''18FECA80'') = Some 0x18FECA80"
    by (simp add: from_str_radix_def Let_def digit_value_def unat_iffs)
  moreover have "str_slice 0 (Suc (Suc 0)) [byte CHR ''a'', 0xC3, 0xA9, byte CHR ''b''] = None"
    by (simp add: str_slice_def char_boundary_def continuation_def)
  ultimately show ?thesis by (simp add: parse_frame_def Id_new_def Id_MAX_def upt_rec)
qed

section \<open>The replay never panics\<close>

definition replay_ok :: "'f replay \<Rightarrow> bool" where
  "replay_ok rp \<longleftrightarrow> node_ok REPLAY_BUFFER (rp_node rp) \<and> etp_table_ok ETP_BUFFER ETP_SESSIONS (rp_etp rp)"

lemma Replay_new_ok: "replay_ok (Replay_new n a)"
  using node_start_total [OF Node_new_ok [of REPLAY_BUFFER REPLAY_SESSIONS n a]] node_tick_total
  by (simp add: Replay_new_def replay_ok_def split_beta etp_table_new)

lemma replay_step_ok:
  assumes "replay_ok rp"
  shows "replay_ok (replay_tick elapsed_ms t rp)" and "replay_ok (record_claim f rp)"
  using assms node_tick_total [of REPLAY_BUFFER "rp_node rp"]
  by (auto simp: replay_ok_def replay_tick_def record_claim_def split_beta split: option.split)

lemma feed_etp_ok:
  assumes "replay_ok rp"
  obtains m rp1 where "feed_etp f rp = Some (m, rp1)" and "replay_ok rp1"
proof (cases "etp_step_of f (rp_etp rp)")
  case None
  with assms that show thesis by (simp add: feed_etp_def)
next
  case (Some step)
  from assms have "etp_table_ok ETP_BUFFER ETP_SESSIONS (rp_etp rp)" by (simp add: replay_ok_def)
  then obtain outcome r1 where "step = Some (outcome, r1)" "etp_table_ok ETP_BUFFER ETP_SESSIONS r1"
    by (rule etp_step_total [OF _ Some])
  with Some assms that show thesis by (simp add: feed_etp_def replay_ok_def)
qed

lemma node_hears:
  assumes "node_ok buf nd"
  obtains ev nd1 where "node_on_frame buf f nd = Some (ev, nd1)" and "node_ok buf nd1"
  by (rule node_on_frame_total [OF assms, of f]) (rule that)

lemma Replay_feed_ok:
  assumes "replay_ok rp"
  shows "\<exists>m rp1. Replay_feed elapsed_ms entry rp = Some (m, rp1) \<and> replay_ok rp1"
proof -
  let ?f = "lg_frame entry"
  obtain rp1 where rp1: "rp1 = record_claim ?f (replay_tick elapsed_ms (lg_timestamp entry) rp)" by simp
  have ok: "replay_ok rp1" unfolding rp1 by (intro replay_step_ok assms)
  show ?thesis
  proof (cases "Frame_pgn ?f = PGN_ETP_CM \<or> Frame_pgn ?f = PGN_ETP_DT")
    case True
    obtain m rp2 where "feed_etp ?f rp1 = Some (m, rp2)" "replay_ok rp2" by (rule feed_etp_ok [OF ok])
    with True show ?thesis by (simp add: Replay_feed_def Let_def flip: rp1)
  next
    case False
    have "node_ok REPLAY_BUFFER (rp_node rp1)" using ok by (simp add: replay_ok_def)
    then obtain ev nd where "node_on_frame REPLAY_BUFFER ?f (rp_node rp1) = Some (ev, nd)" "node_ok REPLAY_BUFFER nd"
      by (rule node_hears)
    with False ok show ?thesis by (cases ev) (simp_all add: Replay_feed_def Let_def replay_ok_def flip: rp1)
  qed
qed

interpretation replay: safe_machine "Replay_feed elapsed_ms" replay_ok "\<lambda>_. True" for elapsed_ms
  by unfold_locales (rule Replay_feed_ok)

text \<open>The time stamps advance the node only: the extended sessions never time out, and they hear every destination.\<close>

lemma replay_tick_etp: "rp_etp (replay_tick elapsed_ms now rp) = rp_etp rp"
  by (simp add: replay_tick_def split_beta split: option.split)

lemma feed_etp_any_destination:
  assumes "Frame_pgn f = Frame_pgn g" and "Frame_source_address f = Frame_source_address g" and "Frame_payload f = Frame_payload g"
  shows "feed_etp f rp = feed_etp g rp"
  using assms by (simp add: feed_etp_def etp_step_of_def Let_def)

text \<open>The two digits of a byte may be a plus sign and a digit.\<close>

lemma signed_hex_byte: "hex_bytes number (ascii ''+F'') [0] = Some (Inr [0x0F])"
  by code_simp

section \<open>A broadcast, recorded and replayed\<close>

text \<open>What the reassembler of the node sees of the packets of one sender, when each is preceded by the time since the last.\<close>

fun timed_packets :: "('f \<Rightarrow> 'f \<Rightarrow> u16) \<Rightarrow> 'f \<Rightarrow> address \<Rightarrow> ('f \<times> tp_dt) list \<Rightarrow> rx_event list" where
  "timed_packets elapsed_ms previous a [] = []"
| "timed_packets elapsed_ms previous a ((t, dt) # rest) =
     RxTick (elapsed_ms t previous) T1_TIMEOUT_MS # RxDt a dt # timed_packets elapsed_ms t a rest"

fun steady :: "('f \<Rightarrow> 'f \<Rightarrow> u16) \<Rightarrow> 'f list \<Rightarrow> bool" where
  "steady elapsed_ms (previous # t # ts) = (elapsed_ms t previous \<le> T1_TIMEOUT_MS \<and> steady elapsed_ms (t # ts))"
| "steady elapsed_ms ts = True"

definition rx_message :: "rx \<Rightarrow> message option" where
  "rx_message out =
     (case out of RxMessage grp source data _ \<Rightarrow> Some \<lparr>msg_pgn = grp, msg_source = source, msg_data = data\<rparr> | _ \<Rightarrow> None)"

lemma timed_packets_facts:
  "filter (rx_from a) (timed_packets elapsed_ms previous a tds) = map (RxDt a) (map snd tds)"
  "list_all TpDt_ok (map snd tds) \<Longrightarrow> list_all rx_admissible (timed_packets elapsed_ms previous a tds)"
  "steady elapsed_ms (previous # map fst tds) \<Longrightarrow> paced a 0 (timed_packets elapsed_ms previous a tds)"
  by (induction elapsed_ms previous a tds rule: timed_packets.induct) (simp_all add: word_le_nat_alt)

definition dt_entry :: "address \<Rightarrow> 'f \<times> tp_dt \<Rightarrow> 'f log_entry" where
  "dt_entry a = (\<lambda>(t, dt). \<lparr>lg_timestamp = t, lg_frame = dt_frame a Address_GLOBAL dt\<rparr>)"

lemma feed_packet:
  assumes "rp_previous rp = Some previous" and "nd_state (rp_node rp) \<noteq> Claiming" and "TpDt_ok dt"
    and "rx_on_tp_dt a dt (snd (rx_tick (elapsed_ms t previous) (nd_reassembler (rp_node rp)))) = Some (out, r1)"
  shows "\<exists>rp1. Replay_feed elapsed_ms (dt_entry a (t, dt)) rp = Some (rx_message out, rp1) \<and> rp_previous rp1 = Some t \<and>
    nd_state (rp_node rp1) = nd_state (rp_node rp) \<and> nd_reassembler (rp_node rp1) = r1"
proof -
  let ?f = "dt_frame a Address_GLOBAL dt"
  obtain calls r0 where tick: "rx_tick (elapsed_ms t previous) (nd_reassembler (rp_node rp)) = (calls, r0)"
    by (cases "rx_tick (elapsed_ms t previous) (nd_reassembler (rp_node rp))")
  define nd where "nd = (rp_node rp)\<lparr>nd_reassembler := r0\<rparr>"
  obtain timeouts where ticked: "node_tick (elapsed_ms t previous) (rp_node rp) = (timeouts, nd)"
    using assms(2) tick by (simp add: node_tick_def claim_tick_def nd_state_def nd_def Let_def)
  have heard: "node_on_frame REPLAY_BUFFER ?f nd = Some (lift out (nd_address nd) a, nd\<lparr>nd_reassembler := r1\<rparr>)"
    using node_on_dt_frame [OF assms(3), of Address_GLOBAL nd REPLAY_BUFFER a] assms(4) tick by (simp add: nd_def)
  have "Frame_pgn ?f = PGN_TP_DT" by (simp add: dt_frame_def tp_frame_id(3))
  then have "Frame_pgn ?f \<noteq> PGN_ADDRESS_CLAIMED" "Frame_pgn ?f \<noteq> PGN_ETP_CM" "Frame_pgn ?f \<noteq> PGN_ETP_DT" by simp_all
  then show ?thesis
    using assms(1) ticked heard
    by (cases out) (auto simp: Replay_feed_def dt_entry_def replay_tick_def record_claim_def Let_def rx_message_def lift_def
        nd_def nd_state_def split: option.splits)
qed

lemma feed_packets:
  assumes "run_machine (rx_step REPLAY_BUFFER) (timed_packets elapsed_ms previous a tds) (nd_reassembler (rp_node rp)) = Some (outs, r1)"
    and "rp_previous rp = Some previous" and "nd_state (rp_node rp) \<noteq> Claiming" and "list_all TpDt_ok (map snd tds)"
  shows "\<exists>rp1. run_machine (Replay_feed elapsed_ms) (map (dt_entry a) tds) rp =
    Some (map rx_message (answers_to a (timed_packets elapsed_ms previous a tds) (map fst outs)), rp1)"
  using assms
proof (induction tds arbitrary: previous rp outs)
  case (Cons td tds)
  obtain t dt where td: "td = (t, dt)" by (cases td)
  let ?r0 = "snd (rx_tick (elapsed_ms t previous) (nd_reassembler (rp_node rp)))"
  obtain calls out r2 outs2 where step: "rx_on_tp_dt a dt ?r0 = Some (out, r2)"
    and rest: "run_machine (rx_step REPLAY_BUFFER) (timed_packets elapsed_ms t a tds) r2 = Some (outs2, r1)"
    and outs: "outs = (RxIdle, calls) # (out, []) # outs2"
    using Cons.prems(1) by (auto simp: td rx_tick_def split_beta split: Option.bind_splits)
  obtain rp2 where rp2: "Replay_feed elapsed_ms (dt_entry a td) rp = Some (rx_message out, rp2)" "rp_previous rp2 = Some t"
    "nd_state (rp_node rp2) = nd_state (rp_node rp)" "nd_reassembler (rp_node rp2) = r2"
    using feed_packet [where elapsed_ms = elapsed_ms and t = t, OF Cons.prems(2,3) _ step] Cons.prems(4) by (auto simp: td)
  from Cons.IH [of t rp2 outs2] rest rp2 Cons.prems(3,4) obtain rp1 where
    "run_machine (Replay_feed elapsed_ms) (map (dt_entry a) tds) rp2 =
      Some (map rx_message (answers_to a (timed_packets elapsed_ms t a tds) (map fst outs2)), rp1)"
    by (auto simp: td)
  with rp2(1) show ?case by (simp add: td outs)
qed simp

lemma feed_announcement:
  assumes "rp_previous rp = None" and "tp_cm_frame a Address_GLOBAL cm = Some f" and "TpCm_ok cm" and "\<not> is_rts cm"
    and "rx_on_tp_cm REPLAY_BUFFER a cm (nd_reassembler (rp_node rp)) = (RxIdle, r1)"
  shows "\<exists>rp1. Replay_feed elapsed_ms \<lparr>lg_timestamp = t, lg_frame = f\<rparr> rp = Some (None, rp1) \<and> rp_previous rp1 = Some t \<and>
    nd_state (rp_node rp1) = nd_state (rp_node rp) \<and> nd_reassembler (rp_node rp1) = r1"
proof -
  have "node_on_frame REPLAY_BUFFER f (rp_node rp) = Some (EvtIdle, (rp_node rp)\<lparr>nd_reassembler := r1\<rparr>)"
    using node_on_cm_frame [OF assms(2,3), of "rp_node rp" REPLAY_BUFFER] assms(4,5) by (simp add: lift_def)
  moreover have "Frame_pgn f \<noteq> PGN_ADDRESS_CLAIMED" "Frame_pgn f \<noteq> PGN_ETP_CM" "Frame_pgn f \<noteq> PGN_ETP_DT"
    using cm_frame_fields(3) [OF assms(2)] by simp_all
  ultimately show ?thesis
    using assms(1) by (simp add: Replay_feed_def replay_tick_def record_claim_def Let_def nd_state_def)
qed

lemma replay_broadcast:
  assumes p: "Pgn_ok p" and new: "Outgoing_new p a Address_GLOBAL data = Inr o1" and len: "8 < length data"
    and drain: "out_drain 257 o1 = Some (frames, o2)" and es: "map lg_frame es = frames"
    and pace: "steady elapsed_ms (map lg_timestamp es)" and ok: "replay_ok rp" and idle: "nd_state (rp_node rp) \<noteq> Claiming"
    and fresh: "rp_previous rp = None" and room: "slot_for ses_source (nd_reassembler (rp_node rp)) a \<noteq> None"
  shows "\<exists>k rp1. run_machine (Replay_feed elapsed_ms) es rp =
    Some (replicate k None @ [Some \<lparr>msg_pgn = p, msg_source = a, msg_data = data\<rparr>], rp1)"
proof -
  obtain tx ds tx1 f0 o3 where h: "out_drain 257 o1 = Some (f0 # map (dt_frame a Address_GLOBAL) ds, o3)"
    and bc: "Transmitter_broadcast p data = Inr tx" and dr: "tx_drain 256 tx = Some (ds, tx1)" and okds: "list_all TpDt_ok ds"
    and f0: "tp_cm_frame a Address_GLOBAL (tx_start tx) = Some f0" "TpCm_ok (tx_start tx)" "\<not> is_rts (tx_start tx)"
    by (rule broadcast_frames [OF p new len]) blast
  from h drain es obtain e0 es1 where e0: "es = e0 # es1" "lg_frame e0 = f0" "map lg_frame es1 = map (dt_frame a Address_GLOBAL) ds"
    by (cases es) auto
  define t0 where "t0 = lg_timestamp e0"
  define tds where "tds = zip (map lg_timestamp es1) ds"
  have lens: "length es1 = length ds" using e0(3) by (metis length_map)
  then have tds: "map fst tds = map lg_timestamp es1" "map snd tds = ds" by (simp_all add: tds_def)
  have es1: "es1 = map (dt_entry a) tds"
  proof (rule nth_equalityI)
    show "es1 ! i = map (dt_entry a) tds ! i" if "i < length es1" for i
      using that lens arg_cong [OF e0(3), of "\<lambda>xs. xs ! i"] by (simp add: tds_def dt_entry_def)
  qed (simp add: tds_def lens)
  note facts = timed_packets_facts [where elapsed_ms = elapsed_ms and previous = t0 and a = a and tds = tds, unfolded tds]
  have pc: "paced a 0 (timed_packets elapsed_ms t0 a tds)" using pace by (intro facts(3)) (simp add: e0(1) t0_def)
  have b: "Transmitter_build p data True = Inr tx" using bc by (simp add: Transmitter_broadcast_def)
  have fits: "length data \<le> REPLAY_BUFFER" using build_InrD [OF b] by (simp add: REPLAY_BUFFER_def)
  have r: "rx_ok REPLAY_BUFFER (nd_reassembler (rp_node rp))" using ok by (simp add: replay_ok_def node_ok_def)
  obtain outs r1 where
    run: "run_machine (rx_step REPLAY_BUFFER) (RxCm a (tx_start tx) # timed_packets elapsed_ms t0 a tds) (nd_reassembler (rp_node rp))
      = Some (outs, r1)"
    and answers: "answers_to a (RxCm a (tx_start tx) # timed_packets elapsed_ms t0 a tds) (map fst outs) =
      replicate (message_packets data) RxIdle @ [RxMessage p a data None]"
    using broadcast_delivered [OF r p bc fits room dr facts(2) [OF okds] facts(1) pc] by blast
  obtain k where k: "message_packets data = Suc k" using started(4) [OF b] by (cases "message_packets data") simp_all
  obtain out1 r2 outs2 where s1: "rx_on_tp_cm REPLAY_BUFFER a (tx_start tx) (nd_reassembler (rp_node rp)) = (out1, r2)"
    and s2: "run_machine (rx_step REPLAY_BUFFER) (timed_packets elapsed_ms t0 a tds) r2 = Some (outs2, r1)" "outs = (out1, []) # outs2"
    using run by (auto split: Option.bind_splits prod.splits)
  from answers k s2(2) have out1: "out1 = RxIdle"
    and outs2: "answers_to a (timed_packets elapsed_ms t0 a tds) (map fst outs2) = replicate k RxIdle @ [RxMessage p a data None]"
    by simp_all
  obtain rp1 where rp1: "Replay_feed elapsed_ms e0 rp = Some (None, rp1)" "rp_previous rp1 = Some t0"
    "nd_state (rp_node rp1) = nd_state (rp_node rp)" "nd_reassembler (rp_node rp1) = r2"
    using feed_announcement [where elapsed_ms = elapsed_ms and t = t0, OF fresh f0 s1 [unfolded out1]] e0(2)
    by (cases e0) (auto simp: t0_def)
  have "run_machine (rx_step REPLAY_BUFFER) (timed_packets elapsed_ms t0 a tds) (nd_reassembler (rp_node rp1)) = Some (outs2, r1)"
    using s2(1) rp1(4) by simp
  from feed_packets [OF this rp1(2)] rp1(3) idle okds tds(2) obtain rp2 where
    "run_machine (Replay_feed elapsed_ms) es1 rp1 =
      Some (map rx_message (answers_to a (timed_packets elapsed_ms t0 a tds) (map fst outs2)), rp2)"
    unfolding es1 by auto
  then have "run_machine (Replay_feed elapsed_ms) es1 rp1 = Some (map rx_message (replicate k RxIdle @ [RxMessage p a data None]), rp2)"
    unfolding outs2 .
  with rp1(1) have "run_machine (Replay_feed elapsed_ms) es rp =
      Some (replicate (Suc k) None @ [Some \<lparr>msg_pgn = p, msg_source = a, msg_data = data\<rparr>], rp2)"
    by (simp add: e0(1) rx_message_def)
  then show ?thesis by blast
qed

lemma tick_new_table: "rx_tick_with_timeout e t (new_table N k) = ([], new_table N k)"
  by (induction k) (simp_all add: new_table_def)

lemma Replay_new_fresh:
  "rp_previous (Replay_new n a) = None" "nd_state (rp_node (Replay_new n a)) \<noteq> Claiming"
  "nd_reassembler (rp_node (Replay_new n a)) = new_table REPLAY_BUFFER REPLAY_SESSIONS"
proof -
  have "ADDRESS_CLAIM_WINDOW_MS \<le> saturating_add (e :: u16) ADDRESS_CLAIM_WINDOW_MS" for e
    using unat_saturating_add [of e ADDRESS_CLAIM_WINDOW_MS] by (simp add: ADDRESS_CLAIM_WINDOW_MS_def word_le_nat_alt)
  then have "nd_state (claim_tick ADDRESS_CLAIM_WINDOW_MS nd) \<noteq> Claiming" for nd
    by (simp add: claim_tick_def nd_state_def contention_window_elapsed_def Let_def)
  then show "nd_state (rp_node (Replay_new n a)) \<noteq> Claiming"
    by (simp add: Replay_new_def node_tick_def nd_state_def Let_def split_beta)
  show "rp_previous (Replay_new n a) = None" by (simp add: Replay_new_def split_beta)
  have "nd_reassembler (claim_tick ADDRESS_CLAIM_WINDOW_MS nd) = nd_reassembler nd" for nd
    by (simp add: claim_tick_def Let_def)
  then show "nd_reassembler (rp_node (Replay_new n a)) = new_table REPLAY_BUFFER REPLAY_SESSIONS"
    by (simp add: Replay_new_def node_tick_def node_start_def Node_new_def rx_tick_def tick_new_table Let_def split_beta)
qed

text \<open>The capture of a broadcast, in text, replays as that one message.\<close>

lemma replay_capture:
  fixes parse_f64 :: "bytes \<Rightarrow> 'f option"
  assumes "Pgn_ok p" and "Outgoing_new p a Address_GLOBAL data = Inr o1" and "8 < length data"
    and "out_drain 257 o1 = Some (frames, o2)" and lines: "list_all (writable parse_f64) ls" "map (\<lambda>(_, _, f). f) ls = frames"
    and pace: "steady elapsed_ms (map (\<lambda>(t, _, _). the (parse_f64 t)) ls)"
  shows "\<exists>rp. Replay_run parse_f64 elapsed_ms (capture_text ls) (Replay_new n b) =
    Some (Inr [\<lparr>msg_pgn = p, msg_source = a, msg_data = data\<rparr>], rp)"
proof -
  let ?es = "map (entry_of_line parse_f64) ls"
  have es: "map lg_frame ?es = frames" "map lg_timestamp ?es = map (\<lambda>(t, _, _). the (parse_f64 t)) ls"
    using lines(2) by (auto simp: entry_of_line_def)
  have "slot_for ses_source (new_table REPLAY_BUFFER REPLAY_SESSIONS) a \<noteq> None"
    by (rule new_table_room) (simp add: REPLAY_SESSIONS_def)
  then have room: "slot_for ses_source (nd_reassembler (rp_node (Replay_new n b :: 'f replay))) a \<noteq> None"
    by (simp only: Replay_new_fresh(3) not_False_eq_True)
  have "steady elapsed_ms (map lg_timestamp ?es)" unfolding es(2) by (rule pace)
  from replay_broadcast [OF assms(1-4) es(1) this Replay_new_ok Replay_new_fresh(2,1) room] obtain k rp1 where
    "run_machine (Replay_feed elapsed_ms) ?es (Replay_new n b) =
      Some (replicate k None @ [Some \<lparr>msg_pgn = p, msg_source = a, msg_data = data\<rparr>], rp1)"
    by blast
  moreover have "List.map_filter id (replicate k None @ [Some m]) = [m]" for m by (induction k) (simp_all add: map_filter_simps)
  ultimately show ?thesis using parse_capture_text [OF lines(1)] by (auto simp: Replay_run_def)
qed

end
