(* ===== verification/Dbc_Database.thy ===== *)
theory Dbc_Database
  imports Utf8_Text Signals Can_Id
begin

text \<open>
  \<^verbatim>\<open>host/src/dbc.rs\<close>: the reader of DBC files, and the decoding of signals by the definitions it
  reads. Texts are UTF-8 bytes; an \<^verbatim>\<open>f64\<close> is the type \<open>'f\<close>, with \<open>parse_f64\<close> for its parser,
  \<open>scale raw factor offset\<close> for \<^verbatim>\<open>raw as f64 * factor + offset\<close> and \<open>show_f64\<close> for its \<^verbatim>\<open>Display\<close>. A
  \<^verbatim>\<open>BTreeMap\<close> is the list of its entries in the order of the keys. Decoding may panic (\<open>None\<close>);
  parsing does not.
\<close>

section \<open>Signals\<close>

datatype dbc_error =
    DbcMalformed nat string
  | OrphanSignal nat
  | DbcNotJ1939 nat u32
  | DbcShortPayload nat nat
  | TooWide u16

datatype 'f dbc_value = DbcValid 'f | DbcValueError | DbcNotAvailable | DbcReserved

definition dbc_value_value :: "'f dbc_value \<Rightarrow> 'f option" where
  "dbc_value_value v = (case v of DbcValid x \<Rightarrow> Some x | _ \<Rightarrow> None)"

definition dbc_value_is_valid :: "'f dbc_value \<Rightarrow> bool" where
  "dbc_value_is_valid v = (case v of DbcValid _ \<Rightarrow> True | _ \<Rightarrow> False)"

datatype byte_order = LittleEndian | BigEndian

record 'f dbc_signal =
  ds_name :: bytes
  ds_start_bit :: u16
  ds_bit_length :: u16
  ds_byte_order :: byte_order
  ds_signed :: bool
  ds_factor :: 'f
  ds_offset :: 'f
  ds_minimum :: 'f
  ds_maximum :: 'f
  ds_unit :: bytes
  ds_spn :: "u32 option"
  ds_value_names :: "(u32 \<times> bytes) list"

definition ds_required_len :: "'f dbc_signal \<Rightarrow> nat" where
  "ds_required_len s =
     (case ds_byte_order s of
        LittleEndian \<Rightarrow> div_ceil (unat (ds_start_bit s) + unat (ds_bit_length s)) 8
      | BigEndian \<Rightarrow>
          (let start_byte = unat (ds_start_bit s) div 8;
               bits_in_start = unat (ds_start_bit s) mod 8 + 1
           in if unat (ds_bit_length s) \<le> bits_in_start then start_byte + 1
              else start_byte + 1 + div_ceil (unat (ds_bit_length s) - bits_in_start) 8))"

text \<open>The loop over the bits of a big-endian field, down within a byte and on to the top of the next.\<close>

fun read_sawtooth :: "bytes \<Rightarrow> nat \<Rightarrow> nat \<Rightarrow> u32 \<Rightarrow> u32 option" where
  "read_sawtooth data 0 pos raw = Some raw"
| "read_sawtooth data (Suc n) pos raw =
     do { byte \<leftarrow> at_index data (pos div 8);
          let b = drop_bit (pos mod 8) byte AND 1;
          read_sawtooth data n (if pos mod 8 = 0 then pos + 15 else pos - 1) (push_bit 1 raw OR ucast b) }"

definition ds_raw :: "'f dbc_signal \<Rightarrow> bytes \<Rightarrow> (dbc_error + u32) option" where
  "ds_raw s data =
     (if ds_bit_length s = 0 \<or> ds_bit_length s > 32 then Some (Inl (TooWide (ds_bit_length s)))
      else if length data < ds_required_len s then Some (Inl (DbcShortPayload (ds_required_len s) (length data)))
      else
        map_option Inr
          (case ds_byte_order s of
             LittleEndian \<Rightarrow> read_bits (ds_start_bit s) data [0 ..< unat (ds_bit_length s)] 0
           | BigEndian \<Rightarrow> read_sawtooth data (unat (ds_bit_length s)) (unat (ds_start_bit s)) 0))"

text \<open>The result is an \<^verbatim>\<open>i32\<close>, read with \<open>sint\<close>.\<close>

definition sign_extend :: "u16 \<Rightarrow> u32 \<Rightarrow> u32 option" where
  "sign_extend bit_length raw =
     (if bit_length \<ge> 32 then Some raw
      else
        do { shift \<leftarrow> checked_sub bit_length 1;
             let sign_bit = push_bit (unat shift) 1;
             Some (if raw AND sign_bit = 0 then raw else raw OR NOT (push_bit (unat bit_length) 1 - 1)) })"

definition ds_decode :: "(int \<Rightarrow> 'f \<Rightarrow> 'f \<Rightarrow> 'f) \<Rightarrow> 'f dbc_signal \<Rightarrow> bytes \<Rightarrow> (dbc_error + 'f dbc_value) option" where
  "ds_decode scale s data =
     do { r \<leftarrow> ds_raw s data;
          case r of
            Inl e \<Rightarrow> Some (Inl e)
          | Inr raw \<Rightarrow>
              if ds_signed s then
                do { x \<leftarrow> sign_extend (ds_bit_length s) raw;
                     Some (Inr (DbcValid (scale (sint x) (ds_factor s) (ds_offset s)))) }
              else
                do { c \<leftarrow> classify raw (ds_bit_length s);
                     Some (Inr (case c of
                         RawValid v \<Rightarrow> DbcValid (scale (int (unat v)) (ds_factor s) (ds_offset s))
                       | RawError \<Rightarrow> DbcValueError
                       | RawNotAvailable \<Rightarrow> DbcNotAvailable
                       | RawReserved \<Rightarrow> DbcReserved)) } }"

definition ds_value_name :: "'f dbc_signal \<Rightarrow> u32 \<Rightarrow> bytes option" where
  "ds_value_name s raw = map_of (ds_value_names s) raw"

definition ds_is_enumerated :: "'f dbc_signal \<Rightarrow> bool" where
  "ds_is_enumerated s \<longleftrightarrow> ds_value_names s \<noteq> []"

definition ds_describe ::
  "(int \<Rightarrow> 'f \<Rightarrow> 'f \<Rightarrow> 'f) \<Rightarrow> ('f \<Rightarrow> bytes) \<Rightarrow> 'f dbc_signal \<Rightarrow> bytes \<Rightarrow> (dbc_error + bytes) option" where
  "ds_describe scale show_f64 s data =
     do { r \<leftarrow> ds_raw s data;
          case r of
            Inl e \<Rightarrow> Some (Inl e)
          | Inr raw \<Rightarrow>
              (case ds_value_name s raw of
                 Some name \<Rightarrow> Some (Inr name)
               | None \<Rightarrow>
                   do { v \<leftarrow> ds_decode scale s data;
                        Some (map_sum id (\<lambda>v. case v of
                            DbcValid x \<Rightarrow> if ds_unit s = [] then show_f64 x else show_f64 x @ ascii '' '' @ ds_unit s
                          | DbcValueError \<Rightarrow> ascii ''error''
                          | DbcNotAvailable \<Rightarrow> ascii ''not available''
                          | DbcReserved \<Rightarrow> ascii ''reserved'') v) }) }"

section \<open>Messages\<close>

record 'f dbc_message =
  bo_pgn :: pgn
  bo_id :: can_id
  bo_name :: bytes
  bo_dlc :: nat
  bo_signals :: "'f dbc_signal list"

definition bo_signal :: "'f dbc_message \<Rightarrow> bytes \<Rightarrow> 'f dbc_signal option" where
  "bo_signal m name = List.find (\<lambda>s. ds_name s = name) (bo_signals m)"

definition bo_decode ::
  "(int \<Rightarrow> 'f \<Rightarrow> 'f \<Rightarrow> 'f) \<Rightarrow> 'f dbc_message \<Rightarrow> bytes \<Rightarrow> (bytes \<times> (dbc_error + 'f dbc_value) option) list" where
  "bo_decode scale m data = map (\<lambda>s. (ds_name s, ds_decode scale s data)) (bo_signals m)"

type_synonym 'f dbc = "(u32 \<times> 'f dbc_message) list"

fun btree_insert :: "'k :: linorder \<Rightarrow> 'v \<Rightarrow> ('k \<times> 'v) list \<Rightarrow> ('k \<times> 'v) list" where
  "btree_insert k v [] = [(k, v)]"
| "btree_insert k v ((k1, v1) # t) =
     (if k = k1 then (k, v) # t else if k < k1 then (k, v) # (k1, v1) # t else (k1, v1) # btree_insert k v t)"

fun update_first :: "('a \<Rightarrow> bool) \<Rightarrow> ('a \<Rightarrow> 'a) \<Rightarrow> 'a list \<Rightarrow> 'a list" where
  "update_first P f [] = []"
| "update_first P f (x # xs) = (if P x then f x # xs else x # update_first P f xs)"

definition dbc_message_of :: "'f dbc \<Rightarrow> pgn \<Rightarrow> 'f dbc_message option" where
  "dbc_message_of dbc p = map_of dbc (Pgn_as_u32 p)"

definition dbc_messages :: "'f dbc \<Rightarrow> 'f dbc_message list" where "dbc_messages dbc = map snd dbc"
definition dbc_len :: "'f dbc \<Rightarrow> nat" where "dbc_len dbc = length dbc"
definition dbc_is_empty :: "'f dbc \<Rightarrow> bool" where "dbc_is_empty dbc \<longleftrightarrow> dbc = []"

section \<open>Lines\<close>

definition ok_or :: "'a option \<Rightarrow> 'e \<Rightarrow> ('a \<Rightarrow> 'e + 'b) \<Rightarrow> 'e + 'b" where
  "ok_or x e k = (case x of None \<Rightarrow> Inl e | Some a \<Rightarrow> k a)"

lemma ok_or_simps [simp]: "ok_or None e k = Inl e" "ok_or (Some a) e k = k a"
  by (simp_all add: ok_or_def)

definition slice_between :: "bytes \<Rightarrow> u8 \<Rightarrow> u8 \<Rightarrow> (bytes \<times> bytes) option" where
  "slice_between text a b = do { (_, rest) \<leftarrow> split_once a text; split_once b rest }"

definition first_word :: "bytes \<Rightarrow> bytes option" where
  "first_word s = at_index (split_whitespace s) 0"

definition parse_message :: "bytes \<Rightarrow> nat \<Rightarrow> dbc_error + 'f dbc_message" where
  "parse_message rest line =
     ok_or (split_once_ws rest) (DbcMalformed line ''BO_ <id> <name>: <dlc> <transmitter>'') (\<lambda>(id_text, rest).
     ok_or (parse_u32 id_text) (DbcMalformed line ''a numeric message identifier'') (\<lambda>raw_id.
     case Id_new (raw_id AND 0x1FFFFFFF) of
       Inl _ \<Rightarrow> Inl (DbcNotJ1939 line raw_id)
     | Inr i \<Rightarrow>
         ok_or (split_once (byte CHR '':'') rest) (DbcMalformed line ''a ':' after the message name'') (\<lambda>(name, rest).
         ok_or (first_word rest) (DbcMalformed line ''a data length'') (\<lambda>dlc_text.
         ok_or (parse_usize dlc_text) (DbcMalformed line ''a numeric data length'') (\<lambda>dlc.
         Inr \<lparr>bo_pgn = Id_pgn i, bo_id = i, bo_name = trim name, bo_dlc = dlc, bo_signals = []\<rparr>)))))"

text \<open>The two characters after the at sign: byte order and sign.\<close>

definition order_of :: "bytes \<Rightarrow> byte_order option" where
  "order_of flags =
     (case flags of
        [] \<Rightarrow> None
      | c # _ \<Rightarrow> if c = byte CHR ''1'' then Some LittleEndian else if c = byte CHR ''0'' then Some BigEndian else None)"

definition sign_of :: "bytes \<Rightarrow> bool option" where
  "sign_of flags =
     (case flags of
        _ # c # _ \<Rightarrow> if c = byte CHR ''+'' then Some False else if c = byte CHR ''-'' then Some True else None
      | _ \<Rightarrow> None)"

definition quote :: u8 where "quote = 0x22"

definition parse_signal :: "(bytes \<Rightarrow> 'f option) \<Rightarrow> bytes \<Rightarrow> nat \<Rightarrow> dbc_error + 'f dbc_signal" where
  "parse_signal parse_f64 rest line =
     ok_or (split_once (byte CHR '':'') rest) (DbcMalformed line ''a ':' after the signal name'') (\<lambda>(name_part, rest).
     ok_or (first_word name_part) (DbcMalformed line ''a signal name'') (\<lambda>name.
     ok_or (split_once (byte CHR '' '') (trim_start rest)) (DbcMalformed line ''<start>|<len>@<order><sign>'') (\<lambda>(layout, rest).
     ok_or (split_once (byte CHR ''|'') layout) (DbcMalformed line (CHR 0x27 # ''|' between start bit and length'')) (\<lambda>(start_text, tail).
     ok_or (split_once (byte CHR ''@'') tail) (DbcMalformed line (CHR 0x27 # ''@' before the byte order'')) (\<lambda>(len_text, flags).
     ok_or (parse_u16 start_text) (DbcMalformed line ''a numeric start bit'') (\<lambda>start_bit.
     ok_or (parse_u16 len_text) (DbcMalformed line ''a numeric bit length'') (\<lambda>bit_length.
     ok_or (order_of flags) (DbcMalformed line (''byte order '0' or '1' after '@'' @ [CHR 0x27])) (\<lambda>order.
     ok_or (sign_of flags) (DbcMalformed line (''sign '+' or '-'' @ [CHR 0x27])) (\<lambda>signed.
     ok_or (slice_between (trim_start rest) (byte CHR ''('') (byte CHR '')'')) (DbcMalformed line ''(factor,offset)'') (\<lambda>(scaling, rest).
     ok_or (split_once (byte CHR '','') scaling) (DbcMalformed line ''a ',' between factor and offset'') (\<lambda>(factor_text, offset_text).
     ok_or (parse_f64 (trim factor_text)) (DbcMalformed line ''a numeric factor'') (\<lambda>factor.
     ok_or (parse_f64 (trim offset_text)) (DbcMalformed line ''a numeric offset'') (\<lambda>offset.
     ok_or (slice_between rest (byte CHR ''['') (byte CHR '']'')) (DbcMalformed line ''[min|max]'') (\<lambda>(range, rest).
     ok_or (split_once (byte CHR ''|'') range) (DbcMalformed line ''a '|' between minimum and maximum'') (\<lambda>(min_text, max_text).
     ok_or (parse_f64 (trim min_text)) (DbcMalformed line ''a numeric minimum'') (\<lambda>minimum.
     ok_or (parse_f64 (trim max_text)) (DbcMalformed line ''a numeric maximum'') (\<lambda>maximum.
     let unit = (case slice_between rest quote quote of Some (unit, _) \<Rightarrow> unit | None \<Rightarrow> []) in
     Inr \<lparr>ds_name = name, ds_start_bit = start_bit, ds_bit_length = bit_length, ds_byte_order = order, ds_signed = signed,
          ds_factor = factor, ds_offset = offset, ds_minimum = minimum, ds_maximum = maximum, ds_unit = unit,
          ds_spn = None, ds_value_names = []\<rparr>)))))))))))))))))"

lemma split_whitespace_shorter: "split_once_ws (trim_start s) = Some (w, r) \<Longrightarrow> length r < length s"
  using split_once_ws_shorter [of "trim_start s" w r] trim_start_shorter [of s] by simp

lemma slice_between_shorter: "slice_between s a b = Some (x, r) \<Longrightarrow> length r < length s"
  by (auto simp: slice_between_def split_once_iff split: Option.bind_splits)

text \<open>The entries of a value table, up to the first that is malformed.\<close>

function value_entries :: "bytes \<Rightarrow> (u32 \<times> bytes) list \<Rightarrow> (u32 \<times> bytes) list" where
  "value_entries rest table =
     (case split_once_ws (trim_start rest) of
        None \<Rightarrow> table
      | Some (value_text, tail) \<Rightarrow>
          (case parse_u32 value_text of
             None \<Rightarrow> table
           | Some value \<Rightarrow>
               (case slice_between tail quote quote of
                  None \<Rightarrow> table
                | Some (name, tail) \<Rightarrow> value_entries tail (btree_insert value name table))))"
  by pat_completeness auto
termination
proof (relation "measure (\<lambda>(rest, table). length rest)")
  fix rest table p v tail n q name tail2
  assume "split_once_ws (trim_start rest) = Some p" "(v, tail) = p" "slice_between tail quote quote = Some q" "(name, tail2) = q"
  then show "((tail2, btree_insert n name table), rest, table) \<in> measure (\<lambda>(rest, table). length rest)"
    using split_whitespace_shorter [of rest v tail] slice_between_shorter [of tail quote quote name tail2] by simp
qed simp

declare value_entries.simps [simp del]

definition parse_value_table :: "bytes \<Rightarrow> (u32 \<times> bytes \<times> (u32 \<times> bytes) list) option" where
  "parse_value_table rest =
     do { (id_text, rest) \<leftarrow> split_once_ws (trim_end_matches (byte CHR '';'') (trim rest));
          i \<leftarrow> parse_u32 id_text;
          (name, rest) \<leftarrow> split_once_ws (trim_start rest);
          Some (i AND 0x1FFFFFFF, name, value_entries rest []) }"

definition parse_spn_attribute :: "bytes \<Rightarrow> (u32 \<times> bytes \<times> u32) option" where
  "parse_spn_attribute rest =
     do { (name, rest) \<leftarrow> slice_between (trim_end_matches (byte CHR '';'') (trim rest)) quote quote;
          if name \<noteq> ascii ''SPN'' then None
          else
            do { let parts = split_whitespace rest;
                 keyword \<leftarrow> at_index parts 0;
                 if keyword \<noteq> ascii ''SG_'' then None
                 else
                   do { id_text \<leftarrow> at_index parts 1;
                        i \<leftarrow> parse_u32 id_text;
                        name \<leftarrow> at_index parts 2;
                        spn_text \<leftarrow> at_index parts 3;
                        spn \<leftarrow> parse_u32 spn_text;
                        Some (i AND 0x1FFFFFFF, name, spn) } } }"

section \<open>Files\<close>

record 'f dbc_reader =
  rd_messages :: "'f dbc"
  rd_current :: "u32 option"
  rd_value_tables :: "(u32 \<times> bytes \<times> (u32 \<times> bytes) list) list"
  rd_spn_attributes :: "(u32 \<times> bytes \<times> u32) list"

definition push_signal :: "u32 \<Rightarrow> 'f dbc_signal \<Rightarrow> 'f dbc \<Rightarrow> 'f dbc" where
  "push_signal key s = update_first (\<lambda>(k, m). k = key) (\<lambda>(k, m). (k, m\<lparr>bo_signals := bo_signals m @ [s]\<rparr>))"

definition read_line :: "(bytes \<Rightarrow> 'f option) \<Rightarrow> bytes \<Rightarrow> nat \<Rightarrow> 'f dbc_reader \<Rightarrow> dbc_error + 'f dbc_reader" where
  "read_line parse_f64 raw_line number rd =
     (let line = trim raw_line in
      case strip_prefix (ascii ''BO_ '') line of
        Some rest \<Rightarrow>
          map_sum id (\<lambda>m. rd\<lparr>rd_current := Some (Pgn_as_u32 (bo_pgn m)),
              rd_messages := btree_insert (Pgn_as_u32 (bo_pgn m)) m (rd_messages rd)\<rparr>) (parse_message rest number)
      | None \<Rightarrow>
      case strip_prefix (ascii ''SG_ '') line of
        Some rest \<Rightarrow>
          ok_or (rd_current rd) (OrphanSignal number) (\<lambda>key.
          map_sum id (\<lambda>s. rd\<lparr>rd_messages := push_signal key s (rd_messages rd)\<rparr>) (parse_signal parse_f64 rest number))
      | None \<Rightarrow>
      case strip_prefix (ascii ''VAL_ '') line of
        Some rest \<Rightarrow>
          Inr (rd\<lparr>rd_current := None,
            rd_value_tables := rd_value_tables rd @ (case parse_value_table rest of Some e \<Rightarrow> [e] | None \<Rightarrow> [])\<rparr>)
      | None \<Rightarrow>
      case strip_prefix (ascii ''BA_ '') line of
        Some rest \<Rightarrow>
          Inr (rd\<lparr>rd_current := None,
            rd_spn_attributes := rd_spn_attributes rd @ (case parse_spn_attribute rest of Some e \<Rightarrow> [e] | None \<Rightarrow> [])\<rparr>)
      | None \<Rightarrow>
      if line = [] then Inr (rd\<lparr>rd_current := None\<rparr>) else Inr rd)"

fun read_lines :: "(bytes \<Rightarrow> 'f option) \<Rightarrow> nat \<Rightarrow> bytes list \<Rightarrow> 'f dbc_reader \<Rightarrow> dbc_error + 'f dbc_reader" where
  "read_lines parse_f64 index [] rd = Inr rd"
| "read_lines parse_f64 index (line # rest) rd =
     (case read_line parse_f64 line (index + 1) rd of
        Inl e \<Rightarrow> Inl e
      | Inr rd1 \<Rightarrow> read_lines parse_f64 (index + 1) rest rd1)"

definition update_signal :: "('f dbc_signal \<Rightarrow> 'f dbc_signal) \<Rightarrow> u32 \<Rightarrow> bytes \<Rightarrow> 'f dbc \<Rightarrow> 'f dbc" where
  "update_signal f i name =
     update_first (\<lambda>(k, m). Id_as_u32 (bo_id m) = i)
       (\<lambda>(k, m). (k, m\<lparr>bo_signals := update_first (\<lambda>s. ds_name s = name) f (bo_signals m)\<rparr>))"

definition Dbc_parse :: "(bytes \<Rightarrow> 'f option) \<Rightarrow> bytes \<Rightarrow> dbc_error + 'f dbc" where
  "Dbc_parse parse_f64 text =
     (case read_lines parse_f64 0 (text_lines text)
         \<lparr>rd_messages = [], rd_current = None, rd_value_tables = [], rd_spn_attributes = []\<rparr> of
        Inl e \<Rightarrow> Inl e
      | Inr rd \<Rightarrow>
          (let named = fold (\<lambda>(i, name, table). update_signal (\<lambda>s. s\<lparr>ds_value_names := table\<rparr>) i name)
                 (rd_value_tables rd) (rd_messages rd)
           in Inr (fold (\<lambda>(i, name, spn). update_signal (\<lambda>s. s\<lparr>ds_spn := Some spn\<rparr>) i name) (rd_spn_attributes rd) named)))"

section \<open>Fields of either byte order\<close>

text \<open>
  Counting the bits of the payload from the most significant bit of its first byte, a big-endian
  field is a run of consecutive bits: a field of the payload read backwards.
\<close>

definition sawtooth :: "nat \<Rightarrow> nat" where "sawtooth q = q div 8 * 8 + (7 - q mod 8)"

lemma sawtooth_facts: "sawtooth q div 8 = q div 8" "sawtooth q mod 8 = 7 - q mod 8" "sawtooth (sawtooth q) = q"
proof -
  have m: "q mod 8 < 8" by simp
  obtain c where c: "c = 7 - q mod 8" "c < 8" by simp
  have saw: "sawtooth q = q div 8 * 8 + c" by (simp add: sawtooth_def c(1))
  show d: "sawtooth q div 8 = q div 8" unfolding saw using c(2) by simp
  show r: "sawtooth q mod 8 = 7 - q mod 8" unfolding saw c(1) [symmetric] using c(2) by simp
  show "sawtooth (sawtooth q) = q" unfolding sawtooth_def [of "sawtooth q"] d r using m by simp
qed

lemma sawtooth_Suc: "(if sawtooth q mod 8 = 0 then sawtooth q + 15 else sawtooth q - 1) = sawtooth (Suc q)"
proof (cases "q mod 8 = 7")
  case True
  then have "Suc q div 8 = Suc (q div 8)" "Suc q mod 8 = 0" by (simp_all add: div_Suc mod_Suc)
  with True show ?thesis by (simp add: sawtooth_facts) (simp add: sawtooth_def)
next
  case False
  then have d: "Suc q div 8 = q div 8" "Suc q mod 8 = Suc (q mod 8)" by (simp_all add: div_Suc mod_Suc)
  have m: "q mod 8 < 7" using False mod_less_divisor [of 8 q] by linarith
  obtain c where c: "7 - q mod 8 = Suc c" "7 - Suc (q mod 8) = c" using m by (cases "7 - q mod 8") simp_all
  then have "sawtooth q - 1 = sawtooth (Suc q)" by (simp add: sawtooth_def d)
  moreover have "sawtooth q mod 8 \<noteq> 0" using c(1) by (simp only: sawtooth_facts)
  ultimately show ?thesis by simp
qed

lemma bit_backwards:
  assumes "q < 8 * length data"
  shows "bit (le_value (rev data)) (8 * length data - Suc q) \<longleftrightarrow> bit (data ! (q div 8)) (7 - q mod 8)"
proof -
  let ?k = "8 * length data - Suc q"
  have q: "q div 8 < length data" using assms by (simp add: less_mult_imp_div_less mult.commute)
  have k: "?k = 8 * (length data - Suc (q div 8)) + (7 - q mod 8)"
    using assms q div_mult_mod_eq [of q 8] mod_less_divisor [of 8 q] by linarith
  obtain c where c: "c = 7 - q mod 8" "c < 8" by simp
  have "?k div 8 = length data - Suc (q div 8)" "?k mod 8 = 7 - q mod 8"
    unfolding k c(1) [symmetric] using c(2) by simp_all
  moreover have "data \<noteq> []" using q by auto
  ultimately show ?thesis using q by (simp add: bit_le_value rev_nth)
qed

text \<open>One more bit at the lower end of a field.\<close>

lemma bit_double: "bit (2 * v + of_bool B :: nat) j \<longleftrightarrow> (if j = 0 then B else bit v (j - 1))"
  by (cases j) (simp_all add: bit_0 bit_Suc)

lemma field_value_shift:
  assumes "0 < s"
  shows "field_value (s - 1) (Suc i) xs = 2 * field_value s i xs + of_bool (bit (le_value xs) (s - 1))"
proof (rule bit_eqI)
  fix j
  show "bit (field_value (s - 1) (Suc i) xs) j = bit (2 * field_value s i xs + of_bool (bit (le_value xs) (s - 1))) j"
    unfolding bit_double bit_field_value using assms by (cases j) simp_all
qed

lemma unat_shifted:
  assumes "unat (raw :: u32) < 2 ^ i" and "i < 32" and "\<And>j. bit (b :: u8) j \<longleftrightarrow> j = 0 \<and> B"
  shows "unat (push_bit 1 raw OR ucast b) = 2 * unat raw + of_bool B"
proof (rule bit_eqI)
  fix j
  have "j < 31" if "bit raw j" for j using that not_bit_of_less_pow [OF assms(1), of j] assms(2) by (cases "i \<le> j") simp_all
  moreover have "bit (push_bit 1 raw OR ucast b) j \<longleftrightarrow> 1 \<le> j \<and> j < 32 \<and> bit raw (j - 1) \<or> j = 0 \<and> B"
    unfolding bit_or_iff bit_push_bit_iff bit_ucast_iff assms(3) by auto
  ultimately have "bit (push_bit 1 raw OR ucast b) j \<longleftrightarrow> (if j = 0 then B else bit raw (j - 1))" by (cases j) auto
  then show "bit (unat (push_bit 1 raw OR ucast b)) j = bit (2 * unat raw + of_bool B) j"
    unfolding bit_double by (simp only: bit_unsigned_iff) (simp split: if_splits)
qed

lemma read_sawtooth_value:
  assumes "i + n \<le> 32" and "q + i + n \<le> 8 * length data"
    and "unat raw = field_value (8 * length data - (q + i)) i (rev data)"
  shows "\<exists>r. read_sawtooth data n (sawtooth (q + i)) raw = Some r \<and>
    unat r = field_value (8 * length data - (q + i + n)) (i + n) (rev data)"
  using assms
proof (induction n arbitrary: i raw)
  case (Suc n)
  let ?p = "q + i" and ?L = "8 * length data"
  have inside: "?p div 8 < length data" using Suc.prems(2) by (simp add: less_mult_imp_div_less mult.commute)
  let ?byte = "data ! (?p div 8)"
  let ?b = "drop_bit (7 - ?p mod 8) ?byte AND 1"
  let ?raw = "push_bit 1 raw OR ucast ?b :: u32"
  have "unat raw < 2 ^ i" using Suc.prems(3) field_value_less by simp
  then have "unat ?raw = 2 * unat raw + of_bool (bit ?byte (7 - ?p mod 8))"
    using Suc.prems(1) by (intro unat_shifted [of _ i]) (simp_all add: bit_of_byte)
  also have "bit ?byte (7 - ?p mod 8) \<longleftrightarrow> bit (le_value (rev data)) (?L - ?p - 1)"
    using bit_backwards [of ?p data] Suc.prems(2) by simp
  also have "2 * unat raw + of_bool (bit (le_value (rev data)) (?L - ?p - 1)) = field_value (?L - ?p - 1) (Suc i) (rev data)"
    using Suc.prems by (subst field_value_shift) simp_all
  finally have "unat ?raw = field_value (?L - (q + Suc i)) (Suc i) (rev data)" by simp
  with Suc.IH [of "Suc i" ?raw] Suc.prems obtain r where
    "read_sawtooth data n (sawtooth (q + Suc i)) ?raw = Some r"
    "unat r = field_value (?L - (q + i + Suc n)) (i + Suc n) (rev data)"
    by auto
  then show ?case using inside sawtooth_Suc [of ?p] by (simp add: at_index_def sawtooth_facts Let_def)
qed simp

text \<open>The field of a signal, as a number.\<close>

definition ds_field :: "'f dbc_signal \<Rightarrow> bytes \<Rightarrow> nat" where
  "ds_field s data =
     (case ds_byte_order s of
        LittleEndian \<Rightarrow> field_value (unat (ds_start_bit s)) (unat (ds_bit_length s)) data
      | BigEndian \<Rightarrow>
          field_value (8 * length data - (sawtooth (unat (ds_start_bit s)) + unat (ds_bit_length s)))
            (unat (ds_bit_length s)) (rev data))"

lemma div_ceil_le: "div_ceil a 8 \<le> m \<longleftrightarrow> a \<le> 8 * m"
  by (simp add: div_ceil_def) linarith

lemma ds_required_len_le:
  assumes "0 < ds_bit_length s"
  shows "ds_required_len s \<le> m \<longleftrightarrow>
    (case ds_byte_order s of
       LittleEndian \<Rightarrow> unat (ds_start_bit s) + unat (ds_bit_length s) \<le> 8 * m
     | BigEndian \<Rightarrow> sawtooth (unat (ds_start_bit s)) + unat (ds_bit_length s) \<le> 8 * m)"
proof (cases "ds_byte_order s")
  case BigEndian
  let ?q = "unat (ds_start_bit s)" and ?n = "unat (ds_bit_length s)"
  have n: "0 < ?n" using assms by (simp add: word_less_nat_alt)
  obtain a b where ab: "a = ?q div 8" "b = ?q mod 8" "b < 8" by simp
  have saw: "sawtooth ?q = a * 8 + (7 - b)" by (simp add: sawtooth_def ab)
  have req: "ds_required_len s = (if ?n \<le> b + 1 then a + 1 else a + 1 + div_ceil (?n - (b + 1)) 8)"
    using BigEndian by (simp add: ds_required_len_def Let_def ab)
  have "ds_required_len s \<le> m \<longleftrightarrow> sawtooth ?q + ?n \<le> 8 * m"
  proof (cases "?n \<le> b + 1")
    case True
    then show ?thesis using n ab(3) unfolding saw req by (simp del: ab) linarith
  next
    case False
    obtain c where c: "c = div_ceil (?n - (b + 1)) 8" by simp
    have "c \<le> m - Suc a \<longleftrightarrow> ?n - (b + 1) \<le> 8 * (m - Suc a)" unfolding c by (rule div_ceil_le)
    moreover have "0 < c" using False div_ceil_le [of "?n - (b + 1)" 0] unfolding c by auto
    ultimately show ?thesis using False ab(3) unfolding saw req c [symmetric] by (cases "Suc a \<le> m") auto
  qed
  then show ?thesis using BigEndian by simp
qed (simp add: ds_required_len_def div_ceil_le)

lemma ds_raw_value:
  assumes n: "1 \<le> unat (ds_bit_length s)" "unat (ds_bit_length s) \<le> 32" and l: "ds_required_len s \<le> length data"
    and reach: "ds_byte_order s = LittleEndian \<Longrightarrow> unat (ds_start_bit s) + unat (ds_bit_length s) \<le> 65536"
  shows "ds_raw s data = Some (Inr (word_of_nat (ds_field s data)))" and "ds_field s data < 2 ^ unat (ds_bit_length s)"
proof -
  have g: "ds_bit_length s \<noteq> 0" "\<not> ds_bit_length s > 32" "0 < ds_bit_length s" using n by (auto simp: unat_iffs)
  note fits = l [unfolded ds_required_len_le [OF g(3)]]
  show "ds_field s data < 2 ^ unat (ds_bit_length s)"
    by (auto simp: ds_field_def field_value_less split: byte_order.split)
  show "ds_raw s data = Some (Inr (word_of_nat (ds_field s data)))"
  proof (cases "ds_byte_order s")
    case LittleEndian
    then show ?thesis using g l fits read_bits_value [OF n(2) _ reach, of data] by (simp add: ds_raw_def ds_field_def)
  next
    case BigEndian
    let ?q = "sawtooth (unat (ds_start_bit s))" and ?n = "unat (ds_bit_length s)"
    have "?q + 0 + ?n \<le> 8 * length data" using fits BigEndian by simp
    then obtain r where "read_sawtooth data ?n (sawtooth (?q + 0)) 0 = Some r"
      "unat r = field_value (8 * length data - (?q + 0 + ?n)) (0 + ?n) (rev data)"
      using read_sawtooth_value [of 0 ?n ?q data 0] n(2) by (auto simp: field_value_def)
    moreover from this(2) BigEndian have "ds_field s data = unat r" by (simp add: ds_field_def)
    then have "word_of_nat (ds_field s data) = r" by simp
    ultimately have "read_sawtooth data ?n (unat (ds_start_bit s)) 0 = Some (word_of_nat (ds_field s data))"
      by (simp add: sawtooth_facts)
    then show ?thesis using g l BigEndian by (simp add: ds_raw_def)
  qed
qed

section \<open>Signed fields\<close>

text \<open>Two's complement of the width of the field.\<close>

definition signed_field :: "nat \<Rightarrow> nat \<Rightarrow> int" where
  "signed_field n v = (if v < 2 ^ (n - 1) then int v else int v - 2 ^ n)"

lemma signed_field_take_bit:
  assumes "1 \<le> n" and "v < 2 ^ n"
  shows "signed_field n v = signed_take_bit (n - 1) (int v)"
proof -
  obtain m where n: "n = Suc m" using assms(1) by (cases n) simp_all
  have "bit (int v) m \<longleftrightarrow> \<not> v < 2 ^ m"
  proof -
    have "bit v m \<longleftrightarrow> odd (v div 2 ^ m)" by (simp add: bit_iff_odd)
    moreover have "v div 2 ^ m < 2" using assms(2) by (simp add: n less_mult_imp_div_less mult.commute)
    moreover have "v div 2 ^ m = 0 \<longleftrightarrow> v < 2 ^ m" by (simp add: div_eq_0_iff)
    ultimately have "bit v m \<longleftrightarrow> \<not> v < 2 ^ m" by (cases "v div 2 ^ m") auto
    then show ?thesis by (simp add: bit_of_nat_iff_bit)
  qed
  moreover have "take_bit m (int v) = int v - (if v < 2 ^ m then 0 else 2 ^ m)"
  proof (cases "v < 2 ^ m")
    case True
    then show ?thesis by (simp add: take_bit_int_eq_self)
  next
    case False
    have "int v < int (2 * 2 ^ m)" using assms(2) by (simp only: of_nat_less_iff n power_Suc)
    moreover have "int (2 ^ m) \<le> int v" using False by (simp only: of_nat_le_iff not_less)
    moreover define w where "w = int v - 2 ^ m"
    ultimately have w: "int v = w + 2 ^ m" "0 \<le> w" "w < 2 ^ m" by simp_all
    then have "take_bit m (int v) = w" by (simp add: take_bit_eq_mod)
    with False w(1) show ?thesis by simp
  qed
  ultimately show ?thesis by (simp add: signed_take_bit_eq_take_bit_minus signed_field_def n take_bit_Suc_from_most)
qed

lemma sign_extend_value:
  assumes n: "1 \<le> unat n" "unat n \<le> 32" and raw: "unat raw < 2 ^ unat n"
  shows "\<exists>x. sign_extend n raw = Some x \<and> sint x = signed_field (unat n) (unat raw)"
proof -
  have goal: "sint x = signed_field (unat n) (unat raw)"
    if "\<And>j. j < 32 \<Longrightarrow> bit x j \<longleftrightarrow> bit raw (min j (unat n - 1))" for x :: u32
    unfolding signed_field_take_bit [OF n(1) raw]
  proof (rule bit_eqI)
    fix j
    have "bit (sint x) j \<longleftrightarrow> bit x (min j 31)" by (cases "j \<le> 31") (auto simp: bit_sint_iff bit_over)
    also have "\<dots> \<longleftrightarrow> bit raw (min (min j 31) (unat n - 1))" by (rule that) simp
    also have "min (min j 31) (unat n - 1) = min j (unat n - 1)" using n by simp
    also have "bit raw (min j (unat n - 1)) \<longleftrightarrow> bit (signed_take_bit (unat n - 1) (int (unat raw))) j"
      by (simp add: bit_signed_take_bit_iff bit_of_nat_iff_bit bit_unsigned_iff min_def)
    finally show "bit (sint x) j \<longleftrightarrow> bit (signed_take_bit (unat n - 1) (int (unat raw))) j" .
  qed
  show ?thesis
  proof (cases "n \<ge> 32")
    case True
    then have "unat n = 32" using n(2) by (simp add: word_le_nat_alt)
    then show ?thesis using True goal [of raw] by (simp add: sign_extend_def min_def)
  next
    case False
    let ?m = "unat n - 1"
    have m: "checked_sub n 1 = Some (n - 1)" "unat (n - 1) = ?m" "?m < 32" "unat n < 32"
      using n False unat_sub_no_wrap [of 1 n] by (simp_all add: checked_sub_def word_le_nat_alt)
    have sign: "raw AND push_bit ?m 1 = 0 \<longleftrightarrow> \<not> bit raw ?m"
      using m(3) by (simp add: push_bit_of_1 and_exp_eq_0_iff_not_bit)
    have high: "\<not> bit raw j" if "unat n \<le> j" for j by (rule not_bit_of_less_pow [OF raw that])
    have "push_bit (unat n) 1 - 1 = (mask (unat n) :: u32)" by (simp add: mask_eq_exp_minus_1 push_bit_of_1)
    then have mask: "bit (NOT (push_bit (unat n) 1 - 1) :: u32) j \<longleftrightarrow> unat n \<le> j" if "j < 32" for j
      using that by (auto simp: bit_not_iff bit_mask_iff)
    let ?x = "if raw AND push_bit ?m 1 = 0 then raw else raw OR NOT (push_bit (unat n) 1 - 1)"
    have "bit ?x j \<longleftrightarrow> bit raw (min j ?m)" if "j < 32" for j
      using sign high [of j] mask [OF that] n(1) by (cases "j \<le> ?m") (auto simp: bit_or_iff min_def)
    from goal [OF this] show ?thesis using False m by (simp add: sign_extend_def Let_def)
  qed
qed

section \<open>What the reader builds\<close>

text \<open>One message per group, in the order of the groups, each under the group of its identifier.\<close>

definition dbc_ok :: "'f dbc \<Rightarrow> bool" where
  "dbc_ok dbc \<longleftrightarrow> sorted_wrt (<) (map fst dbc) \<and>
     (\<forall>(k, m) \<in> set dbc. k = Pgn_as_u32 (bo_pgn m) \<and> bo_pgn m = Id_pgn (bo_id m) \<and> Id_ok (bo_id m))"

lemma masked_id: "Id_new (x AND 0x1FFFFFFF) = Inr (Can_Id (x AND 0x1FFFFFFF))"
proof -
  have "x AND 0x1FFFFFFF \<le> 0x1FFFFFFF" by (rule word_and_le1)
  then show ?thesis by (simp add: Id_new_def Id_MAX_def not_less)
qed

lemma ok_or_Inr: "ok_or x e k = Inr b \<Longrightarrow> \<exists>a. x = Some a \<and> k a = Inr b"
  by (cases x) simp_all

lemma ok_or_Inl: "ok_or x e k = Inl e1 \<Longrightarrow> e1 = e \<or> (\<exists>a. x = Some a \<and> k a = Inl e1)"
  by (cases x) auto

lemma parse_message_ok: "parse_message rest line = Inr m \<Longrightarrow> bo_pgn m = Id_pgn (bo_id m) \<and> Id_ok (bo_id m)"
  using Id_new_ok [OF masked_id] by (auto simp: parse_message_def masked_id dest!: ok_or_Inr)

text \<open>The mask removes what the check for 29 bits is for, so that error never occurs.\<close>

lemma parse_message_masks: "parse_message rest line \<noteq> Inl (DbcNotJ1939 line' i)"
  by (auto simp: parse_message_def masked_id dest!: ok_or_Inl)

lemma parse_signal_error: "parse_signal parse_f64 rest line \<noteq> Inl (DbcNotJ1939 line' i)"
  by (auto simp: parse_signal_def Let_def dest!: ok_or_Inl)

lemma btree_insert_keys: "fst ` set (btree_insert k v t) = insert k (fst ` set t)"
  by (induction k v t rule: btree_insert.induct) auto

lemma btree_insert_mem: "(k1, v1) \<in> set (btree_insert k v t) \<Longrightarrow> (k1, v1) = (k, v) \<or> (k1, v1) \<in> set t"
  by (induction k v t rule: btree_insert.induct) (auto split: if_splits)

lemma btree_insert_sorted: "sorted_wrt (<) (map fst t) \<Longrightarrow> sorted_wrt (<) (map fst (btree_insert k v t))"
proof (induction k v t rule: btree_insert.induct)
  case (2 k v k1 v1 t)
  have "\<forall>x \<in> fst ` set (btree_insert k v t). k1 < x" if "k1 < k" using 2(2) that by (auto simp: btree_insert_keys)
  with 2 show ?case by (auto dest: order.strict_trans)
qed simp

lemma update_first_map: "(\<And>x. g (f x) = g x) \<Longrightarrow> map g (update_first P f xs) = map g xs"
  by (induction xs) simp_all

lemma update_first_mem: "y \<in> set (update_first P f xs) \<Longrightarrow> y \<in> set xs \<or> (\<exists>x \<in> set xs. y = f x)"
  by (induction xs) (auto split: if_splits)

lemma update_first_ok:
  assumes "dbc_ok dbc" and f: "\<And>k m. \<exists>ss. f (k, m) = (k, m\<lparr>bo_signals := ss\<rparr>)"
  shows "dbc_ok (update_first P f dbc)"
proof -
  have "fst (f x) = fst x" for x using f [of "fst x" "snd x"] by auto
  then have "map fst (update_first P f dbc) = map fst dbc" by (rule update_first_map)
  moreover have "k = Pgn_as_u32 (bo_pgn m) \<and> bo_pgn m = Id_pgn (bo_id m) \<and> Id_ok (bo_id m)"
    if "(k, m) \<in> set (update_first P f dbc)" for k m
  proof -
    from update_first_mem [OF that] obtain m1 where "(k, m1) \<in> set dbc" "\<exists>ss. m = m1\<lparr>bo_signals := ss\<rparr> \<or> m = m1"
      using f by (metis prod.inject surj_pair)
    with assms(1) show ?thesis by (auto simp: dbc_ok_def)
  qed
  ultimately show ?thesis using assms(1) by (auto simp: dbc_ok_def)
qed

lemma push_signal_ok: "dbc_ok dbc \<Longrightarrow> dbc_ok (push_signal key s dbc)"
  unfolding push_signal_def by (rule update_first_ok) auto

lemma update_signal_ok: "dbc_ok dbc \<Longrightarrow> dbc_ok (update_signal f i name dbc)"
  unfolding update_signal_def by (rule update_first_ok) auto

lemma insert_ok:
  assumes "dbc_ok dbc" and "parse_message rest number = Inr m"
  shows "dbc_ok (btree_insert (Pgn_as_u32 (bo_pgn m)) m dbc)"
  unfolding dbc_ok_def
proof (intro conjI ballI)
  show "sorted_wrt (<) (map fst (btree_insert (Pgn_as_u32 (bo_pgn m)) m dbc))"
    using assms(1) by (intro btree_insert_sorted) (simp add: dbc_ok_def)
  fix km assume "km \<in> set (btree_insert (Pgn_as_u32 (bo_pgn m)) m dbc)"
  then have "km = (Pgn_as_u32 (bo_pgn m), m) \<or> km \<in> set dbc"
    using btree_insert_mem [of "fst km" "snd km" "Pgn_as_u32 (bo_pgn m)" m dbc] by simp
  then show "case km of (k, m) \<Rightarrow> k = Pgn_as_u32 (bo_pgn m) \<and> bo_pgn m = Id_pgn (bo_id m) \<and> Id_ok (bo_id m)"
    using parse_message_ok [OF assms(2)] assms(1) unfolding dbc_ok_def by blast
qed

lemma map_sum_iff:
  "map_sum id f x = Inr y \<longleftrightarrow> (\<exists>a. x = Inr a \<and> y = f a)" "map_sum id f x = Inl e \<longleftrightarrow> x = Inl e"
  by (cases x; auto)+

lemma read_line_ok:
  assumes "dbc_ok (rd_messages rd)"
  shows "read_line parse_f64 line number rd = Inr rd1 \<Longrightarrow> dbc_ok (rd_messages rd1)"
    and "read_line parse_f64 line number rd \<noteq> Inl (DbcNotJ1939 l i)"
proof -
  show "read_line parse_f64 line number rd = Inr rd1 \<Longrightarrow> dbc_ok (rd_messages rd1)"
    using assms by (auto simp: read_line_def Let_def map_sum_iff insert_ok push_signal_ok dest!: ok_or_Inr
        split: option.splits if_splits)
  show "read_line parse_f64 line number rd \<noteq> Inl (DbcNotJ1939 l i)"
    by (auto simp: read_line_def Let_def map_sum_iff parse_message_masks parse_signal_error dest!: ok_or_Inl split: option.splits)
qed

lemma read_lines_ok:
  assumes "dbc_ok (rd_messages rd)"
  shows "read_lines parse_f64 i ls rd \<noteq> Inl (DbcNotJ1939 l n) \<and>
    (\<forall>rd1. read_lines parse_f64 i ls rd = Inr rd1 \<longrightarrow> dbc_ok (rd_messages rd1))"
  using assms
proof (induction ls arbitrary: i rd)
  case (Cons x ls)
  show ?case
  proof (cases "read_line parse_f64 x (i + 1) rd")
    case (Inl e)
    with read_line_ok(2) [OF Cons.prems, of parse_f64 x "i + 1" l n] show ?thesis by simp
  next
    case (Inr rd2)
    with Cons.IH [OF read_line_ok(1) [OF Cons.prems Inr], of "i + 1"] show ?thesis by simp
  qed
qed simp

lemma fold_ok: "dbc_ok d \<Longrightarrow> dbc_ok (fold (\<lambda>(i, name, x). update_signal (f x) i name) xs d)"
  by (induction xs arbitrary: d) (auto simp: update_signal_ok)

lemma Dbc_parse_ok: "Dbc_parse parse_f64 text = Inr dbc \<Longrightarrow> dbc_ok dbc" "Dbc_parse parse_f64 text \<noteq> Inl (DbcNotJ1939 l n)"
proof -
  let ?rd = "\<lparr>rd_messages = [], rd_current = None, rd_value_tables = [], rd_spn_attributes = []\<rparr> :: 'a dbc_reader"
  have "dbc_ok (rd_messages ?rd)" by (simp add: dbc_ok_def)
  note read = read_lines_ok [OF this]
  show "Dbc_parse parse_f64 text \<noteq> Inl (DbcNotJ1939 l n)"
    using read [of parse_f64 0 "text_lines text" l n] by (auto simp: Dbc_parse_def Let_def split: sum.split)
  show "Dbc_parse parse_f64 text = Inr dbc \<Longrightarrow> dbc_ok dbc"
    using read [of parse_f64 0 "text_lines text"] by (auto simp: Dbc_parse_def Let_def intro!: fold_ok split: sum.splits)
qed

section \<open>Decoding by a definition\<close>

lemma ds_decode_value:
  assumes n: "1 \<le> unat (ds_bit_length s)" "unat (ds_bit_length s) \<le> 32" and l: "ds_required_len s \<le> length data"
    and reach: "ds_byte_order s = LittleEndian \<Longrightarrow> unat (ds_start_bit s) + unat (ds_bit_length s) \<le> 65536"
  shows "ds_signed s \<Longrightarrow> ds_decode scale s data =
      Some (Inr (DbcValid (scale (signed_field (unat (ds_bit_length s)) (ds_field s data)) (ds_factor s) (ds_offset s))))"
    and "\<not> ds_signed s \<Longrightarrow> \<exists>c. classify (word_of_nat (ds_field s data)) (ds_bit_length s) = Some c \<and>
      ds_decode scale s data = Some (Inr (case c of
          RawValid _ \<Rightarrow> DbcValid (scale (int (ds_field s data)) (ds_factor s) (ds_offset s))
        | RawError \<Rightarrow> DbcValueError | RawNotAvailable \<Rightarrow> DbcNotAvailable | RawReserved \<Rightarrow> DbcReserved))"
proof -
  let ?raw = "word_of_nat (ds_field s data) :: u32"
  note raw = ds_raw_value [OF assms]
  have "(2 :: nat) ^ unat (ds_bit_length s) \<le> 2 ^ 32" using n(2) by (intro power_increasing) simp_all
  then have u: "unat ?raw = ds_field s data" using raw(2) by (intro unat_word_of_nat) simp
  obtain x where "sign_extend (ds_bit_length s) ?raw = Some x" "sint x = signed_field (unat (ds_bit_length s)) (ds_field s data)"
    using sign_extend_value [OF n, of ?raw] u raw(2) by auto
  then show "ds_signed s \<Longrightarrow> ds_decode scale s data =
      Some (Inr (DbcValid (scale (signed_field (unat (ds_bit_length s)) (ds_field s data)) (ds_factor s) (ds_offset s))))"
    using raw(1) by (simp add: ds_decode_def)
  obtain c where c: "classify ?raw (ds_bit_length s) = Some c" using classify_defined [OF n] by blast
  then have "c = RawValid v \<Longrightarrow> unat v = ds_field s data" for v using classify_valid u by blast
  then show "\<not> ds_signed s \<Longrightarrow> \<exists>c. classify ?raw (ds_bit_length s) = Some c \<and>
      ds_decode scale s data = Some (Inr (case c of
          RawValid _ \<Rightarrow> DbcValid (scale (int (ds_field s data)) (ds_factor s) (ds_offset s))
        | RawError \<Rightarrow> DbcValueError | RawNotAvailable \<Rightarrow> DbcNotAvailable | RawReserved \<Rightarrow> DbcReserved))"
    using c raw(1) by (cases c) (simp_all add: ds_decode_def)
qed

text \<open>
  A little-endian signal across bit 65536 passes the length check and overflows its \<^verbatim>\<open>u16\<close> bit index;
  it is the only one that panics.
\<close>

lemma ds_raw_overflow:
  assumes n: "1 \<le> unat (ds_bit_length s)" "unat (ds_bit_length s) \<le> 32" and l: "ds_required_len s \<le> length data"
    and e: "ds_byte_order s = LittleEndian" and crossing: "65536 < unat (ds_start_bit s) + unat (ds_bit_length s)"
  shows "ds_raw s data = None" and "ds_decode scale s data = None"
proof -
  have "ds_bit_length s \<noteq> 0" "\<not> ds_bit_length s > 32" using n by (auto simp: unat_iffs)
  then show "ds_raw s data = None" using l e read_bits_crossing [OF n(2) crossing] by (simp add: ds_raw_def)
  then show "ds_decode scale s data = None" by (simp add: ds_decode_def)
qed

lemma ds_raw_refused:
  assumes "ds_bit_length s = 0 \<or> 32 < unat (ds_bit_length s) \<or> length data < ds_required_len s"
  shows "\<exists>e. ds_raw s data = Some (Inl e) \<and> ds_decode scale s data = Some (Inl e)"
  using assms by (auto simp: ds_decode_def ds_raw_def word_less_nat_alt)

end
