(* ===== verification/Dbc_Writer.thy ===== *)
theory Dbc_Writer
  imports Dbc_Database Text_Output
begin

text \<open>
  The messages and signals of a database written as the lines of a DBC file, and that the reader of
  \<open>Dbc_Database\<close> reads these lines back. The form of a line is the one in the documentation of
  \<^verbatim>\<open>host/src/dbc.rs\<close>.
\<close>

section \<open>Lines of a file\<close>

definition write_message :: "'f dbc_message \<Rightarrow> bytes" where
  "write_message m =
     ascii ''BO_ '' @ decimal (unat (Id_as_u32 (bo_id m) OR 0x80000000)) @ ascii '' '' @ bo_name m @ ascii '': '' @
     decimal (bo_dlc m) @ ascii '' Vector__XXX''"

definition write_signal :: "('f \<Rightarrow> bytes) \<Rightarrow> 'f dbc_signal \<Rightarrow> bytes" where
  "write_signal write_f64 s =
     ascii '' SG_ '' @ ds_name s @ ascii '' : '' @
     decimal (unat (ds_start_bit s)) @ ascii ''|'' @ decimal (unat (ds_bit_length s)) @ ascii ''@'' @
     [case ds_byte_order s of LittleEndian \<Rightarrow> byte CHR ''1'' | BigEndian \<Rightarrow> byte CHR ''0'',
      if ds_signed s then byte CHR ''-'' else byte CHR ''+''] @
     ascii '' ('' @ write_f64 (ds_factor s) @ ascii '','' @ write_f64 (ds_offset s) @ ascii '') ['' @
     write_f64 (ds_minimum s) @ ascii ''|'' @ write_f64 (ds_maximum s) @ ascii ''] '' @
     [quote] @ ds_unit s @ [quote] @ ascii '' Vector__XXX''"

definition layout_lines :: "('f \<Rightarrow> bytes) \<Rightarrow> 'f dbc \<Rightarrow> bytes list" where
  "layout_lines write_f64 dbc = concat (map (\<lambda>(k, m). write_message m # map (write_signal write_f64) (bo_signals m)) dbc)"

text \<open>Names are words without a colon, the unit has no quote and no line end, and the numbers are read as written.\<close>

definition name_ok :: "bytes \<Rightarrow> bool" where
  "name_ok name \<longleftrightarrow> name \<noteq> [] \<and> list_all (\<lambda>b. graphic b \<and> b \<noteq> byte CHR '':'') name"

definition number_text :: "bytes \<Rightarrow> bool" where
  "number_text t \<longleftrightarrow> t \<noteq> [] \<and> list_all (\<lambda>b. graphic b \<and> b \<notin> set (ascii '',|()[]'')) t"

definition number_reads :: "(bytes \<Rightarrow> 'f option) \<Rightarrow> ('f \<Rightarrow> bytes) \<Rightarrow> 'f \<Rightarrow> bool" where
  "number_reads parse_f64 write_f64 x \<longleftrightarrow> number_text (write_f64 x) \<and> parse_f64 (write_f64 x) = Some x"

definition signal_ok :: "(bytes \<Rightarrow> 'f option) \<Rightarrow> ('f \<Rightarrow> bytes) \<Rightarrow> 'f dbc_signal \<Rightarrow> bool" where
  "signal_ok parse_f64 write_f64 s \<longleftrightarrow> name_ok (ds_name s) \<and> quote \<notin> set (ds_unit s) \<and> 0x0A \<notin> set (ds_unit s) \<and>
     list_all (number_reads parse_f64 write_f64) [ds_factor s, ds_offset s, ds_minimum s, ds_maximum s] \<and>
     ds_spn s = None \<and> ds_value_names s = []"

definition message_ok :: "(bytes \<Rightarrow> 'f option) \<Rightarrow> ('f \<Rightarrow> bytes) \<Rightarrow> u32 \<times> 'f dbc_message \<Rightarrow> bool" where
  "message_ok parse_f64 write_f64 = (\<lambda>(k, m). Id_ok (bo_id m) \<and> bo_pgn m = Id_pgn (bo_id m) \<and> k = Pgn_as_u32 (bo_pgn m) \<and>
     name_ok (bo_name m) \<and> bo_dlc m < 2 ^ 64 \<and> list_all (signal_ok parse_f64 write_f64) (bo_signals m))"

definition layout_writable :: "(bytes \<Rightarrow> 'f option) \<Rightarrow> ('f \<Rightarrow> bytes) \<Rightarrow> 'f dbc \<Rightarrow> bool" where
  "layout_writable parse_f64 write_f64 dbc \<longleftrightarrow>
     sorted_wrt (<) (map fst dbc) \<and> list_all (message_ok parse_f64 write_f64) dbc"

lemma split_ws_word: "list_all graphic w \<Longrightarrow> split_once_ws (w @ 0x20 # r) = Some (w, r)"
  by simp

lemma first_word_written: "list_all graphic w \<Longrightarrow> w \<noteq> [] \<Longrightarrow> first_word (w @ 0x20 # r) = Some w"
  "list_all graphic w \<Longrightarrow> w \<noteq> [] \<Longrightarrow> first_word (0x20 # w @ 0x20 # r) = Some w"
  by (simp_all add: first_word_def split_whitespace_simps at_index_def)

lemma name_okD:
  assumes "name_ok name"
  shows "list_all graphic name" "name \<noteq> []" "byte CHR '':'' \<notin> set name" "trim name = name" "trim (name @ [0x20]) = name"
proof -
  show g: "list_all graphic name" "name \<noteq> []" "byte CHR '':'' \<notin> set name" using assms by (auto simp: name_ok_def list_all_iff)
  then have ends: "graphic (hd name)" "graphic (last name)" by (simp_all add: list_all_iff)
  then show t: "trim name = name" using g(2) by (intro trim_graphic)
  have "ws_last (name @ [0x20]) = 1" by (simp add: ws_last_def ws_char_Cons)
  then have "trim_end (name @ [0x20]) = trim_end name" by (simp add: trim_end.simps [of "name @ [0x20]"])
  moreover have "trim_start (name @ [0x20]) = name @ [0x20]" "trim_start name = name" using ends g(2) by (cases name; simp)+
  ultimately show "trim (name @ [0x20]) = name" using t by (simp add: trim_def)
qed

lemma number_readsD:
  assumes "number_reads parse_f64 write_f64 x"
  shows "parse_f64 (trim (write_f64 x)) = Some x" and "b \<in> set (ascii '',|()[]'') \<Longrightarrow> b \<notin> set (write_f64 x)"
proof -
  have t: "write_f64 x \<noteq> []" "list_all graphic (write_f64 x)" using assms by (auto simp: number_reads_def number_text_def list_all_iff)
  then have "trim (write_f64 x) = write_f64 x" by (intro trim_graphic) (simp_all add: list_all_iff)
  with assms show "parse_f64 (trim (write_f64 x)) = Some x" by (simp add: number_reads_def)
  show "b \<in> set (ascii '',|()[]'') \<Longrightarrow> b \<notin> set (write_f64 x)"
    using assms unfolding number_reads_def number_text_def list_all_iff by blast
qed

text \<open>The flag of an extended identifier is masked off.\<close>

lemma extended_flag:
  assumes "Id_ok i"
  shows "(Id_as_u32 i OR 0x80000000) AND 0x1FFFFFFF = Id_as_u32 i"
proof -
  have "\<not> bit (Id_as_u32 i) 29" "\<not> bit (Id_as_u32 i) 30" "\<not> bit (Id_as_u32 i) 31"
    by (rule Id_ok_bits [OF assms]; simp)+
  then show ?thesis by (simp add: word_bits)
qed

lemma parse_written_message:
  assumes "message_ok parse_f64 write_f64 (k, m)"
  shows "parse_message (drop 4 (write_message m)) line = Inr (m\<lparr>bo_signals := []\<rparr>)"
proof -
  let ?raw = "Id_as_u32 (bo_id m) OR 0x80000000" and ?dlc = "decimal (bo_dlc m)"
  have m: "Id_ok (bo_id m)" "bo_pgn m = Id_pgn (bo_id m)" "name_ok (bo_name m)" "bo_dlc m < 2 ^ 64"
    using assms by (simp_all add: message_ok_def)
  have i: "Id_new (?raw AND 0x1FFFFFFF) = Inr (bo_id m)"
    using m(1) extended_flag [OF m(1)] by (cases "bo_id m") (simp add: Id_ok_def Id_new_def not_less)
  have "drop 4 (write_message m) = decimal (unat ?raw) @ 0x20 # bo_name m @ byte CHR '':'' # 0x20 # ?dlc @ 0x20 # ascii ''Vector__XXX''"
    by (simp add: write_message_def)
  moreover have "split_once_ws (decimal (unat ?raw) @ 0x20 # r) = Some (decimal (unat ?raw), r)" for r
    by (rule split_ws_word) (simp add: show_number_graphic)
  moreover have "split_once (byte CHR '':'') (bo_name m @ byte CHR '':'' # r) = Some (bo_name m, r)" for r
    by (rule split_once_append) (rule name_okD(3) [OF m(3)])
  moreover have "first_word (0x20 # ?dlc @ 0x20 # r) = Some ?dlc" for r
    by (rule first_word_written(2)) (simp_all add: show_number_graphic)
  ultimately show ?thesis
    unfolding parse_message_def using i m(2) decimal_reads(2) [of ?raw] decimal_reads(3) [OF m(4)] name_okD(4) [OF m(3)] by simp
qed

lemma slice_between_written:
  "a \<notin> set u \<Longrightarrow> b \<notin> set t \<Longrightarrow> slice_between (u @ a # t @ b # r) a b = Some (t, r)"
  by (simp add: slice_between_def split_once_append)

lemma parse_written_signal:
  assumes "signal_ok parse_f64 write_f64 s"
  shows "parse_signal parse_f64 (drop 5 (write_signal write_f64 s)) line = Inr s"
proof -
  note h = assms [unfolded signal_ok_def]
  have reads: "number_reads parse_f64 write_f64 x" if "x \<in> {ds_factor s, ds_offset s, ds_minimum s, ds_maximum s}" for x
    using h that by (auto simp: list_all_iff)
  let ?start = "decimal (unat (ds_start_bit s))" and ?len = "decimal (unat (ds_bit_length s))"
  let ?order = "case ds_byte_order s of LittleEndian \<Rightarrow> byte CHR ''1'' | BigEndian \<Rightarrow> byte CHR ''0''"
  let ?sign = "if ds_signed s then byte CHR ''-'' else byte CHR ''+''"
  let ?range = "write_f64 (ds_minimum s) @ byte CHR ''|'' # write_f64 (ds_maximum s)"
  let ?scaling = "write_f64 (ds_factor s) @ byte CHR '','' # write_f64 (ds_offset s)"
  let ?tail3 = "0x20 # quote # ds_unit s @ quote # ascii '' Vector__XXX''"
  let ?tail2 = "0x20 # byte CHR ''['' # ?range @ byte CHR '']'' # ?tail3"
  let ?tail1 = "0x20 # byte CHR ''('' # ?scaling @ byte CHR '')'' # ?tail2"
  let ?layout = "?start @ byte CHR ''|'' # ?len @ byte CHR ''@'' # [?order, ?sign]"
  note name = name_okD [OF conjunct1 [OF h]]
  have written: "drop 5 (write_signal write_f64 s) = ds_name s @ 0x20 # byte CHR '':'' # 0x20 # ?layout @ ?tail1"
    by (simp add: write_signal_def)
  have no: "b \<notin> set (write_f64 x)" if "b \<in> set (ascii '',|()[]'')" "x \<in> {ds_factor s, ds_offset s, ds_minimum s, ds_maximum s}" for b x
    by (rule number_readsD(2) [OF reads [OF that(2)] that(1)])
  have digits: "byte CHR ''|'' \<notin> set ?start" "byte CHR ''@'' \<notin> set ?len" "byte CHR '' '' \<notin> set ?start" "byte CHR '' '' \<notin> set ?len"
    by (rule show_number_no; simp add: digit_bytes_def)+
  have c1: "split_once (byte CHR '':'') (ds_name s @ 0x20 # byte CHR '':'' # r) = Some (ds_name s @ [0x20], r)" for r
    using split_once_append [of "byte CHR '':''" "ds_name s @ [0x20]" r] name(3) by simp
  have c2: "first_word (ds_name s @ [0x20]) = Some (ds_name s)" by (rule first_word_written(1) [OF name(1,2)])
  have "trim_start (0x20 # ?layout @ ?tail1) = ?layout @ ?tail1"
    using trim_start_word [of ?start] by (simp add: show_number_graphic)
  moreover have "byte CHR '' '' \<notin> set ?layout" using digits by (auto split: byte_order.split)
  ultimately have c3: "split_once (byte CHR '' '') (trim_start (0x20 # ?layout @ ?tail1)) =
      Some (?layout, byte CHR ''('' # ?scaling @ byte CHR '')'' # ?tail2)"
    using split_once_append [of "byte CHR '' ''" ?layout] by simp
  have c4: "split_once (byte CHR ''|'') ?layout = Some (?start, ?len @ byte CHR ''@'' # [?order, ?sign])"
    by (rule split_once_append [OF digits(1)])
  have c5: "split_once (byte CHR ''@'') (?len @ byte CHR ''@'' # [?order, ?sign]) = Some (?len, [?order, ?sign])"
    by (rule split_once_append [OF digits(2)])
  have c6: "order_of [?order, ?sign] = Some (ds_byte_order s)" "sign_of [?order, ?sign] = Some (ds_signed s)"
    by (simp_all add: order_of_def sign_of_def split: byte_order.split)
  have "byte CHR '')'' \<notin> set ?scaling" using no by auto
  then have c7: "slice_between (trim_start (byte CHR ''('' # ?scaling @ byte CHR '')'' # ?tail2)) (byte CHR ''('') (byte CHR '')'') =
      Some (?scaling, ?tail2)"
    using slice_between_written [of "byte CHR ''(''" "[]" "byte CHR '')''" ?scaling] by (simp add: graphic_def)
  have c8: "split_once (byte CHR '','') ?scaling = Some (write_f64 (ds_factor s), write_f64 (ds_offset s))"
    by (rule split_once_append) (rule no; simp)
  have "byte CHR '']'' \<notin> set ?range" using no by auto
  then have c9: "slice_between ?tail2 (byte CHR ''['') (byte CHR '']'') = Some (?range, ?tail3)"
    using slice_between_written [of "byte CHR ''[''" "[0x20]" "byte CHR '']''" ?range] by simp
  have c10: "split_once (byte CHR ''|'') ?range = Some (write_f64 (ds_minimum s), write_f64 (ds_maximum s))"
    by (rule split_once_append) (rule no; simp)
  have c11: "slice_between ?tail3 quote quote = Some (ds_unit s, ascii '' Vector__XXX'')"
    using slice_between_written [of quote "[0x20]" quote "ds_unit s"] h by (simp add: quote_def)
  have numbers: "parse_f64 (trim (write_f64 x)) = Some x" if "x \<in> {ds_factor s, ds_offset s, ds_minimum s, ds_maximum s}" for x
    by (rule number_readsD(1) [OF reads [OF that]])
  show ?thesis
    unfolding parse_signal_def written c1 c2 c3 c4 c5 c6 c7 c8 c9 c10 c11 decimal_reads ok_or_simps prod.case Let_def option.case
    using h by (simp add: numbers)
qed

text \<open>The lines survive the splitting of the text and the trimming of each.\<close>

lemma last_transmitter: "last (s @ ascii '' Vector__XXX'') = byte CHR ''X''" "graphic (byte CHR ''X'')"
  by (simp_all add: graphic_def)

lemma trim_written:
  "trim (write_message m) = ascii ''BO_ '' @ drop 4 (write_message m)"
  "trim (write_signal write_f64 s) = ascii ''SG_ '' @ drop 5 (write_signal write_f64 s)"
proof -
  have "last (write_message m) = byte CHR ''X''" unfolding write_message_def by simp
  moreover have "write_message m = ascii ''BO_ '' @ drop 4 (write_message m)" by (simp add: write_message_def)
  moreover from this have "hd (write_message m) = byte CHR ''B''" "write_message m \<noteq> []" by (metis ascii_simps(2) append_Cons list.sel(1), auto)
  ultimately show "trim (write_message m) = ascii ''BO_ '' @ drop 4 (write_message m)"
    using trim_graphic [of "write_message m"] by (simp add: graphic_def)
  obtain r where r: "write_signal write_f64 s = 0x20 # ascii ''SG_ '' @ r @ ascii '' Vector__XXX''"
    by (simp add: write_signal_def)
  have "trim (ascii ''SG_ '' @ r @ ascii '' Vector__XXX'') = ascii ''SG_ '' @ r @ ascii '' Vector__XXX''"
    by (rule trim_graphic) (simp_all add: graphic_def)
  then show "trim (write_signal write_f64 s) = ascii ''SG_ '' @ drop 5 (write_signal write_f64 s)" by (simp add: r)
qed

lemma read_written:
  assumes "message_ok parse_f64 write_f64 (k, m)"
  shows "read_line parse_f64 (write_message m) number rd =
      Inr (rd\<lparr>rd_current := Some k, rd_messages := btree_insert k (m\<lparr>bo_signals := []\<rparr>) (rd_messages rd)\<rparr>)"
    and "s \<in> set (bo_signals m) \<Longrightarrow> rd_current rd = Some k \<Longrightarrow> read_line parse_f64 (write_signal write_f64 s) number rd =
      Inr (rd\<lparr>rd_messages := push_signal k s (rd_messages rd)\<rparr>)"
proof -
  have k: "k = Pgn_as_u32 (bo_pgn m)" using assms by (simp add: message_ok_def)
  show "read_line parse_f64 (write_message m) number rd =
      Inr (rd\<lparr>rd_current := Some k, rd_messages := btree_insert k (m\<lparr>bo_signals := []\<rparr>) (rd_messages rd)\<rparr>)"
    unfolding read_line_def trim_written Let_def strip_prefix_append option.case parse_written_message [OF assms] by (simp add: k)
  assume s: "s \<in> set (bo_signals m)" "rd_current rd = Some k"
  then have ok: "signal_ok parse_f64 write_f64 s" using assms by (auto simp: message_ok_def list_all_iff)
  have "strip_prefix (ascii ''BO_ '') (ascii ''SG_ '' @ r) = None" for r by (simp add: strip_prefix_def)
  then show "read_line parse_f64 (write_signal write_f64 s) number rd = Inr (rd\<lparr>rd_messages := push_signal k s (rd_messages rd)\<rparr>)"
    unfolding read_line_def trim_written Let_def strip_prefix_append option.case parse_written_signal [OF ok] by (simp add: s(2))
qed

lemma read_lines_append:
  "read_lines parse_f64 i (xs @ ys) rd =
     (case read_lines parse_f64 i xs rd of Inl e \<Rightarrow> Inl e | Inr rd1 \<Rightarrow> read_lines parse_f64 (i + length xs) ys rd1)"
  by (induction xs arbitrary: i rd) (simp_all split: sum.split)

lemma btree_insert_last: "\<forall>(k1, v) \<in> set t. k1 < k \<Longrightarrow> btree_insert k v t = t @ [(k, v)]"
  by (induction t) auto

lemma update_first_last: "\<forall>x \<in> set t. \<not> P x \<Longrightarrow> P x \<Longrightarrow> update_first P f (t @ [x]) = t @ [f x]"
  by (induction t) simp_all

lemma read_written_signals:
  assumes "message_ok parse_f64 write_f64 (k, m)" and "rd_messages rd = t @ [(k, m\<lparr>bo_signals := ss\<rparr>)]" and "\<forall>(k1, v) \<in> set t. k1 < k"
    and "rd_current rd = Some k" and "ss @ rest = bo_signals m"
  shows "read_lines parse_f64 i (map (write_signal write_f64) rest) rd = Inr (rd\<lparr>rd_messages := t @ [(k, m)]\<rparr>)"
  using assms(2,4,5)
proof (induction rest arbitrary: i rd ss)
  case Nil
  then show ?case by simp
next
  case (Cons s rest)
  let ?rd = "rd\<lparr>rd_messages := t @ [(k, m\<lparr>bo_signals := ss @ [s]\<rparr>)]\<rparr>"
  have "push_signal k s (rd_messages rd) = t @ [(k, m\<lparr>bo_signals := ss @ [s]\<rparr>)]"
    unfolding push_signal_def Cons.prems(1) using assms(3) by (subst update_first_last) auto
  moreover have "s \<in> set (bo_signals m)" using Cons.prems(3) by (metis in_set_conv_decomp)
  ultimately have "read_line parse_f64 (write_signal write_f64 s) (i + 1) rd = Inr ?rd"
    using read_written(2) [OF assms(1) _ Cons.prems(2)] by simp
  with Cons.IH [of ?rd "ss @ [s]" "i + 1"] Cons.prems show ?case by simp
qed

lemma read_written_dbc:
  assumes "layout_writable parse_f64 write_f64 (t @ dbc)" and "rd_messages rd = t"
  shows "\<exists>rd1. read_lines parse_f64 i (layout_lines write_f64 dbc) rd = Inr rd1 \<and> rd_messages rd1 = t @ dbc \<and>
    rd_value_tables rd1 = rd_value_tables rd \<and> rd_spn_attributes rd1 = rd_spn_attributes rd"
  using assms
proof (induction dbc arbitrary: t rd i)
  case (Cons km dbc)
  obtain k m where km: "km = (k, m)" by (cases km)
  have ok: "message_ok parse_f64 write_f64 (k, m)" and less: "\<forall>(k1, v) \<in> set t. k1 < k"
    using Cons.prems(1) by (auto simp: layout_writable_def km sorted_wrt_append)
  let ?rd = "rd\<lparr>rd_current := Some k, rd_messages := t @ [(k, m\<lparr>bo_signals := []\<rparr>)]\<rparr>"
  have "read_line parse_f64 (write_message m) (i + 1) rd = Inr ?rd"
    using read_written(1) [OF ok] btree_insert_last [OF less] Cons.prems(2) by simp
  moreover have "read_lines parse_f64 (i + 1) (map (write_signal write_f64) (bo_signals m)) ?rd = Inr (?rd\<lparr>rd_messages := t @ [(k, m)]\<rparr>)"
    by (rule read_written_signals [OF ok _ less, where ss = "[]"]) simp_all
  ultimately have "read_lines parse_f64 i (write_message m # map (write_signal write_f64) (bo_signals m)) rd =
      Inr (?rd\<lparr>rd_messages := t @ [km]\<rparr>)" by (simp add: km)
  moreover define ls where "ls = write_message m # map (write_signal write_f64) (bo_signals m)"
  ultimately have head: "read_lines parse_f64 i ls rd = Inr (?rd\<lparr>rd_messages := t @ [km]\<rparr>)" by simp
  let ?rd1 = "?rd\<lparr>rd_messages := t @ [km]\<rparr>"
  have "layout_writable parse_f64 write_f64 ((t @ [km]) @ dbc)" using Cons.prems(1) by simp
  from Cons.IH [OF this, of ?rd1 "i + length ls"] obtain rd2 where
    "read_lines parse_f64 (i + length ls) (layout_lines write_f64 dbc) ?rd1 = Inr rd2"
    "rd_messages rd2 = t @ km # dbc" "rd_value_tables rd2 = rd_value_tables rd" "rd_spn_attributes rd2 = rd_spn_attributes rd"
    by auto
  moreover have "layout_lines write_f64 (km # dbc) = ls @ layout_lines write_f64 dbc"
    by (simp add: layout_lines_def km ls_def)
  ultimately show ?case using read_lines_append [of parse_f64 i ls "layout_lines write_f64 dbc" rd] head by simp
qed (simp add: layout_lines_def)

lemma layout_lines_clean:
  assumes "layout_writable parse_f64 write_f64 dbc" and "l \<in> set (layout_lines write_f64 dbc)"
  shows "0x0A \<notin> set l \<and> (l \<noteq> [] \<longrightarrow> last l \<noteq> 0x0D)"
proof -
  obtain k m where m: "message_ok parse_f64 write_f64 (k, m)" "l = write_message m \<or> (\<exists>s \<in> set (bo_signals m). l = write_signal write_f64 s)"
    using assms by (fastforce simp: layout_writable_def layout_lines_def list_all_iff)
  have lf: "0x0A \<notin> set w" if "list_all graphic w" for w using that by (auto simp: list_all_iff graphic_def)
  have d: "0x0A \<notin> set (decimal n)" for n by (rule show_number_no) (simp_all add: digit_bytes_def)
  from m(2) show ?thesis
  proof
    assume l: "l = write_message m"
    have "0x0A \<notin> set (bo_name m)" using m(1) by (intro lf name_okD(1)) (simp add: message_ok_def)
    then show ?thesis using d by (simp add: l write_message_def)
  next
    assume "\<exists>s \<in> set (bo_signals m). l = write_signal write_f64 s"
    then obtain s where s: "s \<in> set (bo_signals m)" "l = write_signal write_f64 s" by blast
    then have ok: "signal_ok parse_f64 write_f64 s" using m(1) by (auto simp: message_ok_def list_all_iff)
    have "0x0A \<notin> set (write_f64 x)" if "x \<in> {ds_factor s, ds_offset s, ds_minimum s, ds_maximum s}" for x
      using ok that by (intro lf) (auto simp: signal_ok_def number_reads_def number_text_def list_all_iff)
    moreover have "0x0A \<notin> set (ds_name s)" using ok by (intro lf name_okD(1)) (simp add: signal_ok_def)
    moreover have "0x0A \<notin> set (ds_unit s)" using ok by (simp add: signal_ok_def)
    ultimately show ?thesis using d by (simp add: s(2) write_signal_def quote_def split: byte_order.split)
  qed
qed

text \<open>Decimal numbers are among the texts that can be written.\<close>

lemma number_reads_decimal:
  assumes "n \<le> limit"
  shows "number_reads (from_str_radix 10 limit) decimal n"
proof -
  have "b \<notin> set (ascii '',|()[]'')" if "b \<in> digit_bytes" for b using that by (auto simp: digit_bytes_def unat_iffs)
  then have "list_all (\<lambda>b. graphic b \<and> b \<notin> set (ascii '',|()[]'')) (decimal n)"
    unfolding list_all_iff using show_number_digits [of 10 _ 1 n] digit_bytes_graphic by simp
  with assms show ?thesis by (simp add: number_reads_def number_text_def from_str_radix_shown)
qed

end
