(* ===== verification/Dbc_Round_Trip.thy ===== *)
theory Dbc_Round_Trip
  imports Dbc_Writer
begin

text \<open>
  A whole DBC file: the messages and signals of \<open>Dbc_Writer\<close>, then a line for each value table and for each
  SPN. The reader of \<open>Dbc_Database\<close> collects these and attaches them to the signals they name; a database
  whose messages have distinct identifiers and whose messages name each signal once is read back whole.
\<close>

section \<open>Value tables and SPN attributes\<close>

text \<open>The same function on every signal, given the identifier of its message.\<close>

definition set_signals :: "(u32 \<Rightarrow> 'f dbc_signal \<Rightarrow> 'f dbc_signal) \<Rightarrow> 'f dbc \<Rightarrow> 'f dbc" where
  "set_signals g = map (\<lambda>(k, m). (k, m\<lparr>bo_signals := map (g (Id_as_u32 (bo_id m))) (bo_signals m)\<rparr>))"

definition bare :: "'f dbc_signal \<Rightarrow> 'f dbc_signal" where
  "bare s = s\<lparr>ds_spn := None, ds_value_names := []\<rparr>"

text \<open>One identifier per message, one name per signal of a message.\<close>

definition named_once :: "'f dbc \<Rightarrow> bool" where
  "named_once dbc \<longleftrightarrow> distinct (map (\<lambda>km. Id_as_u32 (bo_id (snd km))) dbc) \<and>
     list_all (\<lambda>(k, m). distinct (map ds_name (bo_signals m))) dbc"

lemma set_signals_id:
  assumes "\<And>k m s. (k, m) \<in> set dbc \<Longrightarrow> s \<in> set (bo_signals m) \<Longrightarrow> g (Id_as_u32 (bo_id m)) s = s"
  shows "set_signals g dbc = dbc"
  unfolding set_signals_def
proof (rule map_idI)
  fix km assume "km \<in> set dbc"
  then have "map (g (Id_as_u32 (bo_id (snd km)))) (bo_signals (snd km)) = bo_signals (snd km)"
    using assms [of "fst km" "snd km"] by (intro map_idI) simp
  then show "(case km of (k, m) \<Rightarrow> (k, m\<lparr>bo_signals := map (g (Id_as_u32 (bo_id m))) (bo_signals m)\<rparr>)) = km"
    by (cases km) simp
qed

lemma update_first_unique:
  "distinct (map h xs) \<Longrightarrow> update_first (\<lambda>x. h x = c) f xs = map (\<lambda>x. if h x = c then f x else x) xs"
proof (induction xs)
  case (Cons x xs)
  have "map (\<lambda>x. if h x = c then f x else x) xs = xs" if "h x = c"
    using that Cons.prems by (intro map_idI) (metis distinct.simps(2) imageI list.set_map list.simps(9))
  with Cons show ?case by simp
qed simp

lemma set_signals_facts:
  assumes "\<And>j s. ds_name (g j s) = ds_name s"
  shows "named_once (set_signals g dbc) = named_once dbc"
    and "set_signals h (set_signals g dbc) = set_signals (\<lambda>j s. h j (g j s)) dbc"
  using assms by (auto simp: named_once_def set_signals_def list_all_iff comp_def split_beta)

lemma update_signal_set:
  fixes dbc :: "'f dbc"
  assumes "named_once dbc"
  shows "update_signal f i name dbc = set_signals (\<lambda>j s. if j = i \<and> ds_name s = name then f s else s) dbc"
proof -
  let ?id = "\<lambda>km :: u32 \<times> 'f dbc_message. Id_as_u32 (bo_id (snd km))"
  let ?f = "\<lambda>(k, m). (k, m\<lparr>bo_signals := update_first (\<lambda>s. ds_name s = name) f (bo_signals m)\<rparr>)"
  have "(\<lambda>(k, m). Id_as_u32 (bo_id m) = i) = (\<lambda>km. ?id km = i)" by (simp add: fun_eq_iff)
  from arg_cong [OF this, of "\<lambda>P. update_first P ?f dbc"]
  have "update_signal f i name dbc = update_first (\<lambda>km. ?id km = i) ?f dbc" by (simp only: update_signal_def)
  also have "\<dots> = map (\<lambda>km. if ?id km = i then ?f km else km) dbc"
    using assms by (intro update_first_unique) (simp add: named_once_def)
  also have "\<dots> = set_signals (\<lambda>j s. if j = i \<and> ds_name s = name then f s else s) dbc"
    unfolding set_signals_def
  proof (rule map_cong [OF refl])
    fix km assume "km \<in> set dbc"
    then have "distinct (map ds_name (bo_signals (snd km)))" using assms by (auto simp: named_once_def list_all_iff)
    then show "(if ?id km = i then ?f km else km) =
        (\<lambda>(k, m). (k, m\<lparr>bo_signals := map (\<lambda>s. if Id_as_u32 (bo_id m) = i \<and> ds_name s = name then f s else s) (bo_signals m)\<rparr>)) km"
      by (cases km) (simp add: update_first_unique)
  qed
  finally show ?thesis .
qed

lemma fold_update_signals:
  assumes "named_once dbc" and "\<And>x s. ds_name (put x s) = ds_name s"
  shows "fold (\<lambda>(i, name, x). update_signal (put x) i name) es dbc =
    set_signals (\<lambda>j s. fold (\<lambda>(i, name, x) s. if j = i \<and> ds_name s = name then put x s else s) es s) dbc"
  using assms(1)
proof (induction es arbitrary: dbc)
  case Nil
  then show ?case by (simp add: set_signals_def map_idI split_beta)
next
  case (Cons e es)
  obtain i name x where e: "e = (i, name, x)" by (cases e)
  let ?g = "\<lambda>j s. if j = i \<and> ds_name s = name then put x s else s"
  have keep: "ds_name (?g j s) = ds_name s" for j s using assms(2) by simp
  have "named_once (set_signals ?g dbc)" using Cons.prems set_signals_facts(1) [of ?g dbc] keep by simp
  from Cons.IH [OF this] show ?case
    using update_signal_set [OF Cons.prems, of "put x" i name] set_signals_facts(2) [of ?g, OF keep] by (simp add: e)
qed

text \<open>Entries that agree on a signal leave their value there.\<close>

lemma fold_agreeing:
  assumes "\<And>i name x. (i, name, x) \<in> set es \<Longrightarrow> i = j \<Longrightarrow> name = ds_name s \<Longrightarrow> put x s = t \<and> put x t = t"
    and "ds_name t = ds_name s"
  shows "fold (\<lambda>(i, name, x) s. if j = i \<and> ds_name s = name then put x s else s) es s =
    (if \<exists>x. (j, ds_name s, x) \<in> set es then t else s)"
proof -
  let ?step = "\<lambda>(i, name, x) s. if j = i \<and> ds_name s = name then put x s else s"
  have stays: "fold ?step es t = t" if "\<And>i name x. (i, name, x) \<in> set es \<Longrightarrow> i = j \<Longrightarrow> name = ds_name t \<Longrightarrow> put x t = t" for es
    using that by (induction es) auto
  show ?thesis
    using assms(1)
  proof (induction es)
    case (Cons e es)
    obtain i name x where e: "e = (i, name, x)" by (cases e)
    show ?case
    proof (cases "j = i \<and> ds_name s = name")
      case True
      have "(i, name, x) \<in> set (e # es)" by (simp add: e)
      from Cons.prems [OF this] True have "put x s = t" by blast
      moreover have "fold ?step es t = t"
      proof (rule stays)
        fix i1 name1 x1 assume "(i1, name1, x1) \<in> set es" "i1 = j" "name1 = ds_name t"
        then have "(i1, name1, x1) \<in> set (e # es)" "i1 = j" "name1 = ds_name s" by (simp_all add: assms(2))
        then show "put x1 t = t" using Cons.prems by blast
      qed
      ultimately have "fold ?step (e # es) s = t" using True by (simp add: e)
      moreover have "(j, ds_name s, x) \<in> set (e # es)" using True by (simp add: e)
      ultimately show ?thesis by (simp only: if_P [OF exI])
    next
      case False
      have "fold ?step es s = (if \<exists>x. (j, ds_name s, x) \<in> set es then t else s)"
        by (rule Cons.IH) (rule Cons.prems [OF list.set_intros(2)])
      moreover have "fold ?step (e # es) s = fold ?step es s" using False by (auto simp: e)
      moreover have "(\<exists>x. (j, ds_name s, x) \<in> set (e # es)) \<longleftrightarrow> (\<exists>x. (j, ds_name s, x) \<in> set es)" using False by (auto simp: e)
      ultimately show ?thesis by simp
    qed
  qed simp
qed

definition value_tables :: "'f dbc \<Rightarrow> (u32 \<times> bytes \<times> (u32 \<times> bytes) list) list" where
  "value_tables dbc = concat (map (\<lambda>(k, m). map (\<lambda>s. (Id_as_u32 (bo_id m), ds_name s, ds_value_names s))
     (filter ds_is_enumerated (bo_signals m))) dbc)"

definition spn_attributes :: "'f dbc \<Rightarrow> (u32 \<times> bytes \<times> u32) list" where
  "spn_attributes dbc = concat (map (\<lambda>(k, m). map (\<lambda>s. (Id_as_u32 (bo_id m), ds_name s, the (ds_spn s)))
     (filter (\<lambda>s. ds_spn s \<noteq> None) (bo_signals m))) dbc)"

lemma entries_iff:
  assumes "named_once dbc" and "(k, m) \<in> set dbc" and "s \<in> set (bo_signals m)"
  shows "(Id_as_u32 (bo_id m), ds_name s, t) \<in> set (value_tables dbc) \<longleftrightarrow> ds_is_enumerated s \<and> t = ds_value_names s"
    and "(Id_as_u32 (bo_id m), ds_name s, n) \<in> set (spn_attributes dbc) \<longleftrightarrow> ds_spn s = Some n"
proof -
  have same: "s1 = s" if "(k1, m1) \<in> set dbc" "s1 \<in> set (bo_signals m1)" "Id_as_u32 (bo_id m1) = Id_as_u32 (bo_id m)"
    "ds_name s1 = ds_name s" for k1 m1 s1
  proof -
    have "(k1, m1) = (k, m)"
      using assms(1,2) that(1,3) by (auto simp: named_once_def distinct_map dest!: inj_onD [where x = "(k1, m1)" and y = "(k, m)"])
    moreover have "inj_on ds_name (set (bo_signals m))" using assms(1,2) by (auto simp: named_once_def list_all_iff distinct_map)
    ultimately show ?thesis using that(2,4) assms(3) by (auto dest: inj_onD)
  qed
  show "(Id_as_u32 (bo_id m), ds_name s, t) \<in> set (value_tables dbc) \<longleftrightarrow> ds_is_enumerated s \<and> t = ds_value_names s"
    using same assms(2,3) by (fastforce simp: value_tables_def)
  show "(Id_as_u32 (bo_id m), ds_name s, n) \<in> set (spn_attributes dbc) \<longleftrightarrow> ds_spn s = Some n"
    using same assms(2,3) by (fastforce simp: spn_attributes_def)
qed

text \<open>Attaching what was collected restores a database from its layout.\<close>

lemma attached:
  fixes dbc :: "'f dbc"
  assumes "named_once dbc"
  shows "fold (\<lambda>(i, name, n). update_signal (\<lambda>s. s\<lparr>ds_spn := Some n\<rparr>) i name) (spn_attributes dbc)
      (fold (\<lambda>(i, name, t). update_signal (\<lambda>s. s\<lparr>ds_value_names := t\<rparr>) i name) (value_tables dbc) (set_signals (\<lambda>_. bare) dbc)) = dbc"
proof -
  let ?t = "\<lambda>t s. s\<lparr>ds_value_names := t\<rparr>" and ?n = "\<lambda>n s. s\<lparr>ds_spn := Some n\<rparr>"
  let ?names = "\<lambda>j s. fold (\<lambda>(i, name, t) s. if j = i \<and> ds_name s = name then ?t t s else s) (value_tables dbc) s"
  let ?spns = "\<lambda>j s. fold (\<lambda>(i, name, n) s. if j = i \<and> ds_name s = name then ?n n s else s) (spn_attributes dbc) s"
  have bare: "ds_name (bare s) = ds_name s" for s :: "'f dbc_signal" by (simp add: bare_def)
  have "ds_name (fold (\<lambda>(i, name, t) s. if j = i \<and> ds_name s = name then ?t t s else s) es s) = ds_name s" for j es s
    by (induction es arbitrary: s) (auto split: prod.split)
  then have names: "ds_name (?names j s) = ds_name s" for j s .
  have once: "named_once (set_signals (\<lambda>_. bare) dbc)" unfolding set_signals_facts(1) [of "\<lambda>_. bare" dbc, OF bare] by (rule assms)
  have restored: "?spns (Id_as_u32 (bo_id m)) (?names (Id_as_u32 (bo_id m)) (bare s)) = s"
    if "(k, m) \<in> set dbc" "s \<in> set (bo_signals m)" for k m s
  proof -
    note e = entries_iff [OF assms that]
    have "?names (Id_as_u32 (bo_id m)) (bare s) = s\<lparr>ds_spn := None\<rparr>"
      using e(1) by (subst fold_agreeing [where t = "s\<lparr>ds_spn := None\<rparr>"]) (auto simp: bare_def ds_is_enumerated_def)
    moreover have "?spns (Id_as_u32 (bo_id m)) (s\<lparr>ds_spn := None\<rparr>) = s"
      using e(2) by (subst fold_agreeing [where t = s]) (cases "ds_spn s"; force)+
    ultimately show ?thesis by simp
  qed
  define g where "g = (\<lambda>j (s :: 'f dbc_signal). ?names j (bare s))"
  have keep: "ds_name (g j s) = ds_name s" for j s by (simp add: g_def names bare)
  have "fold (\<lambda>(i, name, t). update_signal (?t t) i name) (value_tables dbc) (set_signals (\<lambda>_. bare) dbc) = set_signals g dbc"
    using fold_update_signals [OF once, of ?t] set_signals_facts(2) [of "\<lambda>_. bare", OF bare] by (simp add: g_def)
  moreover have "named_once (set_signals g dbc)" unfolding set_signals_facts(1) [of g dbc, OF keep] by (rule assms)
  ultimately have "fold (\<lambda>(i, name, n). update_signal (?n n) i name) (spn_attributes dbc)
      (fold (\<lambda>(i, name, t). update_signal (?t t) i name) (value_tables dbc) (set_signals (\<lambda>_. bare) dbc)) =
      set_signals (\<lambda>j s. ?spns j (g j s)) dbc"
    using fold_update_signals [of "set_signals g dbc" ?n] set_signals_facts(2) [of g, OF keep] by simp
  also have "\<dots> = dbc" unfolding g_def by (rule set_signals_id) (rule restored)
  finally show ?thesis .
qed

section \<open>Their lines\<close>

definition write_entry :: "u32 \<times> bytes \<Rightarrow> bytes" where
  "write_entry = (\<lambda>(n, name). decimal (unat n) @ [0x20, quote] @ name @ [quote, 0x20])"

definition write_table :: "u32 \<times> bytes \<times> (u32 \<times> bytes) list \<Rightarrow> bytes" where
  "write_table = (\<lambda>(i, name, table).
     ascii ''VAL_ '' @ decimal (unat (i OR 0x80000000)) @ ascii '' '' @ name @ ascii '' '' @ concat (map write_entry table) @ ascii '';'')"

definition write_attribute :: "u32 \<times> bytes \<times> u32 \<Rightarrow> bytes" where
  "write_attribute = (\<lambda>(i, name, n).
     ascii ''BA_ '' @ [quote] @ ascii ''SPN'' @ [quote] @ ascii '' SG_ '' @ decimal (unat (i OR 0x80000000)) @ ascii '' '' @ name @
     ascii '' '' @ decimal (unat n) @ ascii '';'')"

definition write_dbc :: "('f \<Rightarrow> bytes) \<Rightarrow> 'f dbc \<Rightarrow> bytes" where
  "write_dbc write_f64 dbc = concat (map (\<lambda>l. l @ [0x0A])
     (layout_lines write_f64 dbc @ map write_table (value_tables dbc) @ map write_attribute (spn_attributes dbc)))"

text \<open>The names of values have no quote and no line end.\<close>

definition table_ok :: "(u32 \<times> bytes) list \<Rightarrow> bool" where
  "table_ok t \<longleftrightarrow> sorted_wrt (<) (map fst t) \<and> list_all (\<lambda>(n, name). quote \<notin> set name \<and> 0x0A \<notin> set name) t"

definition writable_dbc :: "(bytes \<Rightarrow> 'f option) \<Rightarrow> ('f \<Rightarrow> bytes) \<Rightarrow> 'f dbc \<Rightarrow> bool" where
  "writable_dbc parse_f64 write_f64 dbc \<longleftrightarrow>
     layout_writable parse_f64 write_f64 (set_signals (\<lambda>_. bare) dbc) \<and> named_once dbc \<and>
     list_all (\<lambda>(k, m). list_all (\<lambda>s. table_ok (ds_value_names s)) (bo_signals m)) dbc"

lemma layout_lines_bare [simp]:
  fixes dbc :: "'f dbc"
  shows "layout_lines write_f64 (set_signals (\<lambda>_. bare) dbc) = layout_lines write_f64 dbc"
proof -
  have "write_message (m\<lparr>bo_signals := ss\<rparr>) = write_message m" for m :: "'f dbc_message" and ss by (simp add: write_message_def)
  moreover have "write_signal write_f64 (bare s) = write_signal write_f64 s" for s by (simp add: write_signal_def bare_def)
  ultimately show ?thesis unfolding layout_lines_def set_signals_def map_map
    by (intro arg_cong [where f = concat] map_cong refl) (auto simp: comp_def)
qed

lemma value_entries_space: "value_entries (0x20 # s) t = value_entries s t"
  by (simp add: value_entries.simps [of "0x20 # s"] value_entries.simps [of s])

lemma value_entries_written:
  assumes "list_all (\<lambda>(n, name). quote \<notin> set name) es"
  shows "value_entries (concat (map write_entry es)) t = fold (\<lambda>(n, name). btree_insert n name) es t"
  using assms
proof (induction es arbitrary: t)
  case Nil
  show ?case by (simp add: value_entries.simps [of "[]"])
next
  case (Cons e es)
  obtain n name where e: "e = (n, name)" by (cases e)
  let ?rest = "concat (map write_entry es)"
  define d where "d = decimal (unat n)"
  have g: "list_all graphic d" "d \<noteq> []" "parse_u32 d = Some n" by (simp_all add: d_def show_number_graphic decimal_reads)
  have "concat (map write_entry (e # es)) = d @ 0x20 # quote # name @ quote # 0x20 # ?rest"
    by (simp add: write_entry_def e d_def)
  moreover have "split_once_ws (trim_start (d @ 0x20 # r)) = Some (d, r)" for r
    using trim_start_word [OF g(1,2)] split_ws_word [OF g(1)] by simp
  moreover have "slice_between (quote # name @ quote # 0x20 # ?rest) quote quote = Some (name, 0x20 # ?rest)"
    using slice_between_written [of quote "[]" quote name] Cons.prems by (simp add: e)
  ultimately have "value_entries (concat (map write_entry (e # es))) t = value_entries (0x20 # ?rest) (btree_insert n name t)"
    by (simp add: value_entries.simps [of "d @ _"] g(3))
  then show ?case using Cons by (simp add: value_entries_space e)
qed

lemma fold_btree_insert:
  "sorted_wrt (<) (map fst (t @ es)) \<Longrightarrow> fold (\<lambda>(n, name). btree_insert n name) es t = t @ es"
proof (induction es arbitrary: t)
  case (Cons e es)
  have "btree_insert (fst e) (snd e) t = t @ [e]"
    using Cons.prems btree_insert_last [of t "fst e" "snd e"] by (fastforce simp: sorted_wrt_append)
  with Cons.IH [of "t @ [e]"] Cons.prems show ?case by (simp add: split_beta)
qed simp

lemma ends_with_semicolon:
  assumes "graphic (hd s)" and "s \<noteq> []"
  shows "trim (s @ [byte CHR '';'']) = s @ [byte CHR '';'']"
    and "last s \<noteq> byte CHR '';'' \<Longrightarrow> trim_end_matches (byte CHR '';'') (s @ [byte CHR '';'']) = s"
proof -
  show "trim (s @ [byte CHR '';'']) = s @ [byte CHR '';'']"
    using assms by (intro trim_graphic) (simp_all add: graphic_def)
  assume "last s \<noteq> byte CHR '';''"
  then show "trim_end_matches (byte CHR '';'') (s @ [byte CHR '';'']) = s"
    using assms(2) by (cases s rule: rev_cases) (simp_all add: trim_end_matches_def)
qed

lemma graphic_start: "list_all graphic w \<Longrightarrow> w \<noteq> [] \<Longrightarrow> graphic (hd (w @ r))"
  by (cases w) simp_all

lemma parse_written_table:
  assumes "Id_ok i" and "name_ok name" and "table_ok table"
  shows "parse_value_table (drop 5 (write_table (Id_as_u32 i, name, table))) = Some (Id_as_u32 i, name, table)"
proof -
  let ?i = "decimal (unat (Id_as_u32 i OR 0x80000000))" and ?es = "concat (map write_entry table)"
  note name = name_okD [OF assms(2)]
  have g: "list_all graphic ?i" "?i \<noteq> []" by (simp_all add: show_number_graphic)
  let ?s = "?i @ 0x20 # name @ 0x20 # ?es"
  have written: "drop 5 (write_table (Id_as_u32 i, name, table)) = ?s @ [byte CHR '';'']" by (simp add: write_table_def)
  have "?s = (?i @ 0x20 # name) @ 0x20 # ?es" by simp
  moreover have "last (0x20 # ?es) = 0x20"
    by (cases table rule: rev_cases) (simp_all add: write_entry_def split_beta)
  ultimately have "last ?s = 0x20" by (metis last_appendR list.discI)
  then have cut: "trim_end_matches (byte CHR '';'') (trim (?s @ [byte CHR '';''])) = ?s"
    using ends_with_semicolon [of ?s] graphic_start [OF g] by simp
  have "split_once_ws ?s = Some (?i, name @ 0x20 # ?es)" by (rule split_ws_word [OF g(1)])
  moreover have "split_once_ws (trim_start (name @ 0x20 # ?es)) = Some (name, ?es)"
    using trim_start_word [OF name(1,2)] split_ws_word [OF name(1)] by simp
  moreover have "value_entries ?es [] = table"
    using assms(3) value_entries_written [of table "[]"] fold_btree_insert [of "[]" table]
    by (auto simp: table_ok_def list_all_iff)
  ultimately show ?thesis
    unfolding parse_value_table_def written cut using extended_flag [OF assms(1)] by (simp add: decimal_reads)
qed

lemma parse_written_attribute:
  assumes "Id_ok i" and "name_ok name"
  shows "parse_spn_attribute (drop 4 (write_attribute (Id_as_u32 i, name, n))) = Some (Id_as_u32 i, name, n)"
proof -
  let ?i = "decimal (unat (Id_as_u32 i OR 0x80000000))" and ?n = "decimal (unat n)"
  note name = name_okD [OF assms(2)]
  have g: "list_all graphic (decimal k)" "decimal k \<noteq> []" for k by (simp_all add: show_number_graphic)
  let ?tail = "0x20 # ascii ''SG_'' @ 0x20 # ?i @ 0x20 # name @ 0x20 # ?n"
  let ?s = "quote # ascii ''SPN'' @ quote # ?tail"
  have written: "drop 4 (write_attribute (Id_as_u32 i, name, n)) = ?s @ [byte CHR '';'']" by (simp add: write_attribute_def)
  have "?s = (quote # ascii ''SPN'' @ quote # 0x20 # ascii ''SG_'' @ 0x20 # ?i @ 0x20 # name @ [0x20]) @ ?n" by simp
  then have "last ?s = last ?n" by (simp only: last_appendR [OF g(2)])
  moreover have "last ?n \<in> digit_bytes" using show_number_digits [of 10 "last ?n" 1 "unat n"] by simp
  moreover have "byte CHR '';'' \<notin> digit_bytes" by (simp add: digit_bytes_def)
  ultimately have "last ?s \<noteq> byte CHR '';''" by metis
  then have cut: "trim_end_matches (byte CHR '';'') (trim (?s @ [byte CHR '';''])) = ?s"
    using ends_with_semicolon [of ?s] by (simp add: graphic_def quote_def)
  have "slice_between ?s quote quote = Some (ascii ''SPN'', ?tail)"
    using slice_between_written [of quote "[]" quote "ascii ''SPN''"] by (simp add: quote_def)
  moreover have "split_whitespace ?tail = [ascii ''SG_'', ?i, name, ?n]"
    using split_whitespace_simps(1) [of "ascii ''SG_''"] g name(1,2)
    by (simp add: split_whitespace_simps graphic_def)
  ultimately show ?thesis
    unfolding parse_spn_attribute_def written cut using extended_flag [OF assms(1)]
    by (simp add: decimal_reads at_index_def)
qed

lemma read_written_tables:
  assumes "list_all (\<lambda>(i, name, table). (\<exists>j. Id_ok j \<and> i = Id_as_u32 j) \<and> name_ok name \<and> table_ok table) es"
  shows "\<exists>cur. read_lines parse_f64 n (map write_table es) rd = Inr (rd\<lparr>rd_current := cur, rd_value_tables := rd_value_tables rd @ es\<rparr>)"
  using assms
proof (induction es arbitrary: n rd)
  case Nil
  show ?case by (intro exI [of _ "rd_current rd"]) simp
next
  case (Cons e es)
  obtain i name table where e0: "e = (i, name, table)" by (cases e)
  with Cons.prems obtain j where e: "e = (Id_as_u32 j, name, table)"
    and ok: "Id_ok j" "name_ok name" "table_ok table" by auto
  let ?l = "write_table e"
  have l: "?l = ascii ''VAL_ '' @ drop 5 ?l" by (simp add: write_table_def e)
  have "trim ?l = ?l" by (rule trim_graphic) (simp_all add: write_table_def e graphic_def)
  then have "trim ?l = ascii ''VAL_ '' @ drop 5 ?l" using l by simp
  moreover have "strip_prefix (ascii ''BO_ '') (ascii ''VAL_ '' @ r) = None" "strip_prefix (ascii ''SG_ '') (ascii ''VAL_ '' @ r) = None" for r
    by (simp_all add: strip_prefix_def)
  ultimately have "read_line parse_f64 ?l (n + 1) rd = Inr (rd\<lparr>rd_current := None, rd_value_tables := rd_value_tables rd @ [e]\<rparr>)"
    unfolding read_line_def Let_def by (simp only: strip_prefix_append option.case) (simp add: e parse_written_table [OF ok])
  moreover obtain cur where "read_lines parse_f64 (n + 1) (map write_table es) (rd\<lparr>rd_current := None, rd_value_tables := rd_value_tables rd @ [e]\<rparr>) =
      Inr (rd\<lparr>rd_current := cur, rd_value_tables := rd_value_tables rd @ e # es\<rparr>)"
    using Cons.IH [of "n + 1" "rd\<lparr>rd_current := None, rd_value_tables := rd_value_tables rd @ [e]\<rparr>"] Cons.prems by auto
  ultimately show ?case by auto
qed

lemma read_written_attributes:
  assumes "list_all (\<lambda>(i, name, n). (\<exists>j. Id_ok j \<and> i = Id_as_u32 j) \<and> name_ok name) es"
  shows "\<exists>cur. read_lines parse_f64 n (map write_attribute es) rd = Inr (rd\<lparr>rd_current := cur, rd_spn_attributes := rd_spn_attributes rd @ es\<rparr>)"
  using assms
proof (induction es arbitrary: n rd)
  case Nil
  show ?case by (intro exI [of _ "rd_current rd"]) simp
next
  case (Cons e es)
  obtain i name x where e0: "e = (i, name, x)" by (cases e)
  with Cons.prems obtain j where e: "e = (Id_as_u32 j, name, x)" and ok: "Id_ok j" "name_ok name" by auto
  let ?l = "write_attribute e"
  have l: "?l = ascii ''BA_ '' @ drop 4 ?l" by (simp add: write_attribute_def e)
  have "trim ?l = ?l" by (rule trim_graphic) (simp_all add: write_attribute_def e graphic_def)
  then have "trim ?l = ascii ''BA_ '' @ drop 4 ?l" using l by simp
  moreover have "strip_prefix (ascii ''BO_ '') (ascii ''BA_ '' @ r) = None" "strip_prefix (ascii ''SG_ '') (ascii ''BA_ '' @ r) = None"
    "strip_prefix (ascii ''VAL_ '') (ascii ''BA_ '' @ r) = None" for r
    by (simp_all add: strip_prefix_def)
  ultimately have "read_line parse_f64 ?l (n + 1) rd = Inr (rd\<lparr>rd_current := None, rd_spn_attributes := rd_spn_attributes rd @ [e]\<rparr>)"
    unfolding read_line_def Let_def by (simp only: strip_prefix_append option.case) (simp add: e parse_written_attribute [OF ok])
  moreover obtain cur where "read_lines parse_f64 (n + 1) (map write_attribute es) (rd\<lparr>rd_current := None, rd_spn_attributes := rd_spn_attributes rd @ [e]\<rparr>) =
      Inr (rd\<lparr>rd_current := cur, rd_spn_attributes := rd_spn_attributes rd @ e # es\<rparr>)"
    using Cons.IH [of "n + 1" "rd\<lparr>rd_current := None, rd_spn_attributes := rd_spn_attributes rd @ [e]\<rparr>"] Cons.prems by auto
  ultimately show ?case by auto
qed

section \<open>Files\<close>

lemma entries_ok:
  assumes "writable_dbc parse_f64 write_f64 dbc"
  shows "list_all (\<lambda>(i, name, table). (\<exists>j. Id_ok j \<and> i = Id_as_u32 j) \<and> name_ok name \<and> table_ok table) (value_tables dbc)"
    and "list_all (\<lambda>(i, name, n). (\<exists>j. Id_ok j \<and> i = Id_as_u32 j) \<and> name_ok name) (spn_attributes dbc)"
proof -
  have "Id_ok (bo_id m) \<and> name_ok (ds_name s) \<and> table_ok (ds_value_names s)" if "(k, m) \<in> set dbc" "s \<in> set (bo_signals m)" for k m s
    using assms that by (fastforce simp: writable_dbc_def layout_writable_def set_signals_def message_ok_def signal_ok_def bare_def list_all_iff)
  then show "list_all (\<lambda>(i, name, table). (\<exists>j. Id_ok j \<and> i = Id_as_u32 j) \<and> name_ok name \<and> table_ok table) (value_tables dbc)"
    "list_all (\<lambda>(i, name, n). (\<exists>j. Id_ok j \<and> i = Id_as_u32 j) \<and> name_ok name) (spn_attributes dbc)"
    by (auto simp: value_tables_def spn_attributes_def list_all_iff)
qed

lemma entry_lines_clean:
  assumes "name_ok name"
  shows "table_ok t \<Longrightarrow> 0x0A \<notin> set (write_table (i, name, t)) \<and> last (write_table (i, name, t)) \<noteq> 0x0D"
    and "0x0A \<notin> set (write_attribute (i, name, n)) \<and> last (write_attribute (i, name, n)) \<noteq> 0x0D"
proof -
  have d: "0x0A \<notin> set (decimal n)" for n by (rule show_number_no) (simp_all add: digit_bytes_def)
  have "0x0A \<notin> set name" using name_okD(1) [OF assms] by (auto simp: list_all_iff graphic_def)
  with d show "table_ok t \<Longrightarrow> 0x0A \<notin> set (write_table (i, name, t)) \<and> last (write_table (i, name, t)) \<noteq> 0x0D"
    "0x0A \<notin> set (write_attribute (i, name, n)) \<and> last (write_attribute (i, name, n)) \<noteq> 0x0D"
    by (auto simp: write_table_def write_attribute_def write_entry_def quote_def table_ok_def list_all_iff)
qed

lemma write_dbc_lines:
  assumes "writable_dbc parse_f64 write_f64 dbc"
  shows "text_lines (write_dbc write_f64 dbc) =
    layout_lines write_f64 dbc @ map write_table (value_tables dbc) @ map write_attribute (spn_attributes dbc)"
  unfolding write_dbc_def
proof (rule text_lines_concat, rule ballI)
  fix l assume "l \<in> set (layout_lines write_f64 dbc @ map write_table (value_tables dbc) @ map write_attribute (spn_attributes dbc))"
  then consider "l \<in> set (layout_lines write_f64 (set_signals (\<lambda>_. bare) dbc))"
    | e where "e \<in> set (value_tables dbc)" "l = write_table e" | e where "e \<in> set (spn_attributes dbc)" "l = write_attribute e"
    by auto
  then show "0x0A \<notin> set l \<and> (l \<noteq> [] \<longrightarrow> last l \<noteq> 0x0D)"
  proof cases
    case 1
    then show ?thesis
      using layout_lines_clean [of parse_f64 write_f64 "set_signals (\<lambda>_. bare) dbc" l] assms by (simp add: writable_dbc_def)
  next
    case 2
    then show ?thesis using entries_ok(1) [OF assms] entry_lines_clean(1) by (fastforce simp: list_all_iff)
  next
    case 3
    then show ?thesis using entries_ok(2) [OF assms] entry_lines_clean(2) by (fastforce simp: list_all_iff)
  qed
qed

lemma dbc_round_trip:
  assumes "writable_dbc parse_f64 write_f64 dbc"
  shows "Dbc_parse parse_f64 (write_dbc write_f64 dbc) = Inr dbc"
proof -
  let ?rd = "\<lparr>rd_messages = [], rd_current = None, rd_value_tables = [], rd_spn_attributes = []\<rparr>"
  let ?layout = "layout_lines write_f64 dbc" and ?tables = "map write_table (value_tables dbc)"
  obtain rd where rd: "read_lines parse_f64 0 ?layout ?rd = Inr rd" "rd_messages rd = set_signals (\<lambda>_. bare) dbc"
    "rd_value_tables rd = []" "rd_spn_attributes rd = []"
    using read_written_dbc [of parse_f64 write_f64 "[]" "set_signals (\<lambda>_. bare) dbc" ?rd 0] assms by (auto simp: writable_dbc_def)
  obtain cur1 where tables: "read_lines parse_f64 (0 + length ?layout) ?tables rd =
      Inr (rd\<lparr>rd_current := cur1, rd_value_tables := value_tables dbc\<rparr>)"
    using read_written_tables [OF entries_ok(1) [OF assms], of parse_f64 "0 + length ?layout" rd] rd(3)
    by auto
  obtain rd2 where attributes: "read_lines parse_f64 (0 + length ?layout + length ?tables) (map write_attribute (spn_attributes dbc))
      (rd\<lparr>rd_current := cur1, rd_value_tables := value_tables dbc\<rparr>) = Inr rd2" and rd2: "rd_messages rd2 = rd_messages rd"
      "rd_value_tables rd2 = value_tables dbc" "rd_spn_attributes rd2 = spn_attributes dbc"
    using read_written_attributes [OF entries_ok(2) [OF assms], of parse_f64 "0 + length ?layout + length ?tables"
        "rd\<lparr>rd_current := cur1, rd_value_tables := value_tables dbc\<rparr>"] rd(4) by auto
  have "read_lines parse_f64 0 (?layout @ ?tables @ map write_attribute (spn_attributes dbc)) ?rd = Inr rd2"
    unfolding read_lines_append rd(1) sum.case tables attributes ..
  then show ?thesis
    using attached [of dbc] assms rd(2) rd2 by (simp add: Dbc_parse_def write_dbc_lines [OF assms] writable_dbc_def)
qed

end
