(* ===== verification/Spec2Isabelle.thy ===== *)
theory Spec2Isabelle
  imports Claim_Network Node_Transfer Fault_Log Broadcast_Schedule Etp_Transfer Memory_Access Identification Signals Iso11783 Socket_Transport Host_Wait Capture_Log Dbc_Round_Trip
begin

text \<open>
  A verification development for \<^verbatim>\<open>sae-j1939-rs\<close>, a Rust implementation of the SAE J1939 protocol
  stack for the CAN bus of vehicles and machines. The crate \<^verbatim>\<open>core\<close> holds the protocol as state
  machines without input, output or a clock: the caller feeds frames and elapsed milliseconds, and
  sends the frames that come back. The crate \<^verbatim>\<open>host\<close> puts a bus and a clock under them: an ECU with a
  node, a fault log and a schedule, a service tool on top, and readers of captures and DBC files.

  \<^bold>\<open>Conventions.\<close> Machine integers are words (\<open>u8\<close> to \<open>u64\<close> of \<open>J1939_Prelude\<close>), \<^verbatim>\<open>usize\<close> is \<open>nat\<close> except
  where the code relies on its width, a buffer is a list of bytes, a text is its UTF-8 bytes.
  \<^verbatim>\<open>Result<T, E>\<close> is \<open>'e + 'a\<close>. A computation that may panic returns an \<open>option\<close>, where \<open>None\<close> is the panic:
  indexing, slicing, and arithmetic in a build with overflow checks. A method on \<^verbatim>\<open>&mut self\<close> takes and
  returns the record. The const parameters of a type are the lengths of its lists or arguments.
  Definitions keep the names of the code, with the type first where methods of several types share one.

  \<^bold>\<open>The core crate.\<close>
  \<^item> \<open>J1939_Types\<close>, \<open>Pgn\<close>, \<open>Can_Id\<close>, \<open>Can_Frame\<close>, \<open>Ecu_Name\<close>: \<^verbatim>\<open>types.rs\<close>, \<^verbatim>\<open>pgn.rs\<close>, \<^verbatim>\<open>id.rs\<close>, \<^verbatim>\<open>frame.rs\<close>, \<^verbatim>\<open>name.rs\<close>.
    What a frame says and who says it, with the derived orders as class instances.
  \<^item> \<open>Request_Ack\<close>, \<open>Tp_Codec\<close>, \<open>Etp_Codec\<close>, \<open>Diagnostics\<close>, \<open>Memory_Access\<close>, \<open>Identification\<close>, \<open>Iso11783\<close>:
    the payloads of \<^verbatim>\<open>request.rs\<close>, \<^verbatim>\<open>proprietary.rs\<close>, \<^verbatim>\<open>tp.rs\<close>, \<^verbatim>\<open>etp.rs\<close>, \<^verbatim>\<open>diagnostics.rs\<close>,
    \<^verbatim>\<open>memory_access.rs\<close>, \<^verbatim>\<open>identification.rs\<close> and \<^verbatim>\<open>iso11783/\<close>. Each codec interprets the locale
    \<open>wire_format\<close> or \<open>frame_format\<close>: what is encoded is decoded, and decoding yields valid values only.
  \<^item> \<open>Address_Claim\<close>: \<^verbatim>\<open>address_claim.rs\<close>, the state machine of one ECU. \<open>Claim_Network\<close> composes n of
    them over a multiset of claims in flight, as an inductive step relation: distinct addresses when
    the bus is quiet, and an end to contention by a budget of relocations that every ECU spends.
  \<^item> \<open>Session_Table\<close>, \<open>Tp_Receive\<close>, \<open>Tp_Send\<close>: the two sides of \<^verbatim>\<open>tp.rs\<close>. The reassembler refines
    an abstract receiver, a map from peers to the bytes received so far. \<open>Tp_Transfer\<close> runs them against
    each other, amid the traffic of other peers. \<open>Etp_Receive\<close>, \<open>Etp_Send\<close>, \<open>Etp_Transfer\<close> do the same for \<^verbatim>\<open>etp.rs\<close>.
  \<^item> \<open>Node\<close>: \<^verbatim>\<open>node.rs\<close>, an outgoing message and the dispatcher of one ECU. \<open>Node_Transfer\<close>: a message
    from one to the other in frames on the wire.
  \<^item> \<open>Fault_Log\<close>, \<open>Broadcast_Schedule\<close>: \<^verbatim>\<open>fault_log.rs\<close> and \<^verbatim>\<open>schedule.rs\<close>, fixed arrays that refine an
    abstract log and an abstract plan, and what their timers send and when.
  \<^item> \<open>Signals\<close>: \<^verbatim>\<open>spn.rs\<close>, the extraction of a parameter as arithmetic on the payload, and the catalogue.
  \<^item> \<open>Text_Output\<close>: the \<^verbatim>\<open>Display\<close> implementations, with the number formats of \<^verbatim>\<open>std::fmt\<close> they use.
  \<^item> \<open>Socket_Transport\<close>: \<^verbatim>\<open>can.rs\<close>, the bridge to the frames of a CAN driver, and \<^verbatim>\<open>transport.rs\<close> of the host crate.

  \<^bold>\<open>The host crate.\<close>
  \<^item> \<open>Host_Bus\<close>: \<^verbatim>\<open>bus.rs\<close>. The implementor of the trait and the clock are the argument \<open>env\<close>: what they
    answer, as functions of the trace of all events so far. An operation ends with a value, an
    error, a panic, or still waiting. Triples carry an invariant through the calls.
  \<^item> \<open>Host_Ecu\<close>, \<open>Host_Service\<close>: \<^verbatim>\<open>ecu.rs\<close>, its sending, scheduling, diagnostics, dispatch, polling, claiming
    and scanning, then the request that waits and the readers of a service tool.
  \<^item> \<open>Host_Safety\<close>: the invariant of the ECU (the invariants of its parts, and a payload stored for every
    scheduled message) is kept by every operation, and none panics. The proofs are made once in the
    locale \<open>ecu_invariant\<close>, which is interpreted for this invariant and, in \<open>Host_Wait\<close>, for a stronger one.
  \<^item> \<open>Host_Traffic\<close>: what an ECU puts on the bus, and that a broadcast reaches every node. \<open>Host_Wait\<close>: when
    the waiting for an answer ends, with which answer, and that nothing else that is heard is lost.
  \<^item> \<open>Utf8_Text\<close>, \<open>Capture_Log\<close>, \<open>Dbc_Database\<close>, \<open>Dbc_Writer\<close>, \<open>Dbc_Round_Trip\<close>: the operations on \<^verbatim>\<open>&str\<close> the readers use, \<^verbatim>\<open>log.rs\<close>, and
    \<^verbatim>\<open>dbc.rs\<close>. A capture of a broadcast, in text, replays as that message; a database that is
    written is read back; a signal decodes to the field its layout names, in either byte order.

  \<^bold>\<open>Shared interfaces.\<close> \<open>J1939_Prelude\<close> states \<open>wire_format\<close>, \<open>packed_code\<close>, \<open>safe_machine\<close> (a step that never
  panics and keeps an invariant: so does every run), \<open>refined_machine\<close> (a commuting abstraction: so does every run)
  and \<open>peer_machine\<close> (events of one peer leave the others alone). Claimer, reassemblers, node, fault log,
  schedule, replay and ECU are interpretations; the properties below rest on their facts.

  \<^bold>\<open>Loops and bounds.\<close> The loops that pull frames take a number of rounds that suffices: a message has at most 255
  packets, so \<open>tx_drain\<close> runs 256 rounds, \<open>out_drain\<close> and \<open>FRAME_ROUNDS\<close> 257 with the announcement, \<open>talk\<close> 258
  with the end; \<open>DUE_ROUNDS\<close> is one more than the capacity of the schedule; a conversation of the extended
  protocol takes at most one round per packet and two more. The waiting loops of the ECU end by the clock of \<open>env\<close>,
  which need not move: they take an arbitrary number of rounds, with outcome \<open>Waiting\<close> when it is used up, and
  \<open>request_wait_returns_its_answer\<close> shows how many are enough once the clock moves. The read loop of the
  socket is a \<open>partial_function\<close>, for it need not end. Everything else is structural or has a measure.
  Deadlines are sums of a clock reading and a duration, which panic when the platform's \<^verbatim>\<open>Instant\<close> cannot hold
  them (\<open>deadline_after\<close>, with the first time beyond the platform's range in \<open>env_horizon\<close>): \<open>clock_fits\<close> and \<open>time_left\<close>
  say that they can be held, and \<open>host_never_panics\<close> and \<open>request_wait_returns_its_answer\<close> suppose it.

  \<^bold>\<open>What the proofs showed\<close> beside the properties: traffic of other protocols without a gap keeps a socket, and with
  it every operation of the ECU, from returning (\<open>Socket_Transport.busy_with_standard_frames\<close>); an
  extended request to send addressed to everybody is answered (\<open>Host_Wait.etp_answers_everybody\<close>); a payload
  in a capture that is not ASCII panics (\<open>Capture_Log.non_ascii_payload_panics\<close>); two signals far beyond
  any real payload overflow their index (\<open>Signals.extract_overflow\<close>, \<open>Dbc_Database.ds_raw_overflow\<close>); a
  wait for a time the clock cannot add panics (\<open>Host_Wait.request_wait_overflows\<close>, \<open>Host_Wait.scan_overflows\<close>);
  a message is lost when the tick of its pump fails (\<open>Host_Wait.tick_error_loses_message\<close>).

  \<^bold>\<open>Not modelled.\<close> Floating point: the scaling of signals, the parsers and printers of \<^verbatim>\<open>f64\<close>, and the difference of
  two time stamps are arguments. The texts of \<^verbatim>\<open>io::Error\<close>, the \<^verbatim>\<open>Debug\<close> and \<^verbatim>\<open>defmt\<close> output, and reading files
  are left out; so are the table of named process data identifiers, the crate roots, the examples and the tests.
  The socket, the driver behind \<^verbatim>\<open>embedded-can\<close> and the clock are parameters.
\<close>

text \<open>
  C1: Whatever the ECUs do and in whatever order claims arrive, once no claim is in flight no two ECUs that claim or hold an address share it.
\<close>

theorem quiet_bus_has_no_shared_address:
  assumes "inj_on names {..<n}" and "net_reachable n (net_init names preferred) s" and "flight s = {#}"
    and "i < n" and "j < n" and "i \<noteq> j" and "active (ecus s i)" and "active (ecus s j)"
  shows "cl_address (ecus s i) \<noteq> cl_address (ecus s j)"
  using quiescent_distinct [OF net_reachable_ok [OF assms(2) net_init_ok [OF assms(1)]]] assms(3-) by blast

theorem quiet_bus_has_no_shared_address_witness:
  "\<exists>t. bus_run 2 duel_schedule (net_init duel_names (\<lambda>_. Address 0x80)) = Some t \<and> flight t = {#} \<and>
     active (ecus t 0) \<and> active (ecus t 1) \<and> cl_address (ecus t 0) \<noteq> cl_address (ecus t 1)"
proof -
  obtain t where t: "bus_run 2 duel_schedule (net_init duel_names (\<lambda>_. Address 0x80)) = Some t"
    "flight t = {#}" "active (ecus t 0)" "active (ecus t 1)"
    using duel_outcome by blast
  from quiet_bus_has_no_shared_address [OF duel_inj bus_run_reachable [OF t(1) net_reachable.init] t(2), of 0 1] t
  show ?thesis by auto
qed

text \<open>
  C2: Delivering the claims in flight always comes to an end, in any order, and there no two active ECUs share an address.
\<close>

theorem contention_settles:
  assumes "inj_on names {..<n}" and "net_reachable n (net_init names preferred) s"
  shows "wf {(v, u). net_reachable n (net_init names preferred) u \<and> deliver_step n u v} \<and>
    (\<exists>t. (deliver_step n)\<^sup>*\<^sup>* s t \<and> flight t = {#} \<and>
       (\<forall>i<n. \<forall>j<n. i \<noteq> j \<and> active (ecus t i) \<and> active (ecus t j) \<longrightarrow>
          cl_address (ecus t i) \<noteq> cl_address (ecus t j)))"
proof
  note ok = net_reachable_ok [OF _ net_init_ok [OF assms(1)]]
  show "wf {(v, u). net_reachable n (net_init names preferred) u \<and> deliver_step n u v}"
    by (rule wf_subset [OF deliver_wf [of n]]) (auto intro: ok)
  obtain t where t: "(deliver_step n)\<^sup>*\<^sup>* s t" "flight t = {#}" "net_ok n t"
    using settles [OF ok [OF assms(2)]] by blast
  then show "\<exists>t. (deliver_step n)\<^sup>*\<^sup>* s t \<and> flight t = {#} \<and>
       (\<forall>i<n. \<forall>j<n. i \<noteq> j \<and> active (ecus t i) \<and> active (ecus t j) \<longrightarrow>
          cl_address (ecus t i) \<noteq> cl_address (ecus t j))"
    using quiescent_distinct [OF t(3,2)] by blast
qed

theorem contention_settles_witness:
  "\<exists>s t. bus_run 2 [Own 0 EvClaim, Own 1 EvClaim] (net_init duel_names (\<lambda>_. Address 0x80)) = Some s \<and>
     flight s \<noteq> {#} \<and> (deliver_step 2)\<^sup>*\<^sup>* s t \<and> flight t = {#}"
proof -
  obtain s where s: "bus_run 2 [Own 0 EvClaim, Own 1 EvClaim] (net_init duel_names (\<lambda>_. Address 0x80)) = Some s"
    "flight s \<noteq> {#}"
    by (simp add: net_init_def Claimer_new_def Claimer_claim_def Address_is_specific_def Let_def)
  from contention_settles [OF duel_inj bus_run_reachable [OF s(1) net_reachable.init]] s show ?thesis by blast
qed

text \<open>
  C3: The reassembler implements the abstract receiver: over any calls nothing panics, the answers are the ones of the map from senders to received prefixes, and the table represents that map.
\<close>

theorem reassembler_implements_receiver:
  assumes "rx_ok N r" and "list_all rx_admissible es"
  shows "\<exists>outs r1. run_machine (rx_step N) es r = Some (outs, r1) \<and> rx_ok N r1 \<and> length r1 = length r \<and>
    spec_run N (length r) es (receiver_of r) = (map fst outs, receiver_of r1)"
  using assms by (rule rx_run_refines)

theorem reassembler_implements_receiver_witness:
  "\<exists>outs r1. run_machine (rx_step 64)
       [RxCm (Address 1) (Bam 9 2 PGN_DM1), RxDt (Address 1) (TpDt_new 1 [1, 2, 3, 4, 5, 6, 7]), RxTick 751 750]
       (new_table 64 2) = Some (outs, r1) \<and> rx_ok 64 r1"
proof -
  have "list_all rx_admissible
      [RxCm (Address 1) (Bam 9 2 PGN_DM1), RxDt (Address 1) (TpDt_new 1 [1, 2, 3, 4, 5, 6, 7]), RxTick 751 750]"
    by (simp add: TpCm_ok_def)
  from reassembler_implements_receiver [OF rx_ok_new this] show ?thesis by blast
qed

text \<open>
  C4: A connection-managed transfer to a receiver with room for it (buffer, slot, no open session of the sender) completes: whatever windows the limit gives, the receiver delivers exactly the bytes sent, the transmitter sees the acknowledgement, and no other session changes.
\<close>

theorem addressed_message_is_delivered:
  assumes "rx_ok N r" and "Pgn_ok p" and "Transmitter_addressed p data = Inr tx" and "length data \<le> N"
    and "slot_for ses_source r a \<noteq> None" and "\<not> rx_in_session a (\<lambda>s. \<not> ses_broadcast s) r"
  shows "\<exists>tx1 r1. send_addressed N a (with_max_packets_per_cts limit tx) r = Some ((p, a, data), tx1, r1) \<and>
    tx_complete tx1 \<and> rx_ok N r1 \<and> receiver_of r1 = (receiver_of r)(a := None)"
  using assms by (rule addressed_delivered)

theorem addressed_message_is_delivered_witness:
  "\<exists>tx tx1 r1. Transmitter_addressed PGN_DM1 (replicate 100 7) = Inr tx \<and>
     send_addressed 256 (Address 0x80) (with_max_packets_per_cts 4 tx) (new_table 256 1)
       = Some ((PGN_DM1, Address 0x80, replicate 100 7), tx1, r1) \<and> tx_complete tx1"
proof -
  obtain tx where tx: "Transmitter_addressed PGN_DM1 (replicate 100 7) = Inr tx"
    using build_defined [of "replicate 100 7" PGN_DM1 False] by (auto simp: Transmitter_addressed_def)
  have free: "slot_for ses_source (new_table 256 1) (Address 0x80) \<noteq> None"
    "\<not> rx_in_session (Address 0x80) (\<lambda>s. \<not> ses_broadcast s) (new_table 256 1)"
    by (simp_all add: new_table_room)
  from addressed_message_is_delivered [OF rx_ok_new _ tx _ free, of 4] tx show ?thesis by auto
qed

text \<open>
  C5: A broadcast is delivered byte for byte among any other traffic: the transmitter hands out all its packets without a panic, every packet is taken silently and the last one yields the message.
\<close>

theorem broadcast_message_is_delivered:
  assumes "rx_ok N r" and "Pgn_ok p" and "9 \<le> length data" and "length data \<le> 1785" and "length data \<le> N"
    and "slot_for ses_source r a \<noteq> None"
  shows "\<exists>tx packets tx1. Transmitter_broadcast p data = Inr tx \<and> tx_drain 256 tx = Some (packets, tx1) \<and> tx_complete tx1 \<and>
    length packets = message_packets data \<and> list_all TpDt_ok packets \<and>
    (\<forall>es. list_all rx_admissible es \<and> filter (rx_from a) es = map (RxDt a) packets \<and> paced a 0 es \<longrightarrow>
      (\<exists>outs r1. run_machine (rx_step N) (RxCm a (tx_start tx) # es) r = Some (outs, r1) \<and> rx_ok N r1 \<and>
        answers_to a (RxCm a (tx_start tx) # es) (map fst outs) =
          replicate (message_packets data) RxIdle @ [RxMessage p a data None]))"
proof -
  obtain tx where tx: "Transmitter_broadcast p data = Inr tx"
    using build_defined [of data p True] assms(3,4) by (auto simp: Transmitter_broadcast_def)
  obtain tx1 where dr: "tx_drain 256 tx = Some (map (packet_of data) [1 ..< message_packets data + 1], tx1)" "tx_complete tx1"
    by (rule broadcast_drains [OF tx])
  have ok: "list_all TpDt_ok (map (packet_of data) [1 ..< message_packets data + 1])" by (simp add: list_all_iff)
  show ?thesis
    using broadcast_delivered [OF assms(1,2) tx assms(5,6) dr(1)]
    by (intro exI [of _ tx] exI [of _ "map (packet_of data) [1 ..< message_packets data + 1]"] exI [of _ tx1] conjI tx dr ok)
      (simp, blast)
qed

theorem broadcast_message_is_delivered_witness:
  "\<exists>tx tx1 packets outs r1. Transmitter_broadcast PGN_DM1 (replicate 20 5) = Inr tx \<and>
     tx_drain 256 tx = Some (packets, tx1) \<and>
     run_machine (rx_step 64)
       (RxCm (Address 1) (tx_start tx) # RxCm (Address 2) (Bam 9 2 PGN_DM1) # RxTick 200 750 # map (RxDt (Address 1)) packets)
       (new_table 64 2) = Some (outs, r1) \<and>
     RxMessage PGN_DM1 (Address 1) (replicate 20 5) None \<in> fst ` set outs"
proof -
  let ?data = "replicate 20 5 :: bytes" and ?r = "new_table 64 2 :: reassembler"
  have room: "slot_for ses_source ?r (Address 1) \<noteq> None" by (simp add: new_table_room)
  have bounds: "9 \<le> length ?data" "length ?data \<le> 1785" "length ?data \<le> 64" and p: "Pgn_ok PGN_DM1" by simp_all
  from broadcast_message_is_delivered [OF rx_ok_new p bounds room] obtain tx packets tx1 where
    tx: "Transmitter_broadcast PGN_DM1 ?data = Inr tx" and dr: "tx_drain 256 tx = Some (packets, tx1)"
    and ok: "list_all TpDt_ok packets"
    and run: "\<And>es. list_all rx_admissible es \<Longrightarrow> filter (rx_from (Address 1)) es = map (RxDt (Address 1)) packets \<Longrightarrow>
      paced (Address 1) 0 es \<Longrightarrow>
      \<exists>outs r1. run_machine (rx_step 64) (RxCm (Address 1) (tx_start tx) # es) ?r = Some (outs, r1) \<and> rx_ok 64 r1 \<and>
        answers_to (Address 1) (RxCm (Address 1) (tx_start tx) # es) (map fst outs) =
          replicate (message_packets ?data) RxIdle @ [RxMessage PGN_DM1 (Address 1) ?data None]"
    by blast
  let ?es = "RxCm (Address 2) (Bam 9 2 PGN_DM1) # RxTick 200 750 # map (RxDt (Address 1)) packets"
  have adm: "list_all rx_admissible ?es" using ok by (simp add: TpCm_ok_def list_all_iff)
  have fil: "filter (rx_from (Address 1)) ?es = map (RxDt (Address 1)) packets" by simp
  have pc: "paced (Address 1) 0 ?es" by simp
  from run [OF adm fil pc] obtain outs r1 where
    run1: "run_machine (rx_step 64) (RxCm (Address 1) (tx_start tx) # ?es) ?r = Some (outs, r1)"
    and ans: "answers_to (Address 1) (RxCm (Address 1) (tx_start tx) # ?es) (map fst outs) =
      replicate (message_packets ?data) RxIdle @ [RxMessage PGN_DM1 (Address 1) ?data None]"
    by blast
  have "RxMessage PGN_DM1 (Address 1) ?data None
      \<in> set (answers_to (Address 1) (RxCm (Address 1) (tx_start tx) # ?es) (map fst outs))"
    unfolding ans by simp
  then have "RxMessage PGN_DM1 (Address 1) ?data None \<in> set (map fst outs)" by (rule answers_to_subset)
  with tx dr run1 show ?thesis by auto
qed

text \<open>
  C6: No peer can disturb the transfer of another: calls that do not concern a sender leave its session and the bytes received from it unchanged.
\<close>

theorem peers_are_isolated:
  assumes "rx_ok N r" and "list_all rx_admissible es" and "list_all (\<lambda>e. \<not> rx_concerns e a) es"
  shows "\<exists>outs r1. run_machine (rx_step N) es r = Some (outs, r1) \<and> receiver_of r1 a = receiver_of r a"
  using receiving.run_safe [OF assms(1,2)] receiving.run_isolated [OF assms] by blast

theorem peers_are_isolated_witness:
  "\<exists>r outs r1. snd (rx_on_tp_cm 64 (Address 1) (Rts 9 2 255 PGN_DM1) (new_table 64 1)) = r \<and>
     receiver_of r (Address 1) = Some (spec_new PGN_DM1 9 False 2 255) \<and>
     run_machine (rx_step 64) [RxCm (Address 2) (Bam 9 2 PGN_DM1), RxAbandon (Address 3)] r = Some (outs, r1) \<and>
     receiver_of r1 (Address 1) = Some (spec_new PGN_DM1 9 False 2 255)"
proof -
  let ?r = "snd (rx_on_tp_cm 64 (Address 1) (Rts 9 2 255 PGN_DM1) (new_table 64 1))"
  have cm: "TpCm_ok (Rts 9 2 255 PGN_DM1)" by (simp add: TpCm_ok_def)
  have ok: "rx_ok 64 ?r" by (rule rx_on_tp_cm_refines(1) [OF rx_ok_new cm])
  have m: "receiver_of ?r (Address 1) = Some (spec_new PGN_DM1 9 False 2 255)"
    by (simp add: table_eval rx_eval receiver_of_def entry_of_def transfer_of_def spec_new_def)
  have "list_all rx_admissible [RxCm (Address 2) (Bam 9 2 PGN_DM1), RxAbandon (Address 3)]"
    "list_all (\<lambda>e. \<not> rx_concerns e (Address 1)) [RxCm (Address 2) (Bam 9 2 PGN_DM1), RxAbandon (Address 3)]"
    by (simp_all add: TpCm_ok_def)
  from peers_are_isolated [OF ok this] m show ?thesis by simp
qed

text \<open>
  C7: A tick reports each overdue session once and drops it: an addressed one with the abort to send, a broadcast silently; the rest age by the elapsed time.
\<close>

theorem overdue_sessions_are_dropped:
  assumes "rx_ok N r"
  shows "set (fst (rx_tick_with_timeout elapsed timeout r)) =
      {(a, if xf_broadcast t then None else Some (Abort Timeout (xf_pgn t))) | a t.
         receiver_of r a = Some t \<and> timeout < saturating_add (xf_idle t) elapsed} \<and>
    distinct (map fst (fst (rx_tick_with_timeout elapsed timeout r))) \<and>
    receiver_of (snd (rx_tick_with_timeout elapsed timeout r)) =
      (\<lambda>a. Option.bind (receiver_of r a) (\<lambda>t. let idle = saturating_add (xf_idle t) elapsed
         in if idle \<le> timeout then Some (t\<lparr>xf_idle := idle\<rparr>) else None))"
  unfolding rx_tick_drops [OF assms] rx_tick_refines(2) [OF assms]
  by (intro conjI rx_tick_once [OF assms], force simp: spec_tick_None, simp add: spec_tick_def)

theorem overdue_sessions_are_dropped_witness:
  "fst (rx_tick_with_timeout 751 750 (snd (rx_on_tp_cm 64 (Address 1) (Rts 9 2 255 PGN_DM1) (new_table 64 1)))) =
     [(Address 1, Some (Abort Timeout PGN_DM1))]"
proof -
  let ?r = "snd (rx_on_tp_cm 64 (Address 1) (Rts 9 2 255 PGN_DM1) (new_table 64 1))"
  let ?calls = "fst (rx_tick_with_timeout 751 750 ?r)"
  have cm: "TpCm_ok (Rts 9 2 255 PGN_DM1)" by (simp add: TpCm_ok_def)
  have ok: "rx_ok 64 ?r" by (rule rx_on_tp_cm_refines(1) [OF rx_ok_new cm])
  have m: "receiver_of ?r = [Address 1 \<mapsto> spec_new PGN_DM1 9 False 2 255]"
  proof (rule ext)
    show "receiver_of ?r a = [Address 1 \<mapsto> spec_new PGN_DM1 9 False 2 255] a" for a
      by (cases "a = Address 1") (simp_all add: table_eval rx_eval receiver_of_def entry_of_def transfer_of_def spec_new_def)
  qed
  note tick = overdue_sessions_are_dropped [OF ok, of 751 750, unfolded m]
  have s: "set ?calls = {(Address 1, Some (Abort Timeout PGN_DM1))}"
    unfolding conjunct1 [OF tick] by (auto simp: spec_new_def saturating_add_def split: if_splits)
  have d: "distinct (map fst ?calls)" by (rule conjunct1 [OF conjunct2 [OF tick]])
  from d have "distinct ?calls" by (simp add: distinct_map)
  then have "length ?calls = 1" using distinct_card [of ?calls] s by simp
  then obtain c where "?calls = [c]" by (auto simp: length_Suc_conv)
  with s show ?thesis by simp
qed

text \<open>
  C8: Whatever frames arrive and whatever the application calls, in any order, the node never panics and keeps its invariant.
\<close>

theorem node_never_panics:
  "\<exists>outs nd. run_machine (node_step buf) es (Node_new buf sessions n preferred) = Some (outs, nd) \<and>
     length outs = length es \<and> node_ok buf nd"
  using node.run_safe [OF Node_new_ok, of es buf sessions n preferred] by (auto simp: list_all_iff)

text \<open>
  C9: A node never speaks for another address: each frame it emits is well formed and carries the address it holds.
\<close>

theorem node_frames_carry_its_address:
  assumes "node_ok buf nd" and "node_step buf e nd = Some (out, nd1)"
  shows "list_all (\<lambda>f. Frame_ok f \<and> Frame_source_address f = nd_address nd1) (output_frames out)"
  using node_step_total [OF assms(1), of e] assms(2) unfolding sent_by_def [symmetric] by fastforce

theorem node_frames_carry_its_address_witness:
  "\<exists>f nd1. node_start (Node_new 64 2 (Name 5) (Address 0x80)) = (f, nd1) \<and> Frame_source_address f = Address 0x80"
proof -
  let ?nd = "Node_new 64 2 (Name 5) (Address 0x80)"
  obtain f nd1 where h: "node_start ?nd = (f, nd1)" by (cases "node_start ?nd")
  then have "node_step 64 NdStart ?nd = Some (OutFrames [f], nd1)" by simp
  from node_frames_carry_its_address [OF Node_new_ok this] have "Frame_source_address f = nd_address nd1" by simp
  moreover have "nd_address nd1 = Address 0x80"
    using node_start_claims(3) [of ?nd] h
    by (simp add: Node_new_def nd_address_def Claimer_new_def Address_is_specific_def)
  ultimately show ?thesis using h by auto
qed

text \<open>
  C10: Frame by frame, an addressed multi-packet message reaches the application of a receiving node with room for it (buffer, slot, no open session of the sender) unchanged and is acknowledged to its sender; no other transfer of the node changes.
\<close>

theorem addressed_message_crosses_the_bus:
  assumes "node_ok buf nd" and "Pgn_ok p" and "Outgoing_new p a (nd_address nd) data = Inr o1"
    and "8 < length data" and "length data \<le> buf" and "nd_address nd \<noteq> Address_GLOBAL"
    and "slot_for ses_source (nd_reassembler nd) a \<noteq> None"
    and "\<not> rx_in_session a (\<lambda>s. \<not> ses_broadcast s) (nd_reassembler nd)"
  shows "\<exists>o2 nd2. talk 258 buf o1 nd = Some ((p, a, data), o2, nd2) \<and> out_is_complete o2 \<and> node_ok buf nd2 \<and>
    nd_claimer nd2 = nd_claimer nd \<and> receiver_of (nd_reassembler nd2) = (receiver_of (nd_reassembler nd))(a := None)"
  using assms by (rule addressed_in_frames)

theorem addressed_message_crosses_the_bus_witness:
  "\<exists>o1 o2 nd2. Outgoing_new PGN_PROPRIETARY_A (Address 0x27) (Address 0x80) (replicate 50 3) = Inr o1 \<and>
     talk 258 64 o1 (Node_new 64 2 (Name 5) (Address 0x80))
       = Some ((PGN_PROPRIETARY_A, Address 0x27, replicate 50 3), o2, nd2) \<and> out_is_complete o2"
proof -
  let ?nd = "Node_new 64 2 (Name 5) (Address 0x80)"
  have addr: "nd_address ?nd = Address 0x80" by (simp add: Node_new_def nd_address_def Claimer_new_def)
  obtain o1 where o1: "Outgoing_new PGN_PROPRIETARY_A (Address 0x27) (Address 0x80) (replicate 50 3) = Inr o1"
    using Outgoing_multi_defined [of "replicate 50 3" PGN_PROPRIETARY_A "Address 0x27" "Address 0x80"] by auto
  have table: "nd_reassembler ?nd = new_table 64 2" by (simp add: Node_new_def)
  show ?thesis
    using addressed_message_crosses_the_bus [OF Node_new_ok, of PGN_PROPRIETARY_A "Address 0x27" 64 2 "Name 5" "Address 0x80"
        "replicate 50 3" o1] o1
    by (auto simp: addr table new_table_room Address_GLOBAL_def)
qed

text \<open>
  C11: A message of up to eight bytes crosses the bus in exactly one frame and is delivered with its group, sender and bytes.
\<close>

theorem single_frame_message_crosses_the_bus:
  assumes "Outgoing_new p a d data = Inr o1" and "length data \<le> 8" and "Pgn_ok p" and "application_group p"
    and "d = Address_GLOBAL \<or> d = nd_address nd"
  shows "\<exists>f o2. out_drain 257 o1 = Some ([f], o2) \<and> out_is_complete o2 \<and>
    node_on_frame buf f nd = Some (EvtMessage p a data None, nd) \<and> talk 258 buf o1 nd = Some ((p, a, data), o2, nd)"
proof -
  obtain f o2 where f: "out_drain 257 o1 = Some ([f], o2)" "out_is_complete o2"
    "node_on_frame buf f nd = Some (EvtMessage p a data None, nd)"
    by (rule single_frames_run [OF assms])
  then show ?thesis using single_in_frames [OF assms, of buf] talk.simps(2) [of 257 buf o1 nd] by (auto simp: last_event_def)
qed

theorem single_frame_message_crosses_the_bus_witness:
  "\<exists>o1 f o2. Outgoing_new PGN_DM1 (Address 0x27) Address_GLOBAL [1, 2, 3] = Inr o1 \<and> out_drain 257 o1 = Some ([f], o2) \<and>
     talk 258 64 o1 (Node_new 64 2 (Name 5) (Address 0x80))
       = Some ((PGN_DM1, Address 0x27, [1, 2, 3]), o2, Node_new 64 2 (Name 5) (Address 0x80)) \<and> out_is_complete o2"
proof -
  obtain o1 where o1: "Outgoing_new PGN_DM1 (Address 0x27) Address_GLOBAL [1, 2, 3] = Inr o1"
    by (auto simp: Outgoing_new_def MAX_PAYLOAD_def Let_def from_parts_eq Frame_new_def)
  have "application_group PGN_DM1" by (simp add: application_group_def pgn_eval)
  from single_frame_message_crosses_the_bus [OF o1 _ _ this, of "Node_new 64 2 (Name 5) (Address 0x80)" 64] o1
  show ?thesis by auto
qed

text \<open>
  C12: The contention window is exact: after ticks that add up to less than 250 ms the claim is still open, from 250 ms on the address is held.
\<close>

theorem claim_window_is_exact:
  assumes "Address_is_specific (nd_address nd)"
  shows "has_address (node_ticks es (snd (node_start nd))) \<longleftrightarrow> 250 \<le> (\<Sum>e\<leftarrow>es. unat e)"
  using claim_window [OF node_start_claims(1) [OF assms], of es] node_start_claims [OF assms]
  by (simp add: has_address_def nd_state_def)

theorem claim_window_is_exact_witness:
  "has_address (node_ticks [100, 100, 50] (snd (node_start (Node_new 64 2 (Name 5) (Address 0x80))))) \<and>
   \<not> has_address (node_ticks [100, 100, 49] (snd (node_start (Node_new 64 2 (Name 5) (Address 0x80)))))"
proof -
  have "Address_is_specific (nd_address (Node_new 64 2 (Name 5) (Address 0x80)))"
    by (simp add: Node_new_def nd_address_def Claimer_new_def Address_is_specific_def)
  from claim_window_is_exact [OF this, of "[100, 100, 50]"] claim_window_is_exact [OF this, of "[100, 100, 49]"]
  show ?thesis by simp
qed

text \<open>
  C13: A broadcast request to send, and every frame addressed to another ECU, is dropped without an answer and without a change.
\<close>

theorem broadcast_rts_is_never_answered:
  assumes "\<not> Id_is_addressed_to (frame_id f) (nd_address nd) \<or>
    Frame_pgn f = PGN_TP_CM \<and> Id_is_broadcast (frame_id f) \<and>
    TpCm_decode (Frame_payload f) = Inr (Rts sz packets limit p)"
  shows "node_on_frame buf f nd = Some (EvtIdle, nd)"
  using assms
  by (auto simp: node_on_frame_def on_tp_cm_frame_def is_rts_def Frame_pgn_def Let_def is_addressed_to_iff)

theorem broadcast_rts_is_never_answered_witness:
  "\<exists>f. tp_cm_frame (Address 0x27) Address_GLOBAL (Rts 9 2 255 PGN_DM1) = Some f \<and>
     node_on_frame 64 f (Node_new 64 2 (Name 5) (Address 0x80)) = Some (EvtIdle, Node_new 64 2 (Name 5) (Address 0x80))"
proof -
  obtain f where f: "tp_cm_frame (Address 0x27) Address_GLOBAL (Rts 9 2 255 PGN_DM1) = Some f"
    by (simp add: tp_cm_frame_eq)
  have "TpCm_decode (Frame_payload f) = Inr (Rts 9 2 255 PGN_DM1)"
    using cm_frame_fields(5) [OF f] by (simp add: TpCm_decode_encode TpCm_ok_def)
  moreover have "Id_is_broadcast (frame_id f)"
    using cm_frame_fields(4) [OF f] by (simp add: Id_is_broadcast_def guard_simps)
  ultimately show ?thesis
    using broadcast_rts_is_never_answered [of f "Node_new 64 2 (Name 5) (Address 0x80)" 9 2 255 PGN_DM1 64] f cm_frame_fields(3) [OF f]
    by auto
qed

text \<open>
  C14: The numeric comparison of NAMEs is the lexicographic comparison of their fields in the order of the standard.
\<close>

theorem arbitration_is_lexicographic:
  "wins_arbitration_against a b \<longleftrightarrow> lex_less (name_key a) (name_key b)"
  by (rule wins_lex)

text \<open>
  C15: An ECU leaves its address only for a claim of it with a lower NAME, and always announces the move: to an address never seen in use, or to the null address when it cannot claim.
\<close>

theorem address_lost_only_to_lower_name:
  assumes "claimer_ok c" and "on_address_claimed source n c = (act, c1)" and "cl_address c1 \<noteq> cl_address c"
  shows "source = cl_address c \<and> n < cl_name c \<and> act = Announce (current_claim c1) \<and>
    (cl_address c1 = Address_NULL \<and> cl_state c1 = CannotClaim \<or>
     arbitrary_address_capable (cl_name c) \<and> cl_address c1 \<in> set dynamic_addresses \<and>
       \<not> is_address_taken c (cl_address c1) \<and> cl_state c1 = Claiming)"
  using assms(2)
proof (cases rule: on_address_claimed_cases)
  case (Move a)
  with next_free_Some [OF Move(6)] show ?thesis
    by (auto simp: taken_saw_claim claimer_ok_length [OF assms(1)])
qed (use assms(3) in auto)

theorem address_lost_only_to_lower_name_witness:
  "\<exists>act c1. on_address_claimed (Address 0x20) (Name 1) (Claimer_new (Name 2) (Address 0x20)) = (act, c1) \<and>
     cl_address c1 = Address_NULL \<and> act = Announce (current_claim c1)"
proof -
  let ?c = "Claimer_new (Name 2) (Address 0x20)"
  obtain act c1 where h: "on_address_claimed (Address 0x20) (Name 1) ?c = (act, c1)"
    by (cases "on_address_claimed (Address 0x20) (Name 1) ?c")
  then have c1: "cl_address c1 = Address_NULL"
    by (simp add: on_address_claimed_def Claimer_new_def wins_arbitration_against_def Address_is_specific_def
        arbitrary_address_capable_def give_up_def mark_seen_def Let_def) auto
  then have "cl_address c1 \<noteq> cl_address ?c" by (simp add: Claimer_new_def Address_NULL_def)
  from address_lost_only_to_lower_name [OF Claimer_new_ok h this] h c1 show ?thesis by auto
qed

text \<open>
  C16: Contention cannot keep an ECU moving: whatever claims it hears, its address changes at most 121 times.
\<close>

theorem relocations_are_bounded:
  assumes "claimer_ok c"
  shows "relocations es c \<le> 121"
  using relocations_le_budget [OF assms, of es] budget_le [of c] by (rule order_trans)

theorem relocations_are_bounded_witness:
  "relocations (replicate 1000 (Address 0x20, Name 1)) (Claimer_new (Name 2) (Address 0x20)) \<le> 121"
  by (rule relocations_are_bounded [OF Claimer_new_ok])

text \<open>
  C17: A message of the extended protocol that fits the buffer arrives whole, its sender is told so, and the table is as before.
\<close>

theorem extended_message_is_delivered:
  assumes "etp_table_ok N K r" and "Pgn_ok p" and "EtpTransmitter_new p data = Inr tx" and "length data \<le> N"
    and "slot_of es_source r a = None" and "free_slot r \<noteq> None"
  shows "\<exists>tx1 r1. etp_send N a tx r = Some ((p, a, data), tx1, r1) \<and> et_complete tx1 \<and>
    etp_table_ok N K r1 \<and> etp_receiver_of r1 = etp_receiver_of r"
  by (rule etp_delivered [OF assms(1-4)]) (use assms(5,6) in \<open>simp_all add: etp_receiver_None\<close>)

theorem extended_message_is_delivered_witness:
  "\<exists>tx tx1 r1. EtpTransmitter_new PGN_PROPRIETARY_A (replicate 2000 7) = Inr tx \<and>
     etp_send 2048 (Address 0x80) tx (new_table 2048 1) = Some ((PGN_PROPRIETARY_A, Address 0x80, replicate 2000 7), tx1, r1)"
proof (rule et_new_cases [of "replicate 2000 7" PGN_PROPRIETARY_A])
  fix tx assume tx: "EtpTransmitter_new PGN_PROPRIETARY_A (replicate 2000 7) = Inr tx"
  have "free_slot (new_table 2048 1 :: etp_reassembler) \<noteq> None" "slot_of es_source (new_table 2048 1) (Address 0x80) = None"
    by (simp_all add: new_table_def free_slot_def slot_of_def numeral_eq_Suc)
  with extended_message_is_delivered [OF etp_table_new [of 2048 1] _ tx, of "Address 0x80"] tx show ?thesis by auto
qed simp

text \<open>
  C18: The extended reassembler implements its abstract receiver over any calls with messages as they are decoded from the bus: nothing panics, every answer and every abort is the one of the map from senders to received prefixes. A hand-made DPO with the offset 0xFFFFFFFF is outside of it (\<open>Etp_Receive.etp_dpo_overflow\<close>).
\<close>

theorem extended_reassembler_implements_receiver:
  assumes "etp_table_ok N K r" and "list_all etp_admissible es"
  shows "(\<exists>outs r1. run_machine (etp_step N) es r = Some (outs, r1) \<and> etp_table_ok N K r1 \<and>
      run_spec (spec_etp_step N K) es (etp_receiver_of r) = (outs, etp_receiver_of r1)) \<and>
    (\<forall>a d cm. EtpCm_decode d = Inr cm \<longrightarrow> etp_admissible (EtpCmIn a cm)) \<and> (\<forall>a d. etp_admissible (EtpDtIn a (TpDt_decode d)))"
  using etp_receiving.run_refines [OF assms] EtpCm_decode_ok by simp

theorem extended_reassembler_implements_receiver_witness:
  "\<exists>outs r1. run_machine (etp_step 4096) [EtpCmIn (Address 1) (ERts 2000 PGN_DM1), EtpTick 10 750, EtpReset]
     (new_table 4096 2) = Some (outs, r1) \<and> etp_receiver_of r1 = Map.empty"
proof -
  let ?es = "[EtpCmIn (Address 1) (ERts 2000 PGN_DM1), EtpTick 10 750, EtpReset]"
  have "list_all etp_admissible ?es" by (simp add: EtpCm_ok_def)
  from conjunct1 [OF extended_reassembler_implements_receiver [OF etp_table_new this, of 4096 2]]
  show ?thesis by (auto simp: split_beta)
qed

text \<open>
  C19: The fault log implements the abstract log over any operations: nothing panics, every answer agrees, and the arrays represent the two lists of codes.
\<close>

theorem fault_log_implements_history:
  assumes "fault_log_ok n l"
  shows "\<exists>outs l1. run_machine fault_step es l = Some (outs, l1) \<and> fault_log_ok n l1 \<and>
    run_spec (spec_fault_step n) es (fault_state_of l) = (outs, fault_state_of l1)"
  using assms by (rule faults.run_refines) (simp add: list_all_iff)

theorem fault_log_implements_history_witness:
  "\<exists>outs l1. run_machine fault_step [FlSet 190 3 AmberWarning, FlClear 190 3, FlTick 1000] (FaultLog_new 4) = Some (outs, l1) \<and>
     fault_log_ok 4 l1"
  using fault_log_implements_history [OF FaultLog_new_ok [of 4]] by blast

text \<open>
  C20: Two DM1 reports are at least a second apart, whatever faults come and go in between.
\<close>

theorem reports_are_a_second_apart:
  assumes ok: "fault_log_ok n l" and report: "FaultLog_tick t l = (True, l1)"
    and run: "run_machine fault_step es l1 = Some (outs, l2)" and soon: "(\<Sum>e\<leftarrow>es. event_ms e) < 1000"
  shows "list_all (\<lambda>p. \<not> reports p) (zip es outs)"
proof (rule no_report_before [OF _ run])
  show "fault_log_ok n l1" using fault_tick_refines(2) [OF ok, of t] report by simp
  have "fl_since_dm1_ms l1 = 0" using tick_state(3) [of t l] report by simp
  then show "unat (fl_since_dm1_ms l1) + (\<Sum>e\<leftarrow>es. event_ms e) < 1000" using soon by simp
qed

theorem reports_are_a_second_apart_witness:
  "\<exists>l1 outs l2. FaultLog_tick 0 (clear_active ((FaultLog_new 4)\<lparr>fl_active_len := 1\<rparr>)) = (True, l1) \<and>
     run_machine fault_step [FlSet 190 3 AmberWarning, FlTick 999] l1 = Some (outs, l2) \<and>
     list_all (\<lambda>p. \<not> reports p) (zip [FlSet 190 3 AmberWarning, FlTick 999] outs)"
proof -
  let ?l = "clear_active ((FaultLog_new 4)\<lparr>fl_active_len := 1\<rparr>)"
  have ok: "fault_log_ok 4 ?l"
    by (simp add: fault_log_ok_def clear_active_def FaultLog_new_def fault_state_ok_def fault_state_of_def active_codes_def
        previous_codes_def active_keys_def previous_keys_def)
  have "fst (FaultLog_tick 0 ?l)" by (simp add: tick_due) (simp add: clear_active_def FaultLog_new_def DM1_INTERVAL_MS_def)
  then obtain l1 where l1: "FaultLog_tick 0 ?l = (True, l1)" by (cases "FaultLog_tick 0 ?l") simp
  have ok1: "fault_log_ok 4 l1" using fault_tick_refines(2) [OF ok, of 0] l1 by simp
  obtain outs l2 where run: "run_machine fault_step [FlSet 190 3 AmberWarning, FlTick 999] l1 = Some (outs, l2)"
    using faults.run_refines [OF ok1, of "[FlSet 190 3 AmberWarning, FlTick 999]"] by auto
  with reports_are_a_second_apart [OF ok l1 run] l1 show ?thesis by auto
qed

text \<open>
  C21: Clearing the active faults brings exactly one all-clear report, however long the ticks go on.
\<close>

theorem all_clear_is_reported_once:
  assumes "fault_log_ok n l" and "\<not> fl_is_healthy l" and "ts \<noteq> []"
    and "1000 \<le> unat (fl_since_dm1_ms l) + (\<Sum>t\<leftarrow>ts. unat t)"
  shows "length (filter (\<lambda>report. report) (fst (fault_ticks ts (clear_active l)))) = 1"
proof -
  have "fl_active_len (clear_active l) = 0" "fl_owes_all_clear (clear_active l)"
    "fl_since_dm1_ms (clear_active l) = fl_since_dm1_ms l"
    using assms(2) by (simp_all add: clear_active_def fl_is_healthy_def)
  with all_clear_once [of "clear_active l" ts] assms(3,4) show ?thesis by simp
qed

theorem all_clear_is_reported_once_witness:
  "\<exists>l. FaultLog_set 190 3 AmberWarning (FaultLog_new 4) = Some (Inr (), l) \<and>
     length (filter (\<lambda>report. report) (fst (fault_ticks [500, 500, 500, 60000] (clear_active l)))) = 1"
proof -
  have bounds: "(190 :: u32) \<le> MAX_SPN" "(3 :: u8) \<le> MAX_FMI" by (simp_all add: MAX_SPN_def MAX_FMI_def)
  obtain r l where l: "FaultLog_set 190 3 AmberWarning (FaultLog_new 4) = Some (r, l)" "fault_log_ok 4 l"
    "spec_set 4 190 3 AmberWarning (fault_state_of (FaultLog_new 4)) = (r, fault_state_of l)"
    by (rule FaultLog_set_refines [OF FaultLog_new_ok])
  have new: "fault_state_of (FaultLog_new 4) = \<lparr>fs_active = [], fs_previous = [], fs_since = 1000, fs_owes = False\<rparr>"
    by (simp add: fault_state_of_def FaultLog_new_def active_codes_def previous_codes_def DM1_INTERVAL_MS_def)
  from spec_set_new [OF l(3) _ _ bounds] have r: "r = Inr ()" and st: "fs_active (fault_state_of l) \<noteq> []"
    by (simp_all add: new active_keys_def)
  have "\<not> fl_is_healthy l" using st pairs_empty [OF l(2)] by (simp add: fl_is_healthy_def)
  from all_clear_is_reported_once [OF l(2) this, of "[500, 500, 500, 60000]"] l(1) r show ?thesis by simp
qed

text \<open>
  C22: Parsing the DM1 payload of a log gives back its active codes and its lamps.
\<close>

theorem dm1_reports_the_active_faults:
  assumes "fault_log_ok n l" and "dm1_len l \<le> length out"
  shows "\<exists>m out1. FaultLog_dm1 l out = Some (Inr (dm1_len l), out1) \<and> Message_parse (take (dm1_len l) out1) = Inr m \<and>
    Message_dtcs m = (if fl_is_healthy l then [Dtc_default] else active_codes l) \<and>
    (\<forall>x. Lamps_get_status (dm_lamps m) x = (if \<exists>d. (d, x) \<in> set (fs_active (fault_state_of l)) then LampOn else LampOff)) \<and>
    drop (dm1_len l) out1 = drop (dm1_len l) out"
proof -
  let ?ds = "if active_codes l = [] then [Dtc_default] else active_codes l"
  obtain m where m: "FaultLog_dm1 l out = Some (Inr (dm1_len l), dm_payload (fl_report_lamps l) ?ds @ drop (dm1_len l) out)"
    "Message_parse (dm_payload (fl_report_lamps l) ?ds) = Inr m" "dm_lamps m = fl_report_lamps l" "Message_dtcs m = ?ds"
    by (rule dm1_report [OF assms])
  have healthy: "fl_is_healthy l \<longleftrightarrow> active_codes l = []"
    using fault_log_lengths(1) [OF assms(1)] by (metis fl_is_healthy_def length_0_conv)
  have len: "length (dm_payload (fl_report_lamps l) ?ds) = dm1_len l"
    using payload_len_eq [of "active_codes l"] fault_log_lengths(1) [OF assms(1)] by (simp add: dm1_len_def)
  show ?thesis
    by (intro exI [of _ m] exI [of _ "dm_payload (fl_report_lamps l) ?ds @ drop (dm1_len l) out"])
      (use m len report_lamps [OF assms(1)] in \<open>simp add: healthy\<close>)
qed

theorem dm1_reports_the_active_faults_witness:
  "\<exists>m out1. FaultLog_dm1 (FaultLog_new 4) (replicate 10 0) = Some (Inr 8, out1) \<and>
     Message_parse (take 8 out1) = Inr m \<and> Message_dtcs m = [Dtc_default]"
proof -
  have "dm1_len (FaultLog_new 4) = 8" by (simp add: dm1_len_def FaultLog_new_def payload_len_def LAMP_LEN_def DTC_LEN_def)
  moreover have "fl_is_healthy (FaultLog_new 4)" by (simp add: fl_is_healthy_def FaultLog_new_def)
  ultimately show ?thesis
    using dm1_reports_the_active_faults [OF FaultLog_new_ok, of 4 "replicate 10 0"] by auto
qed

text \<open>
  C23: The schedule implements the abstract plan over any operations: nothing panics and every answer agrees.
\<close>

theorem schedule_implements_plan:
  assumes "schedule_ok n s"
  shows "\<exists>outs s1. run_machine schedule_step es s = Some (outs, s1) \<and> schedule_ok n s1 \<and>
    run_spec (spec_schedule_step n) es (plan_of s) = (outs, plan_of s1)"
  using assms by (rule scheduling.run_refines) (simp add: list_all_iff)

theorem schedule_implements_plan_witness:
  "\<exists>outs s1. run_machine schedule_step [ScSend PGN_DM1 Address_GLOBAL 100, ScTick 250, ScNext] (Schedule_new 2) = Some (outs, s1) \<and>
     schedule_ok 2 s1"
  using schedule_implements_plan [OF Schedule_new_ok [of 2]] by blast



text \<open>
  C25: Draining the schedule ends, gives every pending message once in order of registration, and leaves nothing pending.
\<close>

theorem due_messages_drain_in_order:
  assumes "schedule_ok n s"
  shows "\<exists>s1. drain_due (sc_pending s + 1) s = Some (map due_of (filter en_due (live s)), s1) \<and> sc_pending s1 = 0 \<and>
    schedule_ok n s1"
proof -
  have "length (filter en_due (live s)) < sc_pending s + 1" by (simp add: sc_pending_def)
  from drain_all [OF assms this] obtain s1 where s1: "drain_due (sc_pending s + 1) s = Some (map due_of (filter en_due (live s)), s1)"
    "schedule_ok n s1" "live s1 = map (\<lambda>e. e\<lparr>en_due := False\<rparr>) (live s)" by blast
  have "sc_pending s1 = 0" unfolding sc_pending_def s1(3) by (simp add: filter_empty_conv)
  with s1 show ?thesis by blast
qed

theorem due_messages_drain_in_order_witness:
  "\<exists>s s1 s2. send_every PGN_DM1 Address_GLOBAL 100 (Schedule_new 2) = Some (Inr (), s) \<and> sc_ticks [100] s = Some s1 \<and>
     drain_due (sc_pending s1 + 1) s1 = Some ([\<lparr>due_pgn = PGN_DM1, due_destination = Address_GLOBAL\<rparr>], s2) \<and> sc_pending s2 = 0"
proof -
  obtain r s where s: "send_every PGN_DM1 Address_GLOBAL 100 (Schedule_new 2) = Some (r, s)" "schedule_ok 2 s"
    "spec_send_every 2 PGN_DM1 Address_GLOBAL 100 (plan_of (Schedule_new 2)) = (r, plan_of s)"
    by (rule send_every_refines [OF Schedule_new_ok])
  have "plan_of (Schedule_new 2) = \<lparr>pl_entries = [], pl_quiet_ms = 0\<rparr>" by (simp add: plan_of_def Schedule_new_def live_def)
  with s(3) have r: "r = Inr ()" and live: "live s = [fresh_entry PGN_DM1 Address_GLOBAL 100]" and awake: "sc_suspended_ms s = 0"
    by (auto simp: spec_send_every_def plan_of_def)
  obtain s1 where s1: "sc_ticks [100] s = Some s1" "schedule_ok 2 s1" "live s1 = map (fold aged [100]) (live s)"
    by (rule sc_ticks_awake [OF s(2) awake])
  then have "map due_of (filter en_due (live s1)) = [\<lparr>due_pgn = PGN_DM1, due_destination = Address_GLOBAL\<rparr>]"
    by (simp add: live fresh_entry_def aged_def saturating_add_def due_of_def)
  with due_messages_drain_in_order [OF s1(2)] s(1) s1(1) r show ?thesis by auto
qed

text \<open>
  C26: Assembling and decoding a 29-bit identifier are inverse to each other.
\<close>

theorem identifier_round_trips:
  assumes "Priority_ok r" and "Pgn_ok p" and "Id_from_parts r p d s = Inr i" and "Id_ok j"
  shows "Id_ok i \<and> Id_priority i = r \<and> Id_pgn i = p \<and> Id_source_address i = s \<and>
      Id_destination_address i = (if Pgn_is_pdu1 p then Some d else None) \<and>
    Id_from_parts (Id_priority j) (Id_pgn j)
      (case Id_destination_address j of Some d \<Rightarrow> d | None \<Rightarrow> Address_GLOBAL) (Id_source_address j) = Inr j"
  using from_parts_fields [OF assms(1-3)] from_parts_of_fields [OF assms(4)] by simp

theorem identifier_round_trips_witness:
  "\<exists>i. Id_from_parts Priority_DEFAULT PGN_REQUEST (Address 0x10) (Address 0x80) = Inr i \<and> Id_pgn i = PGN_REQUEST \<and>
     Id_destination_address i = Some (Address 0x10)"
proof -
  have r: "Priority_ok Priority_DEFAULT" by (simp add: Priority_ok_def Priority_DEFAULT_def)
  obtain i where i: "Id_from_parts Priority_DEFAULT PGN_REQUEST (Address 0x10) (Address 0x80) = Inr i"
    by (auto simp: from_parts_eq Pgn_is_pdu2_def)
  from identifier_round_trips [OF r _ i Id_new_masked_ok [of 0]] i show ?thesis by auto
qed

text \<open>
  C27: The control messages of both transport protocols with values of the wire widths, acknowledgements and requests survive encoding, framing and decoding.
\<close>

theorem control_messages_round_trip:
  assumes "TpCm_ok cm" and "EtpCm_ok ecm" and "Acknowledgement_ok ack" and "Request_ok req"
  shows "TpCm_decode (Frame_data (Frame_from_payload i (TpCm_encode cm))) = Inr cm \<and>
    EtpCm_decode (Frame_data (Frame_from_payload i (EtpCm_encode ecm))) = Inr ecm \<and>
    Acknowledgement_decode (Frame_data (Frame_from_payload i (Acknowledgement_encode ack))) = ack \<and>
    Request_decode (Request_encode req @ padding) = Inr req"
  using tp_cm_format.carried_data [OF assms(1)] etp_cm_format.carried_data [OF assms(2)]
    ack_format.carried_data [OF assms(3)] Request_decode_padded [OF assms(4)] by simp

theorem control_messages_round_trip_witness:
  "TpCm_decode (Frame_data (Frame_from_payload (Can_Id 0) (TpCm_encode (Rts 100 15 255 PGN_DM1)))) = Inr (Rts 100 15 255 PGN_DM1) \<and>
   EtpCm_decode (Frame_data (Frame_from_payload (Can_Id 0) (EtpCm_encode (EDpo 5 255 PGN_DM1)))) = Inr (EDpo 5 255 PGN_DM1)"
proof -
  have cm: "TpCm_ok (Rts 100 15 255 PGN_DM1)" and ecm: "EtpCm_ok (EDpo 5 255 PGN_DM1)"
    by (simp_all add: TpCm_ok_def EtpCm_ok_def)
  have ack: "Acknowledgement_ok (Acknowledgement_negative PGN_DM1)" and req: "Request_ok (Request_new PGN_DM1)"
    by (simp_all add: Acknowledgement_ok_def Acknowledgement_negative_def Request_ok_def Request_new_def)
  show ?thesis using control_messages_round_trip [OF cm ecm ack req, of "Can_Id 0" "[]"] by simp
qed

text \<open>
  C28: A lamp status and any list of trouble codes survive encoding and parsing; an empty list reads as the one no-fault code.
\<close>

theorem trouble_codes_round_trip:
  assumes "list_all Dtc_ok ds" and "dm_len ds \<le> length out"
  shows "\<exists>m out1. Message_encode l ds out = Some (Inr (dm_len ds), out1) \<and> Message_parse (take (dm_len ds) out1) = Inr m \<and>
    dm_lamps m = l \<and> Message_dtcs m = (if ds = [] then [filler_dtc] else ds) \<and> Dtc_is_no_fault filler_dtc"
  using parse_payload [OF assms(1), of l] assms(2) by (auto simp: Message_encode_eq)

theorem trouble_codes_round_trip_witness:
  "\<exists>m out1. Message_encode Lamps_new [\<lparr>dtc_spn = 190, dtc_fmi = 3, dtc_count = 2, dtc_conversion = True\<rparr>] (replicate 8 0) =
      Some (Inr 8, out1) \<and> Message_parse (take 8 out1) = Inr m \<and>
     Message_dtcs m = [\<lparr>dtc_spn = 190, dtc_fmi = 3, dtc_count = 2, dtc_conversion = True\<rparr>]"
proof -
  let ?ds = "[\<lparr>dtc_spn = 190, dtc_fmi = 3, dtc_count = 2, dtc_conversion = True\<rparr>]"
  have "list_all Dtc_ok ?ds" by (simp add: Dtc_ok_def MAX_SPN_def MAX_FMI_def MAX_OCCURRENCE_COUNT_def)
  moreover have "dm_len ?ds = 8" by (simp add: dm_len_def)
  ultimately show ?thesis using trouble_codes_round_trip [of ?ds "replicate 8 0" Lamps_new] by auto
qed

text \<open>
  C29: Extraction classifies the field that the start bit and length cut out of the payload read as one little-endian number, for every signal within the first 65536 bits of a payload that holds it; the cases of an error and of an overflow are exact.
\<close>

theorem signal_is_a_field_of_the_payload:
  "if sp_bit_length s = 0 \<or> 32 < unat (sp_bit_length s) \<or> length data < required_len s
   then \<exists>e. Spn_extract s data = Some (Inl e)
   else if 65536 < unat (sp_start_bit s) + unat (sp_bit_length s) then Spn_extract s data = None
   else \<exists>v. Spn_extract s data = Some (Inr v) \<and>
     classify (word_of_nat (le_value data div 2 ^ unat (sp_start_bit s) mod 2 ^ unat (sp_bit_length s))) (sp_bit_length s) = Some v"
proof (cases "sp_bit_length s = 0 \<or> 32 < unat (sp_bit_length s) \<or> length data < required_len s")
  case True
  then show ?thesis using extract_refused [of s data] by simp
next
  case False
  then have n: "1 \<le> unat (sp_bit_length s)" "unat (sp_bit_length s) \<le> 32" "required_len s \<le> length data"
    by (auto simp: Suc_le_eq unat_gt_0)
  show ?thesis
    using False extract_value [OF n] extract_overflow [OF n] by (simp add: field_value_def not_less)
qed

theorem signal_is_a_field_of_the_payload_witness:
  "Spn_extract ENGINE_SPEED [0, 0, 0, 0x68, 0x13, 0, 0, 0] = Some (Inr (RawValid 0x1368))"
proof -
  let ?d = "[0, 0, 0, 0x68, 0x13, 0, 0, 0] :: bytes"
  have s: "sp_start_bit ENGINE_SPEED = 24" "sp_bit_length ENGINE_SPEED = 16" "required_len ENGINE_SPEED = 5"
    by (simp_all add: ENGINE_SPEED_def bit_positions required_len_def div_ceil_def)
  have c: "classify (word_of_nat (le_value ?d div 2 ^ 24 mod 2 ^ 16)) 16 = Some (RawValid 0x1368)"
    by (simp add: classify_wide)
  show ?thesis using signal_is_a_field_of_the_payload [of ENGINE_SPEED ?d] c by (simp add: s)
qed

text \<open>
  C30: The signals of the catalogue fit their frames: extraction never fails on eight bytes and no two signals of a group overlap; every signal of the catalogue is listed under a group, and no other.
\<close>

theorem catalogue_signals_never_fail:
  assumes "s \<in> set (for_pgn p)" and "8 \<le> length data"
  shows "(\<exists>v. Spn_extract s data = Some (Inr v)) \<and> s \<in> set CATALOGUE_ALL \<and>
    set CATALOGUE_ALL = (\<Union>g \<in> set GROUPS. set (snd g)) \<and> (\<forall>g \<in> set GROUPS. for_pgn (fst g) = snd g) \<and>
    (\<forall>g \<in> set GROUPS. \<forall>i j. i < j \<and> j < length (snd g) \<longrightarrow> apart (snd g ! i) (snd g ! j))"
proof (intro conjI)
  show "\<exists>v. Spn_extract s data = Some (Inr v)" by (rule catalogue_extracts [OF assms])
  show "s \<in> set CATALOGUE_ALL" using for_pgn_mem [OF assms(1)] catalogue_complete by blast
  show "set CATALOGUE_ALL = (\<Union>g \<in> set GROUPS. set (snd g))" by (rule catalogue_complete)
  show "\<forall>g \<in> set GROUPS. for_pgn (fst g) = snd g" by (simp add: for_pgn_def GROUPS_def pgn_eval)
qed (simp add: catalogue_apart)

theorem catalogue_signals_never_fail_witness:
  "\<exists>v. Spn_extract BATTERY_POTENTIAL (replicate 8 0xFF) = Some (Inr v)"
proof -
  have "BATTERY_POTENTIAL \<in> set (for_pgn PGN_VEHICLE_ELECTRICAL_POWER)"
    by (simp add: for_pgn_def GROUPS_def pgn_eval)
  from catalogue_signals_never_fail [OF this, of "replicate 8 0xFF"] show ?thesis by simp
qed

text \<open>
  C31: Identification fields survive writing and splitting, for any number of fields; the software identification, which holds up to 255, counts them right; both succeed exactly when the fields fit.
\<close>

theorem identification_fields_round_trip:
  assumes "\<forall>v \<in> set vs. DELIMITER \<notin> set v"
  shows "(\<forall>n out1. id_encode vs out = Some (Inr n, out1) \<longrightarrow>
      Identification_fields (Identification_new (take n out1)) = vs \<and>
      (\<forall>i. idn_accessor i (Identification_new (take n out1)) = (if i < length vs then Some (vs ! i) else None))) \<and>
    (\<forall>k out2. SoftwareIdentification_encode vs out = Some (Inr k, out2) \<longrightarrow>
      (\<exists>d. SoftwareIdentification_parse (take k out2) = Inr d \<and> SoftwareIdentification_fields d = vs \<and> count_is_consistent d)) \<and>
    ((\<exists>n out1. id_encode vs out = Some (Inr n, out1)) \<longleftrightarrow> length (joined vs) \<le> length out) \<and>
    ((\<exists>k out2. SoftwareIdentification_encode vs out = Some (Inr k, out2)) \<longleftrightarrow>
      length vs \<le> 255 \<and> 1 + length (joined vs) \<le> length out)"
proof (intro conjI allI impI)
  fix n out1 assume e: "id_encode vs out = Some (Inr n, out1)"
  have f: "split_fields (take n out1) = vs" by (rule id_encode_fields(1) [OF assms e])
  then show "Identification_fields (Identification_new (take n out1)) = vs"
    by (simp add: Identification_fields_def Identification_new_def)
  show "idn_accessor i (Identification_new (take n out1)) = (if i < length vs then Some (vs ! i) else None)" for i
    using f by (simp add: Identification_new_def idn_accessor_def id_field_def at_index_def)
next
  fix k out2 assume "SoftwareIdentification_encode vs out = Some (Inr k, out2)"
  then show "\<exists>d. SoftwareIdentification_parse (take k out2) = Inr d \<and> SoftwareIdentification_fields d = vs \<and> count_is_consistent d"
    by (rule SoftwareIdentification_roundtrip [OF assms])
next
  show "(\<exists>n out1. id_encode vs out = Some (Inr n, out1)) \<longleftrightarrow> length (joined vs) \<le> length out" by (auto simp: id_encode_eq)
  show "(\<exists>k out2. SoftwareIdentification_encode vs out = Some (Inr k, out2)) \<longleftrightarrow>
      length vs \<le> 255 \<and> 1 + length (joined vs) \<le> length out"
    by (rule SoftwareIdentification_encodes)
qed

theorem identification_fields_round_trip_witness:
  "\<exists>out1. id_encode [[1, 2], [], [3]] (replicate 8 0) = Some (Inr 6, out1) \<and>
     Identification_fields (Identification_new (take 6 out1)) = [[1, 2], [], [3]]"
proof -
  let ?vs = "[[1, 2], [], [3]] :: bytes list"
  have e: "\<exists>out1. id_encode ?vs (replicate 8 0) = Some (Inr 6, out1)" by (simp add: id_encode_eq)
  have "\<forall>v \<in> set ?vs. DELIMITER \<notin> set v" by (simp add: DELIMITER_def)
  from identification_fields_round_trip [OF this, of "replicate 8 0"] e show ?thesis by blast
qed

text \<open>
  C32: Setting a fault fails exactly on an out-of-range code or a full log, and then changes nothing.
\<close>

theorem refused_faults_leave_the_log:
  assumes "fault_log_ok n l"
  shows "\<exists>r l1. FaultLog_set spn fmi lamp l = Some (r, l1) \<and>
    ((\<exists>e. r = Inl e) \<longleftrightarrow> spn > MAX_SPN \<or> fmi > MAX_FMI \<or>
       (spn, fmi) \<notin> set (active_keys (fault_state_of l)) \<and> fl_active_len l = n) \<and>
    ((\<exists>e. r = Inl e) \<longrightarrow> fault_state_of l1 = fault_state_of l)"
proof -
  obtain r l1 where r: "FaultLog_set spn fmi lamp l = Some (r, l1)"
    "spec_set n spn fmi lamp (fault_state_of l) = (r, fault_state_of l1)"
    by (rule FaultLog_set_refines [OF assms])
  have len: "length (fs_active (fault_state_of l)) = fl_active_len l" using fault_log_lengths(2) [OF assms] by simp
  have refused: "r = Inl e \<Longrightarrow> spn > MAX_SPN \<or> fmi > MAX_FMI \<or>
       (spn, fmi) \<notin> set (active_keys (fault_state_of l)) \<and> fl_active_len l = n" for e
    using spec_set_again(1) [OF r(2)] spec_set_new(1) [OF r(2)] len
    by (cases "(spn, fmi) \<in> set (active_keys (fault_state_of l))"; cases "fl_active_len l = n") (auto simp: not_le [symmetric])
  from r(2) show ?thesis
  proof (cases rule: spec_set_cases)
    case (Refused e)
    with r(1) refused show ?thesis by auto
  next
    case Again
    with r(1) show ?thesis by (intro exI [of _ r] exI [of _ l1]) auto
  next
    case New
    with r(1) len show ?thesis by (intro exI [of _ r] exI [of _ l1]) auto
  qed
qed

theorem refused_faults_leave_the_log_witness:
  "\<exists>e l1. FaultLog_set 190 3 AmberWarning (FaultLog_new 0) = Some (Inl e, l1)"
  using refused_faults_leave_the_log [OF FaultLog_new_ok [of 0], of 190 3 AmberWarning]
  by (auto simp: FaultLog_new_def fault_state_of_def active_keys_def active_codes_def)

text \<open>
  C33: Every decoder yields well-formed values only, each on any bytes of its own.
\<close>

theorem decoders_build_valid_values:
  "(\<forall>d cm. TpCm_decode d = Inr cm \<longrightarrow> TpCm_ok cm \<and> Pgn_ok (TpCm_pgn cm)) \<and>
   (\<forall>d cm. EtpCm_decode d = Inr cm \<longrightarrow> EtpCm_ok cm \<and> Pgn_ok (EtpCm_pgn cm)) \<and>
   (\<forall>d. TpDt_ok (TpDt_decode d)) \<and> (\<forall>d. Dtc_ok (Dtc_decode d)) \<and>
   (\<forall>d. length d = 8 \<longrightarrow> Dm14_ok (Dm14_decode d) \<and> Dm14_decode (Dm14_encode (Dm14_decode d)) = Dm14_decode d) \<and>
   (\<forall>d m. Dm16_parse d = Inr m \<longrightarrow> Dm16_ok m) \<and> (\<forall>i. Pgn_ok (Id_pgn i) \<and> Priority_ok (Id_priority i))"
  using TpCm_decode_ok EtpCm_decode_ok Dm14_encode_decode(2) Dm16_parse_ok
  by (auto simp: TpCm_ok_def EtpCm_ok_def Dm14_decode_encode)

theorem decoders_build_valid_values_witness:
  "\<exists>cm ecm. TpCm_decode [16, 9, 0, 2, 255, 0xCA, 0xFE, 0xFF] = Inr cm \<and> TpCm_ok cm \<and> cm \<noteq> Abort Timeout PGN_DM1 \<and>
     EtpCm_decode [20, 0xD0, 7, 0, 0, 0xCA, 0xFE, 0] = Inr ecm \<and> EtpCm_ok ecm"
proof -
  obtain cm where cm: "TpCm_decode [16, 9, 0, 2, 255, 0xCA, 0xFE, 0xFF] = Inr cm" "cm \<noteq> Abort Timeout PGN_DM1"
    by (auto simp: TpCm_decode_def CB_defs Let_def)
  obtain ecm where ecm: "EtpCm_decode [20, 0xD0, 7, 0, 0, 0xCA, 0xFE, 0] = Inr ecm"
    by (auto simp: EtpCm_decode_def ECB_defs Let_def)
  from decoders_build_valid_values cm ecm show ?thesis by blast
qed

text \<open>
  C34: Whatever the bus and the peers do, no sequence of calls of a new ECU panics as long as the clock can represent their deadlines, and its parts stay well-formed; a payload is stored for exactly the messages that are scheduled. What is excluded does panic: \<open>Host_Wait.request_wait_overflows\<close>.
\<close>

theorem host_never_panics:
  assumes "\<forall>c \<in> set calls. clock_fits env (call_time c)"
  shows "\<exists>outs s. run_machine (host_step rounds buf env) calls (Ecu_new env buf sessions n a) = Some (outs, s) \<and>
     length outs = length calls \<and> node_ok buf (ec_node s) \<and> etp_table_ok ETP_BUFFER ETP_SESSIONS (ec_etp s) \<and>
     fault_log_ok FAULT_CAPACITY (ec_faults s) \<and> schedule_ok SCHEDULE_CAPACITY (ec_schedule s) \<and>
     dom (ec_payloads s) = (\<lambda>(p, d). payload_key p d) ` schedule_keys (ec_schedule s)"
  using host.run_safe [where es = calls and rounds = rounds and env = env, OF Ecu_new_ok, of buf env sessions n a] assms
  by (auto simp: ecu_ok_def payloads_match_def list_all_iff)

theorem host_never_panics_witness:
  "\<exists>outs s. run_machine (host_step 5 64 (silent_bus\<lparr>env_clock := \<lambda>trace. min (length trace) 1000\<rparr>))
      [HostClaimAddress, HostScan 1000000000, HostPoll]
      (Ecu_new (silent_bus\<lparr>env_clock := \<lambda>trace. min (length trace) 1000\<rparr>) 64 2 (Name 5) (Address 0x80)) = Some (outs, s) \<and>
    length outs = 3"
proof -
  let ?env = "silent_bus\<lparr>env_clock := \<lambda>trace. min (length trace) 1000\<rparr>"
  have "clock_fits ?env 3000000000"
    unfolding clock_fits_def
  proof
    show "env_clock ?env trace + 3000000000 < env_horizon ?env" for trace by (simp add: silent_bus_def min_def)
  qed
  then have "\<forall>c \<in> set [HostClaimAddress, HostScan 1000000000, HostPoll]. clock_fits ?env (call_time c)"
    by (auto simp: call_time_def CLAIM_TIMEOUT_def MILLISECOND_def elim: clock_fits_mono)
  from host_never_panics [OF this, of 5 64 2 "Name 5" "Address 0x80"] show ?thesis by auto
qed

text \<open>
  C35: An ECU without an address refuses to transmit, whichever operation is called, and hearing frames and polling make it send network management only.
\<close>

theorem host_without_address_is_silent:
  assumes "\<not> ecu_has_address s" and "ecu_ok buf s"
  shows "ecu_request env d p s = (Failed NotConnectedError, s) \<and>
    ecu_broadcast env p data s = (Failed NotConnectedError, s) \<and>
    broadcast_with_priority env p data pr s = (Failed NotConnectedError, s) \<and>
    ecu_send_to rounds buf env d p data s = (Failed NotConnectedError, s) \<and>
    send_dm1 env s = (Failed NotConnectedError, s) \<and> send_dm2 env s = (Failed NotConnectedError, s) \<and>
    send_dm5 env s = (Failed NotConnectedError, s) \<and>
    request_wait rounds buf env d p timeout s = (Failed NotConnectedError, s) \<and>
    ecu_scan rounds buf env timeout s = (Failed NotConnectedError, s) \<and>
    read_active_faults rounds buf env d timeout s = (Failed NotConnectedError, s) \<and>
    read_previously_active_faults rounds buf env d timeout s = (Failed NotConnectedError, s) \<and>
    read_readiness rounds buf env d timeout s = (Failed NotConnectedError, s) \<and>
    read_software_identification rounds buf env d timeout s = (Failed NotConnectedError, s) \<and>
    clear_active_faults rounds buf env d timeout s = (Failed NotConnectedError, s) \<and>
    clear_previously_active_faults rounds buf env d timeout s = (Failed NotConnectedError, s) \<and>
    \<not> ecu_has_address (snd (dispatch buf env f s)) \<and>
    (\<exists>events. bus_trace (snd (dispatch buf env f s)) = events @ bus_trace s \<and>
      (\<forall>g. Sent g \<in> set events \<longrightarrow> Frame_pgn g \<in> {PGN_ADDRESS_CLAIMED, PGN_TP_CM, PGN_ETP_CM})) \<and>
    (nd_state (ec_node (after_hearing buf env s)) \<noteq> Claiming \<longrightarrow>
      \<not> ecu_has_address (snd (ecu_poll rounds buf env s)) \<and>
      (\<exists>events. bus_trace (snd (ecu_poll rounds buf env s)) = events @ bus_trace s \<and>
        (\<forall>g. Sent g \<in> set events \<longrightarrow> Frame_pgn g \<in> {PGN_ADDRESS_CLAIMED, PGN_TP_CM, PGN_ETP_CM})))"
proof -
  have mute: "mute_since (bus_trace s) s" using assms(1) by (simp add: mute_since_def only_housekeeping_def)
  then have heard: "mute_since (bus_trace s) (snd (dispatch buf env f s))"
    using dispatch_is_mute [of "bus_trace s" buf env f] by (simp add: stays_def)
  have polled: "mute_since (bus_trace s) (snd (ecu_poll rounds buf env s))"
    if "nd_state (ec_node (after_hearing buf env s)) \<noteq> Claiming"
    by (rule poll_is_mute [OF mute that])
  note mute_eval = mute_since_def only_housekeeping_def housekeeping_def
  show ?thesis
    by (intro conjI impI heard [unfolded mute_eval, THEN conjunct1] heard [unfolded mute_eval, THEN conjunct2]
        polled [unfolded mute_eval, THEN conjunct1] polled [unfolded mute_eval, THEN conjunct2])
      (simp_all add: transmit_refused [OF assms(1)] transmit_refused(6,7) [OF assms] read_active_faults_def read_previously_active_faults_def
        clear_active_faults_def clear_previously_active_faults_def)
qed

theorem host_without_address_is_silent_witness:
  "ecu_request silent_bus (Address 0) PGN_DM1 (Ecu_new silent_bus 64 2 (Name 5) (Address 0x80)) =
    (Failed NotConnectedError, Ecu_new silent_bus 64 2 (Name 5) (Address 0x80))"
proof (rule conjunct1 [OF host_without_address_is_silent])
  show "\<not> ecu_has_address (Ecu_new silent_bus 64 2 (Name 5) (Address 0x80))"
    by (simp add: ecu_has_address_def has_address_def nd_state_def Ecu_new_def Node_new_def Claimer_new_def)
qed (rule Ecu_new_ok)

text \<open>
  C36: What an ECU broadcasts is what the application of every node with room for it receives, for a single frame in the groups a node leaves to its application.
\<close>

theorem host_broadcast_reaches_every_node:
  assumes "accepting env" and "ecu_has_address s" and "Pgn_ok p" and "length data \<le> 1785" and "node_ok buf nd"
    and "length data \<le> 8 \<Longrightarrow> application_group p"
    and "8 < length data \<Longrightarrow> length data \<le> buf \<and> slot_for ses_source (nd_reassembler nd) (ecu_address s) \<noteq> None"
  shows "\<exists>frames outs nd2. ecu_broadcast env p data s =
      (Done (), s\<lparr>bus_trace := rev (frame_events (8 < length data) True frames) @ bus_trace s\<rparr>) \<and>
    run_machine (node_step buf) (map NdFrame frames) nd = Some (outs, nd2) \<and>
    last_event outs = EvtMessage p (ecu_address s) data None \<and> node_ok buf nd2"
  by (rule broadcast_reaches [OF assms]) blast+

theorem host_broadcast_reaches_every_node_witness:
  "\<exists>frames outs nd2. fst (ecu_broadcast silent_bus PGN_DM1 (replicate 50 3) (settled_ecu silent_bus 64 2 (Name 5) (Address 0x80)))
      = Done () \<and>
    run_machine (node_step 64) (map NdFrame frames) (Node_new 64 2 (Name 6) (Address 0x27)) = Some (outs, nd2) \<and>
    last_event outs = EvtMessage PGN_DM1 (Address 0x80) (replicate 50 3) None"
proof -
  let ?s = "settled_ecu silent_bus 64 2 (Name 5) (Address 0x80)" and ?nd = "Node_new 64 2 (Name 6) (Address 0x27)"
  have a: "ecu_has_address ?s" "ecu_address ?s = Address 0x80"
    by (rule settled_ecu_ready; simp add: Address_is_specific_def)+
  have p: "Pgn_ok PGN_DM1" by simp
  have len: "length (replicate 50 (3 :: u8)) \<le> 1785" by simp
  from host_broadcast_reaches_every_node [OF silent_bus(2) a(1) p len Node_new_ok, of 64 2 "Name 6" "Address 0x27"] a(2)
  show ?thesis by (auto simp: Node_new_def new_table_room)
qed

text \<open>
  C37: A request that waits for its answer ends: with the first answer from the addressed ECU that is heard, with an error of the bus, or with a timeout that is not early and has missed no answer; every other message heard meanwhile is queued in its order.
\<close>

theorem request_wait_returns_its_answer:
  assumes "clock_moves step env" and "quiet_ok buf pending s" and "timeout \<le> step * k" and "time_left env timeout (bus_trace s)"
  shows "\<exists>r s1. request_wait (Suc k) buf env d p timeout s = (r, s1) \<and> r \<noteq> Waiting \<and> r \<noteq> Panicked \<and>
    ((\<exists>e. r = Failed e \<and> ecu_request env d p s = (Failed e, s1) \<and> ec_pending s1 = pending) \<or>
     (\<exists>s0 deadline n heard s2. ecu_request env d p s = (Done (), s0) \<and> deadline = env_clock env (bus_trace s0) + timeout \<and>
        n \<le> Suc k \<and> listen n (Suc k) buf env (snd (read_clock env s0)) = (Done heard, s2) \<and>
        ec_pending s2 = pending @ heard \<and>
        (r = Done TimedOutResponse \<and> (\<forall>m \<in> set heard. response_of d p m = None) \<and> s1 = snd (read_clock env s2) \<and>
           deadline \<le> env_clock env (bus_trace s2) \<or>
         (\<exists>others m answer. r = Done answer \<and> heard = others @ [m] \<and> response_of d p m = Some answer \<and>
           (\<forall>x \<in> set others. response_of d p x = None) \<and> s1 = s2\<lparr>ec_pending := pending @ others\<rparr>) \<or>
         (\<exists>e. r = Failed e \<and> (\<forall>m \<in> set heard. response_of d p m = None) \<and> env_clock env (bus_trace s2) < deadline \<and>
           pump (Suc k) buf env (snd (read_clock env s2)) = (Failed e, s1) \<and> ec_pending s1 = pending @ heard))))"
proof -
  obtain r s1 where run: "request_wait (Suc k) buf env d p timeout s = (r, s1)" and
    how: "(\<exists>e. r = Failed e \<and> ecu_request env d p s = (Failed e, s1) \<and> ec_pending s1 = pending) \<or>
     (\<exists>s0 deadline n ms s2. ecu_request env d p s = (Done (), s0) \<and> deadline = env_clock env (bus_trace s0) + timeout \<and>
        n \<le> Suc k \<and> listen n (Suc k) buf env (snd (read_clock env s0)) = (Done ms, s2) \<and> ec_pending s2 = pending @ ms \<and>
        wait_ended (Suc k) buf env d p deadline pending ms s2 r s1)"
    using request_wait_ends [OF assms, of d p] by blast
  from how have "r \<noteq> Waiting \<and> r \<noteq> Panicked" by (auto simp: wait_ended_def)
  then show ?thesis
    by (intro exI [of _ r] exI [of _ s1] conjI run how [unfolded wait_ended_def]) simp_all
qed

theorem request_wait_returns_its_answer_witness:
  "ecu_has_address (settled_ecu silent_bus 64 2 (Name 5) (Address 0x80)) \<and>
   (\<exists>r s1. request_wait (Suc 10) 64 silent_bus (Address 0) PGN_DM1 10 (settled_ecu silent_bus 64 2 (Name 5) (Address 0x80))
     = (r, s1) \<and> r \<noteq> Waiting \<and> r \<noteq> Panicked)"
proof -
  let ?s = "settled_ecu silent_bus 64 2 (Name 5) (Address 0x80)"
  have s: "ecu_has_address ?s" "quiet_ok 64 [] ?s" and t: "bus_trace ?s = [ClockRead (env_clock silent_bus [])]"
    by (rule settled_ecu_ready; simp add: Address_is_specific_def)+
  have k: "(10 :: nat) \<le> 1 * 10" by simp
  have left: "time_left silent_bus 10 (bus_trace ?s)" unfolding t by (simp add: time_left_def silent_bus_def)
  from request_wait_returns_its_answer [OF silent_bus(1) s(2) k left, of "Address 0" PGN_DM1] s(1) show ?thesis by blast
qed

text \<open>
  C38: A broadcast recorded as a candump capture replays, from the text of the capture, as the one message that was sent.
\<close>

theorem replayed_capture_delivers:
  fixes parse_f64 :: "bytes \<Rightarrow> 'f option"
  assumes "Pgn_ok p" and "9 \<le> length data" and "length data \<le> 1785"
  shows "\<exists>o1 frames o2. Outgoing_new p a Address_GLOBAL data = Inr o1 \<and> out_drain 257 o1 = Some (frames, o2) \<and> out_is_complete o2 \<and>
    length frames = Suc (message_packets data) \<and> list_all Frame_ok frames \<and>
    (\<forall>ls. list_all (writable parse_f64) ls \<and> map (\<lambda>(_, _, f). f) ls = frames \<and>
        steady elapsed_ms (map (\<lambda>(t, _, _). the (parse_f64 t)) ls) \<longrightarrow>
      (\<exists>rp. Replay_run parse_f64 elapsed_ms (capture_text ls) (Replay_new n b) =
        Some (Inr [\<lparr>msg_pgn = p, msg_source = a, msg_data = data\<rparr>], rp)))"
proof -
  obtain o1 where o1: "Outgoing_new p a Address_GLOBAL data = Inr o1" using Outgoing_multi_defined assms(2,3) by blast
  have len: "8 < length data" using assms(2) by simp
  obtain tx ds tx1 f0 o2 where fs: "out_drain 257 o1 = Some (f0 # map (dt_frame a Address_GLOBAL) ds, o2)" "out_is_complete o2"
    and tx: "Transmitter_broadcast p data = Inr tx" "tx_drain 256 tx = Some (ds, tx1)"
    by (rule broadcast_frames [OF assms(1) o1 len]) blast
  obtain tx2 where "tx_drain 256 tx = Some (map (packet_of data) [1 ..< message_packets data + 1], tx2)"
    by (rule broadcast_drains [OF tx(1)])
  with tx(2) have "length ds = message_packets data" by auto
  moreover have "list_all Frame_ok (f0 # map (dt_frame a Address_GLOBAL) ds)"
    using broadcast_frames_ok [OF assms(1) o1 len fs(1)] by simp
  moreover have "\<exists>rp. Replay_run parse_f64 elapsed_ms (capture_text ls) (Replay_new n b) =
      Some (Inr [\<lparr>msg_pgn = p, msg_source = a, msg_data = data\<rparr>], rp)"
    if "list_all (writable parse_f64) ls \<and> map (\<lambda>(_, _, f). f) ls = f0 # map (dt_frame a Address_GLOBAL) ds \<and>
        steady elapsed_ms (map (\<lambda>(t, _, _). the (parse_f64 t)) ls)" for ls
    using replay_capture [OF assms(1) o1 len fs(1), of parse_f64 ls elapsed_ms n b] that by blast
  ultimately show ?thesis using o1 fs by (intro exI [of _ o1] exI [of _ "f0 # map (dt_frame a Address_GLOBAL) ds"] exI [of _ o2]) simp
qed

theorem replayed_capture_delivers_witness:
  "\<exists>ls rp. ls \<noteq> [] \<and> Replay_run (from_str_radix 10 0xFFFFFFFF) (\<lambda>now previous. word_of_nat (now - previous)) (capture_text ls)
     (Replay_new (Name 5) (Address 0x80)) = Some (Inr [\<lparr>msg_pgn = PGN_DM1, msg_source = Address 0x27, msg_data = replicate 50 3\<rparr>], rp)"
proof -
  let ?parse = "from_str_radix 10 0xFFFFFFFF" and ?elapsed = "\<lambda>now previous. word_of_nat (now - previous) :: u16"
  have p: "Pgn_ok PGN_DM1" and len: "9 \<le> length (replicate 50 (3 :: u8))" "length (replicate 50 (3 :: u8)) \<le> 1785" by simp_all
  obtain fs where n: "length fs = Suc (message_packets (replicate 50 (3 :: u8)))" and ok: "list_all Frame_ok fs"
    and run: "\<And>ls. list_all (writable ?parse) ls \<Longrightarrow> map (\<lambda>(_, _, f). f) ls = fs \<Longrightarrow>
        steady ?elapsed (map (\<lambda>(t, _, _). the (?parse t)) ls) \<Longrightarrow>
      \<exists>rp. Replay_run ?parse ?elapsed (capture_text ls) (Replay_new (Name 5) (Address 0x80)) =
        Some (Inr [\<lparr>msg_pgn = PGN_DM1, msg_source = Address 0x27, msg_data = replicate 50 3\<rparr>], rp)"
    using replayed_capture_delivers [OF p len, of "Address 0x27" ?parse ?elapsed "Name 5" "Address 0x80"] by blast
  define stamp where "stamp = decimal 100"
  define ls where "ls = map (\<lambda>f. (stamp, ascii ''can0'', f)) fs"
  have "number_reads ?parse decimal 100" by (rule number_reads_decimal) simp
  then have reads: "?parse stamp = Some 100" "stamp \<noteq> []" "list_all (\<lambda>b. graphic b \<and> b \<noteq> byte CHR '')'') stamp"
    by (simp_all add: stamp_def number_reads_def number_text_def list_all_iff)
  have "list_all (writable ?parse) ls"
    using ok reads by (auto simp: ls_def writable_def list_all_iff graphic_def)
  moreover have "steady ?elapsed (replicate k 100)" for k
    by (induction k rule: induct_nat_012) simp_all
  then have "steady ?elapsed (map (\<lambda>(t, _, _). the (?parse t)) ls)"
    by (simp add: ls_def comp_def reads(1) map_replicate_const flip: replicate_Suc)
  moreover have "map (\<lambda>(_, _, f). f) ls = fs" by (simp add: ls_def comp_def)
  moreover have "ls \<noteq> []" using n by (auto simp: ls_def)
  ultimately show ?thesis using run [of ls] by blast
qed

text \<open>
  C39: A DBC file holding a database is read back as that database.
\<close>

theorem dbc_files_round_trip:
  assumes "writable_dbc parse_f64 write_f64 dbc"
  shows "Dbc_parse parse_f64 (write_dbc write_f64 dbc) = Inr dbc"
  by (rule dbc_round_trip [OF assms])

theorem dbc_files_round_trip_witness:
  "\<exists>m s. bo_signals m = [s] \<and> ds_name s = ascii ''EngineMode'' \<and> ds_spn s = Some 190 \<and> ds_is_enumerated s \<and>
     Dbc_parse (from_str_radix 10 0xFFFFFFFF) (write_dbc decimal [(0xF004, m)]) = Inr [(0xF004, m)]"
proof -
  let ?s = "\<lparr>ds_name = ascii ''EngineMode'', ds_start_bit = 24, ds_bit_length = 16, ds_byte_order = LittleEndian, ds_signed = False,
      ds_factor = 125, ds_offset = 0, ds_minimum = 0, ds_maximum = 8031, ds_unit = ascii ''rpm'', ds_spn = Some 190,
      ds_value_names = [(0, ascii ''Off''), (1, ascii ''Low idle'')]\<rparr>"
  let ?m = "\<lparr>bo_pgn = Id_pgn (Can_Id 0xCF004FE), bo_id = Can_Id 0xCF004FE, bo_name = ascii ''EEC1'', bo_dlc = 8, bo_signals = [?s]\<rparr>"
  have reads: "number_reads (from_str_radix 10 0xFFFFFFFF) decimal n" if "n \<le> 0xFFFFFFFF" for n :: nat
    using that by (rule number_reads_decimal)
  have "signal_ok (from_str_radix 10 0xFFFFFFFF) decimal (bare ?s)" "table_ok (ds_value_names ?s)"
    using reads by (simp_all add: signal_ok_def bare_def name_ok_def graphic_def quote_def table_ok_def)
  moreover have "Pgn_as_u32 (Id_pgn (Can_Id 0xCF004FE)) = 0xF004" by code_simp
  ultimately have "writable_dbc (from_str_radix 10 0xFFFFFFFF) decimal [(0xF004, ?m)]"
    by (simp add: writable_dbc_def layout_writable_def set_signals_def named_once_def message_ok_def name_ok_def graphic_def
        Id_ok_def Id_MAX_def)
  from dbc_files_round_trip [OF this] show ?thesis by (intro exI [of _ ?m] exI [of _ ?s]) (simp add: ds_is_enumerated_def)
qed

text \<open>
  C40: Decoding by a DBC definition scales the field of the payload that the layout names: in either byte order, and with its sign; the cases of an error and of an overflow are exact.
\<close>

theorem dbc_signal_decodes_its_field:
  "if ds_bit_length s = 0 \<or> 32 < unat (ds_bit_length s) \<or> length data < ds_required_len s
   then \<exists>e. ds_raw s data = Some (Inl e) \<and> ds_decode scale s data = Some (Inl e)
   else if ds_byte_order s = LittleEndian \<and> 65536 < unat (ds_start_bit s) + unat (ds_bit_length s)
   then ds_raw s data = None \<and> ds_decode scale s data = None
   else ds_raw s data = Some (Inr (word_of_nat (ds_field s data))) \<and> ds_field s data < 2 ^ unat (ds_bit_length s) \<and>
    (if ds_signed s
     then ds_decode scale s data =
       Some (Inr (DbcValid (scale (signed_field (unat (ds_bit_length s)) (ds_field s data)) (ds_factor s) (ds_offset s))))
     else \<exists>c. classify (word_of_nat (ds_field s data)) (ds_bit_length s) = Some c \<and>
       ds_decode scale s data = Some (Inr (case c of
           RawValid _ \<Rightarrow> DbcValid (scale (int (ds_field s data)) (ds_factor s) (ds_offset s))
         | RawError \<Rightarrow> DbcValueError | RawNotAvailable \<Rightarrow> DbcNotAvailable | RawReserved \<Rightarrow> DbcReserved)))"
proof (cases "ds_bit_length s = 0 \<or> 32 < unat (ds_bit_length s) \<or> length data < ds_required_len s")
  case True
  then show ?thesis using ds_raw_refused [of s data scale] by simp
next
  case False
  then have n: "1 \<le> unat (ds_bit_length s)" "unat (ds_bit_length s) \<le> 32" "ds_required_len s \<le> length data"
    by (auto simp: Suc_le_eq unat_gt_0)
  show ?thesis
  proof (cases "ds_byte_order s = LittleEndian \<and> 65536 < unat (ds_start_bit s) + unat (ds_bit_length s)")
    case True
    then show ?thesis using False ds_raw_overflow [OF n] by simp
  next
    case inside: False
    then have "ds_byte_order s = LittleEndian \<Longrightarrow> unat (ds_start_bit s) + unat (ds_bit_length s) \<le> 65536" by auto
    from ds_raw_value [OF n this] ds_decode_value [OF n this, of scale] show ?thesis
      unfolding if_not_P [OF False] if_not_P [OF inside] by simp
  qed
qed

theorem dbc_signal_decodes_its_field_witness:
  "\<exists>s. ds_byte_order s = BigEndian \<and> ds_start_bit s = 7 \<and> ds_bit_length s = 12 \<and>
     ds_decode (\<lambda>raw factor offset. raw * factor + offset) s [0xFF, 0xE0] = Some (Inr (DbcValid (- 2 * 5 + 3 :: int)))"
proof -
  let ?s = "\<lparr>ds_name = ascii ''Torque'', ds_start_bit = 7, ds_bit_length = 12, ds_byte_order = BigEndian, ds_signed = True,
      ds_factor = 5 :: int, ds_offset = 3, ds_minimum = 0, ds_maximum = 0, ds_unit = [], ds_spn = None, ds_value_names = []\<rparr>"
  have "ds_required_len ?s = 2" by (simp add: ds_required_len_def div_ceil_def)
  moreover have "ds_field ?s [0xFF, 0xE0] = 0xFFE" by (simp add: ds_field_def sawtooth_def field_value_def)
  moreover have "signed_field 12 0xFFE = - 2" by (simp add: signed_field_def)
  ultimately have "ds_decode (\<lambda>raw factor offset. raw * factor + offset) ?s [0xFF, 0xE0] = Some (Inr (DbcValid (- 2 * 5 + 3 :: int)))"
    using dbc_signal_decodes_its_field [of ?s "[0xFF, 0xE0]" "\<lambda>raw factor offset. raw * factor + offset"] by simp
  then show ?thesis by (intro exI [of _ ?s]) simp
qed

end
